(* ===== verification/Cache_Lock.thy ===== *)
theory Cache_Lock
  imports Prelude
begin

text \<open>
  The lock around the cache file (\<open>lockPollLoop\<close> in \<open>internal/autocache/store.go\<close>), as the
  interleaved steps of the processes that share it. Every system call of the loop is one step: the
  exclusive create, the stat, the remove of a lock that looked stale, the release. A create that fails
  for another reason ends the attempt (on Windows a denied one is polled instead), and so does a fresh
  lock that cannot be written or closed, which is removed again. A lock left by a
  process that died is recovered once it is older than \<open>lockStale\<close>. The property is mutual exclusion
  while no lock outlives \<open>lockStale\<close>; the recovery itself does not keep it.
\<close>

section \<open>Steps\<close>

definition lockWait :: int where "lockWait = 3"
definition lockStale :: int where "lockStale = 10 * 60"

datatype pc =
    Outside
  | Trying int
  | Busy int
  | Stale int
  | Working
  | Finished
  | TimedOut
  | Errored
  | Died

record lock_state =
  clock :: int
  lock :: "(nat \<times> int) option"
  pcs :: "nat \<Rightarrow> pc"

definition goto :: "nat \<Rightarrow> pc \<Rightarrow> lock_state \<Rightarrow> lock_state" where
  "goto p l s = s\<lparr>pcs := (pcs s)(p := l)\<rparr>"

definition looks_stale :: "lock_state \<Rightarrow> bool" where
  "looks_stale s \<longleftrightarrow> (case lock s of None \<Rightarrow> False | Some (q, m) \<Rightarrow> clock s - m > lockStale)"

text \<open>After a stat that did not end in a removal: give up past the deadline, or sleep and retry.\<close>

definition poll_again :: "nat \<Rightarrow> int \<Rightarrow> lock_state \<Rightarrow> lock_state" where
  "poll_again p deadline s = goto p (if clock s > deadline then TimedOut else Trying deadline) s"

inductive lock_step :: "lock_state \<Rightarrow> lock_state \<Rightarrow> bool" where
  elapse: "0 \<le> d \<Longrightarrow> lock_step s (s\<lparr>clock := clock s + d\<rparr>)"
| arrive: "pcs s p = Outside \<Longrightarrow> lock_step s (goto p (Trying (clock s + lockWait)) s)"
| create: "pcs s p = Trying d \<Longrightarrow> lock s = None \<Longrightarrow>
    lock_step s (goto p Working (s\<lparr>lock := Some (p, clock s)\<rparr>))"
| create_exists: "pcs s p = Trying d \<Longrightarrow> lock s \<noteq> None \<Longrightarrow> lock_step s (goto p (Busy d) s)"
| create_denied: "pcs s p = Trying d \<Longrightarrow> lock_step s (goto p (Busy d) s)"
| create_fails: "pcs s p = Trying d \<Longrightarrow> lock_step s (goto p Errored s)"
| stat_stale: "pcs s p = Busy d \<Longrightarrow> looks_stale s \<Longrightarrow> lock_step s (goto p (Stale d) s)"
| stat_fresh: "pcs s p = Busy d \<Longrightarrow> \<not> looks_stale s \<Longrightarrow> lock_step s (poll_again p d s)"
| remove_stale: "pcs s p = Stale d \<Longrightarrow> lock_step s (goto p (Trying d) (s\<lparr>lock := None\<rparr>))"
| remove_fails: "pcs s p = Stale d \<Longrightarrow> lock_step s (poll_again p d s)"
| write_fails: "pcs s p = Working \<Longrightarrow> lock_step s (goto p Errored (s\<lparr>lock := None\<rparr>))"
| release: "pcs s p = Working \<Longrightarrow> lock_step s (goto p Finished (s\<lparr>lock := None\<rparr>))"
| die: "pcs s p = Working \<Longrightarrow> lock_step s (goto p Died s)"

inductive_cases lock_stepE: "lock_step s t"

definition start_state :: lock_state where
  "start_state = \<lparr>clock = 0, lock = None, pcs = (\<lambda>p. Outside)\<rparr>"

text \<open>States reached while every lock on disk is younger than \<open>lockStale\<close>.\<close>

inductive reached_fresh :: "lock_state \<Rightarrow> bool" where
  fresh_start: "reached_fresh start_state"
| fresh_step: "reached_fresh s \<Longrightarrow> lock_step s t \<Longrightarrow> \<not> looks_stale t \<Longrightarrow> reached_fresh t"

inductive reached :: "lock_state \<Rightarrow> bool" where
  at_start: "reached start_state"
| after_step: "reached s \<Longrightarrow> lock_step s t \<Longrightarrow> reached t"

section \<open>Mutual exclusion\<close>

text \<open>A working process owns the lock, and nobody is about to remove one.\<close>

definition owned :: "lock_state \<Rightarrow> bool" where
  "owned s \<longleftrightarrow>
     (\<forall>p. pcs s p = Working \<longrightarrow> (\<exists>m. lock s = Some (p, m))) \<and> (\<forall>p d. pcs s p \<noteq> Stale d)"

lemma owned_unique: "owned s \<Longrightarrow> pcs s p = Working \<Longrightarrow> pcs s q = Working \<Longrightarrow> p = q"
  unfolding owned_def by (metis option.inject prod.inject)

lemma owned_step:
  assumes "owned s" "lock_step s t" "\<not> looks_stale s"
  shows "owned t"
proof -
  have w: "\<And>p. pcs s p = Working \<Longrightarrow> \<exists>m. lock s = Some (p, m)" and n: "\<And>p d. pcs s p \<noteq> Stale d"
    using assms(1) by (simp_all add: owned_def)
  show ?thesis
    using assms(2)
  proof (cases rule: lock_step.cases)
    case (elapse d)
    with assms(1) show ?thesis by (simp add: owned_def)
  next
    case (release p)
    have "pcs s q \<noteq> Working" if "q \<noteq> p" for q using owned_unique [OF assms(1) release(2)] that by blast
    with n release(1) show ?thesis by (simp add: owned_def goto_def)
  next
    case (write_fails p)
    have "pcs s q \<noteq> Working" if "q \<noteq> p" for q using owned_unique [OF assms(1) write_fails(2)] that by blast
    with n write_fails(1) show ?thesis by (simp add: owned_def goto_def)
  next
    case (create p d)
    then have "pcs s q \<noteq> Working" for q using w [of q] by auto
    with n create(1) show ?thesis by (simp add: owned_def goto_def)
  qed (use w n assms(3) in \<open>simp_all add: owned_def goto_def poll_again_def\<close>)
qed

lemma reached_fresh_owned: "reached_fresh s \<Longrightarrow> owned s \<and> \<not> looks_stale s"
proof (induction rule: reached_fresh.induct)
  case fresh_start
  show ?case by (simp add: owned_def start_state_def looks_stale_def)
next
  case (fresh_step s t)
  then show ?case using owned_step by blast
qed

text \<open>
  Property C25. Two writers never update the cache file at once, in any interleaving of processes
  that arrive, poll, time out, fail, release or die, as long as no lock file outlives \<open>lockStale\<close>.
\<close>

theorem cache_lock_excludes:
  assumes "reached_fresh s" "pcs s p = Working" "pcs s q = Working"
  shows "p = q"
  using reached_fresh_owned [OF assms(1)] owned_unique [OF _ assms(2,3)] by blast

definition one_writer :: lock_state where
  "one_writer = \<lparr>clock = 0, lock = Some (0, 0), pcs = (\<lambda>p. Outside)(0 := Working)\<rparr>"

theorem cache_lock_excludes_witness:
  "reached_fresh one_writer \<and> pcs one_writer 0 = Working \<and> pcs one_writer 1 \<noteq> Working"
proof -
  let ?a = "goto 0 (Trying (clock start_state + lockWait)) start_state"
  have "lock_step start_state ?a" by (rule arrive) (simp add: start_state_def)
  then have a: "reached_fresh ?a"
    by (rule fresh_step [OF fresh_start]) (simp add: looks_stale_def goto_def start_state_def)
  have "lock_step ?a (goto 0 Working (?a\<lparr>lock := Some (0, clock ?a)\<rparr>))"
    by (rule create) (simp_all add: goto_def start_state_def)
  moreover have "goto 0 Working (?a\<lparr>lock := Some (0, clock ?a)\<rparr>) = one_writer"
    by (simp add: goto_def start_state_def one_writer_def fun_eq_iff)
  ultimately have "reached_fresh one_writer"
    using fresh_step [OF a] by (simp add: one_writer_def looks_stale_def lockStale_def)
  moreover have "pcs one_writer 0 = Working" by (simp add: one_writer_def)
  ultimately show ?thesis using cache_lock_excludes [of one_writer 0 1] by auto
qed

section \<open>Recovering a stale lock\<close>

text \<open>A dead owner's lock, and two later processes at given program points.\<close>

definition orphaned :: "int \<Rightarrow> (nat \<times> int) option \<Rightarrow> pc \<Rightarrow> pc \<Rightarrow> lock_state" where
  "orphaned t l a b =
     \<lparr>clock = t, lock = l, pcs = (\<lambda>p. if p = 0 then Died else if p = 1 then a else if p = 2 then b else Outside)\<rparr>"

lemma goto_first: "goto (Suc 0) c (orphaned t l a b) = orphaned t l c b"
  and goto_second: "goto 2 c (orphaned t l a b) = orphaned t l a c"
  and orphaned_lock: "(orphaned t l a b)\<lparr>lock := l'\<rparr> = orphaned t l' a b"
  by (auto simp: goto_def orphaned_def fun_eq_iff)

lemma orphaned_fields:
  "clock (orphaned t l a b) = t" "lock (orphaned t l a b) = l" "pcs (orphaned t l a b) (Suc 0) = a"
  "pcs (orphaned t l a b) 2 = b"
  by (simp_all add: orphaned_def)

lemmas orphaned_simps = goto_first goto_second orphaned_lock orphaned_fields

lemma orphan_reached: "reached (orphaned 601 (Some (0, 0)) Outside Outside)"
proof -
  let ?a = "goto 0 (Trying (clock start_state + lockWait)) start_state"
  let ?b = "goto 0 Working (?a\<lparr>lock := Some (0, clock ?a)\<rparr>)"
  let ?c = "goto 0 Died ?b"
  have "reached ?a"
    by (rule after_step [OF at_start]) (rule arrive, simp add: start_state_def)
  then have "reached ?b" by (rule after_step) (rule create, simp_all add: goto_def start_state_def)
  then have "reached ?c" by (rule after_step) (rule die, simp add: goto_def)
  then have "reached (?c\<lparr>clock := clock ?c + 601\<rparr>)" by (rule after_step) (rule elapse, simp)
  moreover have "?c\<lparr>clock := clock ?c + 601\<rparr> = orphaned 601 (Some (0, 0)) Outside Outside"
    by (simp add: goto_def start_state_def orphaned_def fun_eq_iff)
  ultimately show ?thesis by simp
qed

lemma both_find_it_stale: "reached (orphaned 601 (Some (0, 0)) (Stale 604) (Stale 604))"
proof -
  let ?l = "Some (0 :: nat, 0 :: int)"
  have stale: "looks_stale (orphaned 601 ?l a b)" for a b
    by (simp add: looks_stale_def orphaned_fields lockStale_def)
  have "reached (orphaned 601 ?l (Trying 604) Outside)"
    using after_step [OF orphan_reached arrive [of _ "Suc 0"]] by (simp add: orphaned_simps lockWait_def)
  from after_step [OF this create_exists [of _ "Suc 0" 604]]
  have "reached (orphaned 601 ?l (Busy 604) Outside)" by (simp add: orphaned_simps)
  from after_step [OF this arrive [of _ 2]]
  have "reached (orphaned 601 ?l (Busy 604) (Trying 604))" by (simp add: orphaned_simps lockWait_def)
  from after_step [OF this create_exists [of _ 2 604]]
  have "reached (orphaned 601 ?l (Busy 604) (Busy 604))" by (simp add: orphaned_simps)
  from after_step [OF this stat_stale [of _ "Suc 0" 604]]
  have "reached (orphaned 601 ?l (Stale 604) (Busy 604))" by (simp add: orphaned_simps stale)
  from after_step [OF this stat_stale [of _ 2 604]]
  show ?thesis by (simp add: orphaned_simps stale)
qed

text \<open>
  Property C36. The recovery of a stale lock lets two writers in. After a writer died and its lock
  aged past \<open>lockStale\<close>, two processes can both find it stale; the first removes it and takes the
  lock, and the second then removes that fresh lock and takes it too.
\<close>

theorem stale_recovery_admits_two_writers:
  "\<exists>s. reached s \<and> pcs s 1 = Working \<and> pcs s 2 = Working"
proof -
  have "reached (orphaned 601 None (Trying 604) (Stale 604))"
    using after_step [OF both_find_it_stale remove_stale [of _ "Suc 0" 604]] by (simp add: orphaned_simps)
  from after_step [OF this create [of _ "Suc 0" 604]]
  have "reached (orphaned 601 (Some (1, 601)) Working (Stale 604))" by (simp add: orphaned_simps)
  from after_step [OF this remove_stale [of _ 2 604]]
  have "reached (orphaned 601 None Working (Trying 604))" by (simp add: orphaned_simps)
  from after_step [OF this create [of _ 2 604]]
  have "reached (orphaned 601 (Some (2, 601)) Working Working)" by (simp add: orphaned_simps)
  then show ?thesis by (auto simp: orphaned_fields)
qed

end
