(* ===== verification/Go_Float.thy ===== *)
theory Go_Float
  imports Complex_Main "HOL-Library.Signed_Division"
begin

text \<open>
  Go's numbers, as far as the transport policy computes with them. An \<open>int\<close>, an \<open>int64\<close> and a
  \<open>time.Duration\<close> are 64-bit two's complement: a value is an \<^typ>\<open>int\<close> and every sum, difference
  and product is wrapped by \<open>i64\<close>. A \<open>float64\<close> is an IEEE 754 double: a finite value is the
  rational it denotes, and every operation rounds the exact result to the nearest double, ties to
  even, with gradual underflow and overflow to infinity. The sign of zero is not kept: nothing the
  modelled code does can tell the zeros apart. Operations are not fused, and a conversion to an
  integer outside its range gives the least \<open>int64\<close>, as on amd64.
\<close>

section \<open>64-bit integers\<close>

definition i64 :: "int \<Rightarrow> int" where
  "i64 x = signed_take_bit 63 x"

abbreviation MaxInt64 :: int where "MaxInt64 \<equiv> 9223372036854775807"

abbreviation MinInt64 :: int where "MinInt64 \<equiv> - 9223372036854775808"

definition int64 :: "int \<Rightarrow> bool" where
  "int64 x \<longleftrightarrow> MinInt64 \<le> x \<and> x \<le> MaxInt64"

lemma i64_id: "MinInt64 \<le> x \<Longrightarrow> x \<le> MaxInt64 \<Longrightarrow> i64 x = x"
  unfolding i64_def by (rule signed_take_bit_int_eq_self) simp_all

lemma int64_i64 [simp]: "int64 (i64 x)"
  using signed_take_bit_int_greater_eq_minus_exp [of 63 x] signed_take_bit_int_less_exp [of 63 x]
  by (simp add: i64_def int64_def)

lemma i64_range: "MinInt64 \<le> i64 x" "i64 x \<le> MaxInt64"
  using int64_i64 [of x] by (simp_all add: int64_def)

section \<open>Powers of two and integer roots\<close>

text \<open>The binary logarithm and the square root of a non-negative integer, rounded down.\<close>

function flog2 :: "int \<Rightarrow> int" where
  "flog2 n = (if n < 2 then 0 else 1 + flog2 (n div 2))"
  by auto
termination by (relation "measure nat") auto

function isqrt :: "int \<Rightarrow> int" where
  "isqrt n =
     (if n \<le> 0 then 0
      else let r = 2 * isqrt (n div 4) in if (r + 1) * (r + 1) \<le> n then r + 1 else r)"
  by auto
termination by (relation "measure nat") auto

declare flog2.simps [simp del] isqrt.simps [simp del]

definition pow2 :: "int \<Rightarrow> rat" where
  "pow2 e = (if 0 \<le> e then 2 ^ nat e else 1 / 2 ^ nat (- e))"

lemma flog2_nonneg: "0 \<le> flog2 n"
  by (induction n rule: flog2.induct) (simp add: flog2.simps)

lemma flog2_bounds: "0 < n \<Longrightarrow> 2 ^ nat (flog2 n) \<le> n \<and> n < 2 * 2 ^ nat (flog2 n)"
proof (induction n rule: flog2.induct)
  case (1 n)
  show ?case
  proof (cases "n < 2")
    case True
    with 1 have "n = 1" by simp
    then show ?thesis by (simp add: flog2.simps)
  next
    case False
    then have "2 ^ nat (flog2 (n div 2)) \<le> n div 2 \<and> n div 2 < 2 * 2 ^ nat (flog2 (n div 2))"
      using 1 by simp
    moreover have "nat (flog2 n) = Suc (nat (flog2 (n div 2)))"
      using False flog2_nonneg [of "n div 2"] by (simp add: flog2.simps [of n] nat_add_distrib)
    moreover have "2 * a \<le> n \<and> n < 4 * a" if "a \<le> n div 2 \<and> n div 2 < 2 * a" for a :: int
      using that by presburger
    ultimately show ?thesis by simp
  qed
qed

lemma pow2_pos [simp]: "0 < pow2 e"
  by (simp add: pow2_def)

lemma pow2_eq_power_int: "pow2 e = 2 powi e"
  by (simp add: pow2_def power_int_def divide_simps)

lemma pow2_add: "pow2 (a + b) = pow2 a * pow2 b"
  by (simp add: pow2_eq_power_int power_int_add)

lemma pow2_mono: "a \<le> b \<Longrightarrow> pow2 a \<le> pow2 b"
  by (simp add: pow2_eq_power_int power_int_increasing)

lemma pow2_strict_mono: "a < b \<Longrightarrow> pow2 a < pow2 b"
  by (simp add: pow2_eq_power_int power_int_strict_increasing)

text \<open>The binary exponent of a positive rational: \<open>2 ^ expo q \<le> q < 2 ^ (expo q + 1)\<close>.\<close>

definition expo :: "rat \<Rightarrow> int" where
  "expo q =
     (case quotient_of q of (n, d) \<Rightarrow>
        let k = flog2 n - flog2 d in if pow2 k \<le> q then k else k - 1)"

lemma pow2_flog2:
  assumes "0 < n"
  shows "pow2 (flog2 n) \<le> of_int n" "of_int n < 2 * pow2 (flog2 n)"
proof -
  have p: "pow2 (flog2 n) = of_int (2 ^ nat (flog2 n))"
    using flog2_nonneg [of n] by (simp add: pow2_def)
  have d: "2 * pow2 (flog2 n) = of_int (2 * 2 ^ nat (flog2 n))" unfolding p by simp
  show "pow2 (flog2 n) \<le> of_int n" unfolding p of_int_le_iff using flog2_bounds [OF assms] by blast
  show "of_int n < 2 * pow2 (flog2 n)" unfolding d of_int_less_iff using flog2_bounds [OF assms] by blast
qed

lemma expo_bounds:
  assumes "0 < q"
  shows "pow2 (expo q) \<le> q \<and> q < pow2 (expo q + 1)"
proof -
  obtain n d where nd: "quotient_of q = (n, d)" by fastforce
  have d: "0 < d" using quotient_of_denom_pos [OF nd] .
  have q: "q = of_int n / of_int d" using quotient_of_div [OF nd] .
  have n: "0 < n" using assms d by (simp add: q zero_less_divide_iff)
  let ?k = "flog2 n - flog2 d"
  have k: "pow2 ?k * pow2 (flog2 d) = pow2 (flog2 n)"
    using pow2_add [of ?k "flog2 d"] by simp
  have d': "0 < rat_of_int d" using d by simp
  have "rat_of_int n < 2 * (pow2 ?k * pow2 (flog2 d))" using pow2_flog2(2) [OF n] by (simp add: k)
  also have "\<dots> \<le> 2 * (pow2 ?k * rat_of_int d)"
    using pow2_flog2(1) [OF d] by (simp add: mult_left_mono)
  finally have "rat_of_int n < pow2 (?k + 1) * rat_of_int d"
    unfolding pow2_add by (simp add: pow2_def [of 1] ac_simps)
  then have up: "q < pow2 (?k + 1)" using d' by (simp add: q divide_less_eq)
  have h: "pow2 ?k = 2 * pow2 (?k - 1)" using pow2_add [of "?k - 1" 1] by (simp add: pow2_def [of 1])
  have "pow2 (?k - 1) * rat_of_int d \<le> pow2 (?k - 1) * (2 * pow2 (flog2 d))"
    using pow2_flog2(2) [OF d] by (intro mult_left_mono) (simp_all add: less_imp_le)
  also have "\<dots> = pow2 (flog2 n)" using k by (simp add: h algebra_simps)
  also have "\<dots> \<le> rat_of_int n" by (rule pow2_flog2(1) [OF n])
  finally have low: "pow2 (?k - 1) \<le> q" using d' by (simp add: q le_divide_eq)
  show ?thesis
    using up low by (auto simp: expo_def nd Let_def algebra_simps)
qed

lemma expo_mono:
  assumes "0 < q" "q \<le> r"
  shows "expo q \<le> expo r"
proof (rule ccontr)
  assume "\<not> ?thesis"
  then have "pow2 (expo r + 1) \<le> pow2 (expo q)" by (intro pow2_mono) simp
  with expo_bounds [of q] expo_bounds [of r] assms show False by simp
qed

section \<open>Rounding\<close>

definition round_half_even :: "rat \<Rightarrow> int" where
  "round_half_even x =
     (let f = \<lfloor>x\<rfloor>; r = x - of_int f in
      if r < 1 / 2 then f else if r > 1 / 2 then f + 1 else if even f then f else f + 1)"

datatype float64 = Fin rat | PInf | MInf | NaN

text \<open>
  The spacing of the doubles around a positive \<open>q\<close>: 53 significant bits, and never finer than the
  smallest subnormal.
\<close>

definition ulp_exp :: "rat \<Rightarrow> int" where
  "ulp_exp q = max (expo q - 52) (- 1074)"

definition rnd_pos :: "rat \<Rightarrow> rat" where
  "rnd_pos q = of_int (round_half_even (q / pow2 (ulp_exp q))) * pow2 (ulp_exp q)"

definition rnd :: "rat \<Rightarrow> float64" where
  "rnd q =
     (if q = 0 then Fin 0
      else if 0 < q then (if expo (rnd_pos q) \<ge> 1024 then PInf else Fin (rnd_pos q))
      else (if expo (rnd_pos (- q)) \<ge> 1024 then MInf else Fin (- rnd_pos (- q))))"

lemma round_half_even_of_int [simp]: "round_half_even (of_int n) = n"
  by (simp add: round_half_even_def)

lemma round_half_even_power [simp]: "round_half_even (2 ^ k) = 2 ^ k"
  using round_half_even_of_int [of "2 ^ k"] by simp

lemma round_half_even_bounds: "of_int (round_half_even x) - 1 / 2 \<le> x \<and> x \<le> of_int (round_half_even x) + 1 / 2"
  unfolding round_half_even_def Let_def by (auto; linarith)

lemma round_half_even_mono:
  assumes "x \<le> y"
  shows "round_half_even x \<le> round_half_even y"
proof (cases "\<lfloor>x\<rfloor> = \<lfloor>y\<rfloor>")
  case True
  then show ?thesis using assms by (auto simp: round_half_even_def Let_def)
next
  case False
  then have "\<lfloor>x\<rfloor> + 1 \<le> \<lfloor>y\<rfloor>" using floor_mono [OF assms] by linarith
  moreover have "round_half_even x \<le> \<lfloor>x\<rfloor> + 1" "\<lfloor>y\<rfloor> \<le> round_half_even y"
    by (auto simp: round_half_even_def Let_def)
  ultimately show ?thesis by linarith
qed

text \<open>Rounding keeps every bound that is itself a double: the powers of two, and whole numbers.\<close>

lemma rnd_pos_le_pow2:
  assumes "0 < q" "q \<le> pow2 e" "ulp_exp q \<le> e"
  shows "rnd_pos q \<le> pow2 e"
proof -
  let ?u = "ulp_exp q"
  have "pow2 e = 2 ^ nat (e - ?u) * pow2 ?u"
    using pow2_add [of "e - ?u" ?u] assms(3) by (simp add: pow2_def [of "e - ?u"])
  then have m: "pow2 e = of_int (2 ^ nat (e - ?u)) * pow2 ?u" by simp
  have "q / pow2 ?u \<le> of_int (2 ^ nat (e - ?u))"
    using assms(2) unfolding m by (simp add: divide_le_eq)
  then have "round_half_even (q / pow2 ?u) \<le> 2 ^ nat (e - ?u)"
    using round_half_even_mono [of "q / pow2 ?u" "of_int (2 ^ nat (e - ?u))"] by simp
  then show ?thesis unfolding rnd_pos_def m by (simp add: mult_right_mono of_int_le_iff del: of_int_power)
qed

lemma rnd_pos_ge_pow2:
  assumes "0 < q" "pow2 e \<le> q" "ulp_exp q \<le> e"
  shows "pow2 e \<le> rnd_pos q"
proof -
  let ?u = "ulp_exp q"
  have "pow2 e = 2 ^ nat (e - ?u) * pow2 ?u"
    using pow2_add [of "e - ?u" ?u] assms(3) by (simp add: pow2_def [of "e - ?u"])
  then have m: "pow2 e = of_int (2 ^ nat (e - ?u)) * pow2 ?u" by simp
  have "of_int (2 ^ nat (e - ?u)) \<le> q / pow2 ?u"
    using assms(2) unfolding m by (simp add: le_divide_eq)
  then have "2 ^ nat (e - ?u) \<le> round_half_even (q / pow2 ?u)"
    using round_half_even_mono [of "of_int (2 ^ nat (e - ?u))" "q / pow2 ?u"] by simp
  then show ?thesis unfolding rnd_pos_def m by (simp add: mult_right_mono of_int_le_iff del: of_int_power)
qed

lemma rnd_pos_nonneg: "0 < q \<Longrightarrow> 0 \<le> rnd_pos q"
  using round_half_even_mono [of 0 "q / pow2 (ulp_exp q)"] round_half_even_of_int [of 0]
  by (simp add: rnd_pos_def less_imp_le del: round_half_even_of_int)

lemma rnd_pos_mono:
  assumes "0 < q" "q \<le> r"
  shows "rnd_pos q \<le> rnd_pos r"
proof (cases "ulp_exp q = ulp_exp r")
  case True
  have "q / pow2 (ulp_exp r) \<le> r / pow2 (ulp_exp r)"
    using assms(2) by (simp add: divide_right_mono less_imp_le)
  then show ?thesis
    unfolding rnd_pos_def True by (intro mult_right_mono) (simp_all add: round_half_even_mono less_imp_le)
next
  case False
  have e: "expo q \<le> expo r" by (rule expo_mono [OF assms])
  with False have lt: "expo q + 1 \<le> expo r" and r52: "-1074 \<le> expo r - 52"
    by (auto simp: ulp_exp_def max_def split: if_splits)
  have u: "ulp_exp r = expo r - 52" using r52 by (simp add: ulp_exp_def)
  have "rnd_pos q \<le> pow2 (expo r)"
    by (rule rnd_pos_le_pow2)
      (use assms(1) expo_bounds [of q] pow2_mono [OF lt] lt r52 in \<open>auto simp: ulp_exp_def\<close>)
  also have "\<dots> \<le> rnd_pos r"
    by (rule rnd_pos_ge_pow2) (use assms expo_bounds [of r] u in auto)
  finally show ?thesis .
qed

lemma rnd_nonneg_cases:
  assumes "0 \<le> q"
  obtains "rnd q = PInf" | r where "rnd q = Fin r" "0 \<le> r"
proof (cases "q = 0")
  case False
  with assms have q: "0 < q" by simp
  show thesis
    by (cases "1024 \<le> expo (rnd_pos q)") (use that rnd_pos_nonneg [OF q] q in \<open>auto simp: rnd_def\<close>)
qed (use that in \<open>simp add: rnd_def\<close>)

section \<open>Arithmetic\<close>

definition fzero :: float64 where "fzero = Fin 0"

definition of_int64 :: "int \<Rightarrow> float64" where
  "of_int64 n = rnd (of_int n)"

fun fneg :: "float64 \<Rightarrow> float64" where
  "fneg (Fin q) = Fin (- q)"
| "fneg PInf = MInf"
| "fneg MInf = PInf"
| "fneg NaN = NaN"

fun fadd :: "float64 \<Rightarrow> float64 \<Rightarrow> float64" where
  "fadd (Fin a) (Fin b) = rnd (a + b)"
| "fadd NaN y = NaN"
| "fadd x NaN = NaN"
| "fadd PInf MInf = NaN"
| "fadd MInf PInf = NaN"
| "fadd PInf y = PInf"
| "fadd MInf y = MInf"
| "fadd x PInf = PInf"
| "fadd x MInf = MInf"

definition fsub :: "float64 \<Rightarrow> float64 \<Rightarrow> float64" where
  "fsub x y = fadd x (fneg y)"

fun fsign :: "float64 \<Rightarrow> int" where
  "fsign (Fin q) = (if q = 0 then 0 else if 0 < q then 1 else - 1)"
| "fsign PInf = 1"
| "fsign MInf = - 1"
| "fsign NaN = 0"

definition finf :: "int \<Rightarrow> float64" where
  "finf s = (if s = 0 then NaN else if 0 < s then PInf else MInf)"

fun fmul :: "float64 \<Rightarrow> float64 \<Rightarrow> float64" where
  "fmul (Fin a) (Fin b) = rnd (a * b)"
| "fmul NaN y = NaN"
| "fmul x NaN = NaN"
| "fmul x y = finf (fsign x * fsign y)"

text \<open>
  A division by zero is infinite, with the sign of the dividend: every divisor of the modelled
  code is a non-negative number.
\<close>

fun fdiv :: "float64 \<Rightarrow> float64 \<Rightarrow> float64" where
  "fdiv (Fin a) (Fin b) = (if b = 0 then finf (fsign (Fin a)) else rnd (a / b))"
| "fdiv NaN y = NaN"
| "fdiv x NaN = NaN"
| "fdiv (Fin a) y = Fin 0"
| "fdiv x (Fin b) = (if b = 0 then x else finf (fsign x * fsign (Fin b)))"
| "fdiv x y = NaN"

fun fless :: "float64 \<Rightarrow> float64 \<Rightarrow> bool" where
  "fless (Fin a) (Fin b) = (a < b)"
| "fless NaN y = False"
| "fless x NaN = False"
| "fless MInf y = (y \<noteq> MInf)"
| "fless x PInf = (x \<noteq> PInf)"
| "fless x y = False"

definition fle :: "float64 \<Rightarrow> float64 \<Rightarrow> bool" where
  "fle x y \<longleftrightarrow> fless x y \<or> (x = y \<and> x \<noteq> NaN)"

text \<open>\<open>math.Ceil\<close>, \<open>math.Round\<close> (halves away from zero), \<open>math.Sqrt\<close>, and \<open>int64(x)\<close>.\<close>

fun fceil :: "float64 \<Rightarrow> float64" where
  "fceil (Fin q) = Fin (of_int \<lceil>q\<rceil>)"
| "fceil x = x"

fun fround :: "float64 \<Rightarrow> float64" where
  "fround (Fin q) = Fin (of_int (if 0 \<le> q then \<lfloor>q + 1 / 2\<rfloor> else \<lceil>q - 1 / 2\<rceil>))"
| "fround x = x"

definition sqrt_pos :: "rat \<Rightarrow> rat" where
  "sqrt_pos q =
     (let u = expo q div 2 - 52; t = q / pow2 (2 * u); r = isqrt \<lfloor>t\<rfloor> in
      of_int (if t \<le> (of_int r + 1 / 2) ^ 2 then r else r + 1) * pow2 u)"

fun fsqrt :: "float64 \<Rightarrow> float64" where
  "fsqrt (Fin q) = (if q = 0 then Fin 0 else if q < 0 then NaN else Fin (sqrt_pos q))"
| "fsqrt PInf = PInf"
| "fsqrt MInf = NaN"
| "fsqrt NaN = NaN"

fun to_int64 :: "float64 \<Rightarrow> int" where
  "to_int64 (Fin q) =
     (let t = (if 0 \<le> q then \<lfloor>q\<rfloor> else \<lceil>q\<rceil>) in if int64 t then t else MinInt64)"
| "to_int64 x = MinInt64"

lemma int64_to_int64 [simp]: "int64 (to_int64 x)"
  by (cases x) (simp_all add: Let_def int64_def)

lemma fless_zero_Fin [simp]: "fless fzero (Fin q) \<longleftrightarrow> 0 < q"
  by (simp add: fzero_def)

subsection \<open>Exact results\<close>

lemma expo_of_int:
  assumes "0 < n" "n < 2 ^ k"
  shows "expo (of_int n) < int k"
proof (rule ccontr)
  assume "\<not> ?thesis"
  then have "pow2 (int k) \<le> pow2 (expo (of_int n))" by (intro pow2_mono) simp
  also have "\<dots> \<le> of_int n" using expo_bounds [of "of_int n"] assms(1) by simp
  finally have "(of_int (2 ^ k) :: rat) \<le> of_int n" by (simp add: pow2_def)
  then show False using assms(2) by (simp only: of_int_le_iff)
qed

lemma rnd_pos_of_int:
  assumes "0 < n" "n < 2 ^ 53"
  shows "rnd_pos (of_int n) = of_int n"
proof -
  have u: "ulp_exp (of_int n) \<le> 0" using expo_of_int [OF assms] by (simp add: ulp_exp_def)
  then have p: "pow2 (ulp_exp (of_int n)) = 1 / 2 ^ nat (- ulp_exp (of_int n))"
    by (cases "ulp_exp (of_int n) = 0") (simp_all add: pow2_def)
  have "(of_int n :: rat) / pow2 (ulp_exp (of_int n)) = of_int (n * 2 ^ nat (- ulp_exp (of_int n)))"
    by (simp add: p)
  then show ?thesis by (simp only: rnd_pos_def round_half_even_of_int) (simp add: p)
qed

lemma of_int64_exact: "\<bar>n\<bar> < 2 ^ 53 \<Longrightarrow> of_int64 n = Fin (of_int n)"
proof -
  assume n: "\<bar>n\<bar> < 2 ^ 53"
  consider "n = 0" | "0 < n" | "n < 0" by linarith
  then show ?thesis
  proof cases
    case 2
    with n expo_of_int [of n 53] rnd_pos_of_int [of n] show ?thesis by (simp add: of_int64_def rnd_def)
  next
    case 3
    with n expo_of_int [of "- n" 53] rnd_pos_of_int [of "- n"] show ?thesis
      by (simp add: of_int64_def rnd_def)
  qed (simp add: of_int64_def rnd_def)
qed

subsection \<open>Evaluating and estimating a rounded result\<close>

lemma expo_unique:
  assumes "pow2 k \<le> q" "q < pow2 (k + 1)"
  shows "expo q = k"
proof (rule ccontr)
  have q: "0 < q" using assms(1) pow2_pos [of k] by (rule less_le_trans [rotated])
  assume "expo q \<noteq> k"
  then consider "expo q + 1 \<le> k" | "k + 1 \<le> expo q" by linarith
  then show False
    using expo_bounds [OF q] assms pow2_mono [of "expo q + 1" k] pow2_mono [of "k + 1" "expo q"]
    by cases auto
qed

lemma expo_le:
  assumes "0 < q" "q < pow2 (k + 1)"
  shows "expo q \<le> k"
proof (rule ccontr)
  assume "\<not> ?thesis"
  then have "pow2 (k + 1) \<le> pow2 (expo q)" by (intro pow2_mono) simp
  with expo_bounds [OF assms(1)] assms(2) show False by simp
qed

lemma round_half_even_eqI:
  assumes "of_int m - 1 / 2 < x" "x < of_int m + 1 / 2"
  shows "round_half_even x = m"
proof -
  have "of_int m < (of_int (round_half_even x) :: rat) + 1"
       "of_int (round_half_even x) < (of_int m :: rat) + 1"
    using round_half_even_bounds [of x] assms by linarith+
  then show ?thesis by linarith
qed

text \<open>The double nearest to \<open>q\<close> is \<open>m * 2 ^ e\<close>, once \<open>e\<close> is known to be the spacing at \<open>q\<close>.\<close>

lemma rnd_eqI:
  assumes "pow2 (e + 52) \<le> q" "q < pow2 (e + 53)" "- 1000 \<le> e" "e \<le> 900"
    and near: "of_int m - 1 / 2 < q / pow2 e" "q / pow2 e < of_int m + 1 / 2"
  shows "rnd q = Fin (of_int m * pow2 e)"
proof -
  have m: "round_half_even (q / pow2 e) = m" by (rule round_half_even_eqI [OF near])
  have q: "0 < q" using assms(1) pow2_pos by (rule less_le_trans [rotated])
  have x: "expo q = e + 52" using expo_unique [OF assms(1)] assms(2) by (simp add: ac_simps)
  then have u: "ulp_exp q = e" using assms(3) by (simp add: ulp_exp_def)
  have "pow2 (e + 52) \<le> rnd_pos q" by (rule rnd_pos_ge_pow2) (use q assms(1) u in simp_all)
  then have p: "0 < rnd_pos q" by (rule less_le_trans [OF pow2_pos])
  have "rnd_pos q \<le> pow2 (e + 53)" by (rule rnd_pos_le_pow2) (use q assms(2) u in simp_all)
  also have "\<dots> < pow2 (e + 53 + 1)" by (rule pow2_strict_mono) simp
  finally have "expo (rnd_pos q) \<le> e + 53" by (intro expo_le p) simp
  with q assms(4) show ?thesis by (simp add: rnd_def) (simp add: rnd_pos_def u m)
qed

lemma rnd_close:
  assumes "0 \<le> q" "q < pow2 k" "- 1000 \<le> k" "k \<le> 900"
  obtains r where "rnd q = Fin r" "0 \<le> r" "r \<le> q + pow2 (k - 54)" "q \<le> r + pow2 (k - 54)"
proof (cases "q = 0")
  case True
  with that [of 0] pow2_pos [of "k - 54"] show thesis by (simp add: rnd_def less_imp_le)
next
  case False
  with assms have q: "0 < q" by simp
  have x: "expo q \<le> k - 1" using expo_le [OF q, of "k - 1"] assms(2) by simp
  then have u: "ulp_exp q \<le> k - 53" using assms(3) by (simp add: ulp_exp_def)
  let ?u = "pow2 (ulp_exp q)" and ?m = "round_half_even (q / pow2 (ulp_exp q))"
  have half: "1 / 2 * ?u \<le> pow2 (k - 54)"
    using pow2_mono [OF u] pow2_add [of "k - 54" 1] by (simp add: pow2_def [of 1])
  have r: "rnd_pos q = of_int ?m * ?u" by (simp add: rnd_pos_def)
  have nz: "?u \<noteq> 0" using pow2_pos [of "ulp_exp q"] by (simp del: pow2_pos)
  have m: "of_int ?m - 1 / 2 \<le> q / ?u" "q / ?u \<le> of_int ?m + 1 / 2"
    using round_half_even_bounds [of "q / ?u"] by simp_all
  have lo: "rnd_pos q - 1 / 2 * ?u \<le> q"
    using mult_right_mono [OF m(1), of ?u] by (simp add: r nz left_diff_distrib less_imp_le)
  have hi: "q \<le> rnd_pos q + 1 / 2 * ?u"
    using mult_right_mono [OF m(2), of ?u] by (simp add: r nz distrib_right less_imp_le)
  have "rnd_pos q \<le> pow2 k" by (rule rnd_pos_le_pow2) (use q assms(2) u in simp_all)
  also have "\<dots> < pow2 (k + 1)" by (rule pow2_strict_mono) simp
  finally have "0 < rnd_pos q \<Longrightarrow> expo (rnd_pos q) \<le> k" by (intro expo_le)
  moreover have "expo (rnd_pos q) < 1024" if "rnd_pos q = 0"
    by (simp add: that expo_def flog2.simps pow2_def)
  ultimately have "rnd q = Fin (rnd_pos q)"
    using q rnd_pos_nonneg [OF q] assms(4) by (cases "rnd_pos q = 0") (auto simp: rnd_def)
  with that [of "rnd_pos q"] rnd_pos_nonneg [OF q] lo hi half show thesis by simp
qed

lemma rnd_mono:
  assumes "q \<le> r" "rnd q = Fin a" "rnd r = Fin b"
  shows "a \<le> b"
proof -
  have "rnd_pos r \<ge> 0" if "0 < r" using rnd_pos_nonneg [OF that] .
  moreover have "rnd_pos (- q) \<ge> 0" if "q < 0" using rnd_pos_nonneg [of "- q"] that by simp
  moreover have "rnd_pos q \<le> rnd_pos r" if "0 < q" using rnd_pos_mono [OF that assms(1)] .
  moreover have "rnd_pos (- r) \<le> rnd_pos (- q)" if "r < 0"
    using rnd_pos_mono [of "- r" "- q"] that assms(1) by simp
  ultimately show ?thesis
    using assms by (auto simp: rnd_def split: if_splits)
qed

lemma rnd_finite:
  assumes "\<bar>q\<bar> < pow2 k" "- 1000 \<le> k" "k \<le> 900"
  obtains r where "rnd q = Fin r" "\<bar>r\<bar> \<le> pow2 (k + 1)"
proof -
  have two: "pow2 (k + 1) = 2 * pow2 k" using pow2_add [of k 1] by (simp add: pow2_def [of 1])
  have le: "pow2 (k - 54) \<le> pow2 k" by (rule pow2_mono) simp
  obtain r where r: "rnd \<bar>q\<bar> = Fin r" "0 \<le> r" "r \<le> \<bar>q\<bar> + pow2 (k - 54)"
    by (rule rnd_close [OF abs_ge_zero assms])
  have le2: "r \<le> pow2 (k + 1)" using r(3) assms(1) le two by linarith
  show thesis
  proof (cases "0 \<le> q")
    case True
    with r le2 that [of r] show thesis by simp
  next
    case False
    then have "rnd q = Fin (- r)" using r(1) by (auto simp: rnd_def split: if_splits)
    with r le2 that [of "- r"] show thesis by simp
  qed
qed

subsection \<open>Operations that stay numbers\<close>

lemma rnd_not_NaN [simp]: "rnd q \<noteq> NaN"
  by (simp add: rnd_def)

lemma fadd_Fin_not_NaN [simp]: "fadd (Fin a) y = NaN \<longleftrightarrow> y = NaN"
  by (cases y) simp_all

lemma fdiv_Fin_not_NaN: "a \<noteq> 0 \<Longrightarrow> y \<noteq> NaN \<Longrightarrow> fdiv (Fin a) y \<noteq> NaN"
  by (cases y) (simp_all add: finf_def)

lemma fdiv_by_nonzero: "b \<noteq> 0 \<Longrightarrow> x \<noteq> NaN \<Longrightarrow> fdiv x (Fin b) \<noteq> NaN"
  by (cases x) (simp_all add: finf_def)

lemma rnd_pos_positive:
  assumes "pow2 (- 1000) \<le> q"
  shows "0 < rnd_pos q"
proof -
  have q: "0 < q" using assms pow2_pos by (rule less_le_trans [rotated])
  have "- 1000 \<le> expo q"
  proof (rule ccontr)
    assume "\<not> ?thesis"
    then have "pow2 (expo q + 1) \<le> pow2 (- 1000)" by (intro pow2_mono) simp
    with expo_bounds [OF q] assms show False by simp
  qed
  then have "pow2 (expo q) \<le> rnd_pos q"
    by (intro rnd_pos_ge_pow2) (use q expo_bounds [OF q] in \<open>simp_all add: ulp_exp_def\<close>)
  then show ?thesis by (rule less_le_trans [OF pow2_pos])
qed

lemma of_int64_positive:
  assumes "0 < n" "n \<le> MaxInt64"
  obtains q where "of_int64 n = Fin q" "0 < q"
proof -
  have "(of_int n :: rat) < of_int (2 ^ 63)" unfolding of_int_less_iff using assms(2) by simp
  then have b: "0 \<le> rat_of_int n" "rat_of_int n < pow2 63" using assms(1) by (simp_all add: pow2_def)
  obtain r where r: "rnd (of_int n) = Fin r"
    by (rule rnd_close [OF b], simp, simp) (rule that; simp)
  have "(1 :: rat) \<le> of_int n" using assms(1) by simp
  moreover have "pow2 (- 1000) \<le> pow2 0" by (rule pow2_mono) simp
  ultimately have "pow2 (- 1000) \<le> of_int n" by (simp add: pow2_def [of 0])
  then have "0 < rnd_pos (of_int n)" by (rule rnd_pos_positive)
  with r assms(1) have "0 < r" by (auto simp: rnd_def split: if_splits)
  with r that [of r] show thesis by (simp add: of_int64_def)
qed

lemma fless_zero_iff: "x \<noteq> NaN \<Longrightarrow> fless fzero x \<longleftrightarrow> \<not> fle x fzero"
  by (cases x) (auto simp: fle_def fzero_def)

end
