(* ===== verification/Stall.thy ===== *)
theory Stall
  imports Go_Float
begin

text \<open>
  The stall watchdog (\<open>internal/uploader/stall.go\<close>) and the retry backoff
  (\<open>internal/uploader/backoff.go\<close>). The watchdog is a machine driven by timed events: an attempt
  begins or ends, a round of remote work ticks, the monitor's ticker fires. The kill it performs is
  the value \<open>fired\<close>, the time it happened.
\<close>

section \<open>The watchdog\<close>

definition Millisecond100 :: int where "Millisecond100 = 100000000"

definition check_interval :: "int \<Rightarrow> int" where
  "check_interval timeout =
     (let interval = timeout sdiv 4 in if interval < Millisecond100 then Millisecond100 else interval)"

record stallWatchdog =
  timeout :: int
  active :: int
  ticks :: int
  last_ticks :: int
  last_change :: int
  fired :: "int option"

definition startStallWatchdog :: "int \<Rightarrow> int \<Rightarrow> stallWatchdog" where
  "startStallWatchdog limit now =
     \<lparr>timeout = limit, active = 0, ticks = 0, last_ticks = 0, last_change = now, fired = None\<rparr>"

definition tick :: "stallWatchdog \<Rightarrow> stallWatchdog" where
  "tick w = w\<lparr>ticks := ticks w + 1\<rparr>"

definition begin_attempt :: "stallWatchdog \<Rightarrow> stallWatchdog" where
  "begin_attempt w = (tick w)\<lparr>active := active w + 1\<rparr>"

definition end_attempt :: "stallWatchdog \<Rightarrow> stallWatchdog" where
  "end_attempt w = w\<lparr>active := active w - 1\<rparr>"

text \<open>One turn of the monitor's loop, at the time the ticker fires; a fired monitor has returned.\<close>

definition monitor :: "int \<Rightarrow> stallWatchdog \<Rightarrow> stallWatchdog" where
  "monitor now w =
     (if fired w \<noteq> None then w
      else if active w = 0 \<or> ticks w \<noteq> last_ticks w
      then w\<lparr>last_ticks := ticks w, last_change := now\<rparr>
      else if now - last_change w \<ge> timeout w then w\<lparr>fired := Some now\<rparr>
      else w)"

datatype event = Begin | End | Tick | Check

fun watch_event :: "int \<times> event \<Rightarrow> stallWatchdog \<Rightarrow> stallWatchdog" where
  "watch_event (t, Begin) w = begin_attempt w"
| "watch_event (t, End) w = end_attempt w"
| "watch_event (t, Tick) w = tick w"
| "watch_event (t, Check) w = monitor t w"

definition watch :: "(int \<times> event) list \<Rightarrow> stallWatchdog \<Rightarrow> stallWatchdog" where
  "watch es w = fold watch_event es w"

text \<open>The events of a wrapped reader: a read ticks first when the previous read returned data.\<close>

fun writeProgress :: "bool \<Rightarrow> (int \<times> nat) list \<Rightarrow> (int \<times> event) list" where
  "writeProgress pending [] = []"
| "writeProgress pending ((t, n) # rs) =
     (if pending then [(t, Tick)] else []) @ writeProgress (n > 0) rs"

section \<open>It fires only on silence\<close>

text \<open>
  A stretch of events in which no attempt began and nothing ticked, and what the monitor has seen:
  the silence since the time it remembers.
\<close>

definition silent :: "(int \<times> event) list \<Rightarrow> bool" where
  "silent es \<longleftrightarrow> (\<forall>(t, e) \<in> set es. e = Check \<or> e = End)"

lemma silent_append [simp]: "silent (es @ fs) \<longleftrightarrow> silent es \<and> silent fs"
  by (auto simp: silent_def)

text \<open>The time a history ends at, or the start.\<close>

definition last_time :: "int \<Rightarrow> (int \<times> event) list \<Rightarrow> int" where
  "last_time start es = (if es = [] then start else fst (last es))"

definition remembers :: "int \<Rightarrow> (int \<times> event) list \<Rightarrow> stallWatchdog \<Rightarrow> bool" where
  "remembers start es w \<longleftrightarrow>
     (\<exists>before since. es = before @ since \<and> last_time start before = last_change w \<and>
        (ticks w = last_ticks w \<longrightarrow> silent since)) \<and> last_ticks w \<le> ticks w"

lemma remembers_step:
  assumes "remembers start es w"
  shows "remembers start (es @ [x]) (watch_event x w)"
proof -
  obtain before since where h: "es = before @ since" "last_time start before = last_change w"
      "ticks w = last_ticks w \<longrightarrow> silent since" "last_ticks w \<le> ticks w"
    using assms by (auto simp: remembers_def)
  obtain t e where x: "x = (t, e)" by (cases x)
  have now: "last_time start (es @ [x]) = t" by (simp add: last_time_def x)
  show ?thesis
  proof (cases "e = Check \<and> fired w = None \<and> (active w = 0 \<or> ticks w \<noteq> last_ticks w)")
    case True
    then have "watch_event x w = w\<lparr>last_ticks := ticks w, last_change := t\<rparr>"
      by (simp add: x monitor_def)
    moreover have "silent []" by (simp add: silent_def)
    ultimately show ?thesis
      unfolding remembers_def using now by (intro conjI exI [of _ "es @ [x]"] exI [of _ "[]"]) simp_all
  next
    case False
    then have "last_change (watch_event x w) = last_change w" "last_ticks (watch_event x w) = last_ticks w"
        "ticks (watch_event x w) = ticks w \<and> silent [x] \<or> ticks (watch_event x w) = ticks w + 1"
      by (cases e; auto simp: x monitor_def tick_def begin_attempt_def end_attempt_def silent_def)+
    with h show ?thesis
      unfolding remembers_def
      by (intro conjI exI [of _ before] exI [of _ "since @ [x]"]) auto
  qed
qed

lemma watch_remembers:
  "remembers start (rev es) (watch (rev es) (startStallWatchdog limit start))"
proof (induction es)
  case Nil
  show ?case
    by (auto simp: remembers_def watch_def startStallWatchdog_def last_time_def silent_def)
next
  case (Cons x es)
  then show ?case using remembers_step [of start "rev es" _ x] by (simp add: watch_def)
qed

lemma watch_append: "watch (es @ fs) w = watch fs (watch es w)"
  by (simp add: watch_def)

lemma timeout_fixed: "timeout (watch es w) = timeout w"
proof (induction es arbitrary: w)
  case (Cons x es)
  obtain t e where "x = (t, e)" by (cases x)
  with Cons show ?case
    by (cases e) (simp_all add: watch_def tick_def begin_attempt_def end_attempt_def monitor_def)
qed (simp add: watch_def)

lemma fired_at:
  "fired w = None \<Longrightarrow> fired (watch es w) = Some t \<Longrightarrow>
     \<exists>es1 es2. es = es1 @ (t, Check) # es2 \<and> fired (watch es1 w) = None \<and>
       fired (monitor t (watch es1 w)) = Some t"
proof (induction es arbitrary: w)
  case (Cons x es)
  obtain u e where x: "x = (u, e)" by (cases x)
  show ?case
  proof (cases "fired (watch_event x w)")
    case None
    with Cons.IH [of "watch_event x w"] Cons.prems obtain es1 es2 where
      "es = es1 @ (t, Check) # es2" "fired (watch es1 (watch_event x w)) = None"
      "fired (monitor t (watch es1 (watch_event x w))) = Some t"
      by (auto simp: watch_def)
    then show ?thesis by (intro exI [of _ "x # es1"] exI [of _ es2]) (simp add: watch_def)
  next
    case (Some v)
    then have e: "e = Check" "v = u"
      using Cons.prems(1)
      by (cases e; auto simp: x tick_def begin_attempt_def end_attempt_def monitor_def split: if_splits)+
    have keep: "fired (watch fs w') = Some v" if "fired w' = Some v" for fs w'
      using that
    proof (induction fs arbitrary: w')
      case (Cons y fs)
      obtain z f where "y = (z, f)" by (cases y)
      with Cons show ?case
        by (cases f) (simp_all add: watch_def tick_def begin_attempt_def end_attempt_def monitor_def)
    qed (simp add: watch_def)
    have "t = u" using keep [OF Some] Cons.prems(2) e by (simp add: watch_def)
    then show ?thesis
      using Some e Cons.prems(1) by (intro exI [of _ "[]"] exI [of _ es]) (simp add: watch_def x)
  qed
qed (simp add: watch_def)

text \<open>
  Property C18. The watchdog kills a run only for silence. If it fired at a time, the events before
  split where the monitor's memory starts: from then until the firing no attempt began and nothing
  ticked, that took at least the timeout, and an attempt was still active.
\<close>

theorem watchdog_fires_only_on_silence:
  assumes "fired (watch es (startStallWatchdog limit start)) = Some t"
  shows "\<exists>before since later. es = before @ since @ (t, Check) # later \<and> silent since \<and>
           last_time start before + limit \<le> t \<and>
           active (watch (before @ since) (startStallWatchdog limit start)) \<noteq> 0"
proof -
  let ?w0 = "startStallWatchdog limit start"
  have "fired ?w0 = None" by (simp add: startStallWatchdog_def)
  from fired_at [OF this assms] obtain es1 es2 where s: "es = es1 @ (t, Check) # es2"
      "fired (watch es1 ?w0) = None" "fired (monitor t (watch es1 ?w0)) = Some t"
    by blast
  let ?w = "watch es1 ?w0"
  have lim: "timeout ?w = limit" by (simp add: timeout_fixed startStallWatchdog_def)
  have f: "active ?w \<noteq> 0" "ticks ?w = last_ticks ?w" "last_change ?w + limit \<le> t"
    using s(2,3) lim by (auto simp: monitor_def split: if_splits)
  obtain before since where "es1 = before @ since" "last_time start before = last_change ?w" "silent since"
    using watch_remembers [of start "rev es1" limit] f(2) by (auto simp: remembers_def)
  with s(1) f(1,3) show ?thesis by (intro exI [of _ before] exI [of _ since] exI [of _ es2]) simp
qed

definition sample_stall :: "(int \<times> event) list" where
  "sample_stall = [(1, Begin), (5, Check), (10, Check), (15, Check), (20, Check)]"

theorem watchdog_fires_only_on_silence_witness:
  "\<exists>before since later. sample_stall = before @ since @ (15, Check) # later \<and> silent since \<and>
     last_time 0 before + 10 \<le> 15 \<and> active (watch (before @ since) (startStallWatchdog 10 0)) \<noteq> 0"
  by (rule watchdog_fires_only_on_silence) code_simp

text \<open>While nothing but checks happens, the monitor's memory only goes back in time.\<close>

definition stalled_since :: "int \<Rightarrow> stallWatchdog \<Rightarrow> bool" where
  "stalled_since u w \<longleftrightarrow>
     fired w \<noteq> None \<or> (active w \<noteq> 0 \<and> ticks w = last_ticks w \<and> last_change w \<le> u)"

lemma stalled_checks: "stalled_since u w \<Longrightarrow> stalled_since u (watch (map (\<lambda>t. (t, Check)) ts) w)"
  by (induction ts arbitrary: w) (auto simp: watch_def stalled_since_def monitor_def)

lemma stalled_fires: "stalled_since u w \<Longrightarrow> timeout w = limit \<Longrightarrow> u + limit \<le> v \<Longrightarrow> fired (monitor v w) \<noteq> None"
  by (auto simp: stalled_since_def monitor_def)

lemma last_time_le: "sorted (start # map fst (es @ fs) @ [u]) \<Longrightarrow> last_time start es \<le> u"
  by (cases es rule: rev_cases) (auto simp: last_time_def sorted_append)

text \<open>
  Property C19. The watchdog does kill a stalled run. Whatever happened before, once attempts are
  active and nothing but the monitor's own checks follows, two checks at least the timeout apart
  suffice for it to have fired.
\<close>

theorem watchdog_fires_on_silence:
  assumes "active (watch es (startStallWatchdog limit start)) \<noteq> 0"
    and "sorted (start # map fst es @ [u])" "u + limit \<le> v"
  shows "fired (watch (es @ (u, Check) # map (\<lambda>t. (t, Check)) ts @ [(v, Check)])
                  (startStallWatchdog limit start)) \<noteq> None"
proof -
  let ?w = "watch es (startStallWatchdog limit start)"
  have "remembers start es ?w" using watch_remembers [of start "rev es" limit] by simp
  then obtain before since where "es = before @ since" "last_time start before = last_change ?w"
    by (auto simp: remembers_def)
  with assms(2) last_time_le [of start before since u] have "last_change ?w \<le> u" by simp
  with assms(1) have "stalled_since u (monitor u ?w)" by (auto simp: stalled_since_def monitor_def)
  then have stalled: "stalled_since u (watch (map (\<lambda>t. (t, Check)) ts) (monitor u ?w))"
    by (rule stalled_checks)
  let ?all = "es @ (u, Check) # map (\<lambda>t. (t, Check)) ts"
  have e: "watch ?all (startStallWatchdog limit start) =
      watch (map (\<lambda>t. (t, Check)) ts) (monitor u ?w)"
    by (simp add: watch_def)
  have lim: "timeout (watch ?all (startStallWatchdog limit start)) = limit"
    by (simp only: timeout_fixed) (simp add: startStallWatchdog_def)
  have "fired (monitor v (watch ?all (startStallWatchdog limit start))) \<noteq> None"
    by (rule stalled_fires [OF _ lim assms(3)]) (simp only: e stalled)
  then show ?thesis by (simp add: watch_def)
qed

theorem watchdog_fires_on_silence_witness:
  "fired (watch ([(1, Begin)] @ (5, Check) # map (\<lambda>t. (t, Check)) [10] @ [(15, Check)])
     (startStallWatchdog 10 0)) \<noteq> None"
  by (rule watchdog_fires_on_silence) (simp_all add: watch_def startStallWatchdog_def begin_attempt_def tick_def)

section \<open>Backoff\<close>

text \<open>
  \<open>rand.Int64N\<close> panics on a bound below one; its draw is a parameter. A shift count of 64 or more
  gives zero.
\<close>

definition shl_one :: "int \<Rightarrow> int" where
  "shl_one n = (if 64 \<le> n then 0 else i64 (2 ^ nat n))"

definition retryBackoff :: "int \<Rightarrow> int \<Rightarrow> int option" where
  "retryBackoff retry draw =
     (let retry = max retry 1;
          base = i64 (shl_one (i64 (retry - 1)) * 1000000000);
          window = base sdiv 4;
          bound = i64 (window + 1) in
      if bound \<le> 0 then None else Some (i64 (base + draw)))"

definition backoff_base :: "int \<Rightarrow> int" where
  "backoff_base retry = 2 ^ nat (max retry 1 - 1) * 1000000000"

lemma retryBackoff_in_range:
  assumes "retry \<le> 33" "0 \<le> draw" "draw \<le> backoff_base retry div 4"
  shows "\<exists>d. retryBackoff retry draw = Some d \<and> backoff_base retry \<le> d \<and>
           4 * d \<le> 5 * backoff_base retry \<and> d \<le> MaxInt64"
proof -
  let ?n = "max retry 1 - 1" and ?b = "backoff_base retry"
  have "(2 :: int) ^ nat ?n \<le> 2 ^ 32" using assms(1) by (intro power_increasing) auto
  then have p: "2 ^ nat ?n \<le> (4294967296 :: int)" by simp
  have p0: "(1 :: int) \<le> 2 ^ nat ?n" by simp
  have n: "i64 ?n = ?n" using assms(1) by (intro i64_id) auto
  have s: "shl_one ?n = 2 ^ nat ?n"
    using assms(1) i64_id [of "2 ^ nat ?n"] p p0 by (simp add: shl_one_def)
  have b: "i64 (2 ^ nat ?n * 1000000000) = ?b"
    unfolding backoff_base_def using p p0 by (intro i64_id) linarith+
  have bb: "0 \<le> ?b" "?b \<le> 4294967296000000000" using p p0 by (simp_all add: backoff_base_def)
  have w: "?b sdiv 4 = ?b div 4" using bb(1) by (simp add: signed_divide_int_def sgn_if)
  have q: "0 \<le> ?b div 4" "4 * (?b div 4) \<le> ?b" using bb by auto
  have "i64 (?b div 4 + 1) = ?b div 4 + 1" using q bb by (intro i64_id) linarith+
  moreover have "i64 (?b + draw) = ?b + draw" using q bb assms by (intro i64_id) linarith+
  ultimately have "retryBackoff retry draw = Some (?b + draw)"
    using q(1) by (simp add: retryBackoff_def Let_def n s b w)
  moreover have "4 * draw \<le> ?b" using assms(3) by presburger
  moreover have "?b + draw \<le> MaxInt64" using q bb assms(3) by linarith
  ultimately show ?thesis using assms(2) by (simp add: algebra_simps)
qed

text \<open>From the thirty-fifth retry on the doubling overflows and drawing the jitter panics.\<close>

lemma retryBackoff_overflows: "retryBackoff 35 draw = None"
  by (simp add: retryBackoff_def shl_one_def i64_def signed_divide_int_def)

end
