(* ===== verification/Glob.thy ===== *)
theory Glob
  imports Prelude
begin

text \<open>
  The wildcard matcher of one path segment in \<open>internal/uploader/gitignore.go\<close>: character
  classes (\<open>splitClass\<close>, \<open>classContains\<close>), the backtracking matcher \<open>matchSegmentHere\<close>
  and its metacharacter-free fast path \<open>matchSegment\<close>. The declarative meaning of a segment
  pattern is the inductive relation \<open>glob\<close>; the matcher is proved to decide it, the fast
  path included.
\<close>

section \<open>Character classes\<close>

abbreviation BS :: char where
  "BS \<equiv> CHR 0x5C"

text \<open>The scan for the closing bracket; the code's index arithmetic is the recursion's suffix.\<close>

fun find_close :: "string \<Rightarrow> (string \<times> string) option" where
  "find_close [] = None"
| "find_close (c # cs) =
     (if c = CHR '']'' then Some ([], cs)
      else if c = BS then
        (case cs of [] \<Rightarrow> None
         | x # r \<Rightarrow> map_option (\<lambda>(b, t). (c # x # b, t)) (find_close r))
      else map_option (\<lambda>(b, t). (c # b, t)) (find_close cs))"

definition splitClass :: "string \<Rightarrow> (string \<times> string) option" where
  "splitClass pat =
     (case pat of [] \<Rightarrow> None
      | _ # cs \<Rightarrow>
          (case cs of
             x # r \<Rightarrow> if x = CHR '']'' then map_option (\<lambda>(b, t). (x # b, t)) (find_close r)
                     else find_close cs
           | [] \<Rightarrow> None))"

fun classContains :: "string \<Rightarrow> char \<Rightarrow> bool" where
  "classContains [] c = False"
| "classContains [x] c = (x = c)"
| "classContains [x, y] c =
     (if x = BS then c = y else x = c \<or> y = c)"
| "classContains (x # y # z # r) c =
     (if x = BS then c = y \<or> classContains (z # r) c
      else if y = CHR ''-'' then (x \<le> c \<and> c \<le> z) \<or> classContains r c
      else x = c \<or> classContains (y # z # r) c)"

text \<open>The negation prefix of a class and the verdict on one character.\<close>

definition class_accepts :: "string \<Rightarrow> char \<Rightarrow> bool" where
  "class_accepts body c =
     (if has_prefix body ''!'' \<or> has_prefix body ''^''
      then \<not> classContains (tl body) c else classContains body c)"

lemma find_close_shorter: "find_close s = Some (b, t) \<Longrightarrow> length t < length s"
proof (induction s arbitrary: b t rule: find_close.induct)
  case (2 c cs)
  show ?case
  proof (cases "c = CHR '']''")
    case True
    with 2 show ?thesis by simp
  next
    case nc: False
    show ?thesis
    proof (cases "c = BS")
      case True
      with nc 2 show ?thesis by (fastforce split: list.splits)
    next
      case False
      with nc 2 show ?thesis by fastforce
    qed
  qed
qed simp

lemma splitClass_shorter: "splitClass pat = Some (b, t) \<Longrightarrow> length t < length pat"
proof -
  assume a: "splitClass pat = Some (b, t)"
  then obtain p cs where pat: "pat = p # cs" by (cases pat) (auto simp: splitClass_def)
  with a obtain x r where cs: "cs = x # r" by (cases cs) (auto simp: splitClass_def)
  from a pat cs have "(\<exists>b'. find_close r = Some (b', t)) \<or> find_close cs = Some (b, t)"
    by (auto simp: splitClass_def split: if_splits)
  then have "length t < length cs"
    using cs find_close_shorter by fastforce
  with pat show ?thesis by simp
qed

section \<open>The matcher\<close>

fun tails :: "'a list \<Rightarrow> 'a list list" where
  "tails [] = [[]]"
| "tails (x # xs) = (x # xs) # tails xs"

lemma set_tails: "set (tails s) = {t. suffix t s}"
  by (induction s) (auto simp: suffix_Cons)

function matchSegmentHere :: "string \<Rightarrow> string \<Rightarrow> bool" where
  "matchSegmentHere [] str = (str = [])"
| "matchSegmentHere (p # ps) str =
     (if p = BS then
        (case ps of
           [] \<Rightarrow> str = [BS]
         | x # ps' \<Rightarrow> (case str of [] \<Rightarrow> False | c # cs \<Rightarrow> c = x \<and> matchSegmentHere ps' cs))
      else if p = CHR ''?'' then
        (case str of [] \<Rightarrow> False | c # cs \<Rightarrow> matchSegmentHere ps cs)
      else if p = CHR ''*'' then list_ex (\<lambda>rest. matchSegmentHere ps rest) (tails str)
      else if p = CHR ''['' then
        (case splitClass (p # ps) of
           None \<Rightarrow> str = ''['' \<and> matchSegmentHere ps []
         | Some (body, rest) \<Rightarrow>
             (case str of [] \<Rightarrow> False
              | c # cs \<Rightarrow> class_accepts body c \<and> matchSegmentHere rest cs))
      else (case str of [] \<Rightarrow> False | c # cs \<Rightarrow> c = p \<and> matchSegmentHere ps cs))"
  by pat_completeness auto
termination
  by (relation "measure (\<lambda>(p, s). length p)") (auto dest: splitClass_shorter)

declare matchSegmentHere.simps(2) [simp del]

definition plain_pattern :: "string \<Rightarrow> bool" where
  "plain_pattern pat \<longleftrightarrow>
     list_all (\<lambda>c. c \<noteq> CHR ''*'' \<and> c \<noteq> CHR ''?'' \<and> c \<noteq> CHR ''['' \<and> c \<noteq> BS) pat"

definition matchSegment :: "string \<Rightarrow> string \<Rightarrow> bool" where
  "matchSegment pat str = (if plain_pattern pat then pat = str else matchSegmentHere pat str)"

section \<open>The meaning of a segment pattern\<close>

inductive glob :: "string \<Rightarrow> string \<Rightarrow> bool" where
  glob_end: "glob [] []"
| glob_escape: "glob ps s \<Longrightarrow> glob (BS # x # ps) (x # s)"
| glob_lone_bs: "glob [BS] [BS]"
| glob_any: "glob ps s \<Longrightarrow> glob (CHR ''?'' # ps) (c # s)"
| glob_star: "glob ps s \<Longrightarrow> glob (CHR ''*'' # ps) (run @ s)"
| glob_class: "splitClass (CHR ''['' # ps) = Some (body, rest) \<Longrightarrow> class_accepts body c \<Longrightarrow>
    glob rest s \<Longrightarrow> glob (CHR ''['' # ps) (c # s)"
| glob_open: "splitClass (CHR ''['' # ps) = None \<Longrightarrow> glob ps [] \<Longrightarrow> glob (CHR ''['' # ps) ''[''"
| glob_char: "c \<noteq> BS \<Longrightarrow> c \<noteq> CHR ''?'' \<Longrightarrow> c \<noteq> CHR ''*'' \<Longrightarrow> c \<noteq> CHR ''['' \<Longrightarrow>
    glob ps s \<Longrightarrow> glob (c # ps) (c # s)"

lemma matcher_sound: "matchSegmentHere pat str \<Longrightarrow> glob pat str"
proof (induction pat str rule: matchSegmentHere.induct)
  case (1 str)
  then show ?case by (simp add: glob_end)
next
  case (2 p ps str)
  note m = "2.prems" [unfolded matchSegmentHere.simps(2)]
  consider "p = BS" | "p = CHR ''?''" | "p = CHR ''*''" | "p = CHR ''[''"
    | "p \<noteq> BS" "p \<noteq> CHR ''?''" "p \<noteq> CHR ''*''" "p \<noteq> CHR ''[''" by blast
  then show ?case
  proof cases
    case 1
    with m 2 show ?thesis by (auto split: list.splits intro: glob_escape glob_lone_bs)
  next
    case 3
    with m obtain t where t: "suffix t str" "matchSegmentHere ps t"
      by (auto simp: list_ex_iff set_tails)
    with 3 "2.IH"(3) [of t] have "glob ps t" by (simp add: set_tails)
    with t(1) 3 show ?thesis by (auto simp: suffix_def intro: glob_star)
  next
    case 4
    show ?thesis
    proof (cases "splitClass (p # ps)")
      case None
      with 4 m "2.IH"(4) show ?thesis by (auto intro: glob_open)
    next
      case (Some br)
      obtain body rest where br: "br = (body, rest)" by (cases br)
      with 4 m Some obtain c cs where str: "str = c # cs" "class_accepts body c"
        "matchSegmentHere rest cs"
        by (auto split: list.splits)
      moreover have "glob rest cs"
        using "2.IH"(5) [OF _ _ _ _ Some br [symmetric] str(1)] 4 str(3) br by auto
      ultimately show ?thesis using 4 Some br by (auto intro: glob_class)
    qed
  qed (use m 2 in \<open>auto split: list.splits intro: glob_any glob_char\<close>)
qed

lemma matcher_complete: "glob pat str \<Longrightarrow> matchSegmentHere pat str"
proof (induction rule: glob.induct)
  case (glob_star ps s run)
  then show ?case
    by (auto simp: matchSegmentHere.simps(2) list_ex_iff set_tails suffix_def)
qed (auto simp: matchSegmentHere.simps(2))

lemma matchSegmentHere_glob: "matchSegmentHere pat str \<longleftrightarrow> glob pat str"
  using matcher_sound matcher_complete by blast

lemma plain_matcher: "plain_pattern pat \<Longrightarrow> matchSegmentHere pat str \<longleftrightarrow> pat = str"
proof (induction pat arbitrary: str)
  case (Cons p ps)
  then show ?case
    by (cases str) (auto simp: plain_pattern_def matchSegmentHere.simps(2))
qed auto

text \<open>
  One segment pattern against one path segment: the matcher with its
  metacharacter-free fast path decides exactly the declarative meaning of the pattern, whatever
  the pattern contains (escapes, wildcards, classes, an unterminated class, a trailing backslash).
\<close>

theorem matchSegment_correct: "matchSegment pat str \<longleftrightarrow> glob pat str"
  by (auto simp: matchSegment_def plain_matcher matchSegmentHere_glob [symmetric])

end
