(* ===== verification/Segments.thy ===== *)
theory Segments
  imports Glob
begin

text \<open>
  Matching a slash-separated pattern against a slash-separated path, segment by segment
  (\<open>matchSegmentsExact\<close> and its helpers in \<open>internal/uploader/gitignore.go\<close>). The code's
  recursion for patterns with \<open>**\<close> threads a memo table keyed by (pattern index, path index);
  it is modelled with the table passed along. The declarative meaning is \<open>seg_lang\<close>; the
  memoised matcher and the plain fast path are proved to decide it.
\<close>

section \<open>The two matchers\<close>

abbreviation star_star :: string where
  "star_star \<equiv> ''**''"

definition containsStarStar :: "string list \<Rightarrow> bool" where
  "containsStarStar pat \<longleftrightarrow> list_ex (\<lambda>s. s = star_star) pat"

fun matchSegmentsPlain :: "string list \<Rightarrow> string list \<Rightarrow> bool" where
  "matchSegmentsPlain [] segs = True"
| "matchSegmentsPlain (p # ps) [] = False"
| "matchSegmentsPlain (p # ps) (s # ss) = (matchSegment p s \<and> matchSegmentsPlain ps ss)"

type_synonym memo = "nat \<times> nat \<Rightarrow> bool option"

text \<open>
  \<open>matchSegmentsExactAt\<close> at pattern index \<open>pi\<close> and path index \<open>si\<close>, with the remaining
  pattern and path as suffixes; \<open>exact_loop\<close> is its loop over the path positions a
  \<open>**\<close> in the middle may end at (the first call, at \<open>si\<close> itself, included).
\<close>

fun matchSegmentsExactAt :: "nat \<Rightarrow> string list \<Rightarrow> nat \<Rightarrow> string list \<Rightarrow> memo \<Rightarrow> bool \<times> memo"
  and exact_loop :: "nat \<Rightarrow> string list \<Rightarrow> nat \<Rightarrow> string list \<Rightarrow> memo \<Rightarrow> bool \<times> memo" where
  "matchSegmentsExactAt pi [] si ss memo =
     (case memo (pi, si) of Some v \<Rightarrow> (v, memo)
      | None \<Rightarrow> let res = (ss = []) in (res, memo((pi, si) \<mapsto> res)))"
| "matchSegmentsExactAt pi (p # ps) si ss memo =
     (case memo (pi, si) of Some v \<Rightarrow> (v, memo)
      | None \<Rightarrow>
          if p = star_star then
            if ps = [] then let res = (ss \<noteq> []) in (res, memo((pi, si) \<mapsto> res))
            else let (res, m) = exact_loop (Suc pi) ps si ss memo in (res, m((pi, si) \<mapsto> res))
          else
            (case ss of
               [] \<Rightarrow> (False, memo((pi, si) \<mapsto> False))
             | s # ss' \<Rightarrow>
                 if \<not> matchSegment p s then (False, memo((pi, si) \<mapsto> False))
                 else let (res, m) = matchSegmentsExactAt (Suc pi) ps (Suc si) ss' memo
                      in (res, m((pi, si) \<mapsto> res))))"
| "exact_loop pi ps j ss memo =
     (let (r, m) = matchSegmentsExactAt pi ps j ss memo in
      if r then (True, m)
      else (case ss of [] \<Rightarrow> (False, m) | _ # ss' \<Rightarrow> exact_loop pi ps (Suc j) ss' m))"

definition matchSegmentsExact :: "string list \<Rightarrow> string list \<Rightarrow> bool" where
  "matchSegmentsExact pat segs =
     (if \<not> containsStarStar pat then length pat = length segs \<and> matchSegmentsPlain pat segs
      else fst (matchSegmentsExactAt 0 pat 0 segs Map.empty))"

section \<open>The meaning of a segmented pattern\<close>

inductive seg_lang :: "string list \<Rightarrow> string list \<Rightarrow> bool" where
  seg_end: "seg_lang [] []"
| seg_one: "p \<noteq> star_star \<Longrightarrow> glob p s \<Longrightarrow> seg_lang ps ss \<Longrightarrow> seg_lang (p # ps) (s # ss)"
| seg_trailing: "ss \<noteq> [] \<Longrightarrow> seg_lang [star_star] ss"
| seg_span: "ps \<noteq> [] \<Longrightarrow> seg_lang ps ss \<Longrightarrow> seg_lang (star_star # ps) (spanned @ ss)"

inductive_simps seg_lang_Nil [simp]: "seg_lang [] ss"

text \<open>The same relation as a recursion, the form the proofs unfold.\<close>

fun seg_match :: "string list \<Rightarrow> string list \<Rightarrow> bool" where
  "seg_match [] ss = (ss = [])"
| "seg_match (p # ps) ss =
     (if p = star_star then if ps = [] then ss \<noteq> [] else list_ex (seg_match ps) (tails ss)
      else (case ss of [] \<Rightarrow> False | s # ss' \<Rightarrow> matchSegment p s \<and> seg_match ps ss'))"

declare seg_match.simps(2) [simp del]

lemma seg_match_lang: "seg_match pat segs \<longleftrightarrow> seg_lang pat segs"
proof
  show "seg_match pat segs \<Longrightarrow> seg_lang pat segs"
  proof (induction pat arbitrary: segs)
    case Nil
    then show ?case by (simp add: seg_end)
  next
    case (Cons p ps)
    note m = Cons.prems [unfolded seg_match.simps(2)]
    show ?case
    proof (cases "p = star_star")
      case False
      with m Cons.IH show ?thesis
        by (auto split: list.splits simp: matchSegment_correct intro: seg_one)
    next
      case True
      show ?thesis
      proof (cases "ps = []")
        case False
        with True m obtain t where "suffix t segs" "seg_match ps t"
          by (auto simp: list_ex_iff set_tails)
        with Cons.IH False True show ?thesis by (auto simp: suffix_def intro: seg_span)
      qed (use True m in \<open>auto intro: seg_trailing\<close>)
    qed
  qed
next
  show "seg_lang pat segs \<Longrightarrow> seg_match pat segs"
  proof (induction rule: seg_lang.induct)
    case (seg_span ps ss spanned)
    then show ?case
      by (auto simp: seg_match.simps(2) list_ex_iff set_tails suffix_def)
  qed (auto simp: seg_match.simps(2) matchSegment_correct)
qed

section \<open>The memo table\<close>

text \<open>Every entry of the table answers the question its key asks about this pattern and path.\<close>

definition memo_ok :: "string list \<Rightarrow> string list \<Rightarrow> memo \<Rightarrow> bool" where
  "memo_ok pat segs m \<longleftrightarrow>
     (\<forall>pi si v. m (pi, si) = Some v \<longrightarrow> v = seg_match (drop pi pat) (drop si segs))"

lemma memo_ok_empty [simp]: "memo_ok pat segs Map.empty"
  by (simp add: memo_ok_def)

lemma memo_ok_upd:
  "memo_ok pat segs m \<Longrightarrow> v = seg_match (drop pi pat) (drop si segs) \<Longrightarrow>
     memo_ok pat segs (m((pi, si) \<mapsto> v))"
  by (auto simp: memo_ok_def)

lemma memo_ok_hit: "memo_ok pat segs m \<Longrightarrow> m (pi, si) = Some v \<Longrightarrow> v = seg_match (drop pi pat) (drop si segs)"
  by (auto simp: memo_ok_def)

lemma drop_Suc_eq: "drop n xs = y # ys \<Longrightarrow> drop (Suc n) xs = ys"
  by (metis drop_Suc list.sel(3) tl_drop)

text \<open>
  Both functions answer the reference matcher's verdict on their suffixes and keep the table
  correct: one induction over the two of them.
\<close>

lemma exact_correct:
  "memo_ok pat segs memo \<Longrightarrow> drop pi pat = p \<Longrightarrow> drop si segs = ss \<Longrightarrow>
     matchSegmentsExactAt pi p si ss memo = (r, m) \<Longrightarrow> r = seg_match p ss \<and> memo_ok pat segs m"
  "memo_ok pat segs memo \<Longrightarrow> drop pi pat = p \<Longrightarrow> drop si segs = ss \<Longrightarrow>
     exact_loop pi p si ss memo = (r, m) \<Longrightarrow> r = list_ex (seg_match p) (tails ss) \<and> memo_ok pat segs m"
proof (induction pi p si ss memo and pi p si ss memo arbitrary: r m and r m
    rule: matchSegmentsExactAt_exact_loop.induct)
  case (1 pi si ss memo)
  show ?case
  proof (cases "memo (pi, si)")
    case None
    have "memo_ok pat segs (memo((pi, si) \<mapsto> (ss = [])))"
      by (rule memo_ok_upd [OF 1(1)]) (simp only: 1(2,3) seg_match.simps(1))
    with 1(4) None show ?thesis by (auto simp: Let_def)
  next
    case (Some v)
    with 1 memo_ok_hit [OF 1(1) Some] show ?thesis by auto
  qed
next
  case (2 pi p ps si ss memo)
  have ps: "drop (Suc pi) pat = ps" using 2(4) by (rule drop_Suc_eq)
  show ?case
  proof (cases "memo (pi, si)")
    case (Some v)
    with 2 memo_ok_hit [OF 2(3) Some] show ?thesis by auto
  next
    case None
    note eq = seg_match.simps(2) [of p ps ss]
    have upd: "r = seg_match (p # ps) ss \<and> memo_ok pat segs m" if "memo_ok pat segs m'" "v = seg_match (p # ps) ss"
      "(v, m'((pi, si) \<mapsto> v)) = (r, m)" for m' v
    proof -
      have "memo_ok pat segs (m'((pi, si) \<mapsto> v))"
        by (rule memo_ok_upd [OF that(1)]) (simp only: 2(4,5) that(2))
      with that(2,3) show ?thesis by blast
    qed
    note run = 2(6) [unfolded matchSegmentsExactAt.simps(2) None option.case]
    show ?thesis
    proof (cases "p = star_star")
      case star: True
      show ?thesis
      proof (cases "ps = []")
        case True
        show ?thesis
          by (rule upd [OF 2(3), of "ss \<noteq> []"], use eq star True in simp,
              use run star True in \<open>auto simp: Let_def\<close>)
      next
        case False
        obtain r' m' where l: "exact_loop (Suc pi) ps si ss memo = (r', m')" by fastforce
        with "2.IH"(1) [OF None star False 2(3) ps 2(5)]
        have r': "r' = list_ex (seg_match ps) (tails ss)" "memo_ok pat segs m'" by blast+
        show ?thesis
          by (rule upd [OF r'(2), of r'], use r'(1) eq star False in simp, use run l star False in \<open>auto simp del: exact_loop.simps\<close>)
      qed
    next
      case np: False
      show ?thesis
      proof (cases ss)
        case Nil
        show ?thesis
          by (rule upd [OF 2(3), of False]) (use eq Nil np in simp, use run Nil np in auto)
      next
        case (Cons s ss')
        show ?thesis
        proof (cases "matchSegment p s")
          case False
          show ?thesis
            by (rule upd [OF 2(3), of False]) (use eq False Cons np in simp, use run False Cons np in auto)
        next
          case True
          obtain r' m' where l: "matchSegmentsExactAt (Suc pi) ps (Suc si) ss' memo = (r', m')"
            by fastforce
          have "drop (Suc si) segs = ss'" using 2(5) Cons by (auto intro: drop_Suc_eq)
          with "2.IH"(2) [OF None np Cons _ 2(3) ps] l True
          have r': "r' = seg_match ps ss'" "memo_ok pat segs m'" by blast+
          show ?thesis
            by (rule upd [OF r'(2), of r'], use r'(1) eq True Cons np in simp,
                use run l True Cons np in auto)
        qed
      qed
    qed
  qed
next
  case (3 pi ps j ss memo)
  obtain r' m' where l: "matchSegmentsExactAt pi ps j ss memo = (r', m')" by fastforce
  with "3.IH"(1) [OF 3(3,4,5)] have r': "r' = seg_match ps ss" "memo_ok pat segs m'" by auto
  show ?case
  proof (cases "r' \<or> ss = []")
    case True
    with l r' 3(6) show ?thesis by (cases ss) auto
  next
    case False
    then obtain s ss' where ss: "ss = s # ss'" by (cases ss) auto
    have d: "drop (Suc j) segs = ss'" using 3(5) ss by (auto intro: drop_Suc_eq)
    have "exact_loop pi ps (Suc j) ss' m' = (r, m)" using 3(6) l False ss by auto
    with "3.IH"(2) [OF l [symmetric] refl _ ss r'(2) 3(4) d] False
    have "r = list_ex (seg_match ps) (tails ss') \<and> memo_ok pat segs m" by auto
    with False r' ss show ?thesis by auto
  qed
qed

lemma plain_segments:
  "\<not> containsStarStar pat \<Longrightarrow> length pat = length segs \<Longrightarrow>
     matchSegmentsPlain pat segs = seg_match pat segs"
  by (induction pat segs rule: matchSegmentsPlain.induct)
    (auto simp: containsStarStar_def seg_match.simps(2))

lemma plain_length: "\<not> containsStarStar pat \<Longrightarrow> seg_match pat segs \<Longrightarrow> length pat = length segs"
  by (induction pat arbitrary: segs)
    (auto simp: containsStarStar_def seg_match.simps(2) split: list.splits)

lemma matchSegmentsExact_seg_match: "matchSegmentsExact pat segs = seg_match pat segs"
proof (cases "containsStarStar pat")
  case True
  obtain r m where "matchSegmentsExactAt 0 pat 0 segs Map.empty = (r, m)" by fastforce
  with exact_correct(1) [of pat segs Map.empty 0 pat 0 segs r m] True show ?thesis
    by (simp add: matchSegmentsExact_def)
next
  case False
  with plain_segments plain_length show ?thesis
    by (auto simp: matchSegmentsExact_def)
qed

text \<open>
  Property C10. Pattern segments against path segments: the memoised recursion (and the fast path
  for patterns without \<open>**\<close>) decides exactly the declarative language, so no verdict depends
  on what an earlier branch of the search left in the table.
\<close>

theorem matchSegmentsExact_correct: "matchSegmentsExact pat segs \<longleftrightarrow> seg_lang pat segs"
  by (simp add: matchSegmentsExact_seg_match seg_match_lang)

section \<open>Runs of double stars\<close>

text \<open>The collapsing loop at the end of \<open>parseGitignoreSegments\<close>: a \<open>**\<close> after a \<open>**\<close> is dropped.\<close>

fun collapse_stars :: "string list \<Rightarrow> string list" where
  "collapse_stars [] = []"
| "collapse_stars [s] = [s]"
| "collapse_stars (s # t # r) =
     (if s = star_star \<and> t = star_star then collapse_stars (t # r) else s # collapse_stars (t # r))"

lemma collapse_Nil [simp]: "collapse_stars ps = [] \<longleftrightarrow> ps = []"
  by (induction ps rule: collapse_stars.induct) auto

lemma tails_tails: "list_ex (\<lambda>t. list_ex P (tails t)) (tails ss) = list_ex P (tails ss)"
  by (auto simp: list_ex_iff set_tails intro: suffix_order.trans)

lemma tails_self: "list_ex P (tails ss) \<longleftrightarrow> P ss \<or> (ss \<noteq> [] \<and> list_ex P (tails (tl ss)))"
  by (cases ss) auto

lemma star_star_twice:
  "seg_match (star_star # star_star # ps) ss = seg_match (star_star # ps) ss"
proof (cases "ps = []")
  case True
  have e: "list_ex (\<lambda>t. t \<noteq> []) (tails ss) \<longleftrightarrow> ss \<noteq> []"
    by (cases ss) (auto simp: list_ex_iff set_tails)
  have one: "seg_match [star_star] = (\<lambda>t. t \<noteq> [])"
    by (intro ext) (simp add: seg_match.simps(2))
  show ?thesis
    by (subst seg_match.simps(2)) (simp add: True one e)
next
  case False
  then have "seg_match (star_star # ps) = (\<lambda>t. list_ex (seg_match ps) (tails t))"
    by (intro ext) (simp add: seg_match.simps(2))
  with False show ?thesis
    by (subst seg_match.simps(2)) (simp add: tails_tails seg_match.simps(2))
qed

lemma collapse_seg_match: "seg_match (collapse_stars ps) ss = seg_match ps ss"
proof (induction ps arbitrary: ss rule: collapse_stars.induct)
  case (3 s t r)
  show ?case
  proof (cases "s = star_star \<and> t = star_star")
    case True
    with 3 show ?thesis by (simp add: star_star_twice)
  next
    case False
    with 3 have "seg_match (collapse_stars (t # r)) = seg_match (t # r)" by (intro ext) auto
    with False show ?thesis by (simp add: seg_match.simps(2) cong: list.case_cong)
  qed
qed auto

text \<open>
  Collapsing a run of \<open>**\<close> segments, which parsing does to keep the memo table
  small, changes no verdict.
\<close>

theorem collapse_stars_same_meaning:
  "matchSegmentsExact (collapse_stars ps) ss = matchSegmentsExact ps ss"
  by (simp add: matchSegmentsExact_seg_match collapse_seg_match)

end
