(* ===== verification/Gitignore.thy ===== *)
theory Gitignore
  imports Segments
begin

text \<open>
  Exclude patterns as a whole (\<open>internal/uploader/gitignore.go\<close>): parsing of the lines
  (\<open>compileGitignore\<close>, \<open>trimRightUnescapedSpace\<close>, \<open>parseGitignoreSegments\<close>) and the
  verdict on a path over all patterns and all ancestors (\<open>matchesPath\<close>, \<open>lastMatchIdx\<close>,
  \<open>matchesHow\<close>), with the planner's \<open>hasNegation\<close>. The lemmas characterise the verdict by the
  index of the deciding line and show that a directory may be pruned when no line re-includes.
\<close>

section \<open>Patterns and their parsing\<close>

record gitignorePattern =
  Line :: string
  negate :: bool
  dirOnly :: bool
  anchored :: bool
  segments :: "string list"

datatype pattern_error =
    UnterminatedClass nat string
  | LoneBackslash nat string
  | NulByte nat string

text \<open>The trimming loop, from the end of the line: an odd run of backslashes keeps the space.\<close>

fun trim_space_rev :: "string \<Rightarrow> string" where
  "trim_space_rev [] = []"
| "trim_space_rev (c # r) =
     (if c \<noteq> CHR '' '' then c # r
      else if odd (length (takeWhile (\<lambda>x. x = BS) r)) then c # r
      else trim_space_rev r)"

definition trimRightUnescapedSpace :: "string \<Rightarrow> string" where
  "trimRightUnescapedSpace line = rev (trim_space_rev (rev line))"

text \<open>The class check: \<open>prev\<close> is the byte before the scanned suffix.\<close>

function classes_closed :: "char option \<Rightarrow> string \<Rightarrow> bool" where
  "classes_closed prev [] = True"
| "classes_closed prev (c # r) =
     (if c \<noteq> CHR ''['' \<or> prev = Some BS then classes_closed (Some c) r
      else (case splitClass (c # r) of
              None \<Rightarrow> False
            | Some (_, rest) \<Rightarrow> classes_closed (Some (CHR '']'')) rest))"
  by pat_completeness auto
termination
  by (relation "measure (\<lambda>(p, s). length s)") (auto dest: splitClass_shorter)

definition parseGitignoreSegments ::
    "string \<Rightarrow> nat \<Rightarrow> string \<Rightarrow> (pattern_error, string list) result" where
  "parseGitignoreSegments body lineNo raw =
     (if \<not> classes_closed None body then Inl (UnterminatedClass lineNo raw)
      else if body \<noteq> [] \<and> last body = BS then Inl (LoneBackslash lineNo raw)
      else if CHR 0x00 \<in> set body then Inl (NulByte lineNo raw)
      else Inr (collapse_stars (split_on (CHR ''/'') body)))"

text \<open>One iteration of the loop of \<open>compileGitignore\<close>; \<open>Inr None\<close> is a skipped line.\<close>

definition compile_line :: "nat \<Rightarrow> string \<Rightarrow> (pattern_error, gitignorePattern option) result" where
  "compile_line lineNo raw =
     (let line0 = trim_right_char (CHR 0x0D) raw in
      if has_prefix line0 ''#'' then Inr None
      else
        let line = trimRightUnescapedSpace line0 in
        if line = [] then Inr None
        else
          let neg = has_prefix line ''!'';
              body0 = (if neg \<or> has_prefix line [BS, CHR ''!''] then tl line else line) in
          if body0 = [] then Inr None
          else
            let trimmed0 = trim_suffix body0 ''/'';
                anch = has_prefix body0 ''/'' \<or> CHR ''/'' \<in> set trimmed0;
                body1 = (if has_prefix body0 ''/'' then tl body0 else body0);
                dir = has_suffix body1 ''/'';
                body = (if dir then trim_suffix body1 ''/'' else body1) in
            (case parseGitignoreSegments body lineNo raw of
               Inl e \<Rightarrow> Inl e
             | Inr segs \<Rightarrow> Inr (Some \<lparr>Line = raw, negate = neg, dirOnly = dir,
                                     anchored = anch, segments = segs\<rparr>)))"

fun compile_from :: "nat \<Rightarrow> string list \<Rightarrow> (pattern_error, gitignorePattern list) result" where
  "compile_from i [] = Inr []"
| "compile_from i (raw # lines) =
     bind_result (compile_line (i + 1) raw)
       (\<lambda>p. bind_result (compile_from (i + 1) lines)
         (\<lambda>ps. Inr (case p of None \<Rightarrow> ps | Some q \<Rightarrow> q # ps)))"

definition compileGitignore :: "string list \<Rightarrow> (pattern_error, gitignorePattern list) result" where
  "compileGitignore lines = compile_from 0 lines"

definition hasNegation :: "string list \<Rightarrow> bool" where
  "hasNegation lines \<longleftrightarrow> list_ex (\<lambda>l. has_prefix l ''!'') lines"

section \<open>The verdict\<close>

definition matchesPath :: "gitignorePattern \<Rightarrow> string list \<Rightarrow> bool \<Rightarrow> bool" where
  "matchesPath p segs isDir =
     (if dirOnly p \<and> \<not> isDir then False
      else if anchored p then matchSegmentsExact (segments p) segs
      else if segs = [] then False
      else matchSegmentsExact (segments p) [last segs])"

text \<open>The patterns last first: the index of the head of a reversed list is the length of its tail.\<close>

fun last_match_rev ::
    "gitignorePattern list \<Rightarrow> string list \<Rightarrow> bool \<Rightarrow> (bool \<times> gitignorePattern \<times> nat) option" where
  "last_match_rev [] segs isDir = None"
| "last_match_rev (p # r) segs isDir =
     (if matchesPath p segs isDir then Some (\<not> negate p, p, length r)
      else last_match_rev r segs isDir)"

definition lastMatchIdx ::
    "gitignorePattern list \<Rightarrow> string list \<Rightarrow> bool \<Rightarrow> (bool \<times> gitignorePattern \<times> nat) option" where
  "lastMatchIdx pats segs isDir = last_match_rev (rev pats) segs isDir"

text \<open>The walk over the proper ancestors, deepest first; the state is the deciding line so far.\<close>

fun ancestor_walk ::
    "gitignorePattern list \<Rightarrow> string list \<Rightarrow> nat \<Rightarrow> (nat \<times> gitignorePattern) option
       \<Rightarrow> (nat \<times> gitignorePattern) option" where
  "ancestor_walk pats segs 0 st = st"
| "ancestor_walk pats segs (Suc k) st =
     ancestor_walk pats segs k
       (case lastMatchIdx pats (take (Suc k) segs) True of
          Some (excluded, pat, idx) \<Rightarrow>
            if excluded \<and> (case st of None \<Rightarrow> True | Some (d, _) \<Rightarrow> idx > d) then Some (idx, pat) else st
        | None \<Rightarrow> st)"

definition matchesHow ::
    "gitignorePattern list \<Rightarrow> string \<Rightarrow> bool \<Rightarrow> bool \<times> gitignorePattern option" where
  "matchesHow pats p isDir =
     (if p = ''.'' then (False, None)
      else
        let segs = split_on (CHR ''/'') p;
            leaf = lastMatchIdx pats segs isDir in
        case leaf of
          Some (True, leafPat, _) \<Rightarrow> (True, Some leafPat)
        | _ \<Rightarrow>
          (case ancestor_walk pats segs (length segs - 1) None of
             Some (decidingIdx, deciding) \<Rightarrow>
               (case leaf of
                  Some (_, leafPat, leafIdx) \<Rightarrow>
                    if leafIdx > decidingIdx then (False, Some leafPat) else (True, Some deciding)
                | None \<Rightarrow> (True, Some deciding))
           | None \<Rightarrow> (False, map_option (\<lambda>(_, leafPat, _). leafPat) leaf)))"

section \<open>The last matching line\<close>

definition decides :: "gitignorePattern list \<Rightarrow> string list \<Rightarrow> bool \<Rightarrow> nat \<Rightarrow> bool" where
  "decides pats segs isDir i \<longleftrightarrow>
     i < length pats \<and> matchesPath (pats ! i) segs isDir \<and>
     (\<forall>j. i < j \<and> j < length pats \<longrightarrow> \<not> matchesPath (pats ! j) segs isDir)"

lemma decides_unique: "decides pats segs d i \<Longrightarrow> decides pats segs d j \<Longrightarrow> i = j"
  by (metis decides_def linorder_neqE_nat)

lemma lastMatchIdx_snoc [simp]:
  "lastMatchIdx (pats @ [p]) segs d =
     (if matchesPath p segs d then Some (\<not> negate p, p, length pats) else lastMatchIdx pats segs d)"
  by (simp add: lastMatchIdx_def)

lemma decides_snoc_other:
  assumes "\<not> matchesPath q segs d"
  shows "decides (qs @ [q]) segs d i \<longleftrightarrow> decides qs segs d i"
proof -
  have n: "(qs @ [q]) ! j = (if j < length qs then qs ! j else q)" if "j < Suc (length qs)" for j
    using that by (cases "j < length qs") (auto simp: nth_append not_less le_less_Suc_eq)
  show ?thesis
    using assms unfolding decides_def length_append_singleton
    by (metis n less_SucI not_less_eq)
qed

lemma lastMatchIdx_Some:
  "lastMatchIdx pats segs d = Some (e, p, i) \<longleftrightarrow>
     decides pats segs d i \<and> p = pats ! i \<and> e = (\<not> negate (pats ! i))"
proof (induction pats rule: rev_induct)
  case Nil
  show ?case by (simp add: lastMatchIdx_def decides_def)
next
  case (snoc q qs)
  show ?case
  proof (cases "matchesPath q segs d")
    case True
    have "decides (qs @ [q]) segs d (length qs)" using True by (auto simp: decides_def)
    then have "decides (qs @ [q]) segs d i \<longleftrightarrow> i = length qs" using decides_unique by blast
    with True show ?thesis by (auto simp only: lastMatchIdx_snoc nth_append_length simp_thms if_True
        option.inject prod.inject)
  next
    case False
    then have e: "decides (qs @ [q]) segs d i \<longleftrightarrow> decides qs segs d i"
      by (rule decides_snoc_other)
    have n: "decides qs segs d i \<Longrightarrow> (qs @ [q]) ! i = qs ! i"
      by (simp add: decides_def nth_append)
    show ?thesis
      by (simp only: lastMatchIdx_snoc False if_False snoc e) (use n in auto)
  qed
qed

lemma lastMatchIdx_None: "lastMatchIdx pats segs d = None \<longleftrightarrow> (\<forall>i. \<not> decides pats segs d i)"
  by (metis lastMatchIdx_Some option.exhaust prod_cases3 option.distinct(1))

text \<open>An ancestor of a path, at depth \<open>k\<close>, is excluded by line \<open>i\<close>.\<close>

definition excludes_at :: "gitignorePattern list \<Rightarrow> string list \<Rightarrow> nat \<Rightarrow> nat \<Rightarrow> bool" where
  "excludes_at pats segs k i \<longleftrightarrow> decides pats (take k segs) True i \<and> \<not> negate (pats ! i)"

lemma excludes_at_last:
  "excludes_at pats segs k i \<longleftrightarrow> lastMatchIdx pats (take k segs) True = Some (True, pats ! i, i)"
  by (auto simp: excludes_at_def lastMatchIdx_Some)

lemma excludes_at_unique: "excludes_at pats segs k i \<Longrightarrow> excludes_at pats segs k j \<Longrightarrow> i = j"
  by (auto simp: excludes_at_def dest: decides_unique)

text \<open>
  The walk keeps the largest excluding index: \<open>walk_best\<close> says so of a state \<open>st\<close> extended
  by the depths \<open>1 .. k\<close>.
\<close>

definition walk_best ::
    "gitignorePattern list \<Rightarrow> string list \<Rightarrow> nat set \<Rightarrow> (nat \<times> gitignorePattern) option \<Rightarrow> bool" where
  "walk_best pats segs depths st \<longleftrightarrow>
     (case st of
        None \<Rightarrow> \<forall>k \<in> depths. \<forall>i. \<not> excludes_at pats segs k i
      | Some (d, p) \<Rightarrow> p = pats ! d \<and> (\<exists>k \<in> depths. excludes_at pats segs k d) \<and>
          (\<forall>k \<in> depths. \<forall>i. excludes_at pats segs k i \<longrightarrow> i \<le> d))"

lemma walk_best_insert:
  assumes "walk_best pats segs depths st"
  shows "walk_best pats segs (insert k depths)
     (case lastMatchIdx pats (take k segs) True of
        Some (excluded, pat, idx) \<Rightarrow>
          if excluded \<and> (case st of None \<Rightarrow> True | Some (d, _) \<Rightarrow> idx > d) then Some (idx, pat) else st
      | None \<Rightarrow> st)"
proof (cases "\<exists>i. excludes_at pats segs k i")
  case True
  then obtain i where i: "excludes_at pats segs k i" ..
  then have "excludes_at pats segs k j \<longleftrightarrow> j = i" for j
    using excludes_at_unique by blast
  with assms i [unfolded excludes_at_last] i show ?thesis
    by (cases st) (auto simp: walk_best_def dest: order.strict_implies_order
        intro: order.trans less_imp_le le_trans [OF _ less_imp_le])
next
  case False
  then have "\<nexists>p i. lastMatchIdx pats (take k segs) True = Some (True, p, i)"
    by (auto simp: excludes_at_def lastMatchIdx_Some)
  then have "(case lastMatchIdx pats (take k segs) True of
        Some (excluded, pat, idx) \<Rightarrow>
          if excluded \<and> (case st of None \<Rightarrow> True | Some (d, _) \<Rightarrow> idx > d) then Some (idx, pat) else st
      | None \<Rightarrow> st) = st"
    by (auto split: option.splits)
  then show ?thesis
    by (simp only:) (use assms False in \<open>cases st; auto simp: walk_best_def\<close>)
qed

lemma ancestor_walk_best:
  "walk_best pats segs depths st \<Longrightarrow>
     walk_best pats segs ({1..k} \<union> depths) (ancestor_walk pats segs k st)"
proof (induction k arbitrary: st depths)
  case (Suc k)
  have "{1..Suc k} \<union> depths = {1..k} \<union> insert (Suc k) depths" by auto
  with Suc.IH [OF walk_best_insert [OF Suc.prems]] show ?case
    by (simp del: Un_insert_right)
qed simp

section \<open>The verdict, declaratively\<close>

text \<open>
  A path is excluded when the last line matching the path itself excludes it, or when some proper
  ancestor is excluded by a line written after every line that matches the path itself.
\<close>

definition path_excluded :: "gitignorePattern list \<Rightarrow> string list \<Rightarrow> bool \<Rightarrow> bool" where
  "path_excluded pats segs isDir \<longleftrightarrow>
     (\<exists>i. decides pats segs isDir i \<and> \<not> negate (pats ! i)) \<or>
     (\<exists>k i. 1 \<le> k \<and> k < length segs \<and> excludes_at pats segs k i \<and>
        (\<forall>j. decides pats segs isDir j \<longrightarrow> j < i))"

lemma matchesHow_excluded:
  assumes "p \<noteq> ''.''"
  shows "fst (matchesHow pats p isDir) = path_excluded pats (split_on (CHR ''/'') p) isDir"
proof -
  define segs where "segs = split_on (CHR ''/'') p"
  define w where "w = ancestor_walk pats segs (length segs - 1) None"
  have "walk_best pats segs {} None" by (simp add: walk_best_def)
  from ancestor_walk_best [OF this, of "length segs - 1"]
  have wb: "walk_best pats segs {1..length segs - 1} w" by (simp add: w_def)
  have depth: "k \<in> {1..length segs - 1} \<longleftrightarrow> 1 \<le> k \<and> k < length segs" for k by auto
  show ?thesis
  proof (cases "lastMatchIdx pats segs isDir")
    case None
    then have nd: "\<not> decides pats segs isDir j" for j by (simp add: lastMatchIdx_None)
    have "fst (matchesHow pats p isDir) \<longleftrightarrow> w \<noteq> None"
      using assms None unfolding matchesHow_def Let_def segs_def [symmetric] w_def [symmetric]
      by (auto split: option.splits)
    also have "\<dots> \<longleftrightarrow> path_excluded pats segs isDir"
      using wb depth nd by (cases w) (auto simp: walk_best_def path_excluded_def)
    finally show ?thesis by (simp add: segs_def)
  next
    case (Some t)
    then obtain e q j where t: "lastMatchIdx pats segs isDir = Some (e, q, j)" by (cases t) auto
    then have dj: "decides pats segs isDir j" "e = (\<not> negate (pats ! j))"
      by (auto simp: lastMatchIdx_Some)
    have u: "decides pats segs isDir i \<longleftrightarrow> i = j" for i using dj(1) decides_unique by blast
    show ?thesis
    proof (cases e)
      case True
      with t have "fst (matchesHow pats p isDir)"
        using assms unfolding matchesHow_def Let_def segs_def [symmetric] by simp
      moreover have "path_excluded pats segs isDir"
        using True dj unfolding path_excluded_def by blast
      ultimately show ?thesis by (simp add: segs_def)
    next
      case False
      have ne: "\<not> excludes_at pats segs k j" for k
        using False dj(2) by (auto simp: excludes_at_def)
      have "fst (matchesHow pats p isDir) \<longleftrightarrow> (\<exists>d r. w = Some (d, r) \<and> \<not> j > d)"
        using assms t False unfolding matchesHow_def Let_def segs_def [symmetric] w_def [symmetric]
        by (cases w) auto
      also have "\<dots> \<longleftrightarrow> (\<exists>k i. 1 \<le> k \<and> k < length segs \<and> excludes_at pats segs k i \<and> j < i)"
      proof (cases w)
        case None
        with wb depth show ?thesis by (auto simp: walk_best_def)
      next
        case (Some dr)
        obtain d r where dr: "w = Some (d, r)" using Some by (cases dr) auto
        from wb dr obtain k where k: "1 \<le> k" "k < length segs" "excludes_at pats segs k d"
          using depth by (auto simp: walk_best_def)
        have le: "i \<le> d" if "1 \<le> k'" "k' < length segs" "excludes_at pats segs k' i" for k' i
          using wb dr depth that by (auto simp: walk_best_def)
        have "(\<exists>d r. w = Some (d, r) \<and> \<not> j > d) \<longleftrightarrow> j < d" (is "?L \<longleftrightarrow> _")
          using dr ne [of k] k(3) by (cases "d = j") auto
        also have "\<dots> \<longleftrightarrow> (\<exists>k i. 1 \<le> k \<and> k < length segs \<and> excludes_at pats segs k i \<and> j < i)"
          using k le less_le_trans by blast
        finally show ?thesis .
      qed
      also have "\<dots> \<longleftrightarrow> path_excluded pats segs isDir"
        using False dj(2) unfolding path_excluded_def u by blast
      finally show ?thesis by (simp add: segs_def)
    qed
  qed
qed

text \<open>
  Property C29. The verdict of \<open>matchesHow\<close> on any path other than the root: the last line that
  matches the path itself wins, except that an ancestor excluded by a later line excludes the path
  too, so a re-include counts exactly when it comes after every line excluding an ancestor.
\<close>

theorem matchesHow_last_line_wins:
  "fst (matchesHow pats p isDir) \<longleftrightarrow> p \<noteq> ''.'' \<and> path_excluded pats (split_on (CHR ''/'') p) isDir"
  using matchesHow_excluded [of p pats isDir] by (cases "p = ''.''") (simp_all add: matchesHow_def)

section \<open>Pruning excluded directories\<close>

lemma trim_space_suffix: "suffix (trim_space_rev r) r"
  by (induction r rule: trim_space_rev.induct) (auto intro: suffix_ConsI)

lemma trim_space_prefix: "prefix (trimRightUnescapedSpace line) line"
  using trim_space_suffix [of "rev line"]
  by (simp add: trimRightUnescapedSpace_def suffix_to_prefix)

lemma trim_right_prefix: "prefix (trim_right_char c line) line"
proof -
  have "suffix (dropWhile (\<lambda>x. x = c) (rev line)) (rev line)" by (rule suffix_dropWhile)
  then show ?thesis by (simp add: trim_right_char_def suffix_to_prefix)
qed

lemma has_prefix_mono: "prefix a b \<Longrightarrow> has_prefix a p \<Longrightarrow> has_prefix b p"
  unfolding has_prefix_def by (rule prefix_order.trans)

lemma compile_line_negate:
  assumes "compile_line n raw = Inr (Some q)"
  shows "negate q \<Longrightarrow> has_prefix raw ''!''"
proof -
  let ?line = "trimRightUnescapedSpace (trim_right_char (CHR 0x0D) raw)"
  have "negate q = has_prefix ?line ''!''"
    using assms by (auto simp: compile_line_def Let_def split: if_splits sum.splits)
  moreover have "prefix ?line raw"
    using trim_space_prefix trim_right_prefix by (rule prefix_order.trans)
  ultimately show "negate q \<Longrightarrow> has_prefix raw ''!''"
    using has_prefix_mono by simp
qed

lemma compile_from_negate:
  "compile_from n lines = Inr pats \<Longrightarrow> \<not> hasNegation lines \<Longrightarrow> q \<in> set pats \<Longrightarrow> \<not> negate q"
proof (induction lines arbitrary: n pats)
  case (Cons raw lines)
  then obtain r ps where r: "compile_line (n + 1) raw = Inr r" "compile_from (n + 1) lines = Inr ps"
    "pats = (case r of None \<Rightarrow> ps | Some q \<Rightarrow> q # ps)" by (auto simp del: bind_result.simps)
  have "\<not> hasNegation lines" "\<not> has_prefix raw ''!''" using Cons.prems(2) by (auto simp: hasNegation_def)
  with r Cons.IH [of "n + 1" ps] Cons.prems(3) compile_line_negate [of "n + 1" raw] show ?case
    by (cases r) auto
qed (simp add: hasNegation_def)

lemma excluded_below:
  assumes np: "\<And>q. q \<in> set pats \<Longrightarrow> \<not> negate q"
    and d: "path_excluded pats segs True" and ne: "segs \<noteq> []" "tail_segs \<noteq> []"
  shows "path_excluded pats (segs @ tail_segs) isDir"
proof -
  have nn: "\<not> negate (pats ! i)" if "decides pats s d i" for s d i
    using that np by (auto simp: decides_def)
  obtain k i where k: "1 \<le> k" "k \<le> length segs" "excludes_at pats segs k i"
  proof -
    from d consider i where "decides pats segs True i"
      | k i where "1 \<le> k" "k < length segs" "excludes_at pats segs k i"
      unfolding path_excluded_def by blast
    then show ?thesis
    proof cases
      case 1
      have "excludes_at pats segs (length segs) i" using 1 nn by (simp add: excludes_at_def)
      moreover have "1 \<le> length segs" using ne(1) by (cases segs) auto
      ultimately show ?thesis using that by blast
    next
      case 2
      with that show ?thesis by auto
    qed
  qed
  then have e: "excludes_at pats (segs @ tail_segs) k i" by (simp add: excludes_at_def)
  show ?thesis
  proof (cases "\<exists>j. decides pats (segs @ tail_segs) isDir j")
    case True
    with nn show ?thesis unfolding path_excluded_def by blast
  next
    case False
    moreover have "k < length (segs @ tail_segs)" using k ne(2) by (simp add: le_less_trans trans_less_add1)
    ultimately show ?thesis using e k(1) unfolding path_excluded_def by blast
  qed
qed

lemma excluded_dir_child:
  assumes "\<And>q. q \<in> set pats \<Longrightarrow> \<not> negate q" "fst (matchesHow pats dir True)"
  shows "fst (matchesHow pats (dir @ ''/'' @ relp) isDir)"
proof -
  have dir: "dir \<noteq> ''.''" "path_excluded pats (split_on (CHR ''/'') dir) True"
    using assms(2) matchesHow_excluded [of dir pats True] by (auto simp: matchesHow_def split: if_splits)
  have p: "dir @ ''/'' @ relp \<noteq> ''.''" by (cases dir) auto
  have "split_on (CHR ''/'') (dir @ ''/'' @ relp) = split_on (CHR ''/'') dir @ split_on (CHR ''/'') relp"
    using split_on_append_sep [of "CHR ''/''" dir relp] by simp
  with excluded_below [OF assms(1) dir(2), of "split_on (CHR ''/'') relp" isDir] show ?thesis
    unfolding matchesHow_excluded [OF p] by simp
qed

lemma compileGitignore_negate:
  "compileGitignore lines = Inr pats \<Longrightarrow> \<not> hasNegation lines \<Longrightarrow> q \<in> set pats \<Longrightarrow> \<not> negate q"
  unfolding compileGitignore_def by (rule compile_from_negate)

text \<open>
  When no exclude line is a re-include, a directory the patterns exclude excludes
  everything below it, file or directory, so the planner's pruning of the walk skips only paths it
  would have left out one by one.
\<close>

theorem prune_sound:
  assumes "compileGitignore lines = Inr pats" "\<not> hasNegation lines"
    and "fst (matchesHow pats dir True)"
  shows "fst (matchesHow pats (dir @ ''/'' @ rel) isDir)"
  by (rule excluded_dir_child [OF compileGitignore_negate [OF assms(1,2)] assms(3)])

theorem prune_sound_witness:
  "fst (matchesHow [\<lparr>Line = ''dist/'', negate = False, dirOnly = True, anchored = False,
      segments = [''dist'']\<rparr>] ''x/dist/js/a.js'' False)"
proof -
  have a: "compileGitignore [''dist/'', ''# note''] =
      Inr [\<lparr>Line = ''dist/'', negate = False, dirOnly = True, anchored = False, segments = [''dist'']\<rparr>]"
    by code_simp
  have b: "\<not> hasNegation [''dist/'', ''# note'']" by code_simp
  have c: "fst (matchesHow [\<lparr>Line = ''dist/'', negate = False, dirOnly = True, anchored = False,
      segments = [''dist'']\<rparr>] ''x/dist'' True)" by code_simp
  from prune_sound [OF a b c, of "''js/a.js''" False] show ?thesis by simp
qed

section \<open>What the parser's checks let through\<close>

text \<open>
  Two escapes of the parser's own promise and one refusal of a valid line. A class
  that spans a slash is accepted although both of its segments are unterminated, so the pattern
  matches no path; an opening bracket after an escaped backslash is accepted unterminated; and a line
  whose final backslash is itself escaped is refused as if the backslash were alone.
\<close>

theorem parser_gaps:
  "compileGitignore [''[a/b]''] = Inr [\<lparr>Line = ''[a/b]'', negate = False, dirOnly = False,
      anchored = True, segments = [''[a'', ''b]'']\<rparr>] \<and> \<not> glob ''[a'' s \<and>
   parseGitignoreSegments [BS, BS, CHR ''['', CHR ''x''] 1 [] = Inr [[BS, BS, CHR ''['', CHR ''x'']] \<and>
   \<not> glob [BS, BS, CHR ''['', CHR ''x''] s \<and>
   compileGitignore [''a'' @ [BS, BS]] = Inl (LoneBackslash 1 (''a'' @ [BS, BS])) \<and>
   glob (''a'' @ [BS, BS]) (''a'' @ [BS])"
proof (intro conjI)
  have bracket: "\<not> matchSegmentHere [CHR ''['', CHR ''a''] t" "\<not> matchSegmentHere [CHR ''['', CHR ''x''] t" for t
    by (simp_all add: matchSegmentHere.simps(2) splitClass_def)
  show "\<not> glob ''[a'' s"
    using bracket unfolding matchSegment_correct [symmetric] matchSegment_def
    by (simp add: plain_pattern_def)
  show "\<not> glob [BS, BS, CHR ''['', CHR ''x''] s"
    using bracket unfolding matchSegment_correct [symmetric] matchSegment_def
    by (simp add: plain_pattern_def matchSegmentHere.simps(2) [of BS] split: list.splits)
  show "glob (''a'' @ [BS, BS]) (''a'' @ [BS])"
    unfolding matchSegment_correct [symmetric] by code_simp
qed (code_simp, code_simp, code_simp)

end
