(* ===== verification/Go_Path.thy ===== *)
theory Go_Path
  imports Prelude
begin

text \<open>
  Go's \<open>path\<close> package on slash-separated paths, as the repository uses it: \<open>path.Clean\<close>,
  \<open>path.Join\<close> of two elements and \<open>path.Dir\<close>. \<open>path.Clean\<close> is the one-pass element
  machine of the standard library: an output stack on which \<open>".."\<close> backtracks unless the stack
  is exhausted, in which case a relative path keeps the \<open>".."\<close> and a rooted one drops it. The
  lemmas give the normal form of a cleaned path: its elements are plain names, preceded (when the
  path is relative) by a run of \<open>".."\<close>.
\<close>

section \<open>path.Clean\<close>

definition clean_step :: "bool \<Rightarrow> string list \<Rightarrow> string \<Rightarrow> string list" where
  "clean_step rooted out e =
     (if e = [] \<or> e = ''.'' then out
      else if e = ''..'' then
        (case out of
           x # out' \<Rightarrow> if x \<noteq> ''..'' then out' else (if rooted then out else e # out)
         | [] \<Rightarrow> if rooted then [] else [e])
      else e # out)"

definition clean_elems :: "bool \<Rightarrow> string list \<Rightarrow> string list" where
  "clean_elems rooted es = rev (foldl (clean_step rooted) [] es)"

definition is_rooted :: "string \<Rightarrow> bool" where
  "is_rooted p \<longleftrightarrow> has_prefix p ''/''"

definition render_path :: "bool \<Rightarrow> string list \<Rightarrow> string" where
  "render_path rooted es =
     (if rooted then CHR ''/'' # join_with (CHR ''/'') es
      else if es = [] then ''.'' else join_with (CHR ''/'') es)"

definition path_elems :: "string \<Rightarrow> string list" where
  "path_elems p = clean_elems (is_rooted p) (split_on (CHR ''/'') p)"

definition path_clean :: "string \<Rightarrow> string" where
  "path_clean p = render_path (is_rooted p) (path_elems p)"

section \<open>path.Join and path.Dir\<close>

definition path_join :: "string \<Rightarrow> string \<Rightarrow> string" where
  "path_join a b =
     (if a = [] \<and> b = [] then []
      else if a = [] then path_clean b
      else path_clean (a @ CHR ''/'' # b))"

definition up_to_slash :: "string \<Rightarrow> string" where
  "up_to_slash p = rev (dropWhile (\<lambda>c. c \<noteq> CHR ''/'') (rev p))"

definition path_dir :: "string \<Rightarrow> string" where
  "path_dir p = path_clean (up_to_slash p)"

section \<open>The normal form of a cleaned path\<close>

definition plain_name :: "string \<Rightarrow> bool" where
  "plain_name e \<longleftrightarrow> e \<noteq> [] \<and> e \<noteq> ''.'' \<and> e \<noteq> ''..'' \<and> CHR ''/'' \<notin> set e"

definition elem_ok :: "string \<Rightarrow> bool" where
  "elem_ok e \<longleftrightarrow> plain_name e \<or> e = ''..''"

fun normal_elems :: "bool \<Rightarrow> string list \<Rightarrow> bool" where
  "normal_elems rooted [] = True"
| "normal_elems rooted (e # es) =
     (if plain_name e then list_all plain_name es
      else \<not> rooted \<and> e = ''..'' \<and> normal_elems rooted es)"

lemma plain_not_dotdot [simp]: "\<not> plain_name ''..''" "\<not> plain_name ''.''" "\<not> plain_name []"
  by (auto simp: plain_name_def)

lemma all_plain_normal: "list_all plain_name es \<Longrightarrow> normal_elems r es"
  by (cases es) auto

lemma normal_rooted: "normal_elems True es \<longleftrightarrow> list_all plain_name es"
  by (cases es) auto

lemma normal_elems_decomp:
  "normal_elems r es \<longleftrightarrow>
     (\<exists>k ns. es = replicate k ''..'' @ ns \<and> list_all plain_name ns \<and> (r \<longrightarrow> k = 0))"
proof (induction es)
  case Nil
  show ?case by simp
next
  case (Cons e es)
  show ?case
  proof (cases "plain_name e")
    case True
    have "k = 0" if "e # es = replicate k ''..'' @ ns" for k ns
      using that True by (cases k) auto
    with True show ?thesis by fastforce
  next
    case False
    show ?thesis
    proof
      assume "normal_elems r (e # es)"
      with False have "\<not> r" "e = ''..''" "normal_elems r es" by auto
      with Cons.IH obtain k ns where "es = replicate k ''..'' @ ns" "list_all plain_name ns"
        by blast
      with \<open>e = ''..''\<close> \<open>\<not> r\<close> show "\<exists>k ns. e # es = replicate k ''..'' @ ns
          \<and> list_all plain_name ns \<and> (r \<longrightarrow> k = 0)"
        by (intro exI [of _ "Suc k"] exI [of _ ns]) simp
    next
      assume "\<exists>k ns. e # es = replicate k ''..'' @ ns \<and> list_all plain_name ns \<and> (r \<longrightarrow> k = 0)"
      then obtain k ns where *: "e # es = replicate k ''..'' @ ns" "list_all plain_name ns"
        "r \<longrightarrow> k = 0"
        by blast
      with False obtain k' where "k = Suc k'" by (cases k) auto
      with * Cons.IH False show "normal_elems r (e # es)" by auto
    qed
  qed
qed

lemma normal_elems_snoc:
  assumes "normal_elems r es"
  shows "plain_name e \<Longrightarrow> normal_elems r (es @ [e])"
    and "normal_elems r (butlast es)"
    and "\<not> r \<Longrightarrow> list_all (\<lambda>x. x = ''..'') es \<Longrightarrow> normal_elems r (es @ [''..''])"
proof -
  show "plain_name e \<Longrightarrow> normal_elems r (es @ [e])"
    using assms by (induction es) (auto split: if_splits)
  show "normal_elems r (butlast es)"
    using assms
    by (induction es) (auto split: if_splits simp: list_all_iff dest: in_set_butlastD)
  show "\<not> r \<Longrightarrow> list_all (\<lambda>x. x = ''..'') es \<Longrightarrow> normal_elems r (es @ [''..''])"
    by (induction es) auto
qed

lemma normal_elems_appendD: "normal_elems r (xs @ ys) \<Longrightarrow> normal_elems r xs"
proof (induction ys rule: rev_induct)
  case (snoc y ys)
  then show ?case using normal_elems_snoc(2) [of r "xs @ ys @ [y]"] by (simp add: butlast_append)
qed simp

lemma normal_elems_last_dotdot:
  "normal_elems r es \<Longrightarrow> es \<noteq> [] \<Longrightarrow> last es = ''..'' \<Longrightarrow> list_all (\<lambda>x. x = ''..'') es \<and> \<not> r"
proof (induction es)
  case (Cons e es)
  show ?case
  proof (cases "plain_name e")
    case True
    with Cons.prems(1) have "list_all plain_name (e # es)" by simp
    moreover have "last (e # es) \<in> set (e # es)"
      by (rule last_in_set) simp
    ultimately have "plain_name (last (e # es))"
      by (simp only: list_all_iff)
    with Cons.prems(3) show ?thesis by simp
  next
    case False
    with Cons show ?thesis by (cases es) auto
  qed
qed simp

lemma clean_step_normal:
  assumes "normal_elems r (rev out)" "CHR ''/'' \<notin> set e"
  shows "normal_elems r (rev (clean_step r out e))"
proof (cases "e = [] \<or> e = ''.''")
  case True
  with assms show ?thesis by (auto simp: clean_step_def)
next
  case ne: False
  show ?thesis
  proof (cases "e = ''..''")
    case False
    with ne assms(2) have "plain_name e" by (auto simp: plain_name_def)
    with ne False assms(1) show ?thesis
      by (auto simp: clean_step_def intro: normal_elems_snoc)
  next
    case True
    show ?thesis
    proof (cases out)
      case Nil
      with True show ?thesis by (simp add: clean_step_def)
    next
      case (Cons x out')
      show ?thesis
      proof (cases "x = ''..''")
        case False
        with True Cons assms(1) have "normal_elems r (butlast (rev out))"
          by (intro normal_elems_snoc)
        with False True Cons show ?thesis by (simp add: clean_step_def)
      next
        case dd: True
        with Cons normal_elems_last_dotdot [OF assms(1)]
        have "list_all (\<lambda>x. x = ''..'') (rev out)" "\<not> r" by auto
        with assms(1) have "normal_elems r (rev out @ [''..''])"
          by (intro normal_elems_snoc) auto
        with True Cons dd \<open>\<not> r\<close> show ?thesis by (simp add: clean_step_def)
      qed
    qed
  qed
qed

lemma foldl_clean_normal:
  assumes "normal_elems r (rev out)" "\<forall>e \<in> set es. CHR ''/'' \<notin> set e"
  shows "normal_elems r (rev (foldl (clean_step r) out es))"
  using assms
proof (induction es arbitrary: out)
  case (Cons e es)
  from Cons.prems have "normal_elems r (rev (clean_step r out e))"
    by (intro clean_step_normal) auto
  with Cons show ?case by simp
qed simp

lemma path_elems_normal: "normal_elems (is_rooted p) (path_elems p)"
  using foldl_clean_normal [of "is_rooted p" "[]" "split_on (CHR ''/'') p"]
  by (simp add: path_elems_def clean_elems_def split_on_no_sep)

text \<open>A normal element list is a fixed point of the element machine.\<close>

lemma clean_step_plain: "plain_name e \<Longrightarrow> clean_step r out e = e # out"
  by (auto simp: clean_step_def plain_name_def)

lemma foldl_clean_plain:
  "list_all plain_name es \<Longrightarrow> foldl (clean_step r) out es = rev es @ out"
  by (induction es arbitrary: out) (auto simp: clean_step_plain)

lemma foldl_clean_dotdots:
  "list_all (\<lambda>x. x = ''..'') out \<Longrightarrow>
     foldl (clean_step False) out (replicate k ''..'') = replicate k ''..'' @ out"
proof (induction k arbitrary: out)
  case (Suc k)
  have "clean_step False out ''..'' = ''..'' # out"
    using Suc.prems by (cases out) (auto simp: clean_step_def)
  with Suc show ?case by (simp add: replicate_app_Cons_same)
qed simp

lemma clean_elems_normal:
  assumes "normal_elems r es"
  shows "clean_elems r es = es"
proof -
  from assms obtain k ns where *: "es = replicate k ''..'' @ ns" "list_all plain_name ns"
    "r \<longrightarrow> k = 0"
    by (auto simp: normal_elems_decomp)
  have "foldl (clean_step r) [] (replicate k ''..'') = replicate k ''..''"
    using *(3) foldl_clean_dotdots [of "[]" k] by (cases r) auto
  with * show ?thesis by (simp add: clean_elems_def foldl_clean_plain)
qed

lemma plain_nameD:
  "plain_name e \<Longrightarrow> CHR ''/'' \<notin> set e"
  "plain_name e \<Longrightarrow> e \<noteq> []"
  "plain_name e \<Longrightarrow> e \<noteq> ''.''"
  "plain_name e \<Longrightarrow> e \<noteq> ''..''"
  by (simp_all add: plain_name_def)

lemma normal_elem_cases:
  assumes "normal_elems r es" "e \<in> set es"
  shows "plain_name e \<or> e = ''..''"
  using assms by (auto simp: normal_elems_decomp list_all_iff)

lemma normal_no_slash: "normal_elems r es \<Longrightarrow> \<forall>e \<in> set es. CHR ''/'' \<notin> set e"
  using normal_elem_cases plain_nameD(1) by force

lemma normal_no_dot:
  assumes "normal_elems r es" "e \<in> set es"
  shows "e \<noteq> []" "e \<noteq> ''.''"
  using normal_elem_cases [OF assms] by (auto dest: plain_nameD)

text \<open>Rendering and reading back a normal element list.\<close>

lemma join_not_slash_first:
  assumes "normal_elems r es" "es \<noteq> []"
  shows "\<not> is_rooted (join_with (CHR ''/'') es)" "join_with (CHR ''/'') es \<noteq> []"
proof -
  obtain e es' where es: "es = e # es'" using assms(2) by (cases es) auto
  with assms(1) have "e \<noteq> []" "CHR ''/'' \<notin> set e"
    using normal_no_dot normal_no_slash by fastforce+
  then obtain c e' where "e = c # e'" "c \<noteq> CHR ''/''" by (cases e) auto
  with es show "\<not> is_rooted (join_with (CHR ''/'') es)" "join_with (CHR ''/'') es \<noteq> []"
    by (cases es'; simp add: is_rooted_def has_prefix_def)+
qed

lemma is_rooted_simps [simp]:
  "is_rooted (c # s) \<longleftrightarrow> c = CHR ''/''"
  "\<not> is_rooted []"
  by (auto simp: is_rooted_def has_prefix_def)

lemma is_rooted_render [simp]:
  "normal_elems r es \<Longrightarrow> is_rooted (render_path r es) = r"
  by (auto simp: render_path_def join_not_slash_first)

lemma path_elems_render:
  assumes "normal_elems r es"
  shows "path_elems (render_path r es) = es"
proof (cases "es = []")
  case True
  then show ?thesis
    by (cases r) (simp_all add: path_elems_def render_path_def clean_elems_def clean_step_def)
next
  case False
  note sj = split_join [OF False normal_no_slash [OF assms]]
  have nr: "\<not> is_rooted (join_with (CHR ''/'') es)" "join_with (CHR ''/'') es \<noteq> []"
    using join_not_slash_first [OF assms False] by auto
  show ?thesis
  proof (cases r)
    case True
    have "clean_elems True ([] # es) = clean_elems True es"
      by (simp add: clean_elems_def clean_step_def)
    with True assms False sj show ?thesis
      by (simp add: path_elems_def render_path_def clean_elems_normal)
  next
    case r: False
    with assms False sj nr show ?thesis
      by (simp add: path_elems_def render_path_def clean_elems_normal)
  qed
qed

lemma render_path_inject:
  assumes "normal_elems r es" "normal_elems r' es'"
  shows "render_path r es = render_path r' es' \<longleftrightarrow> r = r' \<and> es = es'"
proof
  assume e: "render_path r es = render_path r' es'"
  have "r = is_rooted (render_path r es)" by (simp add: assms)
  also have "\<dots> = is_rooted (render_path r' es')" by (simp only: e)
  also have "\<dots> = r'" by (simp add: assms)
  finally have "r = r'" .
  moreover have "es = es'"
    using path_elems_render [OF assms(1)] path_elems_render [OF assms(2)] by (simp only: e)
  ultimately show "r = r' \<and> es = es'" ..
qed simp

lemma path_clean_idem [simp]: "path_clean (path_clean p) = path_clean p"
  by (simp add: path_clean_def path_elems_render path_elems_normal)

lemma path_elems_clean [simp]: "path_elems (path_clean p) = path_elems p"
  by (simp add: path_clean_def path_elems_render path_elems_normal)

lemma is_rooted_clean [simp]: "is_rooted (path_clean p) = is_rooted p"
  by (simp add: path_clean_def path_elems_normal)

lemma path_clean_eq_iff:
  "path_clean p = path_clean q \<longleftrightarrow> is_rooted p = is_rooted q \<and> path_elems p = path_elems q"
  unfolding path_clean_def
  by (rule render_path_inject) (rule path_elems_normal)+

section \<open>Joining below a base\<close>

lemma clean_elems_append:
  "clean_elems r (es @ fs) = rev (foldl (clean_step r) (rev (clean_elems r es)) fs)"
  by (simp add: clean_elems_def)

lemma path_elems_join_plain:
  assumes "a \<noteq> []" "list_all plain_name ns"
  shows "path_elems (path_join a (join_with (CHR ''/'') ns)) = path_elems a @ ns"
    and "is_rooted (path_join a (join_with (CHR ''/'') ns)) = is_rooted a"
proof -
  let ?b = "join_with (CHR ''/'') ns"
  have r: "is_rooted (a @ CHR ''/'' # ?b) = is_rooted a"
    using assms(1) by (cases a) auto
  have s: "foldl (clean_step (is_rooted a)) out (split_on (CHR ''/'') ?b) = rev ns @ out" for out
  proof (cases "ns = []")
    case True
    then show ?thesis by (simp add: clean_step_def)
  next
    case False
    have "\<forall>e \<in> set ns. CHR ''/'' \<notin> set e"
      using assms(2) by (auto simp: list_all_iff dest: plain_nameD)
    with False have "split_on (CHR ''/'') ?b = ns" by (rule split_join)
    with assms(2) show ?thesis by (simp add: foldl_clean_plain)
  qed
  have "path_elems (path_join a ?b) = path_elems (a @ CHR ''/'' # ?b)"
    using assms(1) by (simp add: path_join_def)
  also have "\<dots> = path_elems a @ ns"
    using r s by (simp add: path_elems_def split_on_append_sep clean_elems_append)
  finally show "path_elems (path_join a ?b) = path_elems a @ ns" .
  show "is_rooted (path_join a ?b) = is_rooted a"
    using assms(1) r by (simp add: path_join_def)
qed

section \<open>path.Dir and the walk up the ancestors\<close>

lemma dropWhile_other: "c \<notin> set xs \<Longrightarrow> dropWhile (\<lambda>x. x \<noteq> c) xs = []"
  by (induction xs) auto

lemma dropWhile_other_append:
  "c \<notin> set xs \<Longrightarrow> dropWhile (\<lambda>x. x \<noteq> c) (xs @ c # ys) = c # ys"
  by (induction xs) auto

lemma up_to_slash_append:
  "CHR ''/'' \<notin> set e \<Longrightarrow> up_to_slash (s @ CHR ''/'' # e) = s @ ''/''"
  by (simp add: up_to_slash_def dropWhile_other_append)

lemma up_to_slash_free: "CHR ''/'' \<notin> set e \<Longrightarrow> up_to_slash e = []"
  by (simp add: up_to_slash_def dropWhile_other)

lemma up_to_slash_cases:
  obtains "up_to_slash p = []" "CHR ''/'' \<notin> set p"
    | s e where "p = s @ CHR ''/'' # e" "CHR ''/'' \<notin> set e" "up_to_slash p = s @ ''/''"
proof (cases "CHR ''/'' \<in> set p")
  case False
  then show ?thesis using that(1) up_to_slash_free by blast
next
  case True
  then obtain s e where "p = s @ CHR ''/'' # e" "CHR ''/'' \<notin> set e"
    by (meson split_list_last)
  then show ?thesis using that(2) up_to_slash_append by blast
qed

lemma path_elems_snoc_slash:
  "s \<noteq> [] \<Longrightarrow> path_elems (s @ ''/'') = path_elems s \<and> is_rooted (s @ ''/'') = is_rooted s"
  using split_on_append_sep [of "CHR ''/''" s "[]"]
  by (cases s) (auto simp: path_elems_def clean_elems_append clean_step_def)

lemma path_clean_snoc_slash: "s \<noteq> [] \<Longrightarrow> path_clean (s @ ''/'') = path_clean s"
  by (simp add: path_clean_eq_iff path_elems_snoc_slash)

lemma render_path_snoc:
  "render_path r (es @ [e]) =
     (if es = [] then (if r then CHR ''/'' # e else e)
      else render_path r es @ CHR ''/'' # e)"
  by (auto simp: render_path_def join_with_append)

lemma path_clean_render: "normal_elems r es \<Longrightarrow> path_clean (render_path r es) = render_path r es"
  by (simp add: path_clean_def path_elems_render)

lemma render_path_not_Nil: "normal_elems r es \<Longrightarrow> render_path r es \<noteq> []"
  by (auto simp: render_path_def join_not_slash_first)

lemma path_clean_not_Nil [simp]: "path_clean p \<noteq> []"
  by (simp add: path_clean_def render_path_not_Nil path_elems_normal)

lemma path_dir_not_Nil [simp]: "path_dir p \<noteq> []"
  by (simp add: path_dir_def)

lemma path_dir_render:
  assumes "normal_elems r (es @ [e])"
  shows "path_dir (render_path r (es @ [e])) = render_path r es"
proof -
  have e: "CHR ''/'' \<notin> set e" using normal_no_slash [OF assms] by auto
  have es: "normal_elems r es" using normal_elems_snoc(2) [OF assms] by simp
  have root: "path_clean ''/'' = render_path True []" "path_clean [] = render_path False []"
    by (simp_all add: path_clean_def path_elems_def clean_elems_def clean_step_def)
  show ?thesis
  proof (cases "es = []")
    case True
    then have "render_path r (es @ [e]) = (if r then CHR ''/'' # e else e)"
      by (simp add: render_path_def)
    with e True show ?thesis
      using up_to_slash_append [of e "[]"]
      by (auto simp: path_dir_def up_to_slash_free root)
  next
    case False
    then show ?thesis
      using e es by (simp add: render_path_snoc path_dir_def up_to_slash_append
        path_clean_snoc_slash render_path_not_Nil path_clean_render)
  qed
qed

lemma size_clean_step:
  "sum_list (map (\<lambda>x. Suc (length x)) (clean_step r out e))
     \<le> sum_list (map (\<lambda>x. Suc (length x)) out) + (if e = [] then 0 else Suc (length e))"
  by (auto simp: clean_step_def split: list.splits)

lemma size_foldl_clean:
  "sum_list (map (\<lambda>x. Suc (length x)) (foldl (clean_step r) out es))
     \<le> sum_list (map (\<lambda>x. Suc (length x)) out) + sum_list (map (\<lambda>x. if x = [] then 0 else Suc (length x)) es)"
proof (induction es arbitrary: out)
  case (Cons e es)
  show ?case
    using Cons.IH [of "clean_step r out e"] size_clean_step [of r out e] by simp
qed simp

lemma sum_split_le:
  "sum_list (map (\<lambda>x. if x = [] then 0 else Suc (length x)) (split_on c s)) \<le> Suc (length s)"
proof -
  have "sum_list (map (\<lambda>x. if x = [] then 0 else Suc (length x)) (split_on c s))
      \<le> sum_list (map (\<lambda>x. Suc (length x)) (split_on c s))"
    by (rule sum_list_mono) simp
  also have "\<dots> = Suc (length s)"
    using length_join [of "split_on c s" c] by simp
  finally show ?thesis .
qed

lemma length_path_clean: "s \<noteq> [] \<Longrightarrow> length (path_clean s) \<le> length s"
proof -
  assume s: "s \<noteq> []"
  let ?es = "path_elems s"
  have sum: "sum_list (map (\<lambda>x. Suc (length x)) ?es)
      \<le> sum_list (map (\<lambda>x. if x = [] then 0 else Suc (length x)) (split_on (CHR ''/'') s))"
    using size_foldl_clean [of "is_rooted s" "[]" "split_on (CHR ''/'') s"]
    by (simp add: path_elems_def clean_elems_def rev_map [symmetric])
  show ?thesis
  proof (cases "is_rooted s")
    case False
    with s sum sum_split_le [of "CHR ''/''" s] length_join [of ?es "CHR ''/''"] show ?thesis
      by (cases s) (auto simp: path_clean_def render_path_def)
  next
    case True
    with s obtain s' where s': "s = CHR ''/'' # s'" by (cases s) auto
    with True sum sum_split_le [of "CHR ''/''" s'] length_join [of ?es "CHR ''/''"] show ?thesis
      by (cases "?es = []") (auto simp: path_clean_def render_path_def)
  qed
qed

lemma path_dir_shorter:
  assumes "path_dir p \<noteq> ''.''" "path_dir p \<noteq> ''/''"
  shows "length (path_dir p) < length p"
proof (cases rule: up_to_slash_cases [of p])
  case 1
  with assms show ?thesis
    by (simp add: path_dir_def path_clean_def path_elems_def clean_elems_def clean_step_def
        render_path_def)
next
  case (2 s e)
  show ?thesis
  proof (cases "s = []")
    case True
    with 2 assms show ?thesis
      by (simp add: path_dir_def path_clean_def path_elems_def clean_elems_def clean_step_def
          render_path_def)
  next
    case False
    with 2 length_path_clean [of s] show ?thesis
      by (simp add: path_dir_def path_clean_snoc_slash)
  qed
qed

text \<open>
  The loop \<open>for dir := p; dir != "." && dir != "/" && dir != ""; dir = path.Dir(dir)\<close> the
  repository writes in several places: the directories it visits, innermost first.
\<close>

definition path_stop :: "string \<Rightarrow> bool" where
  "path_stop d \<longleftrightarrow> d = ''.'' \<or> d = ''/'' \<or> d = []"

function up_chain :: "string \<Rightarrow> string list" where
  "up_chain d = (if path_stop d then [] else d # up_chain (path_dir d))"
  by pat_completeness auto
termination
  by (relation "measure (\<lambda>d. if path_stop d then 0 else Suc (length d))")
    (auto simp: path_stop_def dest: path_dir_shorter)

declare up_chain.simps [simp del]

lemma up_chain_stop [simp]: "path_stop d \<Longrightarrow> up_chain d = []"
  by (simp add: up_chain.simps)

lemma path_stop_render: "normal_elems r es \<Longrightarrow> path_stop (render_path r es) \<longleftrightarrow> es = []"
proof -
  assume n: "normal_elems r es"
  have "render_path False [] = ''.''" "render_path True [] = ''/''"
    by (simp_all add: render_path_def)
  then show ?thesis
    using n render_path_inject [OF n, of False "[]"] render_path_inject [OF n, of True "[]"]
      render_path_not_Nil [OF n]
    by (cases r) (auto simp: path_stop_def)
qed

lemma up_chain_render:
  "normal_elems r es \<Longrightarrow>
     up_chain (render_path r es) = map (render_path r) (filter (\<lambda>q. q \<noteq> []) (rev (prefixes es)))"
proof (induction es rule: rev_induct)
  case Nil
  then show ?case by (simp add: path_stop_render)
next
  case (snoc e es)
  have "normal_elems r es" using normal_elems_snoc(2) [OF snoc.prems] by simp
  with snoc show ?case
    by (subst up_chain.simps) (simp add: path_stop_render path_dir_render prefixes_snoc)
qed

lemma set_up_chain_render:
  "normal_elems r es \<Longrightarrow>
     set (up_chain (render_path r es)) = {render_path r q | q. prefix q es \<and> q \<noteq> []}"
  by (auto simp: up_chain_render)

end
