(* ===== verification/Remote_Path.thy ===== *)
theory Remote_Path
  imports Go_Path
begin

text \<open>
  The remote-path helpers of \<open>internal/uploader/remote.go\<close> and the target comparisons of
  \<open>internal/config/config.go\<close>: normalisation, the destructive-mode root guard, the confinement
  of server-supplied names (\<open>safeJoin\<close>, \<open>safeChild\<close>, \<open>within\<close>), and the directory
  bookkeeping (\<open>parentDirs\<close>, \<open>leafDirs\<close>). Every refusal is a constructor carrying what the
  error message names.
\<close>

section \<open>Normalisation and drive spellings (config.go)\<close>

definition NormalizeRemote :: "string \<Rightarrow> string" where
  "NormalizeRemote remote = path_clean (map (\<lambda>c. if c = CHR 0x5C then CHR ''/'' else c) remote)"

definition isDriveLetter :: "char \<Rightarrow> bool" where
  "isDriveLetter c \<longleftrightarrow> (CHR ''A'' \<le> c \<and> c \<le> CHR ''Z'') \<or> (CHR ''a'' \<le> c \<and> c \<le> CHR ''z'')"

fun foldDriveSpelling :: "string \<Rightarrow> string" where
  "foldDriveSpelling (a # b # c # rest) =
     (if a = CHR ''/'' \<and> isDriveLetter b \<and> c = CHR '':'' then b # c # rest else a # b # c # rest)"
| "foldDriveSpelling p = p"

definition isUnder :: "string \<Rightarrow> string \<Rightarrow> bool" where
  "isUnder sub dir \<longleftrightarrow> dir \<noteq> [] \<and> dir \<noteq> ''/'' \<and> has_prefix sub dir \<and>
     (length sub = length dir \<or> sub ! length dir = CHR ''/'')"

section \<open>The destructive-mode guard (remote.go)\<close>

datatype root_error =
    RootUnspecific string
  | RootOfDrive string string
  | RootAbove string string

fun isDriveRoot :: "string \<Rightarrow> bool" where
  "isDriveRoot [l, c] = (c = CHR '':'' \<and> isDriveLetter l)"
| "isDriveRoot [s, l, c] = (s = CHR ''/'' \<and> c = CHR '':'' \<and> isDriveLetter l)"
| "isDriveRoot _ = False"

definition checkRemoteRoot :: "string \<Rightarrow> root_error option" where
  "checkRemoteRoot remote =
     (let normalized = NormalizeRemote remote in
      if normalized = ''/'' \<or> normalized = ''.'' \<or> normalized = [] \<or> normalized = ''~''
      then Some (RootUnspecific remote)
      else if isDriveRoot normalized then Some (RootOfDrive remote normalized)
      else if normalized = ''..'' \<or> has_prefix normalized ''../''
      then Some (RootAbove remote normalized)
      else None)"

section \<open>Confinement of server-supplied paths (remote.go)\<close>

datatype join_error =
    NamesNoFile string string
  | AbsoluteRel string string
  | OutsideBase string string string
  | EntryHasSlash string string

definition within :: "string \<Rightarrow> string \<Rightarrow> bool" where
  "within base full =
     (let b = path_clean base in
      if b = ''.'' then \<not> has_prefix full ''/'' \<and> full \<noteq> ''..'' \<and> \<not> has_prefix full ''../''
      else if full = b then False
      else has_prefix full (trim_suffix b ''/'' @ ''/''))"

definition safeJoin :: "string \<Rightarrow> string \<Rightarrow> (join_error, string) result" where
  "safeJoin base rel =
     (if rel = [] \<or> rel = ''.'' then Inl (NamesNoFile rel base)
      else if has_prefix rel ''/'' then Inl (AbsoluteRel rel base)
      else
        let cleaned = path_clean rel in
        if cleaned = ''..'' \<or> has_prefix cleaned ''../''
        then Inl (OutsideBase rel (path_join base cleaned) base)
        else
          let full = path_join base cleaned in
          if \<not> within base full then Inl (OutsideBase rel full base) else Inr full)"

definition safeChild :: "string \<Rightarrow> string \<Rightarrow> (join_error, string) result" where
  "safeChild dir name =
     (if CHR ''/'' \<in> set name then Inl (EntryHasSlash name dir) else safeJoin dir name)"

section \<open>Directory bookkeeping (remote.go)\<close>

definition parentDirs :: "string \<Rightarrow> string list" where
  "parentDirs remotePath = sort (up_chain (path_dir remotePath))"

definition leafDirs :: "string list \<Rightarrow> string list" where
  "leafDirs dirs = sort (filter (\<lambda>d. d \<notin> path_dir ` set dirs) dirs)"

section \<open>What it means to be below a directory\<close>

text \<open>
  \<open>below base full\<close>: the path \<open>full\<close> names something strictly inside the directory
  \<open>base\<close>, read element by element after cleaning.
\<close>

definition below :: "string \<Rightarrow> string \<Rightarrow> bool" where
  "below base full \<longleftrightarrow>
     is_rooted full = is_rooted base \<and> strict_prefix (path_elems base) (path_elems full) \<and>
     list_all plain_name (drop (length (path_elems base)) (path_elems full))"

lemma below_iff:
  "below base full \<longleftrightarrow> is_rooted full = is_rooted base \<and>
     (\<exists>ns. ns \<noteq> [] \<and> list_all plain_name ns \<and> path_elems full = path_elems base @ ns)"
  by (auto simp: below_def strict_prefix_def prefix_def)

lemma belowI:
  "is_rooted full = is_rooted base \<Longrightarrow> path_elems full = path_elems base @ ns \<Longrightarrow> ns \<noteq> [] \<Longrightarrow>
     list_all plain_name ns \<Longrightarrow> below base full"
  by (auto simp: below_iff)

lemma below_trans: "below a b \<Longrightarrow> below b c \<Longrightarrow> below a c"
  unfolding below_iff by (metis append.assoc append_is_Nil_conv list_all_append)

lemma below_clean [simp]:
  "below (path_clean a) b = below a b" "below a (path_clean b) = below a b"
  by (simp_all add: below_def)

lemma below_not_dot: "below a b \<Longrightarrow> path_clean b \<noteq> ''.'' \<and> b \<noteq> []"
proof -
  assume "below a b"
  then have "path_elems b \<noteq> []" by (auto simp: below_iff)
  moreover have "path_elems ''.'' = []" "path_elems [] = []"
    by (simp_all add: path_elems_def clean_elems_def clean_step_def)
  ultimately show ?thesis using path_elems_clean [of b] by metis
qed

lemma below_not_self: "\<not> below a a"
  by (simp add: below_def)

section \<open>Elements of a relative, cleaned path\<close>

lemma rel_clean: "\<not> is_rooted rel \<Longrightarrow> path_clean rel = render_path False (path_elems rel)"
  by (simp add: path_clean_def)

lemma climbs_iff:
  assumes "\<not> is_rooted rel"
  shows "path_clean rel = ''..'' \<or> has_prefix (path_clean rel) ''../''
     \<longleftrightarrow> path_elems rel \<noteq> [] \<and> hd (path_elems rel) = ''..''"
proof (cases "path_elems rel")
  case Nil
  with assms show ?thesis by (simp add: rel_clean render_path_def has_prefix_def)
next
  case (Cons e es)
  have n: "normal_elems False (e # es)"
    using path_elems_normal [of rel] assms Cons by simp
  have r: "path_clean rel = (if es = [] then e else e @ CHR ''/'' # join_with (CHR ''/'') es)"
    using assms Cons by (simp add: rel_clean render_path_def join_with_Cons)
  have noslash: "CHR ''/'' \<notin> set e" using normal_no_slash [OF n] by simp
  have pre: "e = ''..''" if "prefix ''../'' (e @ CHR ''/'' # t)" for t
  proof -
    from that obtain u where "e @ CHR ''/'' # t = ''..'' @ CHR ''/'' # u"
      by (auto simp: prefix_def)
    then have "hd (split_on (CHR ''/'') (e @ CHR ''/'' # t)) = hd (split_on (CHR ''/'') (''..'' @ CHR ''/'' # u))"
      by simp
    with noslash show ?thesis
      by (simp add: split_on_append_sep split_on_free del: append.simps)
  qed
  have pre0: "\<not> prefix ''../'' e"
  proof
    assume "prefix ''../'' e"
    then have "set ''../'' \<subseteq> set e" by (rule set_mono_prefix)
    with noslash show False by simp
  qed
  show ?thesis
  proof (cases "e = ''..''")
    case True
    with r Cons show ?thesis by (simp add: has_prefix_def)
  next
    case False
    have "e @ CHR ''/'' # t \<noteq> ''..''" for t
    proof
      assume "e @ CHR ''/'' # t = ''..''"
      then have "CHR ''/'' \<in> set ''..''" by (metis in_set_conv_decomp)
      then show False by simp
    qed
    with False pre pre0 r Cons show ?thesis by (auto simp: has_prefix_def)
  qed
qed

lemma non_climbing_plain:
  assumes "\<not> is_rooted rel" "path_elems rel \<noteq> [] \<longrightarrow> hd (path_elems rel) \<noteq> ''..''"
  shows "list_all plain_name (path_elems rel)"
proof -
  have "normal_elems False (path_elems rel)" using path_elems_normal [of rel] assms(1) by simp
  with assms(2) show ?thesis by (cases "path_elems rel") (auto split: if_splits)
qed

lemma render_snoc_slash_prefix:
  assumes "normal_elems r (es @ ns)" "ns \<noteq> []" "r \<or> es \<noteq> []"
  shows "has_prefix (render_path r (es @ ns)) (trim_suffix (render_path r es) ''/'' @ ''/'')"
proof (cases "es = []")
  case True
  with assms have "trim_suffix (render_path r es) ''/'' = []"
    using trim_suffix_append [of "[]" "''/''"] by (simp add: render_path_def)
  with True assms show ?thesis by (simp add: has_prefix_def render_path_def)
next
  case False
  then obtain es' e where es: "es = es' @ [e]" by (cases es rule: rev_cases) auto
  have ne: "normal_elems r es"
    using assms(1) by (rule normal_elems_appendD)
  have "e \<noteq> []" "CHR ''/'' \<notin> set e"
    using normal_no_dot [OF ne] normal_no_slash [OF ne] es by auto
  then obtain e' c where e: "e = e' @ [c]" "c \<noteq> CHR ''/''"
    by (cases e rule: rev_cases) auto
  have "\<exists>s. render_path r es = s @ [c]"
  proof (cases "es' = []")
    case True
    with es e(1) show ?thesis by (auto simp: render_path_def)
  next
    case False
    with es e(1) show ?thesis by (simp add: render_path_snoc)
  qed
  with e(2) have "\<not> suffix ''/'' (render_path r es)"
    by (auto simp: suffix_def)
  then have t: "trim_suffix (render_path r es) ''/'' = render_path r es"
    by (simp add: trim_suffix_def)
  have "render_path r (es @ ns) = render_path r es @ CHR ''/'' # join_with (CHR ''/'') ns"
    using False assms(2) by (simp add: render_path_def join_with_append)
  then show ?thesis by (simp add: t has_prefix_def)
qed

lemma path_join_elems:
  assumes "base \<noteq> []" "\<not> is_rooted rel" "list_all plain_name (path_elems rel)"
  shows "path_elems (path_join base (path_clean rel)) = path_elems base @ path_elems rel"
    and "is_rooted (path_join base (path_clean rel)) = is_rooted base"
proof -
  have "path_elems (path_join base (path_clean rel)) = path_elems base @ path_elems rel
      \<and> is_rooted (path_join base (path_clean rel)) = is_rooted base"
  proof (cases "path_elems rel = []")
    case False
    then have "path_clean rel = join_with (CHR ''/'') (path_elems rel)"
      using assms(2) by (simp add: rel_clean render_path_def)
    with assms(1,3) path_elems_join_plain [of base "path_elems rel"] show ?thesis by simp
  next
    case True
    then have "path_clean rel = ''.''" using assms(2) by (simp add: rel_clean render_path_def)
    moreover have "path_elems (base @ ''/.'') = path_elems base \<and> is_rooted (base @ ''/.'') = is_rooted base"
      using assms(1) split_on_append_sep [of "CHR ''/''" base "''.''"]
      by (cases base) (auto simp: path_elems_def clean_elems_append clean_step_def)
    ultimately show ?thesis using True assms(1) by (simp add: path_join_def)
  qed
  then show "path_elems (path_join base (path_clean rel)) = path_elems base @ path_elems rel"
    "is_rooted (path_join base (path_clean rel)) = is_rooted base" by auto
qed

lemma path_join_clean: "a \<noteq> [] \<Longrightarrow> path_clean (path_join a b) = path_join a b"
  by (simp add: path_join_def)

lemma within_join:
  assumes "base \<noteq> []" "path_clean base \<noteq> ''.''" "\<not> is_rooted rel" "list_all plain_name (path_elems rel)"
  shows "within base (path_join base (path_clean rel)) \<longleftrightarrow> path_elems rel \<noteq> []"
proof -
  let ?f = "path_join base (path_clean rel)" and ?r = "is_rooted base" and ?es = "path_elems base"
  note el = path_join_elems [OF assms(1,3,4)]
  have f: "?f = render_path ?r (?es @ path_elems rel)"
    using path_join_clean [OF assms(1), of "path_clean rel"] el by (simp add: path_clean_def)
  have b: "path_clean base = render_path ?r ?es" by (simp add: path_clean_def)
  have n: "normal_elems ?r (?es @ path_elems rel)"
    using path_elems_normal [of ?f] el by simp
  show ?thesis
  proof (cases "path_elems rel = []")
    case True
    with f b assms(2) show ?thesis by (simp add: within_def)
  next
    case False
    have "?f \<noteq> path_clean base"
      using False render_path_inject [OF n path_elems_normal [of base]] by (simp add: f b)
    moreover have "?r \<or> ?es \<noteq> []"
      using assms(2) b by (auto simp: render_path_def)
    with render_snoc_slash_prefix [OF n False]
    have "has_prefix ?f (trim_suffix (path_clean base) ''/'' @ ''/'')" by (simp add: f b)
    ultimately show ?thesis using False assms(2) by (simp add: within_def)
  qed
qed

section \<open>safeJoin accepts exactly the names below the base\<close>

definition names_below :: "string \<Rightarrow> bool" where
  "names_below rel \<longleftrightarrow> \<not> is_rooted rel \<and> path_elems rel \<noteq> [] \<and> hd (path_elems rel) \<noteq> ''..''"

lemma safeJoin_cases:
  assumes "path_clean base \<noteq> ''.''" "base \<noteq> []"
  shows "(\<exists>full. safeJoin base rel = Inr full) \<longleftrightarrow> names_below rel"
    and "safeJoin base rel = Inr full \<Longrightarrow> full = path_join base (path_clean rel)"
proof -
  show "(\<exists>full. safeJoin base rel = Inr full) \<longleftrightarrow> names_below rel"
  proof (cases "is_rooted rel \<or> rel = [] \<or> rel = ''.''")
    case True
    moreover have "path_elems [] = []" "path_elems ''.'' = []"
      by (simp_all add: path_elems_def clean_elems_def clean_step_def)
    ultimately show ?thesis
      by (auto simp: safeJoin_def names_below_def is_rooted_def)
  next
    case False
    then have nr: "\<not> is_rooted rel" and ne: "rel \<noteq> []" "rel \<noteq> ''.''" by auto
    show ?thesis
    proof (cases "path_elems rel \<noteq> [] \<and> hd (path_elems rel) = ''..''")
      case True
      with climbs_iff [OF nr] have "path_clean rel = ''..'' \<or> has_prefix (path_clean rel) ''../''"
        by simp
      with ne nr True show ?thesis by (auto simp: safeJoin_def names_below_def is_rooted_def)
    next
      case False
      with climbs_iff [OF nr] have c: "\<not> (path_clean rel = ''..'' \<or> has_prefix (path_clean rel) ''../'')"
        by simp
      have p: "list_all plain_name (path_elems rel)"
        by (rule non_climbing_plain [OF nr]) (use False in auto)
      have w: "within base (path_join base (path_clean rel)) \<longleftrightarrow> path_elems rel \<noteq> []"
        by (rule within_join [OF assms(2,1) nr p])
      show ?thesis
        using ne nr c w False by (auto simp: safeJoin_def names_below_def is_rooted_def)
    qed
  qed
  show "safeJoin base rel = Inr full \<Longrightarrow> full = path_join base (path_clean rel)"
    by (auto simp: safeJoin_def Let_def split: if_splits)
qed

lemma safeJoin_Inr_elems:
  assumes "path_clean base \<noteq> ''.''" "base \<noteq> []" "safeJoin base rel = Inr full"
  shows "path_elems full = path_elems base @ path_elems rel" "is_rooted full = is_rooted base"
    "list_all plain_name (path_elems rel)" "path_elems rel \<noteq> []" "path_clean full = full"
proof -
  have nb: "names_below rel" using safeJoin_cases(1) [OF assms(1,2)] assms(3) by blast
  then have nr: "\<not> is_rooted rel" and ne: "path_elems rel \<noteq> []" by (simp_all add: names_below_def)
  have p: "list_all plain_name (path_elems rel)"
    by (rule non_climbing_plain [OF nr]) (use nb in \<open>auto simp: names_below_def\<close>)
  have f: "full = path_join base (path_clean rel)" using safeJoin_cases(2) [OF assms(1,2,3)] .
  from path_join_elems [OF assms(2) nr p] f ne p path_join_clean [OF assms(2)]
  show "path_elems full = path_elems base @ path_elems rel" "is_rooted full = is_rooted base"
    "list_all plain_name (path_elems rel)" "path_elems rel \<noteq> []" "path_clean full = full" by auto
qed

lemma safeJoin_below:
  assumes "path_clean base \<noteq> ''.''" "base \<noteq> []" "safeJoin base rel = Inr full"
  shows "below base full"
  using safeJoin_Inr_elems [OF assms] by (auto intro: belowI)

lemma safeChild_below:
  assumes "path_clean base \<noteq> ''.''" "base \<noteq> []" "safeChild base name = Inr full"
  shows "below base full"
  using assms safeJoin_below by (auto simp: safeChild_def split: if_splits)

text \<open>
  The session's working directory as the base: \<open>safeJoin\<close> then answers the cleaned name itself, which
  may clean back to the working directory. A single entry name never does, so \<open>safeChild\<close> is strict
  below every base.
\<close>

lemma clean_dot_iff: "path_clean p = ''.'' \<longleftrightarrow> \<not> is_rooted p \<and> path_elems p = []"
proof -
  have "render_path False [] = ''.''" by (simp add: render_path_def)
  then show ?thesis
    using render_path_inject [OF path_elems_normal [of p], of False "[]"] by (simp add: path_clean_def)
qed

lemma clean_Nil: "path_clean [] = ''.''"
  by (simp add: path_clean_def path_elems_def clean_elems_def clean_step_def render_path_def)

lemma join_onto_dot:
  assumes "path_clean base = ''.''" "\<not> is_rooted rel" "list_all plain_name (path_elems rel)"
  shows "path_join base (path_clean rel) = path_clean rel"
proof (cases "base = []")
  case False
  from path_join_elems [OF False assms(2,3)] assms(1)
  have "path_elems (path_join base (path_clean rel)) = path_elems rel"
    "\<not> is_rooted (path_join base (path_clean rel))" by (simp_all add: clean_dot_iff)
  then show ?thesis using path_join_clean [OF False, of "path_clean rel"] assms(2) by (simp add: path_clean_def)
qed (simp add: path_join_def)

lemma safeJoin_dot:
  assumes "path_clean base = ''.''"
  shows "safeJoin base rel = Inr full \<longleftrightarrow>
    rel \<notin> {[], ''.''} \<and> \<not> is_rooted rel \<and> (path_elems rel \<noteq> [] \<longrightarrow> hd (path_elems rel) \<noteq> ''..'') \<and> full = path_clean rel"
proof (cases "\<not> is_rooted rel \<and> (path_elems rel \<noteq> [] \<longrightarrow> hd (path_elems rel) \<noteq> ''..'')")
  case True
  then have nr: "\<not> is_rooted rel" by simp
  have c: "\<not> (path_clean rel = ''..'' \<or> has_prefix (path_clean rel) ''../'')" using climbs_iff [OF nr] True by blast
  have j: "path_join base (path_clean rel) = path_clean rel"
    by (rule join_onto_dot [OF assms nr non_climbing_plain [OF nr conjunct2 [OF True]]])
  have "\<not> is_rooted (path_clean rel)" using nr by simp
  then have "\<not> has_prefix (path_clean rel) ''/''" unfolding is_rooted_def .
  then have "within base (path_clean rel)" using assms c by (simp add: within_def)
  with True c j show ?thesis
    by (auto simp: safeJoin_def is_rooted_def Let_def)
next
  case False
  then show ?thesis using climbs_iff [of rel]
    by (auto simp: safeJoin_def is_rooted_def Let_def split: if_splits)
qed

lemma slashless_elems: "CHR ''/'' \<notin> set name \<Longrightarrow> path_elems name = [] \<Longrightarrow> name = [] \<or> name = ''.''"
  by (auto simp: path_elems_def split_on_free clean_elems_def clean_step_def split: if_splits)

lemma safeChild_strictly_below: "safeChild base name = Inr full \<Longrightarrow> below base full"
proof -
  assume c: "safeChild base name = Inr full"
  then have n: "CHR ''/'' \<notin> set name" "safeJoin base name = Inr full" by (auto simp: safeChild_def split: if_splits)
  show ?thesis
  proof (cases "path_clean base = ''.''")
    case True
    from n(2) [unfolded safeJoin_dot [OF True]]
    have f: "name \<notin> {[], ''.''}" "\<not> is_rooted name" "path_elems name \<noteq> [] \<longrightarrow> hd (path_elems name) \<noteq> ''..''"
      "full = path_clean name" by simp_all
    have "path_elems name \<noteq> []" using slashless_elems [OF n(1)] f(1) by auto
    moreover have "list_all plain_name (path_elems name)" using non_climbing_plain [OF f(2,3)] .
    ultimately show ?thesis using True f(2,4) by (intro belowI [of _ _ "path_elems name"]) (simp_all add: clean_dot_iff)
  next
    case False
    then have "base \<noteq> []" by (auto simp: clean_Nil)
    with False c show ?thesis by (intro safeChild_below)
  qed
qed

section \<open>The confinement contract\<close>

text \<open>
  What the delete sweeps, the stale-temp sweep and the remote scan rely on: a joining routine that
  either refuses or answers something strictly below the directory it joined onto. Collecting the
  accepted names of a listing then yields paths below the directory only.
\<close>

locale confining_join =
  fixes join :: "string \<Rightarrow> string \<Rightarrow> ('e, string) result"
  assumes join_below:
    "path_clean base \<noteq> ''.'' \<Longrightarrow> base \<noteq> [] \<Longrightarrow> join base rel = Inr full \<Longrightarrow> below base full"
begin

lemma collected_below:
  assumes "path_clean base \<noteq> ''.''" "base \<noteq> []"
    and "f \<in> set (List.map_filter (\<lambda>rel. case join base rel of Inl _ \<Rightarrow> None | Inr x \<Rightarrow> Some x) rels)"
  shows "below base f"
  using assms(3) join_below [OF assms(1,2)]
  by (auto simp: List.map_filter_def split: sum.splits if_splits)

lemma nested_below:
  assumes "path_clean base \<noteq> ''.''" "base \<noteq> []" "join base rel = Inr d" "join d rel' = Inr f"
  shows "below base f"
proof -
  have d: "below base d" by (rule join_below [OF assms(1-3)])
  then have "below d f" using below_not_dot [OF d] assms(4) by (intro join_below) auto
  with d show ?thesis by (rule below_trans)
qed

end

interpretation sj: confining_join safeJoin
  by unfold_locales (rule safeJoin_below)

interpretation sc: confining_join safeChild
  by unfold_locales (rule safeChild_below)

section \<open>Properties\<close>

text \<open>
  The names \<open>safeJoin\<close> lets through: those that clean to something below the base and, where the base
  is the working directory, those that clean back to it without being spelled so.
\<close>

definition joinable :: "string \<Rightarrow> string \<Rightarrow> bool" where
  "joinable base rel \<longleftrightarrow> names_below rel \<or>
     path_clean base = ''.'' \<and> rel \<notin> {[], ''.''} \<and> \<not> is_rooted rel \<and> path_elems rel = []"

text \<open>
  Property C27. Onto any base, \<open>safeJoin\<close> accepts a server-supplied relative path exactly when its
  cleaned form is relative, does not begin with a climb and names something, and what it accepts is
  the cleaned path strictly below the base: no manifest key and no directory entry can turn into a
  delete outside the deployment. The one exception is the working directory as the base, where a name
  that cleans back to the working directory itself is accepted and answered with it.
\<close>

theorem safeJoin_confined:
  "((\<exists>full. safeJoin base rel = Inr full) \<longleftrightarrow> joinable base rel) \<and>
    (\<forall>full. safeJoin base rel = Inr full \<longrightarrow>
       path_elems full = path_elems base @ path_elems rel \<and> path_clean full = full \<and>
       (below base full \<or> path_clean base = ''.'' \<and> full = ''.''))"
proof (cases "path_clean base = ''.''")
  case True
  have here: "path_elems base = []" "\<not> is_rooted base" using True by (simp_all add: clean_dot_iff)
  have nb: "names_below rel \<Longrightarrow> rel \<notin> {[], ''.''}"
    by (auto simp: names_below_def path_elems_def clean_elems_def clean_step_def)
  have "below base (path_clean rel) \<or> path_clean rel = ''.''"
    if "\<not> is_rooted rel" "path_elems rel \<noteq> [] \<longrightarrow> hd (path_elems rel) \<noteq> ''..''"
    using belowI [OF _ _ _ non_climbing_plain [OF that], of _ base] here that(1) by (auto simp: clean_dot_iff)
  with here nb show ?thesis unfolding joinable_def safeJoin_dot [OF True] by (auto simp: True names_below_def)
next
  case False
  then have "base \<noteq> []" by (auto simp: clean_Nil)
  with False safeJoin_cases(1) [OF False, of rel] sj.join_below [OF False] safeJoin_Inr_elems [OF False] show ?thesis
    unfolding joinable_def by blast
qed

theorem safeJoin_confined_witness:
  "below ''/var/www'' ''/var/www/a/c'' \<and> \<not> joinable ''/var/www'' ''../../etc'' \<and> \<not> joinable ''/var/www'' ''a/..'' \<and>
     joinable ''.'' ''a/..''"
proof -
  have b: "path_clean ''/var/www'' \<noteq> ''.''" by code_simp
  have j: "safeJoin ''/var/www'' ''a/b/../c'' = Inr ''/var/www/a/c''" by code_simp
  have n: "safeJoin ''/var/www'' ''../../etc'' = Inl (OutsideBase ''../../etc'' ''/etc'' ''/var/www'')"
    "safeJoin ''/var/www'' ''a/..'' = Inl (OutsideBase ''a/..'' ''/var/www'' ''/var/www'')" by code_simp+
  have d: "safeJoin ''.'' ''a/..'' = Inr ''.''" by code_simp
  have "below ''/var/www'' ''/var/www/a/c''"
    using safeJoin_confined [of "''/var/www''" "''a/b/../c''"] b j by blast
  moreover have "\<not> joinable ''/var/www'' ''../../etc''" "\<not> joinable ''/var/www'' ''a/..''"
    using conjunct1 [OF safeJoin_confined, of "''/var/www''"] n by (metis Inl_Inr_False)+
  moreover have "joinable ''.'' ''a/..''" using safeJoin_confined [of "''.''" "''a/..''"] d by blast
  ultimately show ?thesis by blast
qed

lemma norm_not_Nil [simp]: "NormalizeRemote remote \<noteq> []"
  by (simp add: NormalizeRemote_def)

lemma norm_clean [simp]: "path_clean (NormalizeRemote remote) = NormalizeRemote remote"
  by (simp add: NormalizeRemote_def)

lemma norm_stop_iff:
  "NormalizeRemote remote = ''/'' \<or> NormalizeRemote remote = ''.'' \<longleftrightarrow> path_elems (NormalizeRemote remote) = []"
proof -
  let ?n = "NormalizeRemote remote"
  have r: "?n = render_path (is_rooted ?n) (path_elems ?n)"
    using norm_clean [of remote] by (simp add: path_clean_def)
  have "path_stop ?n \<longleftrightarrow> path_elems ?n = []"
    using path_stop_render [OF path_elems_normal [of ?n]] r by simp
  then show ?thesis by (auto simp: path_stop_def)
qed

lemma climbing_rooted:
  "path_elems p \<noteq> [] \<Longrightarrow> hd (path_elems p) = ''..'' \<Longrightarrow> \<not> is_rooted p"
  using path_elems_normal [of p] by (cases "path_elems p"; cases "is_rooted p") auto

text \<open>
  Property C30. The always-on guard of the destructive modes accepts a configured target exactly when
  its normalised form names something (it is neither the root nor the working directory), does not
  climb above the working directory, is not the root of a Windows drive and is not the bare \<open>~\<close>.
\<close>

theorem destructive_guard_exact:
  "checkRemoteRoot remote = None \<longleftrightarrow>
     path_elems (NormalizeRemote remote) \<noteq> [] \<and> hd (path_elems (NormalizeRemote remote)) \<noteq> ''..'' \<and>
     \<not> isDriveRoot (NormalizeRemote remote) \<and> NormalizeRemote remote \<noteq> ''~''"
proof -
  let ?n = "NormalizeRemote remote"
  have climb: "?n = ''..'' \<or> has_prefix ?n ''../'' \<longleftrightarrow> path_elems ?n \<noteq> [] \<and> hd (path_elems ?n) = ''..''"
  proof (cases "is_rooted ?n")
    case True
    then have "\<exists>s. ?n = CHR ''/'' # s" by (cases ?n) auto
    with True climbing_rooted [of ?n] show ?thesis by (auto simp: has_prefix_def)
  next
    case False
    with climbs_iff [OF False] show ?thesis by simp
  qed
  have "checkRemoteRoot remote = None \<longleftrightarrow>
      \<not> (?n = ''/'' \<or> ?n = ''.'') \<and> ?n \<noteq> ''~'' \<and> \<not> isDriveRoot ?n \<and> \<not> (?n = ''..'' \<or> has_prefix ?n ''../'')"
    by (simp add: checkRemoteRoot_def Let_def)
  also have "\<dots> \<longleftrightarrow> path_elems ?n \<noteq> [] \<and> hd (path_elems ?n) \<noteq> ''..'' \<and> \<not> isDriveRoot ?n \<and> ?n \<noteq> ''~''"
    unfolding norm_stop_iff climb by blast
  finally show ?thesis .
qed

lemma guarded_base:
  assumes "checkRemoteRoot remote = None"
  shows "path_clean (NormalizeRemote remote) \<noteq> ''.''" "NormalizeRemote remote \<noteq> []"
  using assms by (auto simp: checkRemoteRoot_def Let_def split: if_splits)

text \<open>
  The one base the confinement does not cover: below the working directory
  \<open>safeJoin\<close> accepts a path that cleans back to the working directory itself, so its result is
  not strictly below the base there.
\<close>

theorem safeJoin_working_directory:
  "safeJoin ''.'' ''a/..'' = Inr ''.'' \<and> \<not> below ''.'' ''.''"
  by (simp add: below_not_self) code_simp

lemma leafDirs_set: "d \<in> set (leafDirs dirs) \<longleftrightarrow> d \<in> set dirs \<and> d \<notin> path_dir ` set dirs"
  by (auto simp: leafDirs_def)

lemma dir_elems:
  assumes "path_clean d = d" "\<not> path_stop d"
  shows "path_elems d \<noteq> []" "path_elems (path_dir d) = butlast (path_elems d)"
    "is_rooted (path_dir d) = is_rooted d"
proof -
  have r: "d = render_path (is_rooted d) (path_elems d)"
    using assms(1) by (simp add: path_clean_def)
  have n: "normal_elems (is_rooted d) (path_elems d)" by (rule path_elems_normal)
  show ne: "path_elems d \<noteq> []"
    using path_stop_render [OF n] r assms(2) by simp
  then obtain es e where es: "path_elems d = es @ [e]"
    by (cases "path_elems d" rule: rev_cases) auto
  have nes: "normal_elems (is_rooted d) es" using n es normal_elems_appendD by metis
  have "path_dir d = render_path (is_rooted d) es"
    using path_dir_render [of "is_rooted d" es e] n es r by simp
  then show "path_elems (path_dir d) = butlast (path_elems d)" "is_rooted (path_dir d) = is_rooted d"
    using es nes by (simp_all add: path_elems_render)
qed

text \<open>
  The reduction to leaf directories loses nothing: for a duplicate-free or repeated
  list of cleaned directories, every directory is an ancestor of (or is) a leaf that is created,
  and no leaf is the parent of a listed directory. Creating the leaves with their missing parents
  therefore creates the whole list.
\<close>

theorem leafDirs_cover:
  assumes "\<forall>d \<in> set dirs. path_clean d = d \<and> \<not> path_stop d" "d \<in> set dirs"
  shows "\<exists>l \<in> set (leafDirs dirs). prefix (path_elems d) (path_elems l) \<and>
    is_rooted l = is_rooted d \<and> (\<forall>d' \<in> set dirs. path_dir d' \<noteq> l)"
  using assms(2)
proof (induction "Max ((\<lambda>d. length (path_elems d)) ` set dirs) - length (path_elems d)"
    arbitrary: d rule: less_induct)
  case less
  show ?case
  proof (cases "d \<in> set (leafDirs dirs)")
    case True
    then show ?thesis using leafDirs_set by (intro bexI [of _ d]) auto
  next
    case False
    with less.prems obtain d' where d': "d' \<in> set dirs" "path_dir d' = d"
      by (auto simp: leafDirs_set)
    note de = dir_elems [of d'] and n' = assms(1) [rule_format, OF d'(1)]
    have "length (path_elems d') \<le> Max ((\<lambda>d. length (path_elems d)) ` set dirs)"
      using d'(1) by (intro Max_ge) auto
    moreover have "length (path_elems d) < length (path_elems d')"
      using de n' d'(2) by auto
    ultimately have "Max ((\<lambda>d. length (path_elems d)) ` set dirs) - length (path_elems d')
        < Max ((\<lambda>d. length (path_elems d)) ` set dirs) - length (path_elems d)"
      by linarith
    from less.hyps [OF this d'(1)]
    obtain l where l: "l \<in> set (leafDirs dirs)" "prefix (path_elems d') (path_elems l)"
      "is_rooted l = is_rooted d'" "\<forall>d' \<in> set dirs. path_dir d' \<noteq> l"
      by auto
    have "prefix (path_elems d) (path_elems d')"
      using de n' d'(2) by (auto simp: prefixeq_butlast)
    with l de n' d'(2) show ?thesis by (intro bexI [of _ l]) auto
  qed
qed

theorem leafDirs_cover_witness:
  "leafDirs [''/w'', ''/w/a'', ''/w/a/b'', ''/w/c''] = [''/w/a/b'', ''/w/c''] \<and>
    (\<exists>l \<in> set (leafDirs [''/w'', ''/w/a'', ''/w/a/b'', ''/w/c'']). prefix (path_elems ''/w'') (path_elems l))"
proof -
  let ?ds = "[''/w'', ''/w/a'', ''/w/a/b'', ''/w/c'']"
  have h: "\<forall>d \<in> set ?ds. path_clean d = d \<and> \<not> path_stop d" by code_simp
  have e: "leafDirs ?ds = [''/w/a/b'', ''/w/c'']" by code_simp
  show ?thesis using leafDirs_cover [OF h, of "''/w''"] e by auto
qed

end
