(* ===== verification/Go_Error.thy ===== *)
theory Go_Error
  imports Prelude
begin

text \<open>
  Error values and their classification. A Go error is a leaf with an identity (what \<open>errors.Is\<close>
  and \<open>errors.As\<close> find at the end of the chain) and a text, wrapped any number of times by
  \<open>fmt.Errorf\<close> with \<open>%w\<close> or marked permanent. On top of it stand the predicates the retry and
  reconnect logic asks: \<open>isConnError\<close> and \<open>isRetryableConnect\<close> (session.go), \<open>isRetryable\<close>
  and \<open>isPermanentStatus\<close> (retry.go), \<open>posixRenameUnsupported\<close> (transfer.go).
\<close>

section \<open>Errors\<close>

datatype fxcode =
    FxNoSuchFile | FxPermissionDenied | FxFailure | FxBadMessage | FxNoConnection
  | FxConnectionLost | FxOpUnsupported | FxOther nat

text \<open>
  The identity of a leaf: the sentinels of \<open>os\<close>, \<open>io\<close>, \<open>net\<close> and \<open>context\<close>, a
  \<open>*sftp.StatusError\<close> with its code, \<open>sftp.ErrSSHFxConnectionLost\<close>, a \<open>*net.OpError\<close>,
  the session's own \<open>errPoolRefused\<close>, or none of them (\<open>errors.New\<close>, a string error).
\<close>

datatype identity =
    NotExist | Permission | Status fxcode | ConnectionLost | EndOfFile | UnexpectedEOF
  | NetClosed | NetOp | Canceled | DeadlineExceeded | PoolRefused | Plain

datatype goerr =
    Err identity string
  | Wrap string goerr string
  | Permanent goerr

primrec err_id :: "goerr \<Rightarrow> identity" where
  "err_id (Err k t) = k"
| "err_id (Wrap pre e post) = err_id e"
| "err_id (Permanent e) = err_id e"

primrec err_text :: "goerr \<Rightarrow> string" where
  "err_text (Err k t) = t"
| "err_text (Wrap pre e post) = pre @ err_text e @ post"
| "err_text (Permanent e) = err_text e"

primrec marked_permanent :: "goerr \<Rightarrow> bool" where
  "marked_permanent (Err k t) = False"
| "marked_permanent (Wrap pre e post) = marked_permanent e"
| "marked_permanent (Permanent e) = True"

text \<open>\<open>os.IsNotExist\<close> looks at the error itself: it does not unwrap.\<close>

definition os_IsNotExist :: "goerr \<Rightarrow> bool" where
  "os_IsNotExist e = (case e of Err k _ \<Rightarrow> k = NotExist | _ \<Rightarrow> False)"

text \<open>
  \<open>%q\<close> on a path: bytes below 0x20 and 0x7f become escapes, a quote and a backslash are
  escaped, everything else is copied.
\<close>

definition hex_digit :: "nat \<Rightarrow> char" where
  "hex_digit n = (''0123456789abcdef'' ! n)"

definition quote_char :: "char \<Rightarrow> string" where
  "quote_char c =
     (if c = CHR 0x22 then [CHR 0x5C, CHR 0x22]
      else if c = CHR 0x5C then [CHR 0x5C, CHR 0x5C]
      else if c = CHR 0x0A then [CHR 0x5C, CHR ''n'']
      else if c = CHR 0x0D then [CHR 0x5C, CHR ''r'']
      else if c = CHR 0x09 then [CHR 0x5C, CHR ''t'']
      else if c = CHR 0x07 then [CHR 0x5C, CHR ''a'']
      else if c = CHR 0x08 then [CHR 0x5C, CHR ''b'']
      else if c = CHR 0x0B then [CHR 0x5C, CHR ''v'']
      else if c = CHR 0x0C then [CHR 0x5C, CHR ''f'']
      else if of_char c < (32 :: nat) \<or> of_char c = (127 :: nat)
      then [CHR 0x5C, CHR ''x'', hex_digit (of_char c div 16), hex_digit (of_char c mod 16)]
      else [c])"

definition go_quote :: "string \<Rightarrow> string" where
  "go_quote s = CHR 0x22 # concat (map quote_char s) @ [CHR 0x22]"

text \<open>\<open>%d\<close> on a non-negative number.\<close>

fun decimal :: "nat \<Rightarrow> string" where
  "decimal n = (if n < 10 then [hex_digit n] else decimal (n div 10) @ [hex_digit (n mod 10)])"

definition int_text :: "int \<Rightarrow> string" where
  "int_text n = (if n < 0 then CHR ''-'' # decimal (nat (- n)) else decimal (nat n))"

declare decimal.simps [simp del]

section \<open>Classification\<close>

definition isConnError :: "goerr \<Rightarrow> bool" where
  "isConnError e \<longleftrightarrow>
     err_id e \<in> {ConnectionLost, EndOfFile, UnexpectedEOF, NetClosed, NetOp} \<or>
     contains_str (err_text e) ''connection lost'' \<or>
     contains_str (err_text e) ''broken pipe'' \<or>
     contains_str (err_text e) ''connection reset''"

definition isRetryableConnect :: "goerr \<Rightarrow> bool" where
  "isRetryableConnect e \<longleftrightarrow>
     \<not> marked_permanent e \<and> \<not> contains_str (err_text e) ''ssh: unable to authenticate''"

definition isPermanentStatus :: "goerr \<Rightarrow> bool" where
  "isPermanentStatus e =
     (case err_id e of
        Status c \<Rightarrow> c \<in> {FxOpUnsupported, FxBadMessage, FxNoSuchFile, FxPermissionDenied}
      | _ \<Rightarrow> False)"

definition isRetryable :: "goerr \<Rightarrow> bool" where
  "isRetryable e =
     (if err_id e \<in> {Canceled, DeadlineExceeded} then False
      else if err_id e \<in> {Permission, NotExist} then False
      else if isPermanentStatus e then False
      else True)"

definition posixRenameUnsupported :: "goerr \<Rightarrow> bool \<Rightarrow> bool" where
  "posixRenameUnsupported e announced =
     (case err_id e of
        Status c \<Rightarrow>
          if c = FxOpUnsupported then True
          else if c = FxFailure \<or> c = FxBadMessage then \<not> announced
          else False
      | _ \<Rightarrow> False)"

section \<open>Facts\<close>

lemma isConnError_wrap: "isConnError e \<Longrightarrow> isConnError (Wrap pre e post)"
  unfolding isConnError_def contains_str_def
  by (auto intro: sublist_order.order_trans [OF _ sublist_appendI])

lemma isRetryable_wrap [simp]: "isRetryable (Wrap pre e post) = isRetryable e"
  by (simp add: isRetryable_def isPermanentStatus_def)

lemma isPermanentStatus_wrap [simp]: "isPermanentStatus (Wrap pre e post) = isPermanentStatus e"
  by (simp add: isPermanentStatus_def)

lemma permanent_not_retryable: "isPermanentStatus e \<Longrightarrow> \<not> isRetryable e"
  by (simp add: isRetryable_def)

text \<open>
  Only an unsupported or unannounced extension opens the non-atomic publish path; every status code
  that opens it for an announcing server is one the retry logic calls permanent.
\<close>

lemma posix_fallback_iff:
  "posixRenameUnsupported e announced \<longleftrightarrow>
     err_id e = Status FxOpUnsupported \<or>
     (\<not> announced \<and> (err_id e = Status FxFailure \<or> err_id e = Status FxBadMessage))"
  by (auto simp: posixRenameUnsupported_def split: identity.splits if_splits)

lemma posix_fallback_announced: "posixRenameUnsupported e True \<Longrightarrow> isPermanentStatus e"
  by (auto simp: posix_fallback_iff isPermanentStatus_def)

text \<open>
  Connection failures are recognised by the text of the whole error, wrapped context
  included, so an ordinary server failure on a path whose name contains one of the three phrases is
  read as a dead connection, although nothing in the server's answer says so.
\<close>

theorem conn_error_from_path:
  "isConnError (Wrap (''replacing '' @ go_quote ''www/broken pipe.html'' @ '': '')
      (Err (Status FxFailure) ''sftp: Failure (SSH_FX_FAILURE)'') []) \<and>
   \<not> isConnError (Err (Status FxFailure) ''sftp: Failure (SSH_FX_FAILURE)'')"
  by code_simp

end
