(* ===== verification/Sftp_Env.thy ===== *)
theory Sftp_Env
  imports Go_Error
begin

text \<open>
  What the uploader is handed from outside. The SFTP client library and the server behind it, the
  dialer, the clock and the Go scheduler are not part of this repository: they are the fields of one
  record \<open>remote\<close>, functions on an abstract world \<open>'w\<close>, with \<open>'c\<close> the type of a live
  client. Every routine of the uploader takes such a record and threads the world through.
  \<open>traced\<close> is the same record with every destructive request noted in the world, which is how the
  safety properties say what a run asked the server to do. \<open>runBounded\<close> (parallel.go) is here
  because every phase runs its items through it.
\<close>

section \<open>Configuration\<close>

text \<open>The fields of \<open>config.Config\<close> (config.go) the transfer phases read.\<close>

record config =
  Retries :: nat
  DryRun :: bool
  SkipUnchanged :: bool
  SyncFastPath :: bool
  PreserveTimes :: bool
  FileMode :: "nat option"
  DirMode :: "nat option"
  ManifestName :: string
  MaxDeletes :: int
  FixedConcurrency :: int
  FixedConnections :: int
  StallTimeout :: int

section \<open>The remote side\<close>

record file_info =
  fi_name :: string
  fi_dir :: bool
  fi_regular :: bool
  fi_size :: int
  fi_mtime :: int

record ('c, 'w) remote =
  Remove :: "'c \<Rightarrow> string \<Rightarrow> 'w \<Rightarrow> goerr option \<times> 'w"
  RemoveDirectory :: "'c \<Rightarrow> string \<Rightarrow> 'w \<Rightarrow> goerr option \<times> 'w"
  Rename :: "'c \<Rightarrow> string \<Rightarrow> string \<Rightarrow> 'w \<Rightarrow> goerr option \<times> 'w"
  PosixRename :: "'c \<Rightarrow> string \<Rightarrow> string \<Rightarrow> 'w \<Rightarrow> goerr option \<times> 'w"
  HasPosixRename :: "'c \<Rightarrow> bool"
  Stat :: "'c \<Rightarrow> string \<Rightarrow> 'w \<Rightarrow> (goerr, file_info) result \<times> 'w"
  Lstat :: "'c \<Rightarrow> string \<Rightarrow> 'w \<Rightarrow> (goerr, file_info) result \<times> 'w"
  ReadDir :: "'c \<Rightarrow> string \<Rightarrow> 'w \<Rightarrow> (goerr, file_info list) result \<times> 'w"
  MkdirAll :: "'c \<Rightarrow> string \<Rightarrow> 'w \<Rightarrow> goerr option \<times> 'w"
  Chmod :: "'c \<Rightarrow> string \<Rightarrow> nat \<Rightarrow> 'w \<Rightarrow> goerr option \<times> 'w"
  Chtimes :: "'c \<Rightarrow> string \<Rightarrow> int \<Rightarrow> 'w \<Rightarrow> goerr option \<times> 'w"
  OpenTrunc :: "'c \<Rightarrow> string \<Rightarrow> 'w \<Rightarrow> goerr option \<times> 'w"
  StreamFrom :: "'c \<Rightarrow> string \<Rightarrow> string \<Rightarrow> int \<Rightarrow> 'w \<Rightarrow> (int \<times> goerr option) \<times> 'w"
  WriteAll :: "'c \<Rightarrow> string \<Rightarrow> string \<Rightarrow> 'w \<Rightarrow> goerr option \<times> 'w"
  CloseFile :: "'c \<Rightarrow> string \<Rightarrow> 'w \<Rightarrow> goerr option \<times> 'w"
  OpenRead :: "'c \<Rightarrow> string \<Rightarrow> 'w \<Rightarrow> goerr option \<times> 'w"
  ReadLimited :: "'c \<Rightarrow> string \<Rightarrow> int \<Rightarrow> 'w \<Rightarrow> (goerr, string) result \<times> 'w"
  connect :: "'w \<Rightarrow> (goerr, 'c) result \<times> 'w"
  closeConn :: "'c \<Rightarrow> 'w \<Rightarrow> 'w"
  sleepBackoff :: "nat \<Rightarrow> 'w \<Rightarrow> goerr option \<times> 'w"
  ctx_err :: "'w \<Rightarrow> goerr option"
  fired :: "'w \<Rightarrow> bool"
  now :: "'w \<Rightarrow> int"
  schedule :: "nat \<Rightarrow> nat \<Rightarrow> 'w \<Rightarrow> (nat \<times> bool) list"
  moves :: "nat \<Rightarrow> 'w \<Rightarrow> nat list"
  open_local :: "string \<Rightarrow> 'w \<Rightarrow> goerr option"
  hash_local :: "string \<Rightarrow> 'w \<Rightarrow> (goerr, string) result"

section \<open>Noting the destructive requests\<close>

datatype request =
    RemoveReq string
  | RmdirReq string
  | RenameReq string string
  | PosixRenameReq string string
  | TruncReq string

type_synonym 'w noted = "'w \<times> request list"

definition noting :: "('w \<Rightarrow> 'a \<times> 'w) \<Rightarrow> request list \<Rightarrow> 'w noted \<Rightarrow> 'a \<times> 'w noted" where
  "noting f rs s = (case f (fst s) of (r, w) \<Rightarrow> (r, (w, rs @ snd s)))"

definition traced :: "('c, 'w) remote \<Rightarrow> ('c, 'w noted) remote" where
  "traced env =
     \<lparr>Remove = \<lambda>c p. noting (Remove env c p) [RemoveReq p],
      RemoveDirectory = \<lambda>c p. noting (RemoveDirectory env c p) [RmdirReq p],
      Rename = \<lambda>c p q. noting (Rename env c p q) [RenameReq p q],
      PosixRename = \<lambda>c p q. noting (PosixRename env c p q) [PosixRenameReq p q],
      HasPosixRename = HasPosixRename env,
      Stat = \<lambda>c p. noting (Stat env c p) [],
      Lstat = \<lambda>c p. noting (Lstat env c p) [],
      ReadDir = \<lambda>c p. noting (ReadDir env c p) [],
      MkdirAll = \<lambda>c p. noting (MkdirAll env c p) [],
      Chmod = \<lambda>c p m. noting (Chmod env c p m) [],
      Chtimes = \<lambda>c p m. noting (Chtimes env c p m) [],
      OpenTrunc = \<lambda>c p. noting (OpenTrunc env c p) [TruncReq p],
      StreamFrom = \<lambda>c p src k. noting (StreamFrom env c p src k) [],
      WriteAll = \<lambda>c p d. noting (WriteAll env c p d) [],
      CloseFile = \<lambda>c p. noting (CloseFile env c p) [],
      OpenRead = \<lambda>c p. noting (OpenRead env c p) [],
      ReadLimited = \<lambda>c p n. noting (ReadLimited env c p n) [],
      connect = noting (connect env) [],
      closeConn = \<lambda>c s. (closeConn env c (fst s), snd s),
      sleepBackoff = \<lambda>n. noting (sleepBackoff env n) [],
      ctx_err = \<lambda>s. ctx_err env (fst s),
      fired = \<lambda>s. fired env (fst s),
      now = \<lambda>s. now env (fst s),
      schedule = \<lambda>l n s. schedule env l n (fst s),
      moves = \<lambda>i s. moves env i (fst s),
      open_local = \<lambda>p s. open_local env p (fst s),
      hash_local = \<lambda>p s. hash_local env p (fst s)\<rparr>"

lemma snd_noting [simp]: "snd (snd (noting f rs s)) = rs @ snd s"
  by (simp add: noting_def split: prod.splits)

section \<open>Bounded parallel phases (parallel.go)\<close>

text \<open>
  A phase runs each item once, in an order and with an overlap the scheduler picks: a schedule
  lists the items in the order they take effect, each with a flag saying that it was already in
  flight when the first error cancelled the group. An item that was not returns the group's
  context error without running. The result is the first error. A schedule names the loop's indexes
  only, so others are not run.
\<close>

type_synonym ('s, 'r) item = "nat \<Rightarrow> 's \<Rightarrow> goerr option \<times> 's"

fun run_items ::
    "('s \<Rightarrow> goerr option) \<Rightarrow> (nat \<Rightarrow> 's \<Rightarrow> goerr option \<times> 's) \<Rightarrow> (nat \<times> bool) list
       \<Rightarrow> goerr option \<Rightarrow> 's \<Rightarrow> goerr option \<times> 's" where
  "run_items cancelled fn [] err s = (err, s)"
| "run_items cancelled fn ((i, inflight) # rest) err s =
     (case err of
        None \<Rightarrow>
          (case cancelled s of
             Some e \<Rightarrow> run_items cancelled fn rest (Some e) s
           | None \<Rightarrow> (case fn i s of (r, s') \<Rightarrow> run_items cancelled fn rest r s'))
      | Some e \<Rightarrow>
          if inflight then (case fn i s of (_, s') \<Rightarrow> run_items cancelled fn rest (Some e) s')
          else run_items cancelled fn rest (Some e) s)"

text \<open>What a schedule of \<open>count\<close> items on \<open>limit\<close> workers looks like.\<close>

definition valid_schedule :: "nat \<Rightarrow> nat \<Rightarrow> (nat \<times> bool) list \<Rightarrow> bool" where
  "valid_schedule limit count sched \<longleftrightarrow>
     distinct (map fst sched) \<and> set (map fst sched) = {..<count} \<and>
     length (filter snd sched) < max limit 1"

definition runBounded ::
    "('s \<Rightarrow> goerr option) \<Rightarrow> (nat \<Rightarrow> nat \<Rightarrow> 's \<Rightarrow> (nat \<times> bool) list) \<Rightarrow> nat \<Rightarrow> nat
       \<Rightarrow> (nat \<Rightarrow> 's \<Rightarrow> goerr option \<times> 's) \<Rightarrow> 's \<Rightarrow> goerr option \<times> 's" where
  "runBounded cancelled sched limit count fn s =
     run_items cancelled fn (filter (\<lambda>(i, _). i < count) (sched (max limit 1) count s)) None s"

lemma run_items_invariant:
  assumes "P s" "\<And>i s. i \<in> fst ` set sched \<Longrightarrow> P s \<Longrightarrow> P (snd (fn i s))"
  shows "P (snd (run_items cancelled fn sched err s))"
  using assms
proof (induction sched arbitrary: err s)
  case (Cons x rest)
  obtain i b where x: "x = (i, b)" by (cases x)
  have step: "P (snd (fn i s))" using Cons.prems x by auto
  have IH: "P (snd (run_items cancelled fn rest e t))" if "P t" for e t
    using Cons.IH [OF that] Cons.prems(2) by auto
  show ?case
    using step IH Cons.prems(1) by (auto simp: x split: option.splits prod.splits)
qed simp

lemma runBounded_invariant:
  assumes "P s" "\<And>i s. i < count \<Longrightarrow> P s \<Longrightarrow> P (snd (fn i s))"
  shows "P (snd (runBounded cancelled sched limit count fn s))"
  unfolding runBounded_def by (rule run_items_invariant) (use assms in auto)

text \<open>When the phase reports no error, every scheduled item ran and none of them failed.\<close>

lemma run_items_error: "fst (run_items cancelled fn sched (Some e) s) = Some e"
proof (induction sched arbitrary: s)
  case (Cons x rest)
  then show ?case by (cases x) (auto split: prod.splits)
qed simp

text \<open>An invariant of the items that succeed, when the phase reports no error.\<close>

lemma run_items_ok_invariant:
  assumes "run_items cancelled fn sched None s = (None, t)" "P s"
    and "\<And>i s. i \<in> fst ` set sched \<Longrightarrow> P s \<Longrightarrow> fst (fn i s) = None \<Longrightarrow> P (snd (fn i s))"
  shows "P t"
  using assms
proof (induction sched arbitrary: s)
  case (Cons x rest)
  obtain i b where x: "x = (i, b)" by (cases x)
  obtain r s' where f: "fn i s = (r, s')" by (cases "fn i s")
  have err: "run_items cancelled fn rest (Some e) u \<noteq> (None, t)" for e u
    using run_items_error [of cancelled fn rest e u] by (metis fst_conv option.distinct(1))
  have "cancelled s = None" using Cons.prems(1) err by (cases "cancelled s") (auto simp: x)
  with Cons.prems(1) f have run: "run_items cancelled fn rest r s' = (None, t)" by (simp add: x)
  have r: "r = None" using run err by (cases r) auto
  have "P s'" using Cons.prems(3) [of i s] Cons.prems(2) f r x by simp
  from Cons.IH [OF run [unfolded r] this] Cons.prems(3) show ?case by simp
qed simp

lemma run_items_all_ran:
  assumes "run_items cancelled fn sched None s = (None, t)" "I s"
    and inv: "\<And>i s. i \<in> fst ` set sched \<Longrightarrow> I s \<Longrightarrow> I (snd (fn i s))"
    and ran: "\<And>i s. i \<in> fst ` set sched \<Longrightarrow> I s \<Longrightarrow> fst (fn i s) = None \<Longrightarrow> Q i (snd (fn i s))"
    and keep: "\<And>i j s. i \<in> fst ` set sched \<Longrightarrow> j \<in> fst ` set sched \<Longrightarrow> I s \<Longrightarrow> Q i s \<Longrightarrow>
      fst (fn j s) = None \<Longrightarrow> Q i (snd (fn j s))"
  shows "I t \<and> (\<forall>i \<in> fst ` set sched. Q i t)"
  using assms
proof (induction sched arbitrary: s)
  case (Cons x rest)
  obtain j b where x: "x = (j, b)" by (cases x)
  obtain r s' where f: "fn j s = (r, s')" by (cases "fn j s")
  have nc: "cancelled s = None"
  proof (cases "cancelled s")
    case (Some e)
    with Cons.prems(1) have "run_items cancelled fn rest (Some e) s = (None, t)" by (simp add: x)
    with run_items_error [of cancelled fn rest e s] show ?thesis by simp
  qed
  with Cons.prems(1) f have rest: "run_items cancelled fn rest r s' = (None, t)" by (simp add: x)
  have r: "r = None"
  proof (cases r)
    case (Some e)
    with rest run_items_error [of cancelled fn rest e s'] show ?thesis by simp
  qed
  have I': "I s'" using Cons.prems(3) [of j s] Cons.prems(2) f x by simp
  have Qj: "Q j s'" using Cons.prems(4) [of j s] Cons.prems(2) f r x by simp
  have IH: "I t \<and> (\<forall>i \<in> fst ` set rest. Q i t)"
    by (rule Cons.IH) (use rest r I' Cons.prems(3-5) in auto)
  have run: "run_items cancelled fn rest None s' = (None, t)" using rest r by simp
  have "I t \<and> Q j t"
    by (rule run_items_ok_invariant [where P = "\<lambda>u. I u \<and> Q j u", OF run])
      (use I' Qj Cons.prems(3,5) x in auto)
  with IH x show ?case by simp
qed simp

lemma indexes_below: "fst ` set (filter (\<lambda>(i, _). i < n) xs) = {i \<in> fst ` set xs. i < n}"
  by (induction xs) auto

text \<open>The same for a whole phase whose schedule covers its items.\<close>

lemma runBounded_all_ran:
  assumes "runBounded cancelled sched limit count fn s = (None, t)" "I s"
    and "valid_schedule (max limit 1) count (sched (max limit 1) count s)"
    and "\<And>i s. i < count \<Longrightarrow> I s \<Longrightarrow> I (snd (fn i s))"
    and "\<And>i s. i < count \<Longrightarrow> I s \<Longrightarrow> fst (fn i s) = None \<Longrightarrow> Q i (snd (fn i s))"
    and "\<And>i j s. i < count \<Longrightarrow> j < count \<Longrightarrow> I s \<Longrightarrow> Q i s \<Longrightarrow> fst (fn j s) = None \<Longrightarrow> Q i (snd (fn j s))"
  shows "I t \<and> (\<forall>i < count. Q i t)"
proof -
  let ?sc = "filter (\<lambda>(i, _). i < count) (sched (max limit 1) count s)"
  have "fst ` set (sched (max limit 1) count s) = {..<count}"
    using assms(3) by (simp add: valid_schedule_def)
  then have sc: "fst ` set ?sc = {..<count}" unfolding indexes_below by auto
  have mem: "i < count" if "i \<in> fst ` set ?sc" for i using sc that by blast
  have "I t \<and> (\<forall>i \<in> fst ` set ?sc. Q i t)"
    by (rule run_items_all_ran [where I = I and Q = Q, OF assms(1) [unfolded runBounded_def] assms(2)])
      (use assms(4-6) mem in blast)+
  then show ?thesis unfolding sc by simp
qed

text \<open>A meter each item moves by at most one is moved by at most the number of items.\<close>

lemma run_items_measure:
  assumes "\<And>i s. m (snd (fn i s)) \<le> m s + (1 :: int)"
  shows "m (snd (run_items cancelled fn sched err s)) \<le> m s + int (length sched)"
proof (induction sched arbitrary: err s)
  case (Cons x rest)
  obtain i b where x: "x = (i, b)" by (cases x)
  obtain r s' where f: "fn i s = (r, s')" by (cases "fn i s")
  have s': "m s' \<le> m s + 1" using assms [of i s] f by simp
  have "m (snd (run_items cancelled fn rest e s')) \<le> m s + (1 + int (length rest))"
    "m (snd (run_items cancelled fn rest e s)) \<le> m s + (1 + int (length rest))" for e
    using Cons.IH [of e s'] Cons.IH [of e s] s' by linarith+
  then show ?case by (simp add: x f split: option.split)
qed simp

lemma valid_schedule_length:
  assumes "valid_schedule limit count sched"
  shows "length (filter (\<lambda>(i, _). i < count) sched) = count"
proof -
  have "fst ` set sched = {..<count}" using assms by (simp add: valid_schedule_def)
  then have "filter (\<lambda>(i, _). i < count) sched = sched" by (force intro: filter_True)
  moreover have "length sched = card (set (map fst sched))"
    using assms distinct_card by (metis length_map valid_schedule_def)
  ultimately show ?thesis using assms by (simp add: valid_schedule_def)
qed

lemma runBounded_measure:
  assumes "\<And>i s. m (snd (fn i s)) \<le> m s + (1 :: int)"
    and "valid_schedule (max limit 1) count (sched (max limit 1) count s)"
  shows "m (snd (runBounded cancelled sched limit count fn s)) \<le> m s + int count"
  using run_items_measure [where m = m and fn = fn, OF assms(1)] valid_schedule_length [OF assms(2)]
  unfolding runBounded_def by metis

end
