(* ===== verification/Planner.thy ===== *)
theory Planner
  imports Gitignore Remote_Path Sftp_Env
begin

text \<open>
  The local side of a deployment (\<open>internal/uploader/planner.go\<close>): the walk that turns a local
  tree and the exclude patterns into the list of transfers (\<open>buildPlan\<close>), the directories they
  need (\<open>dirsForFiles\<close>) and the content hashes of the sync mode (\<open>hashPlanFiles\<close>). The file
  system is a tree value: what \<open>os.Stat\<close> and \<open>filepath.WalkDir\<close> report, in the order they
  report it.
\<close>

section \<open>Plans\<close>

datatype strategy = Overlay | Clean | Sync

record uploadPair =
  Name :: string
  Local :: string
  Remote :: string
  Strategy :: "strategy option"
  Ignore :: "string list"

record fileItem =
  localPath :: string
  remotePath :: string
  rel :: string
  fsize :: int
  mtime :: int
  fmode :: nat
  hash :: string

record plan =
  pair :: uploadPair
  strat :: strategy
  plan_files :: "fileItem list"
  remoteDirs :: "string list"
  skippedNonRegular :: nat

definition effectiveStrategy :: "uploadPair \<Rightarrow> strategy" where
  "effectiveStrategy p = (case Strategy p of Some s \<Rightarrow> s | None \<Rightarrow> Overlay)"

section \<open>The local tree\<close>

record local_info =
  li_regular :: bool
  li_size :: int
  li_mtime :: int
  li_mode :: nat

text \<open>
  An entry that is not a directory carries the answer of its \<open>Info\<close>; a directory carries the
  error reading it, if any, and its entries in lexical order.
\<close>

datatype node =
    Entry "(goerr, local_info) result"
  | Dir "goerr option" "(string \<times> node) list"

datatype root_stat =
    RootError goerr
  | RootFile local_info
  | RootTree "goerr option" "(string \<times> node) list"

record planOptions =
  matcher :: "gitignorePattern list"
  pruneDirs :: bool
  manifestName :: string

text \<open>\<open>filepath.Base\<close>.\<close>

definition path_base :: "string \<Rightarrow> string" where
  "path_base p =
     (if p = [] then ''.''
      else
        let t = trim_right_char (CHR ''/'') p in
        if t = [] then ''/''
        else rev (takeWhile (\<lambda>c. c \<noteq> CHR ''/'') (rev t)))"

definition child_rel :: "string \<Rightarrow> string \<Rightarrow> string" where
  "child_rel relp name = (if relp = ''.'' then name else relp @ ''/'' @ name)"

type_synonym walked = "fileItem list \<times> nat"

text \<open>
  The walk: the callback of \<open>filepath.WalkDir\<close> on every entry, a skipped directory included. A local
  path is joined as on a system with slashes.
\<close>

fun walk_node ::
    "planOptions \<Rightarrow> string \<Rightarrow> string \<Rightarrow> string \<Rightarrow> node \<Rightarrow> walked \<Rightarrow> (goerr, walked) result"
  and walk_children ::
    "planOptions \<Rightarrow> string \<Rightarrow> string \<Rightarrow> string \<Rightarrow> (string \<times> node) list \<Rightarrow> walked
       \<Rightarrow> (goerr, walked) result" where
  "walk_node opts base root relp (Dir rerr children) acc =
     (if pruneDirs opts \<and> relp \<noteq> ''.'' \<and> fst (matchesHow (matcher opts) relp True) then Inr acc
      else (case rerr of
              Some e \<Rightarrow> Inl e
            | None \<Rightarrow> walk_children opts base root relp children acc))"
| "walk_node opts base root relp (Entry info) acc =
     (if relp = manifestName opts then Inr acc
      else if fst (matchesHow (matcher opts) relp False) then Inr acc
      else
        (case info of
           Inl e \<Rightarrow> Inl e
         | Inr fi \<Rightarrow>
             if \<not> li_regular fi then Inr (fst acc, Suc (snd acc))
             else Inr (fst acc @ [\<lparr>localPath = path_join root relp, remotePath = path_join base relp,
                          rel = relp, fsize = li_size fi, mtime = li_mtime fi, fmode = li_mode fi,
                          hash = []\<rparr>], snd acc)))"
| "walk_children opts base root relp [] acc = Inr acc"
| "walk_children opts base root relp ((name, n) # rest) acc =
     (case walk_node opts base root (child_rel relp name) n acc of
        Inl e \<Rightarrow> Inl e
      | Inr acc' \<Rightarrow> walk_children opts base root relp rest acc')"

definition dirsForFiles :: "fileItem list \<Rightarrow> string list" where
  "dirsForFiles fs = sort (remdups (concat (map (\<lambda>f. parentDirs (remotePath f)) fs)))"

definition empty_plan :: "uploadPair \<Rightarrow> strategy \<Rightarrow> plan" where
  "empty_plan p st = \<lparr>pair = p, strat = st, plan_files = [], remoteDirs = [], skippedNonRegular = 0\<rparr>"

text \<open>\<open>walkRoot\<close> is \<open>pair.Local\<close> with links and junctions at the root resolved.\<close>

definition buildPlan ::
    "uploadPair \<Rightarrow> strategy \<Rightarrow> planOptions \<Rightarrow> root_stat \<Rightarrow> string \<Rightarrow> (goerr, plan) result" where
  "buildPlan p st opts root walkRoot =
     (let base = NormalizeRemote (Remote p) in
      case root of
        RootError e \<Rightarrow> Inl (Wrap (''local path '' @ go_quote (Local p) @ '': '') e [])
      | RootFile fi \<Rightarrow>
          if st \<noteq> Overlay then
            Inl (Err Plain (''mode requires a directory, but local path '' @ go_quote (Local p) @
              '' is a single file (use the overlay mode)''))
          else
            let b = path_base (Local p);
                target = (if has_suffix (Remote p) ''/'' \<or> base = ''.'' then path_join base b else base) in
            if fst (matchesHow (matcher opts) b False) then Inr (empty_plan p st)
            else Inr \<lparr>pair = p, strat = st,
                 plan_files = [\<lparr>localPath = Local p, remotePath = target, rel = b, fsize = li_size fi,
                   mtime = li_mtime fi, fmode = li_mode fi, hash = []\<rparr>],
                 remoteDirs = parentDirs target, skippedNonRegular = 0\<rparr>
      | RootTree rerr children \<Rightarrow>
          (case walk_node opts base walkRoot ''.'' (Dir rerr children) ([], 0) of
             Inl e \<Rightarrow> Inl (Wrap (''walking local path '' @ go_quote (Local p) @ '': '') e [])
           | Inr (fs, skipped) \<Rightarrow>
               Inr \<lparr>pair = p, strat = st, plan_files = fs, remoteDirs = dirsForFiles fs,
                     skippedNonRegular = skipped\<rparr>))"

section \<open>Content hashes\<close>

record manifestEntry =
  Hash :: string
  Size :: int
  MTime :: int

definition hash_item ::
    "(string \<Rightarrow> (goerr, string) result) \<Rightarrow> (string \<Rightarrow> manifestEntry option) \<Rightarrow> nat \<Rightarrow> fileItem list
       \<Rightarrow> goerr option \<times> fileItem list" where
  "hash_item hashFile cached i fs =
     (let f = fs ! i in
      case cached (rel f) of
        Some e \<Rightarrow>
          if MTime e \<noteq> 0 \<and> Size e = fsize f \<and> MTime e = mtime f
          then (None, fs[i := f\<lparr>hash := Hash e\<rparr>])
          else (case hashFile (localPath f) of
                  Inl err \<Rightarrow> (Some err, fs) | Inr h \<Rightarrow> (None, fs[i := f\<lparr>hash := h\<rparr>]))
      | None \<Rightarrow>
          (case hashFile (localPath f) of
             Inl err \<Rightarrow> (Some err, fs) | Inr h \<Rightarrow> (None, fs[i := f\<lparr>hash := h\<rparr>])))"

definition hashPlanFiles ::
    "(string \<Rightarrow> (goerr, string) result) \<Rightarrow> goerr option \<Rightarrow> (nat \<times> bool) list \<Rightarrow> fileItem list
       \<Rightarrow> (string \<Rightarrow> manifestEntry option) \<Rightarrow> goerr option \<times> fileItem list" where
  "hashPlanFiles hashFile ctx sched fs cached =
     run_items (\<lambda>_. ctx) (hash_item hashFile cached) (filter (\<lambda>(i, _). i < length fs) sched) None fs"

section \<open>Pruning changes nothing\<close>

text \<open>
  Without re-includes an excluded directory adds nothing to the plan even when it is walked, so the
  walk that prunes and the walk that does not end with the same plan.
\<close>

definition excluded :: "planOptions \<Rightarrow> string \<Rightarrow> bool \<Rightarrow> bool" where
  "excluded opts relp isDir \<longleftrightarrow> fst (matchesHow (matcher opts) relp isDir)"

lemma excluded_child:
  assumes "\<And>q. q \<in> set (matcher opts) \<Longrightarrow> \<not> negate q" "excluded opts relp True"
  shows "excluded opts (child_rel relp name) isDir"
proof -
  have "relp \<noteq> ''.''" using assms(2) by (auto simp: excluded_def matchesHow_def)
  with excluded_dir_child [OF assms(1), where dir = relp and relp = name and isDir = isDir] assms(2)
  show ?thesis
    by (simp add: excluded_def child_rel_def)
qed

lemma walk_excluded:
  "\<forall>q \<in> set (matcher opts). \<not> negate q \<Longrightarrow>
     (case n of Dir _ _ \<Rightarrow> excluded opts relp True | Entry _ \<Rightarrow> excluded opts relp False) \<Longrightarrow>
     walk_node opts base root relp n acc = Inr acc' \<Longrightarrow> acc' = acc"
  "\<forall>q \<in> set (matcher opts). \<not> negate q \<Longrightarrow> excluded opts relp True \<Longrightarrow>
     walk_children opts base root relp cs acc = Inr acc' \<Longrightarrow> acc' = acc"
proof (induction opts base root relp n acc and opts base root relp cs acc arbitrary: acc' and acc'
    rule: walk_node_walk_children.induct)
  case (1 opts base root relp rerr children acc)
  then show ?case by (auto split: if_splits option.splits)
next
  case (2 opts base root relp info acc)
  then show ?case by (auto simp: excluded_def split: if_splits)
next
  case (4 opts base root relp name n rest acc)
  obtain acc1 where n: "walk_node opts base root (child_rel relp name) n acc = Inr acc1"
    using 4(5) by (auto split: sum.splits)
  have "excluded opts (child_rel relp name) d" for d
    using excluded_child 4(3,4) by blast
  then have "acc1 = acc" using 4(1) [OF 4(3) _ n] by (auto split: node.splits)
  with 4(2) [OF n 4(3,4)] 4(5) n show ?case by auto
qed simp

lemma walk_prune:
  "\<forall>q \<in> set (matcher opts). \<not> negate q \<Longrightarrow> \<not> pruneDirs opts \<Longrightarrow>
     walk_node opts base root relp n acc = Inr acc' \<Longrightarrow>
     walk_node (opts\<lparr>pruneDirs := True\<rparr>) base root relp n acc = Inr acc'"
  "\<forall>q \<in> set (matcher opts). \<not> negate q \<Longrightarrow> \<not> pruneDirs opts \<Longrightarrow>
     walk_children opts base root relp cs acc = Inr acc' \<Longrightarrow>
     walk_children (opts\<lparr>pruneDirs := True\<rparr>) base root relp cs acc = Inr acc'"
proof (induction opts base root relp n acc and opts base root relp cs acc arbitrary: acc' and acc'
    rule: walk_node_walk_children.induct)
  case (1 opts base root relp rerr children acc)
  show ?case
  proof (cases "relp \<noteq> ''.'' \<and> excluded opts relp True")
    case True
    have "acc' = acc"
      by (rule walk_excluded(1) [OF 1(2) _ 1(4)]) (use True in \<open>simp add: excluded_def\<close>)
    with True show ?thesis by (simp add: excluded_def)
  next
    case False
    with 1 show ?thesis by (auto simp: excluded_def split: option.splits)
  qed
next
  case (4 opts base root relp name n rest acc)
  obtain acc1 where n: "walk_node opts base root (child_rel relp name) n acc = Inr acc1"
    using 4(5) by (auto split: sum.splits)
  with 4(5) have "walk_children opts base root relp rest acc1 = Inr acc'" by simp
  with 4(2) [OF n 4(3,4)] 4(1) [OF 4(3,4) n] show ?case by simp
qed (auto split: if_splits sum.splits)

text \<open>
  Property C28. When no exclude line is a re-include, pruning excluded directories does not change the
  plan: whatever plan the full walk of a readable tree gives, the pruned walk gives the same one,
  down to the count of skipped special files.
\<close>

theorem pruning_keeps_plan:
  assumes "compileGitignore lines = Inr (matcher opts)" "\<not> hasNegation lines"
    and "buildPlan p st (opts\<lparr>pruneDirs := False\<rparr>) root walkRoot = Inr pl"
  shows "buildPlan p st (opts\<lparr>pruneDirs := True\<rparr>) root walkRoot = Inr pl"
proof -
  have np: "\<forall>q \<in> set (matcher opts). \<not> negate q" using compileGitignore_negate [OF assms(1,2)] by blast
  show ?thesis
  proof (cases root)
    case (RootTree rerr children)
    then obtain r where r: "walk_node (opts\<lparr>pruneDirs := False\<rparr>) (NormalizeRemote (Remote p)) walkRoot ''.''
        (Dir rerr children) ([], 0) = Inr r"
      using assms(3) by (auto simp: buildPlan_def Let_def simp del: walk_node.simps split: sum.splits)
    moreover have "walk_node (opts\<lparr>pruneDirs := True\<rparr>) (NormalizeRemote (Remote p)) walkRoot ''.''
        (Dir rerr children) ([], 0) = Inr r"
      using walk_prune(1) [OF _ _ r] np by simp
    ultimately show ?thesis using assms(3) RootTree
      by (simp add: buildPlan_def Let_def del: walk_node.simps)
  qed (use assms(3) in \<open>auto simp: buildPlan_def Let_def split: if_splits\<close>)
qed

definition sample_tree :: root_stat where
  "sample_tree = RootTree None
     [(''dist'', Dir None [(''a.js'', Entry (Inr \<lparr>li_regular = True, li_size = 3, li_mtime = 5, li_mode = 420\<rparr>))]),
      (''index.html'', Entry (Inr \<lparr>li_regular = True, li_size = 7, li_mtime = 6, li_mode = 420\<rparr>))]"

theorem pruning_keeps_plan_witness:
  "\<exists>pl. buildPlan \<lparr>Name = [], Local = ''web'', Remote = ''/var/www/'', Strategy = None, Ignore = []\<rparr> Overlay
     \<lparr>matcher = [\<lparr>Line = ''dist'', negate = False, dirOnly = False, anchored = False, segments = [''dist'']\<rparr>],
      pruneDirs = True, manifestName = ''m''\<rparr> sample_tree ''web'' = Inr pl \<and>
     map remotePath (plan_files pl) = [''/var/www/index.html''] \<and> remoteDirs pl = [''/var'', ''/var/www'']"
proof -
  let ?p = "\<lparr>Name = [], Local = ''web'', Remote = ''/var/www/'', Strategy = None, Ignore = []\<rparr>"
  let ?o = "\<lparr>matcher = [\<lparr>Line = ''dist'', negate = False, dirOnly = False, anchored = False, segments = [''dist'']\<rparr>],
      pruneDirs = True, manifestName = ''m''\<rparr>"
  have a: "compileGitignore [''dist''] = Inr (matcher ?o)" by code_simp
  have b: "\<not> hasNegation [''dist'']" by code_simp
  have c: "buildPlan ?p Overlay (?o\<lparr>pruneDirs := False\<rparr>) sample_tree ''web'' = Inr \<lparr>pair = ?p, strat = Overlay,
     plan_files = [\<lparr>localPath = ''web/index.html'', remotePath = ''/var/www/index.html'', rel = ''index.html'',
       fsize = 7, mtime = 6, fmode = 420, hash = []\<rparr>],
     remoteDirs = [''/var'', ''/var/www''], skippedNonRegular = 0\<rparr>" by code_simp
  from pruning_keeps_plan [OF a b c] show ?thesis by simp
qed

section \<open>Hashes\<close>

text \<open>The entry the fast path trusts for a file: same size, same recorded time, and a time at all.\<close>

definition quick_match :: "manifestEntry \<Rightarrow> fileItem \<Rightarrow> bool" where
  "quick_match e f \<longleftrightarrow> MTime e \<noteq> 0 \<and> Size e = fsize f \<and> MTime e = mtime f"

definition hash_of :: "(string \<Rightarrow> (goerr, string) result) \<Rightarrow> (string \<Rightarrow> manifestEntry option) \<Rightarrow> fileItem \<Rightarrow> string \<Rightarrow> bool" where
  "hash_of hashFile cached f h \<longleftrightarrow>
     (\<exists>e. cached (rel f) = Some e \<and> quick_match e f \<and> h = Hash e) \<or>
     ((\<forall>e. cached (rel f) = Some e \<longrightarrow> \<not> quick_match e f) \<and> hashFile (localPath f) = Inr h)"

text \<open>
  After a successful hashing phase, in whatever order the workers took the files, every
  file carries the hash its content has or, on the fast path, the hash of a manifest entry with the
  same size and the same nonzero recorded time; no other field of any file changed.
\<close>

theorem hashPlanFiles_hashes:
  assumes "hashPlanFiles hashFile ctx sched fs cached = (None, fs')"
    and "valid_schedule lim (length fs) sched"
  shows "length fs' = length fs \<and>
    (\<forall>i < length fs. \<exists>h. fs' ! i = (fs ! i)\<lparr>hash := h\<rparr> \<and> hash_of hashFile cached (fs ! i) h)"
proof -
  define same where "same t \<longleftrightarrow> length t = length fs \<and> (\<forall>i < length fs. \<exists>h. t ! i = (fs ! i)\<lparr>hash := h\<rparr>)" for t
  define right where "right i t \<longleftrightarrow> (\<exists>h. t ! i = (fs ! i)\<lparr>hash := h\<rparr> \<and> hash_of hashFile cached (fs ! i) h)" for i t
  have s0: "same fs"
  proof -
    have "fs ! i = (fs ! i)\<lparr>hash := hash (fs ! i)\<rparr>" for i by simp
    then show ?thesis unfolding same_def by blast
  qed
  have step: "same (snd (hash_item hashFile cached i t)) \<and>
      (fst (hash_item hashFile cached i t) = None \<longrightarrow> right i (snd (hash_item hashFile cached i t))) \<and>
      (\<forall>j. right j t \<longrightarrow> j \<noteq> i \<longrightarrow> right j (snd (hash_item hashFile cached i t)))"
    if t: "same t" and i: "i < length fs" for t i
  proof -
    obtain h where h: "t ! i = (fs ! i)\<lparr>hash := h\<rparr>" and len: "length t = length fs"
      using t i unfolding same_def by blast
    have upd: "same (t[i := (t ! i)\<lparr>hash := h'\<rparr>])" for h'
      using t i h unfolding same_def by (auto simp: nth_list_update)
    have new: "t[i := (t ! i)\<lparr>hash := h'\<rparr>] ! i = (fs ! i)\<lparr>hash := h'\<rparr>" for h'
      using i len h by simp
    have other: "right j t \<Longrightarrow> j \<noteq> i \<Longrightarrow> right j (t[i := x])" for j x
      by (simp add: right_def)
    show ?thesis
      using h upd new other t
      by (auto simp: hash_item_def Let_def right_def hash_of_def quick_match_def
          split: option.splits sum.splits)
  qed
  have run: "run_items (\<lambda>_. ctx) (hash_item hashFile cached) (filter (\<lambda>(i, _). i < length fs) sched) None fs
      = (None, fs')" using assms(1) by (simp add: hashPlanFiles_def)
  have idx: "fst ` set (filter (\<lambda>(i, _). i < length fs) sched) = {..<length fs}"
    using assms(2) unfolding indexes_below valid_schedule_def by (auto simp flip: set_map)
  have again: "right i t \<Longrightarrow> same t \<Longrightarrow> j < length fs \<Longrightarrow> i < length fs \<Longrightarrow>
      right i (snd (hash_item hashFile cached j t))" for i j t
  proof (cases "fst (hash_item hashFile cached j t) = None \<or> i \<noteq> j")
    case False
    assume "right i t"
    moreover have "snd (hash_item hashFile cached j t) = t"
      using False by (auto simp: hash_item_def Let_def split: option.splits sum.splits)
    ultimately show ?thesis by simp
  qed (use step in blast)
  have "same fs' \<and> (\<forall>i \<in> fst ` set (filter (\<lambda>(i, _). i < length fs) sched). right i fs')"
    by (rule run_items_all_ran [where I = same and Q = right, OF run s0])
      (unfold idx lessThan_iff, (use step again in blast)+)
  then show ?thesis unfolding idx same_def right_def by simp
qed

theorem hashPlanFiles_hashes_witness:
  "\<exists>fs'. hashPlanFiles (\<lambda>p. Inr (''sum of '' @ p)) None [(1, False), (0, False)]
      [\<lparr>localPath = ''a'', remotePath = ''/w/a'', rel = ''a'', fsize = 4, mtime = 9, fmode = 420, hash = []\<rparr>,
       \<lparr>localPath = ''b'', remotePath = ''/w/b'', rel = ''b'', fsize = 4, mtime = 9, fmode = 420, hash = []\<rparr>]
      [''a'' \<mapsto> \<lparr>Hash = ''cached'', Size = 4, MTime = 9\<rparr>] = (None, fs') \<and>
    (\<exists>h. fs' ! 1 = \<lparr>localPath = ''b'', remotePath = ''/w/b'', rel = ''b'', fsize = 4, mtime = 9, fmode = 420, hash = h\<rparr>)"
proof -
  let ?fs = "[\<lparr>localPath = ''a'', remotePath = ''/w/a'', rel = ''a'', fsize = 4, mtime = 9, fmode = 420, hash = []\<rparr>,
       \<lparr>localPath = ''b'', remotePath = ''/w/b'', rel = ''b'', fsize = 4, mtime = 9, fmode = 420, hash = []\<rparr>]"
  have v: "valid_schedule 1 (length ?fs) [(1, False), (0, False)]"
    by (auto simp: valid_schedule_def)
  have r: "hashPlanFiles (\<lambda>p. Inr (''sum of '' @ p)) None [(1, False), (0, False)] ?fs
      [''a'' \<mapsto> \<lparr>Hash = ''cached'', Size = 4, MTime = 9\<rparr>]
      = (None, [(?fs ! 0)\<lparr>hash := ''cached''\<rparr>, (?fs ! 1)\<lparr>hash := ''sum of b''\<rparr>])"
    by (simp add: hashPlanFiles_def hash_item_def)
  from hashPlanFiles_hashes [OF r v] r show ?thesis by (auto dest: spec [of _ 1])
qed

end
