(* ===== verification/Go_Text.thy ===== *)
theory Go_Text
  imports Prelude
begin

text \<open>
  The text routines of Go's standard library the configuration is read with: \<open>strings.TrimSpace\<close> on
  UTF-8 bytes, \<open>strconv.ParseUint\<close>, \<open>strconv.Atoi\<close> and \<open>strconv.ParseBool\<close>, and the helpers
  of \<open>internal/config/config.go\<close> built on them (\<open>splitLines\<close>, \<open>parseInt\<close>, \<open>parseBool\<close>).
\<close>

section \<open>strings.TrimSpace\<close>

text \<open>The UTF-8 encodings of the runes \<open>unicode.IsSpace\<close> accepts.\<close>

definition space_runes :: "string list" where
  "space_runes =
     [[CHR 0x09], [CHR 0x0A], [CHR 0x0B], [CHR 0x0C], [CHR 0x0D], [CHR 0x20],
      [CHR 0xC2, CHR 0x85], [CHR 0xC2, CHR 0xA0], [CHR 0xE1, CHR 0x9A, CHR 0x80]] @
     map (\<lambda>c. [CHR 0xE2, CHR 0x80, c])
       [CHR 0x80, CHR 0x81, CHR 0x82, CHR 0x83, CHR 0x84, CHR 0x85, CHR 0x86, CHR 0x87, CHR 0x88,
        CHR 0x89, CHR 0x8A, CHR 0xA8, CHR 0xA9, CHR 0xAF] @
     [[CHR 0xE2, CHR 0x81, CHR 0x9F], [CHR 0xE3, CHR 0x80, CHR 0x80]]"

text \<open>Drops encodings from the front as long as one is there.\<close>

function drop_runes :: "string list \<Rightarrow> string \<Rightarrow> string" where
  "drop_runes rs s =
     (case find (\<lambda>r. r \<noteq> [] \<and> prefix r s) rs of
        None \<Rightarrow> s
      | Some r \<Rightarrow> drop_runes rs (drop (length r) s))"
  by pat_completeness auto

termination
proof (relation "measure (\<lambda>(rs, s). length s)")
  fix rs and s r :: string
  assume "find (\<lambda>r. r \<noteq> [] \<and> prefix r s) rs = Some r"
  then have "r \<noteq> [] \<and> prefix r s" by (metis (mono_tags, lifting) find_Some_iff)
  then show "((rs, drop (length r) s), rs, s) \<in> measure (\<lambda>(rs, s). length s)"
    by (cases s) auto
qed simp

declare drop_runes.simps [simp del]

definition TrimSpace :: "string \<Rightarrow> string" where
  "TrimSpace s = rev (drop_runes (map rev space_runes) (rev (drop_runes space_runes s)))"

definition blank :: "string \<Rightarrow> bool" where
  "blank s \<longleftrightarrow> TrimSpace s = []"

section \<open>strconv\<close>

datatype num_error = ErrSyntax | ErrRange

definition digit_val :: "char \<Rightarrow> nat option" where
  "digit_val c = (if CHR ''0'' \<le> c \<and> c \<le> CHR ''9'' then Some (of_char c - 48) else None)"

text \<open>
  The digit loop of \<open>ParseUint\<close> for a base of at most ten: a bad byte is a syntax error, a value
  past the type or past 64 bits is a range error, whichever comes first.
\<close>

fun parse_digits :: "nat \<Rightarrow> nat \<Rightarrow> string \<Rightarrow> nat \<Rightarrow> (num_error, nat) result" where
  "parse_digits b maxVal [] n = Inr n"
| "parse_digits b maxVal (c # cs) n =
     (case digit_val c of
        None \<Rightarrow> Inl ErrSyntax
      | Some d \<Rightarrow>
          if d \<ge> b then Inl ErrSyntax
          else if n \<ge> (2 ^ 64 - 1) div b + 1 then Inl ErrRange
          else if n * b + d > maxVal then Inl ErrRange
          else parse_digits b maxVal cs (n * b + d))"

definition ParseUint :: "string \<Rightarrow> nat \<Rightarrow> nat \<Rightarrow> (num_error, nat) result" where
  "ParseUint s b bits = (if s = [] then Inl ErrSyntax else parse_digits b (2 ^ bits - 1) s 0)"

definition Atoi :: "string \<Rightarrow> (num_error, int) result" where
  "Atoi s =
     (if s = [] then Inl ErrSyntax
      else
        let neg = hd s = CHR ''-'';
            body = (if hd s = CHR ''-'' \<or> hd s = CHR ''+'' then tl s else s)
        in case ParseUint body 10 64 of
             Inl e \<Rightarrow> Inl e
           | Inr un \<Rightarrow>
               if \<not> neg \<and> un \<ge> 2 ^ 63 then Inl ErrRange
               else if neg \<and> un > 2 ^ 63 then Inl ErrRange
               else Inr (if neg then - int un else int un))"

definition ParseBool :: "string \<Rightarrow> (num_error, bool) result" where
  "ParseBool s =
     (if s \<in> {''1'', ''t'', ''T'', ''true'', ''TRUE'', ''True''} then Inr True
      else if s \<in> {''0'', ''f'', ''F'', ''false'', ''FALSE'', ''False''} then Inr False
      else Inl ErrSyntax)"

section \<open>Helpers of config.go\<close>

definition keep_line :: "string \<Rightarrow> string" where
  "keep_line line = TrimSpace (trim_suffix line [CHR 0x0D])"

definition splitLines :: "string \<Rightarrow> string list" where
  "splitLines s =
     filter (\<lambda>l. \<not> (l = [] \<or> has_prefix l ''#'')) (map keep_line (split_on (CHR 0x0A) s))"

definition parseInt :: "string \<Rightarrow> int \<Rightarrow> (num_error, int) result" where
  "parseInt s def = (if s = [] then Inr def else Atoi s)"

definition parseBool :: "string \<Rightarrow> bool \<Rightarrow> (num_error, bool) result" where
  "parseBool s def = (if s = [] then Inr def else ParseBool s)"

section \<open>Trimming\<close>

lemma drop_runes_stuck: "\<forall>r \<in> set rs. r \<noteq> [] \<longrightarrow> \<not> prefix r s \<Longrightarrow> drop_runes rs s = s"
  by (subst drop_runes.simps) (auto simp: find_None_iff split: option.split dest: find_Some_iff [THEN iffD1])

lemma drop_runes_done: "r \<in> set rs \<Longrightarrow> r \<noteq> [] \<Longrightarrow> \<not> prefix r (drop_runes rs s)"
proof (induction rs s rule: drop_runes.induct)
  case (1 rs s)
  show ?case
  proof (cases "find (\<lambda>r. r \<noteq> [] \<and> prefix r s) rs")
    case None
    then have "drop_runes rs s = s" by (subst drop_runes.simps) simp
    moreover have "\<not> prefix r s" using None "1.prems" by (auto simp: find_None_iff)
    ultimately show ?thesis by simp
  next
    case (Some r')
    with 1 show ?thesis by (subst drop_runes.simps) simp
  qed
qed

lemma drop_runes_suffix: "suffix (drop_runes rs s) s"
proof (induction rs s rule: drop_runes.induct)
  case (1 rs s)
  show ?case
  proof (cases "find (\<lambda>r. r \<noteq> [] \<and> prefix r s) rs")
    case None
    then show ?thesis by (subst drop_runes.simps) simp
  next
    case (Some r)
    with 1 have "suffix (drop_runes rs (drop (length r) s)) (drop (length r) s)" by simp
    then show ?thesis using Some
      by (subst drop_runes.simps) (auto intro: suffix_order.trans suffix_drop)
  qed
qed

text \<open>A string no space rune begins or ends.\<close>

definition trimmed :: "string \<Rightarrow> bool" where
  "trimmed s \<longleftrightarrow> (\<forall>r \<in> set space_runes. \<not> prefix r s \<and> \<not> suffix r s)"

lemma space_runes_nonempty: "r \<in> set space_runes \<Longrightarrow> r \<noteq> []"
  by (auto simp: space_runes_def)

lemma TrimSpace_prefix: "prefix (TrimSpace s) (drop_runes space_runes s)"
  using drop_runes_suffix [of "map rev space_runes" "rev (drop_runes space_runes s)"]
  by (simp add: TrimSpace_def suffix_to_prefix)

lemma TrimSpace_sublist: "set (TrimSpace s) \<subseteq> set s"
  using TrimSpace_prefix [of s] drop_runes_suffix [of space_runes s] set_mono_prefix set_mono_suffix by blast

lemma trimmed_TrimSpace: "trimmed (TrimSpace s)"
  unfolding trimmed_def
proof (intro ballI conjI)
  fix r assume r: "r \<in> set space_runes"
  then have ne: "r \<noteq> []" by (rule space_runes_nonempty)
  show "\<not> prefix r (TrimSpace s)"
    using drop_runes_done [OF r ne, of s] TrimSpace_prefix [of s] prefix_order.trans by blast
  have "\<not> prefix (rev r) (drop_runes (map rev space_runes) (rev (drop_runes space_runes s)))"
    by (rule drop_runes_done) (use r ne in auto)
  then show "\<not> suffix r (TrimSpace s)" by (simp add: TrimSpace_def suffix_to_prefix)
qed

lemma TrimSpace_id: "trimmed s \<Longrightarrow> TrimSpace s = s"
  by (auto simp: TrimSpace_def trimmed_def drop_runes_stuck suffix_to_prefix)

lemma TrimSpace_idem [simp]: "TrimSpace (TrimSpace s) = TrimSpace s"
  by (rule TrimSpace_id) (rule trimmed_TrimSpace)

text \<open>A line the list keeps as it is: trimmed, one line, neither empty nor a comment.\<close>

definition plain_line :: "string \<Rightarrow> bool" where
  "plain_line l \<longleftrightarrow> trimmed l \<and> CHR 0x0A \<notin> set l \<and> l \<noteq> [] \<and> \<not> has_prefix l ''#''"

lemma trimmed_no_cr: "trimmed s \<Longrightarrow> trim_suffix s [CHR 0x0D] = s"
  by (simp add: trimmed_def trim_suffix_def space_runes_def)

lemma keep_line_plain: "plain_line l \<Longrightarrow> keep_line l = l"
  by (simp add: plain_line_def keep_line_def trimmed_no_cr TrimSpace_id)

lemma set_trim_suffix: "set (trim_suffix s p) \<subseteq> set s"
  by (auto simp: trim_suffix_def dest: in_set_takeD)

lemma splitLines_plain: "l \<in> set (splitLines s) \<Longrightarrow> plain_line l"
proof -
  assume "l \<in> set (splitLines s)"
  then obtain x where x: "x \<in> set (split_on (CHR 0x0A) s)" "l = keep_line x" "l \<noteq> []" "\<not> has_prefix l ''#''"
    by (auto simp: splitLines_def)
  have "CHR 0x0A \<notin> set l"
    using split_on_segment_free [OF x(1)] TrimSpace_sublist [of "trim_suffix x [CHR 0x0D]"] set_trim_suffix [of x]
    by (auto simp: x(2) keep_line_def)
  with x show ?thesis by (simp add: plain_line_def keep_line_def trimmed_TrimSpace)
qed

lemma splitLines_join: "\<forall>l \<in> set ls. plain_line l \<Longrightarrow> splitLines (join_with (CHR 0x0A) ls) = ls"
proof (cases ls)
  case Nil
  then show ?thesis by (simp add: splitLines_def keep_line_def trim_suffix_def TrimSpace_id trimmed_def space_runes_def)
next
  case (Cons a list)
  assume p: "\<forall>l \<in> set ls. plain_line l"
  then have "\<forall>l \<in> set ls. CHR 0x0A \<notin> set l" by (simp add: plain_line_def)
  then have "split_on (CHR 0x0A) (join_with (CHR 0x0A) ls) = ls" using Cons by (simp add: split_join)
  moreover have "map keep_line ls = ls" using p by (simp add: keep_line_plain map_idI)
  moreover have "filter (\<lambda>l. \<not> (l = [] \<or> has_prefix l ''#'')) ls = ls"
    using p by (intro filter_True) (auto simp: plain_line_def)
  ultimately show ?thesis by (simp only: splitLines_def)
qed

section \<open>Octal permissions\<close>

text \<open>The digits of a number in a base, most significant first.\<close>

fun digits :: "nat \<Rightarrow> nat \<Rightarrow> string" where
  "digits b n =
     (if n < b \<or> b < 2 then [char_of (48 + n)] else digits b (n div b) @ [char_of (48 + n mod b)])"

declare digits.simps [simp del]

lemma digit_val_char: "d < 10 \<Longrightarrow> digit_val (char_of (48 + d)) = Some d"
  by (simp add: digit_val_def less_eq_char_def)

lemma parse_digits_append:
  "parse_digits b m (s @ t) n = bind_result (parse_digits b m s n) (parse_digits b m t)"
  by (induction s arbitrary: n) (auto split: option.splits)


lemma parse_digits_digits:
  assumes "2 \<le> b" "b \<le> 10" "m < 2 ^ 64"
  shows "v \<le> m \<Longrightarrow> parse_digits b m (digits b v) 0 = Inr v"
proof (induction v rule: less_induct)
  case (less v)
  have d: "digit_val (char_of (48 + v mod b)) = Some (v mod b)"
    by (rule digit_val_char) (use assms mod_less_divisor [of b v] in linarith)
  have step: "parse_digits b m [char_of (48 + v mod b)] (v div b) = Inr v"
  proof -
    have "v div b \<le> (2 ^ 64 - 1) div b" using less.prems assms(3) by (intro div_le_mono) simp
    moreover have "v mod b < b" using assms(1) by simp
    ultimately show ?thesis using d less.prems by simp
  qed
  show ?case
  proof (cases "v < b")
    case True
    then have "digits b v = [char_of (48 + v mod b)]" by (subst digits.simps) simp
    with step True show ?thesis by simp
  next
    case False
    then have "digits b v = digits b (v div b) @ [char_of (48 + v mod b)]"
      using assms(1) by (subst digits.simps) simp
    moreover have "v div b < v" using False assms(1) by (intro div_less_dividend) auto
    then have "parse_digits b m (digits b (v div b)) 0 = Inr (v div b)"
      using less.IH [of "v div b"] less.prems by simp
    ultimately show ?thesis using step by (simp add: parse_digits_append)
  qed
qed

lemma digits_not_Nil [simp]: "digits b n \<noteq> []"
  by (subst digits.simps) simp

lemma parse_digits_bound: "parse_digits b m s n = Inr v \<Longrightarrow> n \<le> m \<Longrightarrow> v \<le> m"
  by (induction s arbitrary: n) (auto split: option.splits if_splits)

text \<open>A decimal that \<open>Atoi\<close> reads is a 64-bit integer.\<close>

lemma Atoi_range: "Atoi s = Inr v \<Longrightarrow> - (2 ^ 63) \<le> v \<and> v < 2 ^ 63"
  by (auto simp: Atoi_def Let_def split: if_splits sum.splits)

end
