(* ===== verification/Suggest.thy ===== *)
theory Suggest
  imports Prelude
begin

text \<open>
  The "did you mean" suggestion of \<open>internal/config/configfile.go\<close>: \<open>contains\<close>,
  \<open>editDistance\<close> with its two rolling rows, and \<open>closestKey\<close>. The declarative side is the
  number of single-byte insertions, deletions and substitutions that turn one string into the
  other; the row-filling loop is shown to compute the least such number.
\<close>

section \<open>The code\<close>

definition contains :: "string list \<Rightarrow> string \<Rightarrow> bool" where
  "contains xs s \<longleftrightarrow> list_ex (\<lambda>l. l = s) xs"

definition minInt :: "nat list \<Rightarrow> nat" where
  "minInt vals = foldl (\<lambda>m v. if v < m then v else m) (hd vals) (tl vals)"

text \<open>
  The inner loop of \<open>editDistance\<close>: \<open>prev\<close> is the part of the previous row from \<open>prev[j-1]\<close>
  on, \<open>left\<close> is \<open>cur[j-1]\<close>, and the result is \<open>cur[j:]\<close>.
\<close>

fun fill_row :: "char \<Rightarrow> string \<Rightarrow> nat list \<Rightarrow> nat \<Rightarrow> nat list" where
  "fill_row x (y # ys) (d # u # prev) left =
     (let cost = (if x = y then 0 else 1);
          v = minInt [u + 1, left + 1, d + cost]
      in v # fill_row x ys (u # prev) v)"
| "fill_row x _ _ _ = []"

text \<open>The outer loop: row \<open>i\<close> starts with \<open>cur[0] = i\<close>.\<close>

fun fill_rows :: "nat \<Rightarrow> string \<Rightarrow> string \<Rightarrow> nat list \<Rightarrow> nat list" where
  "fill_rows i [] b prev = prev"
| "fill_rows i (x # a) b prev = fill_rows (Suc i) a b (i # fill_row x b prev i)"

definition editDistance :: "string \<Rightarrow> string \<Rightarrow> nat" where
  "editDistance a b = fill_rows 1 a b [0..<length b + 1] ! length b"

fun closest_loop :: "string \<Rightarrow> string list \<Rightarrow> string \<Rightarrow> nat \<Rightarrow> string" where
  "closest_loop got [] best bestDist = best"
| "closest_loop got (a # allowed) best bestDist =
     (let d = editDistance got a in
      if d < bestDist then closest_loop got allowed a d else closest_loop got allowed best bestDist)"

definition closestKey :: "string \<Rightarrow> string list \<Rightarrow> string" where
  "closestKey got allowed = closest_loop got allowed [] 3"

lemma contains_iff [simp]: "contains xs s \<longleftrightarrow> s \<in> set xs"
  by (auto simp: contains_def list_ex_iff)

lemma minInt_three: "minInt [a, b, c] = min (min a b) c"
  by (simp add: minInt_def min_def)

section \<open>Edits\<close>

text \<open>One edit inserts, deletes or replaces a single byte anywhere.\<close>

inductive edit1 :: "string \<Rightarrow> string \<Rightarrow> bool" where
  insert_byte: "edit1 (u @ v) (u @ c # v)"
| delete_byte: "edit1 (u @ c # v) (u @ v)"
| replace_byte: "edit1 (u @ c # v) (u @ d # v)"

text \<open>The textbook recursion, on the first bytes.\<close>

fun lev :: "string \<Rightarrow> string \<Rightarrow> nat" where
  "lev [] b = length b"
| "lev (x # a) [] = Suc (length a)"
| "lev (x # a) (y # b) =
     min (min (lev a (y # b) + 1) (lev (x # a) b + 1)) (lev a b + (if x = y then 0 else 1))"

lemma lev_Nil2 [simp]: "lev a [] = length a"
  by (cases a) auto

lemma lev_Cons1: "lev (x # a) b \<le> lev a b + 1"
  by (cases b) auto

lemma lev_Cons2: "lev a (y # b) \<le> lev a b + 1"
  by (cases a) auto

lemma lev_diag: "lev (x # a) (y # b) \<le> lev a b + 1"
  by auto

lemma lev_drop1: "lev a b \<le> lev (x # a) b + 1"
proof (induction b)
  case (Cons y b)
  have "lev a (y # b) \<le> lev a b + 1" by (rule lev_Cons2)
  with Cons show ?case by auto
qed auto

lemma lev_subst1: "lev (x # a) b \<le> lev (y # a) b + 1"
proof (induction b)
  case (Cons z b)
  have "lev (x # a) (z # b) \<le> lev a (z # b) + 1" "lev (x # a) (z # b) \<le> lev (x # a) b + 1"
    "lev (x # a) (z # b) \<le> lev a b + 1" by auto
  with Cons show ?case by (auto simp del: lev.simps simp: lev.simps(3) [of y])
qed auto

lemma lev_under_Cons:
  assumes "\<And>c. lev a c \<le> lev a' c + 1"
  shows "lev (w # a) c \<le> lev (w # a') c + 1"
proof (induction c)
  case Nil
  show ?case using assms [of "[]"] by simp
next
  case (Cons z c)
  show ?case using Cons assms [of "z # c"] assms [of c] by auto
qed

lemma lev_under_append:
  assumes "\<And>c. lev a c \<le> lev a' c + 1"
  shows "lev (u @ a) c \<le> lev (u @ a') c + 1"
proof (induction u arbitrary: c)
  case Nil
  show ?case using assms by simp
next
  case (Cons w u)
  show ?case unfolding append_Cons by (rule lev_under_Cons) (rule Cons)
qed

lemma lev_edit1: "edit1 a a' \<Longrightarrow> lev a c \<le> lev a' c + 1"
  by (induction rule: edit1.induct)
    (rule lev_under_append, rule lev_drop1 lev_Cons1 lev_subst1)+

lemma lev_self [simp]: "lev a a = 0"
  by (induction a) auto

lemma lev_least: "(edit1 ^^ k) a b \<Longrightarrow> lev a b \<le> k"
proof (induction k arbitrary: a)
  case (Suc k)
  from Suc.prems obtain a' where "edit1 a a'" "(edit1 ^^ k) a' b"
    by (metis relpowp_Suc_D2)
  with Suc.IH [of a'] lev_edit1 [of a a' b] show ?case by simp
qed simp

subsection \<open>Reaching the other string in that many edits\<close>

lemma edit1_Cons: "edit1 a b \<Longrightarrow> edit1 (x # a) (x # b)"
  by (induction rule: edit1.induct) (metis append_Cons edit1.intros)+

lemma edits_Cons: "(edit1 ^^ k) a b \<Longrightarrow> (edit1 ^^ k) (x # a) (x # b)"
proof (induction k arbitrary: a)
  case (Suc k)
  from Suc.prems obtain a' where "edit1 a a'" "(edit1 ^^ k) a' b"
    by (metis relpowp_Suc_D2)
  with Suc.IH [of a'] show ?case by (meson edit1_Cons relpowp_Suc_I2)
qed simp

lemma edit1_head:
  "edit1 (x # a) a" "edit1 a (x # a)" "edit1 (x # a) (y # a)"
  using delete_byte [of "[]"] insert_byte [of "[]"] replace_byte [of "[]"] by auto

lemma edits_then: "(edit1 ^^ k) a b \<Longrightarrow> edit1 b c \<Longrightarrow> (edit1 ^^ (k + 1)) a c"
  by auto

lemma edits_after: "edit1 a b \<Longrightarrow> (edit1 ^^ k) b c \<Longrightarrow> (edit1 ^^ (k + 1)) a c"
  by (metis Suc_eq_plus1 relpowp_Suc_I2)

lemma edits_lev: "(edit1 ^^ lev a b) a b"
proof (induction a b rule: lev.induct)
  case (1 b)
  show ?case
  proof (induction b)
    case (Cons y b)
    then show ?case using edits_then [OF _ edit1_head(2)] by simp
  qed simp
next
  case (2 x a)
  have "(edit1 ^^ length (x # a)) (x # a) []"
  proof (induction "x # a" arbitrary: x a)
    case (Cons y ys)
    then show ?case
      by (cases ys) (auto intro: edit1_head edits_after [OF edit1_head(1), simplified])
  qed
  then show ?case by simp
next
  case (3 x a y b)
  let ?m = "lev (x # a) (y # b)"
  consider "?m = lev a (y # b) + 1" | "?m = lev (x # a) b + 1"
    | "?m = lev a b + (if x = y then 0 else 1)"
    unfolding lev.simps(3) min_def by presburger
  then show ?case
  proof cases
    case 1
    then show ?thesis using edits_after [OF edit1_head(1) "3.IH"(1)] by simp
  next
    case 2
    then show ?thesis using edits_then [OF "3.IH"(2) edit1_head(2)] by simp
  next
    case 3
    then show ?thesis
      using edits_Cons [OF "3.IH"(3), of x] edits_then [OF edits_Cons [OF "3.IH"(3), of x] edit1_head(3), of y]
      by (auto split: if_splits)
  qed
qed

lemma edit1_rev: "edit1 a b \<Longrightarrow> edit1 (rev a) (rev b)"
proof (induction rule: edit1.induct)
  case (insert_byte u v c)
  show ?case using edit1.insert_byte [of "rev v" "rev u" c] by simp
next
  case (delete_byte u c v)
  show ?case using edit1.delete_byte [of "rev v" c "rev u"] by simp
next
  case (replace_byte u c v d)
  show ?case using edit1.replace_byte [of "rev v" c "rev u" d] by simp
qed

lemma edits_rev: "(edit1 ^^ k) a b \<Longrightarrow> (edit1 ^^ k) (rev a) (rev b)"
proof (induction k arbitrary: a)
  case (Suc k)
  from Suc.prems obtain a' where "edit1 a a'" "(edit1 ^^ k) a' b"
    by (metis relpowp_Suc_D2)
  with Suc.IH [of a'] show ?case by (meson edit1_rev relpowp_Suc_I2)
qed simp

lemma lev_rev [simp]: "lev (rev a) (rev b) = lev a b"
  by (metis antisym edits_lev edits_rev lev_least rev_rev_ident)

section \<open>The rows\<close>

definition lev_row :: "string \<Rightarrow> string \<Rightarrow> nat \<Rightarrow> nat list" where
  "lev_row a b k = map (\<lambda>j. lev (rev a) (rev (take j b))) [k..<length b + 1]"

lemma lev_row_Cons: "k < length b + 1 \<Longrightarrow> lev_row a b k = lev (rev a) (rev (take k b)) # lev_row a b (Suc k)"
  by (simp add: lev_row_def upt_conv_Cons)

lemma fill_row_lev:
  assumes "k \<le> length b"
  shows "fill_row x (drop k b) (lev_row a b k) (lev (rev (a @ [x])) (rev (take k b))) =
    lev_row (a @ [x]) b (Suc k)"
  using assms
proof (induction "length b - k" arbitrary: k)
  case 0
  then show ?case by (simp add: lev_row_def)
next
  case (Suc n)
  then have k: "k < length b" by simp
  have d: "drop k b = b ! k # drop (Suc k) b" using k by (simp add: Cons_nth_drop_Suc)
  have t: "rev (take (Suc k) b) = b ! k # rev (take k b)" using k by (simp add: take_Suc_conv_app_nth)
  have v: "minInt [lev (rev a) (rev (take (Suc k) b)) + 1, lev (rev (a @ [x])) (rev (take k b)) + 1,
      lev (rev a) (rev (take k b)) + (if x = b ! k then 0 else 1)] = lev (rev (a @ [x])) (rev (take (Suc k) b))"
    by (simp add: minInt_three t)
  have "fill_row x (drop (Suc k) b) (lev_row a b (Suc k)) (lev (rev (a @ [x])) (rev (take (Suc k) b))) =
      lev_row (a @ [x]) b (Suc (Suc k))"
    using Suc k by simp
  then show ?case
    using k v lev_row_Cons [of k b a] lev_row_Cons [of "Suc k" b a] lev_row_Cons [of "Suc k" b "a @ [x]"]
    by (simp add: d Let_def del: rev_append lev.simps)
qed

lemma fill_rows_lev: "fill_rows (Suc (length a)) a' b (lev_row a b 0) = lev_row (a @ a') b 0"
proof (induction a' arbitrary: a)
  case (Cons x a')
  have "Suc (length a) # fill_row x b (lev_row a b 0) (Suc (length a)) = lev_row (a @ [x]) b 0"
    using fill_row_lev [of 0 b x a] lev_row_Cons [of 0 b "a @ [x]"] by simp
  with Cons [of "a @ [x]"] show ?case by simp
qed simp

lemma editDistance_lev: "editDistance a b = lev a b"
proof -
  have z: "[0..<length b + 1] = lev_row [] b 0"
    unfolding lev_row_def by (rule nth_equalityI) (auto simp del: upt_Suc)
  have "fill_rows 1 a b [0..<length b + 1] = lev_row a b 0"
    using fill_rows_lev [of "[]" a b] unfolding z by simp
  then show ?thesis
    by (simp add: editDistance_def lev_row_def del: upt_Suc)
qed

text \<open>How many edits apart two strings are.\<close>

definition edits_apart :: "string \<Rightarrow> string \<Rightarrow> nat" where
  "edits_apart a b = (LEAST k. (edit1 ^^ k) a b)"

theorem editDistance_least: "editDistance a b = edits_apart a b"
  unfolding editDistance_lev edits_apart_def
  by (rule Least_equality [symmetric]) (auto intro: edits_lev lev_least)

section \<open>The suggestion\<close>

lemma closest_loop_spec:
  assumes "best = [] \<or> editDistance got best = d"
  shows "(closest_loop got as best d = best \<and> (\<forall>a \<in> set as. d \<le> editDistance got a)) \<or>
    (\<exists>l a r. as = l @ a # r \<and> closest_loop got as best d = a \<and> editDistance got a < d \<and>
       (\<forall>b \<in> set l. editDistance got a < editDistance got b) \<and>
       (\<forall>b \<in> set r. editDistance got a \<le> editDistance got b))"
  using assms
proof (induction as arbitrary: best d)
  case (Cons x as)
  show ?case
  proof (cases "editDistance got x < d")
    case True
    have "(closest_loop got as x (editDistance got x) = x \<and> (\<forall>a \<in> set as. editDistance got x \<le> editDistance got a)) \<or>
      (\<exists>l a r. as = l @ a # r \<and> closest_loop got as x (editDistance got x) = a \<and> editDistance got a < editDistance got x \<and>
       (\<forall>b \<in> set l. editDistance got a < editDistance got b) \<and> (\<forall>b \<in> set r. editDistance got a \<le> editDistance got b))"
      by (rule Cons.IH) simp
    then show ?thesis
    proof (elim disjE exE conjE)
      assume "closest_loop got as x (editDistance got x) = x" "\<forall>a \<in> set as. editDistance got x \<le> editDistance got a"
      then show ?thesis using True
        by (intro disjI2 exI [of _ "[]"] exI [of _ x] exI [of _ as]) (simp add: Let_def)
    next
      fix l a r assume h: "as = l @ a # r" "closest_loop got as x (editDistance got x) = a"
        "editDistance got a < editDistance got x"
        "\<forall>b \<in> set l. editDistance got a < editDistance got b" "\<forall>b \<in> set r. editDistance got a \<le> editDistance got b"
      then show ?thesis using True
        by (intro disjI2 exI [of _ "x # l"] exI [of _ a] exI [of _ r]) (auto simp: Let_def)
    qed
  next
    case False
    have "(closest_loop got as best d = best \<and> (\<forall>a \<in> set as. d \<le> editDistance got a)) \<or>
      (\<exists>l a r. as = l @ a # r \<and> closest_loop got as best d = a \<and> editDistance got a < d \<and>
       (\<forall>b \<in> set l. editDistance got a < editDistance got b) \<and> (\<forall>b \<in> set r. editDistance got a \<le> editDistance got b))"
      by (rule Cons.IH) (rule Cons.prems)
    then show ?thesis
    proof (elim disjE exE conjE)
      assume "closest_loop got as best d = best" "\<forall>a \<in> set as. d \<le> editDistance got a"
      then show ?thesis using False by (intro disjI1) (auto simp: Let_def)
    next
      fix l a r assume h: "as = l @ a # r" "closest_loop got as best d = a" "editDistance got a < d"
        "\<forall>b \<in> set l. editDistance got a < editDistance got b" "\<forall>b \<in> set r. editDistance got a \<le> editDistance got b"
      then show ?thesis using False
        by (intro disjI2 exI [of _ "x # l"] exI [of _ a] exI [of _ r]) (auto simp: Let_def)
    qed
  qed
qed simp

text \<open>Property C31. With no empty option name in the table, a suggestion is offered exactly when some
  allowed key is at most two single-byte edits away from what was written, and it is then the first
  of the nearest ones.\<close>

theorem closestKey_nearest:
  assumes "[] \<notin> set allowed"
  shows "(closestKey got allowed = [] \<and> (\<forall>b \<in> set allowed. 2 < edits_apart got b)) \<or>
    (edits_apart got (closestKey got allowed) \<le> 2 \<and>
     (\<exists>l r. allowed = l @ closestKey got allowed # r \<and>
       (\<forall>b \<in> set l. edits_apart got (closestKey got allowed) < edits_apart got b) \<and>
       (\<forall>b \<in> set r. edits_apart got (closestKey got allowed) \<le> edits_apart got b)))"
proof -
  have "[] = [] \<or> editDistance got [] = 3" by simp
  from closest_loop_spec [OF this, of allowed, folded closestKey_def, unfolded editDistance_least]
  show ?thesis
  proof (elim disjE exE conjE)
    assume "closestKey got allowed = []" "\<forall>a \<in> set allowed. 3 \<le> edits_apart got a"
    then show ?thesis by auto
  next
    fix l a r
    assume "allowed = l @ a # r" "closestKey got allowed = a" "edits_apart got a < 3"
      "\<forall>b \<in> set l. edits_apart got a < edits_apart got b" "\<forall>b \<in> set r. edits_apart got a \<le> edits_apart got b"
    then show ?thesis
      by (intro disjI2 conjI exI [of _ l] exI [of _ r]) simp_all
  qed
qed

text \<open>The misspelling of a real option, and one too far from every option.\<close>

lemma closestKey_nearest_witness:
  "closestKey ''hots'' [''port'', ''host''] = ''host'' \<and> edits_apart ''hots'' ''host'' \<le> 2 \<and>
   closestKey ''username'' [''port'', ''host''] = [] \<and> 2 < edits_apart ''username'' ''port''"
proof -
  have "closestKey ''hots'' [''port'', ''host''] = ''host''" "closestKey ''username'' [''port'', ''host''] = []"
    by code_simp+
  with closestKey_nearest [of "[''port'', ''host'']" "''hots''"]
    closestKey_nearest [of "[''port'', ''host'']" "''username''"]
  show ?thesis by (simp add: Cons_eq_append_conv)
qed

end
