(* ===== verification/Yaml_Keys.thy ===== *)
theory Yaml_Keys
  imports Suggest
begin

text \<open>
  The option-name check of \<open>internal/config/configfile.go\<close>: the walk over the raw YAML nodes
  (\<open>checkKeys\<close>, \<open>checkKeysVisited\<close>) with its merge keys, its cycle guard and its memo. A document is
  a graph: aliases may share nodes and may close cycles, so a node pointer is an index into the
  list of the document's nodes (yaml.v3's \<open>Node\<close>, of which the fields the walk reads are kept).
\<close>

section \<open>Nodes and the table of options\<close>

datatype ykind = NoKind | DocumentNode | SequenceNode | MappingNode | ScalarNode | AliasNode

record ynode =
  Kind :: ykind
  NTag :: string
  NValue :: string
  Content :: "nat list"
  Alias :: nat
  NLine :: int

type_synonym ygraph = "ynode list"

text \<open>The zero \<open>Node\<close>, which a pointer outside the list reads as.\<close>

definition zero_node :: ynode where
  "zero_node = \<lparr>Kind = NoKind, NTag = [], NValue = [], Content = [], Alias = 0, NLine = 0\<rparr>"

definition nd :: "ygraph \<Rightarrow> nat \<Rightarrow> ynode" where
  "nd g n = (if n < length g then g ! n else zero_node)"

definition allowedKeys :: "(string \<times> string list) list" where
  "allowedKeys =
    [([], [''version'', ''connection'', ''defaults'', ''deployments'', ''safety'', ''advanced'', ''permissions'', ''sync'']),
     (''connection'', [''host'', ''port'', ''username'', ''host_key'', ''known_hosts'', ''allow_any_host_key'', ''algorithms'', ''proxy'']),
     (''connection.algorithms'', [''key_exchanges'', ''ciphers'', ''macs'', ''host_key_algorithms'']),
     (''connection.proxy'', [''host'', ''port'', ''username'', ''host_key'', ''known_hosts'', ''allow_any_host_key'']),
     (''defaults'', [''mode'', ''exclude'']),
     (''deployments.*'', [''source'', ''target'', ''mode'', ''exclude'']),
     (''safety'', [''max_deletes'']),
     (''advanced'', [''retries'', ''timeout'', ''stall_timeout'', ''concurrency'', ''request_concurrency'', ''connections'', ''skip_unchanged'', ''auto_cache'']),
     (''permissions'', [''files'', ''directories'', ''preserve_times'']),
     (''sync'', [''fast_path'', ''manifest''])]"

text \<open>\<open>allowedKeys[section]\<close>: a missing section reads as the empty list.\<close>

definition allowed_in :: "string \<Rightarrow> string list" where
  "allowed_in sec = (case map_of allowedKeys sec of None \<Rightarrow> [] | Some ks \<Rightarrow> ks)"

definition isMergeKey :: "ynode \<Rightarrow> bool" where
  "isMergeKey key \<longleftrightarrow> NTag key = ''!!merge'' \<or> (NValue key = ''<<'' \<and> NTag key \<noteq> ''!!str'')"

text \<open>The loop \<open>for i := 0; i+1 < len(Content); i += 2\<close>: the entries of a mapping.\<close>

fun entries :: "nat list \<Rightarrow> (nat \<times> nat) list" where
  "entries (k # v # rest) = (k, v) # entries rest"
| "entries _ = []"

definition pairs :: "ygraph \<Rightarrow> nat \<Rightarrow> (nat \<times> nat) list" where
  "pairs g n = entries (Content (nd g n))"

section \<open>The bookkeeping\<close>

text \<open>
  \<open>keyWalkState\<close> is passed by value and holds two maps that start out nil: a frame shares a map
  with its callees only once the map exists. \<^const>\<open>None\<close> is the nil map; \<open>after_call\<close> is what the
  caller's copy shows after a callee wrote to the maps it was given.
\<close>

record keyWalkState =
  visiting :: "nat list option"
  memo :: "(nat \<times> string) list option"

definition fresh_state :: keyWalkState where
  "fresh_state = \<lparr>visiting = None, memo = None\<rparr>"

definition items :: "'a list option \<Rightarrow> 'a list" where
  "items m = (case m of None \<Rightarrow> [] | Some xs \<Rightarrow> xs)"

definition markVisiting :: "keyWalkState \<Rightarrow> nat \<Rightarrow> keyWalkState" where
  "markVisiting s n = s\<lparr>visiting := Some (n # items (visiting s))\<rparr>"

definition release :: "keyWalkState \<Rightarrow> nat \<Rightarrow> keyWalkState" where
  "release s n = s\<lparr>visiting := map_option (removeAll n) (visiting s)\<rparr>"

definition memoize :: "keyWalkState \<Rightarrow> nat \<Rightarrow> string \<Rightarrow> keyWalkState" where
  "memoize s n sec = s\<lparr>memo := Some ((n, sec) # items (memo s))\<rparr>"

definition memoized :: "keyWalkState \<Rightarrow> nat \<Rightarrow> string \<Rightarrow> bool" where
  "memoized s n sec \<longleftrightarrow> (n, sec) \<in> set (items (memo s))"

definition after_call :: "keyWalkState \<Rightarrow> keyWalkState \<Rightarrow> keyWalkState" where
  "after_call mine callee =
     mine\<lparr>visiting := (case visiting mine of None \<Rightarrow> None | Some _ \<Rightarrow> visiting callee),
          memo := (case memo mine of None \<Rightarrow> None | Some _ \<Rightarrow> memo callee)\<rparr>"

section \<open>The walk\<close>

datatype key_error =
    CyclicMerge string
  | UnknownOption string string string

text \<open>A frame that has not returned is \<^const>\<open>None\<close>; one that returned gives its error, if any, and
  its view of the bookkeeping.\<close>

type_synonym walk_result = "(key_error option \<times> keyWalkState) option"

text \<open>A loop whose body may return an error early.\<close>

fun each :: "('x \<Rightarrow> keyWalkState \<Rightarrow> walk_result) \<Rightarrow> 'x list \<Rightarrow> keyWalkState \<Rightarrow> walk_result" where
  "each f [] s = Some (None, s)"
| "each f (x # xs) s =
     (case f x s of
        None \<Rightarrow> None
      | Some (Some e, s') \<Rightarrow> Some (Some e, s')
      | Some (None, s') \<Rightarrow> each f xs s')"

text \<open>The aliased or inline mappings a merge key's value names.\<close>

definition merge_item :: "ygraph \<Rightarrow> nat \<Rightarrow> nat list" where
  "merge_item g i =
     (if Kind (nd g i) = AliasNode then [Alias (nd g i)]
      else if Kind (nd g i) = MappingNode then [i] else [])"

definition merge_targets :: "ygraph \<Rightarrow> nat \<Rightarrow> nat list" where
  "merge_targets g v =
     (if Kind (nd g v) = AliasNode then [Alias (nd g v)]
      else if Kind (nd g v) = MappingNode then [v]
      else if Kind (nd g v) = SequenceNode then concat (map (merge_item g) (Content (nd g v)))
      else [])"

type_synonym visitor = "nat \<Rightarrow> string \<Rightarrow> string \<Rightarrow> keyWalkState \<Rightarrow> walk_result"

text \<open>One merge target: the cycle test, the recursive walk between mark and release, the memo.\<close>

definition walk_target :: "visitor \<Rightarrow> string \<Rightarrow> string \<Rightarrow> string \<Rightarrow> nat \<Rightarrow> keyWalkState \<Rightarrow> walk_result" where
  "walk_target visit sec loc here target s =
     (if target \<in> set (items (visiting s)) then Some (Some (CyclicMerge here), s)
      else
        let s1 = markVisiting s target in
        case visit target sec loc s1 of
          None \<Rightarrow> None
        | Some (err, callee) \<Rightarrow>
            (let s2 = release (after_call s1 callee) target in
             case err of
               Some e \<Rightarrow> Some (Some e, s2)
             | None \<Rightarrow> Some (None, memoize s2 target sec)))"

text \<open>A mapping under a section of its own, memoised once it is clean.\<close>

definition walk_under :: "visitor \<Rightarrow> nat \<Rightarrow> string \<Rightarrow> string \<Rightarrow> keyWalkState \<Rightarrow> walk_result" where
  "walk_under visit v sec loc s =
     (case visit v sec loc s of
        None \<Rightarrow> None
      | Some (Some e, callee) \<Rightarrow> Some (Some e, after_call s callee)
      | Some (None, callee) \<Rightarrow> Some (None, memoize (after_call s callee) v sec))"

definition sub_section :: "string \<Rightarrow> string \<Rightarrow> string" where
  "sub_section sec key = (if sec = [] then key else sec @ ''.'' @ key)"

text \<open>The body of the loop over a mapping's entries.\<close>

definition walk_entry :: "visitor \<Rightarrow> ygraph \<Rightarrow> string \<Rightarrow> string \<Rightarrow> nat \<times> nat \<Rightarrow> keyWalkState \<Rightarrow> walk_result" where
  "walk_entry visit g sec loc kv s =
     (let key = nd g (fst kv); v = snd kv; name = NValue key;
          here = (if loc \<noteq> [] then loc @ ''.'' @ name else name)
      in
      if isMergeKey key then each (walk_target visit sec loc here) (merge_targets g v) s
      else if \<not> contains (allowed_in sec) name
      then Some (Some (UnknownOption name here (closestKey name (allowed_in sec))), s)
      else
        let sub = sub_section sec name in
        case (if map_of allowedKeys sub \<noteq> None then walk_under visit v sub here s else Some (None, s)) of
          None \<Rightarrow> None
        | Some (Some e, s') \<Rightarrow> Some (Some e, s')
        | Some (None, s') \<Rightarrow>
            (if sec = [] \<and> name = ''deployments'' \<and> Kind (nd g v) = MappingNode
             then each (\<lambda>(dk, dv). walk_under visit dv ''deployments.*'' (''deployments.'' @ NValue (nd g dk)))
                    (pairs g v) s'
             else Some (None, s')))"

text \<open>The recursion, with a bound on its depth.\<close>

primrec checkKeysVisited :: "nat \<Rightarrow> ygraph \<Rightarrow> visitor" where
  "checkKeysVisited 0 g = (\<lambda>n sec loc s. None)"
| "checkKeysVisited (Suc d) g = (\<lambda>n sec loc s.
     if Kind (nd g n) \<noteq> MappingNode then Some (None, s)
     else if memoized s n sec then Some (None, s)
     else each (walk_entry (checkKeysVisited d g) g sec loc) (pairs g n) s)"

text \<open>A chain of frames enters each node at most once by a merge key and descends at most two
  sections, so this depth is never used up.\<close>

definition walk_depth :: "ygraph \<Rightarrow> nat" where
  "walk_depth g = length g + 5"

definition checkKeys :: "ygraph \<Rightarrow> nat \<Rightarrow> string \<Rightarrow> string \<Rightarrow> key_error option option" where
  "checkKeys g root sec loc = map_option fst (checkKeysVisited (walk_depth g) g root sec loc fresh_state)"

section \<open>What the check is about\<close>

text \<open>
  The mappings the check has to look at: from a mapping under a section, a merge key leads to the
  mappings it merges, under the same section, and an option with a key set of its own leads to its
  value, under that section.
\<close>

inductive merges :: "ygraph \<Rightarrow> nat \<times> string \<Rightarrow> nat \<times> string \<Rightarrow> bool" for g where
  merges: "Kind (nd g n) = MappingNode \<Longrightarrow> (k, v) \<in> set (pairs g n) \<Longrightarrow> isMergeKey (nd g k) \<Longrightarrow>
    m \<in> set (merge_targets g v) \<Longrightarrow> merges g (n, s) (m, s)"

inductive opens :: "ygraph \<Rightarrow> nat \<times> string \<Rightarrow> nat \<times> string \<Rightarrow> bool" for g where
  opens_section: "Kind (nd g n) = MappingNode \<Longrightarrow> (k, v) \<in> set (pairs g n) \<Longrightarrow> \<not> isMergeKey (nd g k) \<Longrightarrow>
    NValue (nd g k) \<in> set (allowed_in s) \<Longrightarrow> map_of allowedKeys (sub_section s (NValue (nd g k))) \<noteq> None \<Longrightarrow>
    opens g (n, s) (v, sub_section s (NValue (nd g k)))"
| opens_deployment: "Kind (nd g n) = MappingNode \<Longrightarrow> (k, v) \<in> set (pairs g n) \<Longrightarrow> \<not> isMergeKey (nd g k) \<Longrightarrow>
    NValue (nd g k) = ''deployments'' \<Longrightarrow> Kind (nd g v) = MappingNode \<Longrightarrow> (dk, dv) \<in> set (pairs g v) \<Longrightarrow>
    opens g (n, []) (dv, ''deployments.*'')"

definition leads :: "ygraph \<Rightarrow> nat \<times> string \<Rightarrow> nat \<times> string \<Rightarrow> bool" where
  "leads g x y \<longleftrightarrow> merges g x y \<or> opens g x y"

definition known_keys :: "ygraph \<Rightarrow> nat \<times> string \<Rightarrow> bool" where
  "known_keys g x \<longleftrightarrow> (Kind (nd g (fst x)) = MappingNode \<longrightarrow>
     (\<forall>(k, v) \<in> set (pairs g (fst x)). isMergeKey (nd g k) \<or> NValue (nd g k) \<in> set (allowed_in (snd x))))"

text \<open>A document part is clean when every mapping it leads to has only options its section knows,
  and no mapping is merged, through any number of steps, into itself.\<close>

definition clean_keys :: "ygraph \<Rightarrow> nat \<times> string \<Rightarrow> bool" where
  "clean_keys g x \<longleftrightarrow> (\<forall>y. (leads g)\<^sup>*\<^sup>* x y \<longrightarrow> known_keys g y \<and> \<not> (merges g)\<^sup>+\<^sup>+ y y)"

inductive_cases mergesE: "merges g (n, s) y"
inductive_cases opensE: "opens g (n, s) y"

lemma leads_refl_clean: "clean_keys g x \<Longrightarrow> known_keys g x \<and> \<not> (merges g)\<^sup>+\<^sup>+ x x"
  unfolding clean_keys_def by blast

lemma clean_keys_step: "clean_keys g x \<Longrightarrow> leads g x y \<Longrightarrow> clean_keys g y"
  by (auto simp: clean_keys_def intro: converse_rtranclp_into_rtranclp)

lemma clean_keys_steps: "(leads g)\<^sup>*\<^sup>* x y \<Longrightarrow> clean_keys g x \<Longrightarrow> clean_keys g y"
  by (induction rule: rtranclp_induct) (auto intro: clean_keys_step)

lemma merges_leads: "(merges g)\<^sup>*\<^sup>* x y \<Longrightarrow> (leads g)\<^sup>*\<^sup>* x y"
  by (induction rule: rtranclp_induct) (auto simp: leads_def intro: rtranclp.rtrancl_into_rtrancl)

lemma clean_keys_unfold:
  "clean_keys g x \<longleftrightarrow> known_keys g x \<and> (\<forall>y. leads g x y \<longrightarrow> clean_keys g y)"
proof
  assume r: "known_keys g x \<and> (\<forall>y. leads g x y \<longrightarrow> clean_keys g y)"
  have "\<not> (merges g)\<^sup>+\<^sup>+ x x"
  proof
    assume "(merges g)\<^sup>+\<^sup>+ x x"
    then obtain y where y: "merges g x y" "(merges g)\<^sup>*\<^sup>* y x"
      by (meson tranclpD)
    then have "(merges g)\<^sup>+\<^sup>+ y y" by (meson rtranclp_into_tranclp1)
    moreover have "clean_keys g y" using r y(1) unfolding leads_def by blast
    ultimately show False using leads_refl_clean [of g y] by blast
  qed
  then show "clean_keys g x"
    unfolding clean_keys_def
    by (metis (no_types, lifting) r converse_rtranclpE clean_keys_def)
qed (blast dest: leads_refl_clean intro: clean_keys_step)

section \<open>The table of sections\<close>

lemma sub_sections:
  assumes "name \<in> set (allowed_in s)" "map_of allowedKeys (sub_section s name) \<noteq> None"
  shows "(s = [] \<and> name \<in> {''connection'', ''defaults'', ''safety'', ''advanced'', ''permissions'', ''sync''}) \<or>
    (s = ''connection'' \<and> name \<in> {''algorithms'', ''proxy''})"
proof -
  have table: "\<forall>(s, ks) \<in> set allowedKeys. \<forall>name \<in> set ks. map_of allowedKeys (sub_section s name) \<noteq> None \<longrightarrow>
    (s = [] \<and> name \<in> {''connection'', ''defaults'', ''safety'', ''advanced'', ''permissions'', ''sync''}) \<or>
    (s = ''connection'' \<and> name \<in> {''algorithms'', ''proxy''})"
    by code_simp
  from assms(1) obtain ks where ks: "(s, ks) \<in> set allowedKeys" "name \<in> set ks"
    by (cases "map_of allowedKeys s") (auto simp: allowed_in_def dest: map_of_SomeD)
  from bspec [OF bspec [OF table ks(1), unfolded prod.case] ks(2)] assms(2) show ?thesis by (rule mp)
qed

text \<open>A section opened by a key of some mapping never knows that key, nor does any section below.\<close>

definition below_section :: "string \<Rightarrow> string set" where
  "below_section s = (if s = ''connection'' then {''connection'', ''connection.algorithms'', ''connection.proxy''} else {s})"

lemma opens_section_of:
  assumes "opens g (y, w) (z, w1)"
  shows "\<exists>k v. (k, v) \<in> set (pairs g y) \<and> Kind (nd g y) = MappingNode \<and> \<not> isMergeKey (nd g k) \<and>
    (\<forall>s \<in> below_section w1. NValue (nd g k) \<notin> set (allowed_in s)) \<and>
    w \<noteq> w1 \<and> (w \<noteq> [] \<longrightarrow> w = ''connection'' \<and> w1 \<in> {''connection.algorithms'', ''connection.proxy''})"
proof -
  let ?P = "\<lambda>k. (\<forall>s \<in> below_section w1. NValue (nd g k) \<notin> set (allowed_in s)) \<and>
    w \<noteq> w1 \<and> (w \<noteq> [] \<longrightarrow> w = ''connection'' \<and> w1 \<in> {''connection.algorithms'', ''connection.proxy''})"
  have table: "\<forall>name \<in> {''connection'', ''defaults'', ''safety'', ''advanced'', ''permissions'', ''sync''}.
      \<forall>s \<in> below_section name. name \<notin> set (allowed_in s)"
    "\<forall>s \<in> below_section ''connection.algorithms'' \<union> below_section ''connection.proxy''.
      ''algorithms'' \<notin> set (allowed_in s) \<and> ''proxy'' \<notin> set (allowed_in s)"
    "\<forall>s \<in> below_section ''deployments.*''. ''deployments'' \<notin> set (allowed_in s)"
    by code_simp+
  consider (sec) k where "(k, z) \<in> set (pairs g y)" "Kind (nd g y) = MappingNode" "\<not> isMergeKey (nd g k)"
      "NValue (nd g k) \<in> set (allowed_in w)" "map_of allowedKeys (sub_section w (NValue (nd g k))) \<noteq> None"
      "w1 = sub_section w (NValue (nd g k))"
    | (dep) k v where "(k, v) \<in> set (pairs g y)" "Kind (nd g y) = MappingNode" "\<not> isMergeKey (nd g k)"
      "NValue (nd g k) = ''deployments''" "w = []" "w1 = ''deployments.*''"
    using assms by (auto elim!: opensE)
  then show ?thesis
  proof cases
    case sec
    from sub_sections [OF sec(4,5)] have "?P k"
    proof
      assume "w = [] \<and> NValue (nd g k) \<in> {''connection'', ''defaults'', ''safety'', ''advanced'', ''permissions'', ''sync''}"
      with table(1) sec(6) show ?thesis by (auto simp: sub_section_def)
    next
      assume "w = ''connection'' \<and> NValue (nd g k) \<in> {''algorithms'', ''proxy''}"
      with table(2) sec(6) show ?thesis by (auto simp: sub_section_def)
    qed
    with sec(1-3) show ?thesis by blast
  next
    case dep
    with table(3) show ?thesis by auto
  qed
qed

lemma leads_below:
  assumes "(leads g)\<^sup>*\<^sup>* (z, w) (n, s)" "w \<noteq> []"
  shows "s \<in> below_section w"
  using assms(1)
proof (induction rule: rtranclp_induct2)
  case (step y u n s)
  have "u \<noteq> []" using step.IH assms(2) by (auto simp: below_section_def split: if_splits)
  from step.hyps(2) show ?case unfolding leads_def
  proof
    assume "merges g (y, u) (n, s)" then show ?case using step.IH by (auto elim: mergesE)
  next
    assume "opens g (y, u) (n, s)"
    from opens_section_of [OF this] \<open>u \<noteq> []\<close> step.IH show ?case
      by (auto simp: below_section_def split: if_splits)
  qed
qed (simp add: below_section_def)

lemma opens_not_top: "opens g (y, w) (z, w1) \<Longrightarrow> w1 \<noteq> []"
  by (erule opensE) (auto simp: sub_section_def dest: sub_sections)

lemma merges_any_section: "(merges g)\<^sup>*\<^sup>* x y \<Longrightarrow> (merges g)\<^sup>*\<^sup>* (fst x, s) (fst y, s) \<and> snd x = snd y"
proof (induction rule: rtranclp_induct)
  case (step y z)
  have "merges g (fst y, s) (fst z, s) \<and> snd y = snd z"
    using step.hyps(2) by (cases rule: merges.cases) (auto intro: merges.merges)
  with step.IH show ?case by (auto intro: rtranclp.rtrancl_into_rtrancl)
qed simp

text \<open>A way back to a merged mapping either stays in its section or passes a mapping whose key the
  current section cannot know.\<close>

lemma way_to:
  assumes "(leads g)\<^sup>*\<^sup>* x y"
  shows "(merges g)\<^sup>*\<^sup>* x y \<or>
    (\<exists>z. (merges g)\<^sup>*\<^sup>* (fst x, snd y) (z, snd y) \<and> \<not> known_keys g (z, snd y))"
  using assms
proof (induction rule: converse_rtranclp_induct)
  case (step x x')
  obtain n s n' s' where x: "x = (n, s)" "x' = (n', s')" by fastforce
  show ?case
  proof (cases "merges g x x'")
    case True
    then have m: "merges g (n, snd y) (n', snd y)" unfolding x by (auto elim: mergesE intro: merges.merges)
    from step.IH show ?thesis
    proof (elim disjE exE conjE)
      assume "(merges g)\<^sup>*\<^sup>* x' y" with True show ?thesis by (auto intro: converse_rtranclp_into_rtranclp)
    next
      fix z assume "(merges g)\<^sup>*\<^sup>* (fst x', snd y) (z, snd y)" "\<not> known_keys g (z, snd y)"
      with m show ?thesis unfolding x by (auto intro: converse_rtranclp_into_rtranclp)
    qed
  next
    case False
    with step.hyps(1) have o: "opens g (n, s) (n', s')" unfolding leads_def x by blast
    have "snd y \<in> below_section s'"
      using leads_below [of g n' s' "fst y" "snd y"] step.hyps(2) opens_not_top [OF o] x by simp
    with opens_section_of [OF o] have "\<not> known_keys g (n, snd y)"
      unfolding known_keys_def by force
    then show ?thesis unfolding x by (intro disjI2 exI [of _ n]) simp
  qed
qed simp

section \<open>The walk decides cleanness\<close>

text \<open>The bookkeeping of a frame: the nodes entered by merge keys on the way to it, and only clean
  parts in the memo.\<close>

definition walk_inv :: "ygraph \<Rightarrow> nat set \<Rightarrow> keyWalkState \<Rightarrow> bool" where
  "walk_inv g V s \<longleftrightarrow> set (items (visiting s)) = V \<and> (\<forall>x \<in> set (items (memo s)). clean_keys g x)"

definition on_chain :: "ygraph \<Rightarrow> nat set \<Rightarrow> nat \<times> string \<Rightarrow> bool" where
  "on_chain g V x \<longleftrightarrow> (\<forall>m \<in> V. \<exists>w. (leads g)\<^sup>*\<^sup>* (m, w) x)"

lemma items_simps [simp]: "items None = []" "items (Some xs) = xs"
  by (simp_all add: items_def)

lemma items_map_option [simp]: "items (map_option h m) = (case m of None \<Rightarrow> [] | Some xs \<Rightarrow> h xs)"
  by (cases m) auto

lemma walk_inv_mark: "walk_inv g V s \<Longrightarrow> walk_inv g (insert n V) (markVisiting s n)"
  by (simp add: walk_inv_def markVisiting_def)

lemma walk_inv_after: "walk_inv g V s \<Longrightarrow> walk_inv g V c \<Longrightarrow> walk_inv g V (after_call s c)"
  by (auto simp: walk_inv_def after_call_def split: option.splits)

lemma walk_inv_release:
  "walk_inv g V s \<Longrightarrow> n \<notin> V \<Longrightarrow> walk_inv g (insert n V) c \<Longrightarrow>
   walk_inv g V (release (after_call (markVisiting s n) c) n)"
  by (cases "visiting c"; cases "memo s") (auto simp: walk_inv_def after_call_def release_def markVisiting_def)

lemma walk_inv_memoize: "walk_inv g V s \<Longrightarrow> clean_keys g (n, sec) \<Longrightarrow> walk_inv g V (memoize s n sec)"
  by (auto simp: walk_inv_def memoize_def)

lemma on_chain_step: "on_chain g V x \<Longrightarrow> leads g x y \<Longrightarrow> on_chain g V y"
  unfolding on_chain_def by (meson rtranclp.rtrancl_into_rtrancl)

lemma on_chain_merge: "on_chain g V x \<Longrightarrow> merges g x (m, s) \<Longrightarrow> on_chain g (insert m V) (m, s)"
  using on_chain_step [of g V x "(m, s)"] unfolding on_chain_def leads_def by blast

lemma back_edge_dirty:
  assumes "on_chain g V (n, s)" "merges g (n, s) (m, s)" "m \<in> V"
  shows "\<not> clean_keys g (m, s)"
proof
  assume c: "clean_keys g (m, s)"
  from assms(1,3) obtain w where w: "(leads g)\<^sup>*\<^sup>* (m, w) (n, s)" by (auto simp: on_chain_def)
  from way_to [OF w] show False
  proof (elim disjE exE conjE)
    assume p: "(merges g)\<^sup>*\<^sup>* (m, w) (n, s)"
    with merges_any_section [OF p, of s] assms(2) have "(merges g)\<^sup>+\<^sup>+ (m, s) (m, s)"
      by (auto intro: rtranclp_into_tranclp1)
    with leads_refl_clean [OF c] show False by blast
  next
    fix z assume z: "(merges g)\<^sup>*\<^sup>* (fst (m, w), snd (n, s)) (z, snd (n, s))" "\<not> known_keys g (z, snd (n, s))"
    from z(1) have "(merges g)\<^sup>*\<^sup>* (m, s) (z, s)" by simp
    from clean_keys_steps [OF merges_leads [OF this] c] z(2) leads_refl_clean show False by auto
  qed
qed

lemma each_ok:
  assumes "\<And>x s err s'. x \<in> set xs \<Longrightarrow> I s \<Longrightarrow> f x s = Some (err, s') \<Longrightarrow> I s' \<and> (err = None \<longleftrightarrow> Q x)"
    and "I s" "each f xs s = Some (err, s')"
  shows "I s' \<and> (err = None \<longleftrightarrow> (\<forall>x \<in> set xs. Q x))"
  using assms
proof (induction xs arbitrary: s)
  case (Cons x xs)
  obtain e t where t: "f x s = Some (e, t)" using Cons.prems(3) by (cases "f x s") auto
  with Cons.prems(1,2) have i: "I t" "e = None \<longleftrightarrow> Q x" by auto
  show ?case
  proof (cases e)
    case None
    with t Cons.prems(3) have r: "each f xs t = Some (err, s')" by simp
    have "I s' \<and> (err = None \<longleftrightarrow> (\<forall>x \<in> set xs. Q x))"
      by (rule Cons.IH [OF _ i(1) r]) (rule Cons.prems(1); simp)
    with None i(2) show ?thesis by simp
  next
    case (Some e')
    with t i Cons.prems(3) show ?thesis by auto
  qed
qed simp

lemma each_walk:
  assumes "each f xs s = Some (err, s')" "walk_inv g V s"
    and "\<And>x s err s'. x \<in> set xs \<Longrightarrow> walk_inv g V s \<Longrightarrow> f x s = Some (err, s') \<Longrightarrow>
      walk_inv g V s' \<and> (err = None \<longleftrightarrow> Q x)"
  shows "walk_inv g V s' \<and> (err = None \<longleftrightarrow> (\<forall>x \<in> set xs. Q x))"
  by (rule each_ok [where I = "walk_inv g V" and f = f, OF assms(3,2,1)])

lemma each_total:
  assumes "\<And>x s. x \<in> set xs \<Longrightarrow> I s \<Longrightarrow> f x s \<noteq> None"
    and "\<And>x s err s'. x \<in> set xs \<Longrightarrow> I s \<Longrightarrow> f x s = Some (err, s') \<Longrightarrow> I s'" and "I s"
  shows "each f xs s \<noteq> None"
  using assms
proof (induction xs arbitrary: s)
  case (Cons x xs)
  obtain e t where t: "f x s = Some (e, t)" using Cons.prems(1) [of x s] Cons.prems(3) by auto
  have "I t" using Cons.prems(2) [of x s e t] Cons.prems(3) t by simp
  have "each f xs t \<noteq> None"
  proof (rule Cons.IH)
    show "I t" by fact
    show "f y u \<noteq> None" if "y \<in> set xs" "I u" for y u
      by (rule Cons.prems(1)) (simp_all add: that)
    show "I u'" if "y \<in> set xs" "I u" "f y u = Some (err, u')" for y u err u'
      by (rule Cons.prems(2) [OF _ that(2,3)]) (simp add: that(1))
  qed
  with t show ?case by (cases e) auto
qed simp

definition visitor_ok :: "ygraph \<Rightarrow> visitor \<Rightarrow> bool" where
  "visitor_ok g visit \<longleftrightarrow> (\<forall>V n sec loc s err s'. walk_inv g V s \<longrightarrow> on_chain g V (n, sec) \<longrightarrow>
     visit n sec loc s = Some (err, s') \<longrightarrow> walk_inv g V s' \<and> (err = None \<longleftrightarrow> clean_keys g (n, sec)))"

lemma visitor_okD:
  "visitor_ok g visit \<Longrightarrow> walk_inv g V s \<Longrightarrow> on_chain g V (n, sec) \<Longrightarrow> visit n sec loc s = Some (err, s') \<Longrightarrow>
   walk_inv g V s' \<and> (err = None \<longleftrightarrow> clean_keys g (n, sec))"
  unfolding visitor_ok_def by blast

lemma walk_target_ok:
  assumes "visitor_ok g visit" "on_chain g V (n, sec)" "merges g (n, sec) (m, sec)" "walk_inv g V s"
    "walk_target visit sec loc here m s = Some (err, s')"
  shows "walk_inv g V s' \<and> (err = None \<longleftrightarrow> clean_keys g (m, sec))"
proof (cases "m \<in> V")
  case True
  then show ?thesis
    using assms(4,5) back_edge_dirty [OF assms(2,3)] by (auto simp: walk_target_def walk_inv_def)
next
  case False
  have v: "m \<notin> set (items (visiting s))" using False assms(4) by (simp add: walk_inv_def)
  obtain e c where c: "visit m sec loc (markVisiting s m) = Some (e, c)"
    using assms(5) v by (cases "visit m sec loc (markVisiting s m)") (auto simp: walk_target_def Let_def)
  from visitor_okD [OF assms(1) walk_inv_mark [OF assms(4)] on_chain_merge [OF assms(2,3)] c]
  have i: "walk_inv g (insert m V) c" "e = None \<longleftrightarrow> clean_keys g (m, sec)" by auto
  have r: "walk_inv g V (release (after_call (markVisiting s m) c) m)"
    by (rule walk_inv_release [OF assms(4) False i(1)])
  show ?thesis
    using assms(5) v c i(2) r walk_inv_memoize [OF r, of m sec]
    by (cases e) (auto simp: walk_target_def Let_def)
qed

lemma walk_under_ok:
  assumes "visitor_ok g visit" "on_chain g V x" "leads g x (v, sec)" "walk_inv g V s"
    "walk_under visit v sec loc s = Some (err, s')"
  shows "walk_inv g V s' \<and> (err = None \<longleftrightarrow> clean_keys g (v, sec))"
proof -
  obtain e c where c: "visit v sec loc s = Some (e, c)"
    using assms(5) by (cases "visit v sec loc s") (auto simp: walk_under_def)
  from visitor_okD [OF assms(1,4) on_chain_step [OF assms(2,3)] c]
  have i: "walk_inv g V c" "e = None \<longleftrightarrow> clean_keys g (v, sec)" by auto
  have r: "walk_inv g V (after_call s c)" by (rule walk_inv_after [OF assms(4) i(1)])
  show ?thesis
    using assms(5) c i(2) r walk_inv_memoize [OF r, of v sec] by (cases e) (auto simp: walk_under_def)
qed

text \<open>What one entry contributes.\<close>

definition entry_clean :: "ygraph \<Rightarrow> string \<Rightarrow> nat \<times> nat \<Rightarrow> bool" where
  "entry_clean g sec kv \<longleftrightarrow>
     (if isMergeKey (nd g (fst kv)) then \<forall>m \<in> set (merge_targets g (snd kv)). clean_keys g (m, sec)
      else NValue (nd g (fst kv)) \<in> set (allowed_in sec) \<and>
        (map_of allowedKeys (sub_section sec (NValue (nd g (fst kv)))) \<noteq> None \<longrightarrow>
           clean_keys g (snd kv, sub_section sec (NValue (nd g (fst kv))))) \<and>
        (sec = [] \<and> NValue (nd g (fst kv)) = ''deployments'' \<and> Kind (nd g (snd kv)) = MappingNode \<longrightarrow>
           (\<forall>d \<in> set (pairs g (snd kv)). clean_keys g (snd d, ''deployments.*''))))"

lemma deployments_allowed: "''deployments'' \<in> set (allowed_in [])"
  by (simp add: allowed_in_def allowedKeys_def)

lemma clean_keys_entries:
  assumes "Kind (nd g n) = MappingNode"
  shows "clean_keys g (n, sec) \<longleftrightarrow> (\<forall>e \<in> set (pairs g n). entry_clean g sec e)"
proof
  assume c: "clean_keys g (n, sec)"
  show "\<forall>e \<in> set (pairs g n). entry_clean g sec e"
  proof
    fix e assume e: "e \<in> set (pairs g n)"
    obtain k v where kv: "e = (k, v)" by (cases e)
    have known: "isMergeKey (nd g k) \<or> NValue (nd g k) \<in> set (allowed_in sec)"
      using leads_refl_clean [OF c] e assms unfolding known_keys_def kv by auto
    have step: "\<And>y. leads g (n, sec) y \<Longrightarrow> clean_keys g y" using c clean_keys_unfold by blast
    have merged: "clean_keys g (m, sec)" if "isMergeKey (nd g k)" "m \<in> set (merge_targets g v)" for m
      using step [of "(m, sec)"] merges.merges [OF assms e [unfolded kv] that] by (simp add: leads_def)
    have opened: "clean_keys g (v, sub_section sec (NValue (nd g k)))"
      if "\<not> isMergeKey (nd g k)" "map_of allowedKeys (sub_section sec (NValue (nd g k))) \<noteq> None"
      using step [of "(v, sub_section sec (NValue (nd g k)))"] known that
        opens_section [OF assms e [unfolded kv], of sec] by (auto simp: leads_def)
    have deployed: "clean_keys g (snd d, ''deployments.*'')"
      if "\<not> isMergeKey (nd g k)" "sec = []" "NValue (nd g k) = ''deployments''" "Kind (nd g v) = MappingNode"
        "d \<in> set (pairs g v)" for d
      using step [of "(snd d, ''deployments.*'')"] that
        opens_deployment [OF assms e [unfolded kv] that(1,3,4), of "fst d" "snd d"] by (auto simp: leads_def)
    show "entry_clean g sec e"
      unfolding entry_clean_def kv fst_conv snd_conv
      using known merged opened deployed by (cases "isMergeKey (nd g k)") simp_all
  qed
next
  assume e: "\<forall>e \<in> set (pairs g n). entry_clean g sec e"
  have "known_keys g (n, sec)"
    using e by (auto simp: known_keys_def entry_clean_def split: if_splits)
  moreover have "clean_keys g y" if "merges g (n, sec) y" for y
    using that
  proof (rule mergesE)
    fix k v m assume h: "y = (m, sec)" "(k, v) \<in> set (pairs g n)" "isMergeKey (nd g k)" "m \<in> set (merge_targets g v)"
    from bspec [OF e h(2)] h(1,3,4) show ?thesis by (simp add: entry_clean_def)
  qed
  moreover have "clean_keys g y" if "opens g (n, sec) y" for y
    using that
  proof (cases rule: opens.cases)
    case (opens_section k v)
    then have "(k, v) \<in> set (pairs g n)" by simp
    from bspec [OF e this] opens_section show ?thesis by (simp add: entry_clean_def)
  next
    case (opens_deployment k v dk dv)
    then have "(k, v) \<in> set (pairs g n)" by simp
    from bspec [OF e this] opens_deployment show ?thesis by (auto simp: entry_clean_def)
  qed
  ultimately show "clean_keys g (n, sec)" using clean_keys_unfold leads_def by blast
qed

lemma walk_entry_ok:
  assumes "visitor_ok g visit" "on_chain g V (n, sec)" "Kind (nd g n) = MappingNode"
    "kv \<in> set (pairs g n)" "walk_inv g V s" "walk_entry visit g sec loc kv s = Some (err, s')"
  shows "walk_inv g V s' \<and> (err = None \<longleftrightarrow> entry_clean g sec kv)"
proof -
  obtain k v where kv: "kv = (k, v)" by (cases kv)
  define name where "name = NValue (nd g k)"
  define here where "here = (if loc \<noteq> [] then loc @ ''.'' @ name else name)"
  define sub where "sub = sub_section sec name"
  note w = assms(6) [unfolded walk_entry_def kv fst_conv snd_conv Let_def, folded name_def, folded here_def sub_def]
  note e = entry_clean_def [of g sec kv, unfolded kv fst_conv snd_conv, folded name_def, folded sub_def]
  note kvin = assms(4) [unfolded kv]
  consider (merge) "isMergeKey (nd g k)" | (unknown) "\<not> isMergeKey (nd g k)" "name \<notin> set (allowed_in sec)"
    | (known) "\<not> isMergeKey (nd g k)" "name \<in> set (allowed_in sec)" by blast
  then show ?thesis
  proof cases
    case merge
    then have "each (walk_target visit sec loc here) (merge_targets g v) s = Some (err, s')" using w by simp
    then have "walk_inv g V s' \<and> (err = None \<longleftrightarrow> (\<forall>m \<in> set (merge_targets g v). clean_keys g (m, sec)))"
      by (rule each_walk [OF _ assms(5)]) (rule walk_target_ok [OF assms(1,2) merges.merges [OF assms(3) kvin merge]])
    then show ?thesis using merge unfolding kv e by simp
  next
    case unknown
    then show ?thesis using w assms(5) unfolding kv e by auto
  next
    case known
    obtain e1 t where u: "(if map_of allowedKeys sub \<noteq> None then walk_under visit v sub here s else Some (None, s)) = Some (e1, t)"
      using w known by (cases "if map_of allowedKeys sub \<noteq> None then walk_under visit v sub here s else Some (None, s)") auto
    have t: "walk_inv g V t \<and> (e1 = None \<longleftrightarrow> (map_of allowedKeys sub \<noteq> None \<longrightarrow> clean_keys g (v, sub)))"
    proof (cases "map_of allowedKeys sub \<noteq> None")
      case True
      then have l: "leads g (n, sec) (v, sub)"
        using opens_section [OF assms(3) kvin known(1), of sec] known(2) unfolding leads_def sub_def name_def by blast
      from True u have "walk_under visit v sub here s = Some (e1, t)" by simp
      from walk_under_ok [OF assms(1,2) l assms(5) this] True show ?thesis by simp
    next
      case False
      with u assms(5) show ?thesis by auto
    qed
    show ?thesis
    proof (cases "e1 = None \<and> sec = [] \<and> name = ''deployments'' \<and> Kind (nd g v) = MappingNode")
      case True
      then have d: "each (\<lambda>(dk, dv). walk_under visit dv ''deployments.*'' (''deployments.'' @ NValue (nd g dk)))
          (pairs g v) t = Some (err, s')"
        using w known u by (simp del: append_Cons append.simps)
      have "walk_inv g V b' \<and> (er = None \<longleftrightarrow> clean_keys g (snd d, ''deployments.*''))"
        if "d \<in> set (pairs g v)" "walk_inv g V b"
          "(case d of (dk, dv) \<Rightarrow> walk_under visit dv ''deployments.*'' (''deployments.'' @ NValue (nd g dk))) b = Some (er, b')"
        for d b er b'
      proof -
        obtain dk dv where d: "d = (dk, dv)" by (cases d)
        have "leads g (n, sec) (dv, ''deployments.*'')"
          using opens_deployment [OF assms(3) kvin known(1), of dk dv] True that(1) unfolding leads_def name_def d by auto
        from walk_under_ok [OF assms(1,2) this that(2)] that(3) show ?thesis unfolding d prod.case snd_conv by blast
      qed
      note body = this
      have "walk_inv g V s' \<and> (err = None \<longleftrightarrow> (\<forall>d \<in> set (pairs g v). clean_keys g (snd d, ''deployments.*'')))"
        by (rule each_walk [OF d conjunct1 [OF t]]) (rule body)
      then show ?thesis using True known t unfolding kv e by auto
    next
      case False
      then have "(err, s') = (e1, t)" using w known u by (cases e1) (auto split: if_splits)
      with False t known show ?thesis unfolding kv e by (cases e1) auto
    qed
  qed
qed

lemma checkKeysVisited_ok: "visitor_ok g (checkKeysVisited d g)"
proof (induction d)
  case (Suc d)
  show ?case unfolding visitor_ok_def
  proof (intro allI impI)
    fix V n sec loc s err s'
    assume a: "walk_inv g V s" "on_chain g V (n, sec)" "checkKeysVisited (Suc d) g n sec loc s = Some (err, s')"
    show "walk_inv g V s' \<and> (err = None \<longleftrightarrow> clean_keys g (n, sec))"
    proof (cases "Kind (nd g n) = MappingNode \<and> \<not> memoized s n sec")
      case True
      then have m: "Kind (nd g n) = MappingNode" by simp
      from True a(3) have "each (walk_entry (checkKeysVisited d g) g sec loc) (pairs g n) s = Some (err, s')" by simp
      then have "walk_inv g V s' \<and> (err = None \<longleftrightarrow> (\<forall>e \<in> set (pairs g n). entry_clean g sec e))"
        by (rule each_walk [OF _ a(1)]) (rule walk_entry_ok [OF Suc a(2) m])
      then show ?thesis using clean_keys_entries [OF m, of sec] by simp
    next
      case False
      then have "err = None" "s' = s" using a(3) by (auto split: if_splits)
      moreover have "clean_keys g (n, sec)"
      proof (cases "Kind (nd g n) = MappingNode")
        case True
        with False a(1) show ?thesis by (auto simp: memoized_def walk_inv_def)
      next
        case False
        then have "\<not> leads g (n, sec) y" for y by (auto simp: leads_def elim: mergesE opensE)
        with False show ?thesis using clean_keys_unfold [of g "(n, sec)"] by (simp add: known_keys_def)
      qed
      ultimately show ?thesis using a(1) by simp
    qed
  qed
qed (simp add: visitor_ok_def)

lemma fresh_inv: "walk_inv g {} fresh_state" "on_chain g {} x"
  by (simp_all add: walk_inv_def fresh_state_def on_chain_def)

section \<open>The walk ends\<close>

definition section_depth :: "string \<Rightarrow> nat" where
  "section_depth s = (if s = [] then 2 else if s = ''connection'' then 1 else 0)"

definition walk_cost :: "ygraph \<Rightarrow> nat set \<Rightarrow> nat \<Rightarrow> string \<Rightarrow> nat" where
  "walk_cost g V n sec = (if n < length g then section_depth sec + card ({..<length g} - V) + 2 else 1)"

lemma walk_cost_pos: "0 < walk_cost g V n sec"
  by (simp add: walk_cost_def)

lemma walk_cost_merge:
  assumes "n < length g" "m \<notin> V"
  shows "walk_cost g (insert m V) m sec < walk_cost g V n sec"
proof (cases "m < length g")
  case True
  then have "card ({..<length g} - insert m V) < card ({..<length g} - V)"
    using assms(2) by (intro psubset_card_mono) auto
  then show ?thesis using True assms(1) by (simp add: walk_cost_def)
qed (use assms(1) in \<open>simp add: walk_cost_def\<close>)

lemma walk_cost_section:
  "n < length g \<Longrightarrow> section_depth sub < section_depth sec \<Longrightarrow> walk_cost g V v sub < walk_cost g V n sec"
  by (auto simp: walk_cost_def)

lemma opens_deeper: "opens g (n, s) (v, sub) \<Longrightarrow> section_depth sub < section_depth s"
  using opens_section_of [of g n s v sub] opens_not_top [of g n s v sub]
  by (auto simp: section_depth_def)

definition visitor_total :: "ygraph \<Rightarrow> visitor \<Rightarrow> nat \<Rightarrow> bool" where
  "visitor_total g visit d \<longleftrightarrow> (\<forall>V n sec loc s. walk_inv g V s \<longrightarrow> on_chain g V (n, sec) \<longrightarrow>
     walk_cost g V n sec \<le> d \<longrightarrow> visit n sec loc s \<noteq> None)"

lemma visitor_totalD:
  "visitor_total g visit d \<Longrightarrow> walk_inv g V s \<Longrightarrow> on_chain g V (n, sec) \<Longrightarrow> walk_cost g V n sec \<le> d \<Longrightarrow>
   \<exists>e c. visit n sec loc s = Some (e, c)"
  unfolding visitor_total_def by force

lemma nd_mapping: "Kind (nd g n) = MappingNode \<Longrightarrow> n < length g"
  by (auto simp: nd_def zero_node_def split: if_splits)

lemma walk_target_total:
  assumes "visitor_total g visit d" "on_chain g V (n, sec)" "merges g (n, sec) (m, sec)" "walk_inv g V s"
    "n < length g" "walk_cost g V n sec \<le> Suc d"
  shows "walk_target visit sec loc here m s \<noteq> None"
proof (cases "m \<in> V")
  case True
  then show ?thesis using assms(4) by (simp add: walk_target_def walk_inv_def)
next
  case False
  have "walk_cost g (insert m V) m sec \<le> d" using walk_cost_merge [OF assms(5) False, of sec] assms(6) by simp
  from visitor_totalD [OF assms(1) walk_inv_mark [OF assms(4)] on_chain_merge [OF assms(2,3)] this]
  obtain e c where "visit m sec loc (markVisiting s m) = Some (e, c)" by blast
  then show ?thesis by (cases e) (simp_all add: walk_target_def Let_def)
qed

lemma walk_under_total:
  assumes "visitor_total g visit d" "on_chain g V (n, s0)" "opens g (n, s0) (v, sec)" "walk_inv g V s"
    "n < length g" "walk_cost g V n s0 \<le> Suc d"
  shows "walk_under visit v sec loc s \<noteq> None"
proof -
  have "leads g (n, s0) (v, sec)" using assms(3) by (simp add: leads_def)
  moreover have "walk_cost g V v sec \<le> d"
    using walk_cost_section [OF assms(5) opens_deeper [OF assms(3)], of V v] assms(6) by simp
  ultimately obtain e c where "visit v sec loc s = Some (e, c)"
    using visitor_totalD [OF assms(1,4) on_chain_step [OF assms(2)]] by blast
  then show ?thesis by (cases e) (simp_all add: walk_under_def)
qed

lemma walk_entry_total:
  assumes "visitor_ok g visit" "visitor_total g visit d" "on_chain g V (n, sec)" "Kind (nd g n) = MappingNode"
    "kv \<in> set (pairs g n)" "walk_inv g V s" "walk_cost g V n sec \<le> Suc d"
  shows "walk_entry visit g sec loc kv s \<noteq> None"
proof -
  obtain k v where kv: "kv = (k, v)" by (cases kv)
  define name where "name = NValue (nd g k)"
  define here where "here = (if loc \<noteq> [] then loc @ ''.'' @ name else name)"
  define sub where "sub = sub_section sec name"
  note w = walk_entry_def [of visit g sec loc kv s, unfolded kv fst_conv snd_conv Let_def, folded name_def, folded here_def sub_def]
  note kvin = assms(5) [unfolded kv] and n = nd_mapping [OF assms(4)]
  show ?thesis
  proof (cases "isMergeKey (nd g k)")
    case True
    note m = merges.merges [OF assms(4) kvin True]
    have "each (walk_target visit sec loc here) (merge_targets g v) s \<noteq> None"
      by (rule each_total [where I = "walk_inv g V"])
        (use walk_target_total [OF assms(2,3) m _ n assms(7)] walk_target_ok [OF assms(1,3) m] assms(6) in blast)+
    then show ?thesis using True unfolding kv w by simp
  next
    case False
    show ?thesis
    proof (cases "name \<in> set (allowed_in sec)")
      case True
      note known = this
      have "\<exists>e1 t. (if map_of allowedKeys sub \<noteq> None then walk_under visit v sub here s else Some (None, s)) = Some (e1, t)
          \<and> walk_inv g V t"
      proof (cases "map_of allowedKeys sub \<noteq> None")
        case True
        then have o: "opens g (n, sec) (v, sub)"
          using opens_section [OF assms(4) kvin False, of sec] known unfolding sub_def name_def by blast
        then have l: "leads g (n, sec) (v, sub)" by (simp add: leads_def)
        obtain e1 t where e: "walk_under visit v sub here s = Some (e1, t)"
          using walk_under_total [OF assms(2,3) o assms(6) n assms(7)] by force
        from walk_under_ok [OF assms(1,3) l assms(6) e] e True show ?thesis by simp
      next
        case False
        with assms(6) show ?thesis by simp
      qed
      then obtain e1 t where u: "(if map_of allowedKeys sub \<noteq> None then walk_under visit v sub here s else Some (None, s)) = Some (e1, t)"
          "walk_inv g V t" by blast
      have "each (\<lambda>(dk, dv). walk_under visit dv ''deployments.*'' (''deployments.'' @ NValue (nd g dk))) (pairs g v) t \<noteq> None"
        if top: "sec = []" "name = ''deployments''" "Kind (nd g v) = MappingNode"
      proof -
        have o: "opens g (n, sec) (dv, ''deployments.*'')" if "(dk, dv) \<in> set (pairs g v)" for dk dv
          using opens_deployment [OF assms(4) kvin False _ top(3) that] top(1,2) by (simp add: name_def)
        then have l: "leads g (n, sec) (dv, ''deployments.*'')" if "(dk, dv) \<in> set (pairs g v)" for dk dv
          using that by (auto simp: leads_def)
        show ?thesis
        proof (rule each_total [where I = "walk_inv g V"])
          fix d b assume d: "d \<in> set (pairs g v)" and b: "walk_inv g V b"
          obtain dk dv where dd: "d = (dk, dv)" by (cases d)
          show "(case d of (dk, dv) \<Rightarrow> walk_under visit dv ''deployments.*'' (''deployments.'' @ NValue (nd g dk))) b \<noteq> None"
            unfolding dd prod.case by (rule walk_under_total [OF assms(2,3) o [OF d [unfolded dd]] b n assms(7)])
          fix er b' assume "(case d of (dk, dv) \<Rightarrow> walk_under visit dv ''deployments.*'' (''deployments.'' @ NValue (nd g dk))) b = Some (er, b')"
          then show "walk_inv g V b'"
            unfolding dd prod.case using walk_under_ok [OF assms(1,3) l [OF d [unfolded dd]] b] by blast
        qed (rule u(2))
      qed
      then show ?thesis using u(1) False known unfolding kv w by (cases e1) auto
    qed (use False in \<open>simp add: kv w\<close>)
  qed
qed

lemma checkKeysVisited_total: "visitor_total g (checkKeysVisited d g) d"
proof (induction d)
  case 0
  show ?case using walk_cost_pos by (auto simp: visitor_total_def)
next
  case (Suc d)
  show ?case unfolding visitor_total_def
  proof (intro allI impI)
    fix V n sec loc s
    assume a: "walk_inv g V s" "on_chain g V (n, sec)" "walk_cost g V n sec \<le> Suc d"
    show "checkKeysVisited (Suc d) g n sec loc s \<noteq> None"
    proof (cases "Kind (nd g n) = MappingNode \<and> \<not> memoized s n sec")
      case True
      then have m: "Kind (nd g n) = MappingNode" by simp
      have "each (walk_entry (checkKeysVisited d g) g sec loc) (pairs g n) s \<noteq> None"
        by (rule each_total [where I = "walk_inv g V"])
          (use walk_entry_total [OF checkKeysVisited_ok Suc a(2) m _ _ a(3)]
             walk_entry_ok [OF checkKeysVisited_ok a(2) m] a(1) in blast)+
      with True show ?thesis by simp
    qed auto
  qed
qed

lemma checkKeys_returns:
  "\<exists>err. checkKeys g root [] [] = Some err \<and> (err = None \<longleftrightarrow> clean_keys g (root, []))"
proof -
  have "card ({..<length g} - {}) = length g" by simp
  then have "walk_cost g {} root [] \<le> walk_depth g"
    by (simp add: walk_cost_def walk_depth_def section_depth_def)
  from visitor_totalD [OF checkKeysVisited_total fresh_inv this]
  obtain e c where e: "checkKeysVisited (walk_depth g) g root [] [] fresh_state = Some (e, c)" by blast
  from visitor_okD [OF checkKeysVisited_ok fresh_inv e] e show ?thesis by (simp add: checkKeys_def)
qed

text \<open>Property C16. On every document graph, however its aliases share or close cycles, the key check
  returns, and it accepts exactly when every mapping the merge keys and sections lead to knows its
  options and no mapping is merged into itself.\<close>

theorem checkKeys_decides:
  "\<exists>err. checkKeys g root [] [] = Some err \<and> (err = None \<longleftrightarrow> clean_keys g (root, []))"
  by (rule checkKeys_returns)

section \<open>What the check lets through\<close>

definition scalar :: "string \<Rightarrow> ynode" where
  "scalar v = zero_node\<lparr>Kind := ScalarNode, NTag := ''!!str'', NValue := v\<rparr>"

definition mapping :: "nat list \<Rightarrow> ynode" where
  "mapping ns = zero_node\<lparr>Kind := MappingNode, NTag := ''!!map'', Content := ns\<rparr>"

definition alias_to :: "nat \<Rightarrow> ynode" where
  "alias_to n = zero_node\<lparr>Kind := AliasNode, Alias := n\<rparr>"

definition merge_key :: ynode where
  "merge_key = zero_node\<lparr>Kind := ScalarNode, NTag := ''!!merge'', NValue := ''<<''\<rparr>"

text \<open>\<open>defaults: &d {mode: clean}\<close> and \<open>safety: *d\<close>.\<close>

definition aliased_section :: ygraph where
  "aliased_section =
     [mapping [1, 2, 3, 4], scalar ''defaults'', mapping [5, 6], scalar ''safety'', alias_to 2,
      scalar ''mode'', scalar ''clean'']"

text \<open>The same document with one alias pointing elsewhere.\<close>

definition redirect :: "ygraph \<Rightarrow> nat \<Rightarrow> nat \<Rightarrow> ygraph" where
  "redirect g a m = g[a := (nd g a)\<lparr>Alias := m\<rparr>]"

text \<open>A node that is no merge key's value, nor an item of one: an alias used as a plain value.\<close>

definition never_merged :: "ygraph \<Rightarrow> nat \<Rightarrow> bool" where
  "never_merged g a \<longleftrightarrow>
     list_all (\<lambda>n. list_all (\<lambda>(k, v). isMergeKey (nd g k) \<longrightarrow> v \<noteq> a \<and> a \<notin> set (Content (nd g v))) (entries (Content n))) g"

lemma nd_redirect:
  "Kind (nd (redirect g a m) n) = Kind (nd g n)" "NTag (nd (redirect g a m) n) = NTag (nd g n)"
  "NValue (nd (redirect g a m) n) = NValue (nd g n)" "Content (nd (redirect g a m) n) = Content (nd g n)"
  "n \<noteq> a \<Longrightarrow> Alias (nd (redirect g a m) n) = Alias (nd g n)"
  by (auto simp: redirect_def nd_def nth_list_update)

lemma pairs_redirect: "pairs (redirect g a m) = pairs g"
  by (simp add: pairs_def nd_redirect fun_eq_iff)

lemma mergekey_redirect: "isMergeKey (nd (redirect g a m) k) = isMergeKey (nd g k)"
  by (simp add: isMergeKey_def nd_redirect)

lemma targets_redirect:
  assumes "v \<noteq> a" "a \<notin> set (Content (nd g v))"
  shows "merge_targets (redirect g a m) v = merge_targets g v"
proof -
  have "merge_item (redirect g a m) i = merge_item g i" if "i \<in> set (Content (nd g v))" for i
  proof -
    have "i \<noteq> a" using that assms(2) by blast
    then show ?thesis by (simp add: merge_item_def nd_redirect)
  qed
  then show ?thesis using assms(1) by (simp add: merge_targets_def nd_redirect cong: map_cong)
qed

lemma merged_apart:
  "never_merged g a \<Longrightarrow> (k, v) \<in> set (pairs g n) \<Longrightarrow> isMergeKey (nd g k) \<Longrightarrow> v \<noteq> a \<and> a \<notin> set (Content (nd g v))"
  by (cases "n < length g")
    (force simp: never_merged_def list_all_iff pairs_def nd_def zero_node_def dest: nth_mem split: if_splits)+

lemma redirect_leads:
  assumes "never_merged g a"
  shows "merges (redirect g a m) = merges g" "opens (redirect g a m) = opens g" "known_keys (redirect g a m) = known_keys g"
proof -
  show "merges (redirect g a m) = merges g"
    using merged_apart [OF assms]
    by (intro ext) (auto simp: merges.simps pairs_redirect mergekey_redirect nd_redirect targets_redirect; metis targets_redirect)
  show "opens (redirect g a m) = opens g"
    by (intro ext) (simp only: opens.simps pairs_redirect mergekey_redirect nd_redirect)
  show "known_keys (redirect g a m) = known_keys g"
    by (simp add: known_keys_def pairs_redirect mergekey_redirect nd_redirect fun_eq_iff)
qed

text \<open>
  Property C39. A section given as a plain alias is not looked into: wherever an alias that no merge
  key uses points, to a mapping with options its section does not know or to nothing at all, the check
  accepts or refuses the document alike. So \<open>defaults: &d {mode: clean}\<close> with \<open>safety: *d\<close> is accepted
  although \<open>safety\<close> knows no \<open>mode\<close>, which written out in place is refused.
\<close>

theorem alias_section_unchecked:
  assumes "never_merged g a"
  shows "checkKeys (redirect g a m) root [] [] = Some None \<longleftrightarrow> checkKeys g root [] [] = Some None"
proof -
  have "clean_keys (redirect g a m) (root, []) = clean_keys g (root, [])"
    by (simp add: clean_keys_def leads_def [abs_def] redirect_leads [OF assms])
  then show ?thesis using checkKeys_returns [of g root] checkKeys_returns [of "redirect g a m" root] by auto
qed

theorem alias_section_unchecked_witness:
  "checkKeys aliased_section 0 [] [] = Some None \<and> contains (allowed_in ''safety'') ''mode'' = False \<and>
   checkKeys (aliased_section[4 := mapping [5, 6]]) 0 [] [] = Some (Some (UnknownOption ''mode'' ''safety.mode'' []))"
proof -
  have n: "never_merged (redirect aliased_section 4 6) 4" by code_simp
  have e: "redirect (redirect aliased_section 4 6) 4 2 = aliased_section" by code_simp
  have "checkKeys (redirect aliased_section 4 6) 0 [] [] = Some None" by code_simp
  then have "checkKeys aliased_section 0 [] [] = Some None"
    using alias_section_unchecked [OF n, of 2 0] unfolding e by simp
  moreover have "contains (allowed_in ''safety'') ''mode'' = False"
    "checkKeys (aliased_section[4 := mapping [5, 6]]) 0 [] [] = Some (Some (UnknownOption ''mode'' ''safety.mode'' []))"
    by code_simp+
  ultimately show ?thesis by blast
qed

text \<open>A mapping that merges itself is refused, one that merges a shared base twice is not.\<close>

lemma cyclic_merge_refused:
  "checkKeys [mapping [1, 2], scalar ''defaults'', mapping [3, 4], merge_key, alias_to 2] 0 [] [] =
     Some (Some (CyclicMerge ''defaults.<<''))"
  by code_simp

text \<open>
  The memo travels by value: what a callee memoises in a map it had to create is gone when it
  returns. Node 4 merges node 5; merging node 4 first and node 5 second walks node 5 twice.
\<close>

lemma memo_not_shared_upwards:
  "(case walk_target (checkKeysVisited 9 [mapping [1, 2], scalar ''x'', zero_node, merge_key, mapping [3, 6], mapping [], alias_to 5])
      ''defaults'' [] ''<<'' 4 fresh_state of
      Some (None, s) \<Rightarrow> memoized s 4 ''defaults'' \<and> \<not> memoized s 5 ''defaults''
    | _ \<Rightarrow> False)"
  by code_simp

end
