(* ===== verification/Configuration.thy ===== *)
theory Configuration
  imports Planner Go_Text Go_Float Yaml_Keys
begin

text \<open>
  Loading the action's configuration (\<open>internal/config/config.go\<close>): the record every phase
  reads, the inline mode from environment variables, the checks of \<open>validate\<close> and the overlaps of
  sync and clean targets. The config file's own part is in \<open>Config_File\<close>. Every refusal is a
  constructor of \<open>config_error\<close> carrying what the message names.
\<close>

section \<open>The record\<close>

datatype log_level = LogNormal | LogVerbose | LogDebug

record Proxy =
  pServer :: string
  pPort :: int
  pUsername :: string
  pPassword :: string
  pPrivateKey :: string
  pPassphrase :: string
  pHostKeyFingerprints :: "string list"
  pKnownHosts :: string
  pAllowAnyHostKey :: bool

record SSHAlgorithms =
  KeyExchanges :: "string list"
  Ciphers :: "string list"
  MACs :: "string list"
  HostKeyAlgorithms :: "string list"
  Insecure :: "string list"

definition algorithms_configured :: "SSHAlgorithms \<Rightarrow> bool" where
  "algorithms_configured a \<longleftrightarrow> KeyExchanges a \<noteq> [] \<or> Ciphers a \<noteq> [] \<or> MACs a \<noteq> [] \<or> HostKeyAlgorithms a \<noteq> []"

definition no_algorithms :: SSHAlgorithms where
  "no_algorithms = \<lparr>KeyExchanges = [], Ciphers = [], MACs = [], HostKeyAlgorithms = [], Insecure = []\<rparr>"

record AutoSettings =
  autoConnections :: bool
  autoConcurrency :: bool
  autoRequestConcurrency :: bool

text \<open>Durations are signed 64-bit nanoseconds; a nil \<open>*fs.FileMode\<close> is \<^const>\<open>None\<close>.\<close>

record Config =
  cServer :: string
  cPort :: int
  cUsername :: string
  cPassword :: string
  cPrivateKey :: string
  cPassphrase :: string
  cHostKeyFingerprints :: "string list"
  cKnownHosts :: string
  cAllowAnyHostKey :: bool
  cAlgorithms :: SSHAlgorithms
  cProxy :: "Proxy option"
  cUploads :: "uploadPair list"
  cIgnoreLines :: "string list"
  cMaxDeletes :: int
  cConfigPath :: string
  cDirMode :: "nat option"
  cFileMode :: "nat option"
  cDryRun :: bool
  cConcurrency :: int
  cSftpRequestConcurrency :: int
  cConnections :: int
  cAuto :: AutoSettings
  cAutoCachePath :: string
  cRetries :: int
  cTimeout :: int
  cSyncFastPath :: bool
  cStallTimeout :: int
  cSkipUnchanged :: bool
  cLogLevel :: log_level
  cManifestName :: string
  cPreserveTimes :: bool

definition LogPerFile :: "Config \<Rightarrow> bool" where
  "LogPerFile c \<longleftrightarrow> cLogLevel c = LogVerbose \<or> cLogLevel c = LogDebug \<or> cDryRun c"

definition HostKeyPinned :: "Config \<Rightarrow> bool" where
  "HostKeyPinned c \<longleftrightarrow> cHostKeyFingerprints c \<noteq> [] \<or> cKnownHosts c \<noteq> []"

definition DefaultManifestName :: string where
  "DefaultManifestName = ''.easysftp-manifest.json''"

definition SyncManifestName :: "Config \<Rightarrow> string" where
  "SyncManifestName c = (if cManifestName c = [] then DefaultManifestName else cManifestName c)"

definition second_ns :: int where
  "second_ns = 1000000000"

definition defaultConcurrency :: int where "defaultConcurrency = 4"
definition defaultRequestConcurrency :: int where "defaultRequestConcurrency = 16"
definition defaultConnections :: int where "defaultConnections = 1"
definition defaultRetries :: int where "defaultRetries = 2"
definition defaultTimeoutSec :: int where "defaultTimeoutSec = 30"

definition Defaults :: Config where
  "Defaults =
     \<lparr>cServer = [], cPort = 0, cUsername = [], cPassword = [], cPrivateKey = [], cPassphrase = [],
      cHostKeyFingerprints = [], cKnownHosts = [], cAllowAnyHostKey = False, cAlgorithms = no_algorithms,
      cProxy = None, cUploads = [], cIgnoreLines = [], cMaxDeletes = 0, cConfigPath = [], cDirMode = None,
      cFileMode = None, cDryRun = False, cConcurrency = defaultConcurrency,
      cSftpRequestConcurrency = defaultRequestConcurrency, cConnections = defaultConnections,
      cAuto = \<lparr>autoConnections = True, autoConcurrency = True, autoRequestConcurrency = True\<rparr>,
      cAutoCachePath = [], cRetries = defaultRetries, cTimeout = i64 (defaultTimeoutSec * second_ns),
      cSyncFastPath = False, cStallTimeout = 0, cSkipUnchanged = False, cLogLevel = LogNormal,
      cManifestName = DefaultManifestName, cPreserveTimes = False\<rparr>"

text \<open>\<open>UploadPair.Label\<close>.\<close>

definition Label :: "uploadPair \<Rightarrow> string" where
  "Label p = (if Name p \<noteq> [] then Name p else Local p @ '' => '' @ Remote p)"

section \<open>Refusals\<close>

datatype config_error =
    RemovedInput string
  | BadNumber string num_error
  | BadLogLevel string
  | InlineInputsSet "string list"
  | UnusedProxyCredentials
  | ProxyNeedsConfigFile
  | BadMode string string
  | BadPermission string string
  | NothingToDeploy
  | Missing string string
  | NoCredentials string
  | NoUploads
  | PortOutOfRange string int
  | TooSmall string int
  | NegativeValue string int
  | SharedSyncTarget string string string
  | BadManifestName string
  | UnreadableConfig string goerr
  | InConfigFile string config_error
  | DecoderError goerr
  | SecondDocument nat int
  | BadOption key_error
  | BadVersion int
  | NoProxyHost
  | NoDeployments
  | DeploymentsNotMap
  | BlankDeploymentName
  | DuplicateDeployment string
  | InDeployment string goerr
  | DeploymentIncomplete string
  | TooManySeconds string int
  | EmptyAlgorithm string
  | UnsupportedAlgorithm string string

section \<open>Parsing single inputs\<close>

definition parse_strategy :: "string \<Rightarrow> strategy option" where
  "parse_strategy s =
     (if s = ''overlay'' then Some Overlay else if s = ''sync'' then Some Sync
      else if s = ''clean'' then Some Clean else None)"

definition resolveLogLevel :: "string \<Rightarrow> (config_error, log_level) result" where
  "resolveLogLevel s =
     (if s = [] then Inr LogNormal
      else if s = ''normal'' then Inr LogNormal
      else if s = ''verbose'' then Inr LogVerbose
      else if s = ''debug'' then Inr LogDebug
      else Inl (BadLogLevel s))"

definition parseManifestName :: "string \<Rightarrow> (config_error, string) result" where
  "parseManifestName s =
     (if s = [] then Inr DefaultManifestName
      else if CHR ''/'' \<in> set s \<or> CHR 0x5C \<in> set s \<or> s = ''.'' \<or> s = ''..'' then Inl (BadManifestName s)
      else Inr s)"

definition parseMode :: "string \<Rightarrow> string \<Rightarrow> (config_error, nat option) result" where
  "parseMode s name =
     (if s = [] then Inr None
      else case ParseUint s 8 32 of
             Inl _ \<Rightarrow> Inl (BadPermission name s)
           | Inr v \<Rightarrow> if v > 511 then Inl (BadPermission name s) else Inr (Some v))"

section \<open>Sync targets\<close>

definition sync_target :: "uploadPair \<Rightarrow> string" where
  "sync_target p = foldDriveSpelling (NormalizeRemote (Remote p))"

text \<open>The loop of \<open>checkSyncTargets\<close> with its map of the targets seen, first pair first.\<close>

fun sync_targets_loop :: "uploadPair list \<Rightarrow> (string \<rightharpoonup> uploadPair) \<Rightarrow> config_error option" where
  "sync_targets_loop [] seen = None"
| "sync_targets_loop (p # ps) seen =
     (if effectiveStrategy p \<noteq> Sync then sync_targets_loop ps seen
      else case seen (sync_target p) of
             Some first \<Rightarrow> Some (SharedSyncTarget (Label first) (Label p) (sync_target first))
           | None \<Rightarrow> sync_targets_loop ps (seen(sync_target p \<mapsto> p)))"

definition checkSyncTargets :: "Config \<Rightarrow> config_error option" where
  "checkSyncTargets c = sync_targets_loop (cUploads c) Map.empty"

datatype target_warning =
    CleanDeletesManifest string string string string
  | CleanInsideSync string string string string

definition overlap_warning :: "uploadPair \<Rightarrow> uploadPair \<Rightarrow> target_warning list" where
  "overlap_warning p other =
     (if Name p = Name other \<and> Remote p = Remote other then []
      else if effectiveStrategy p \<noteq> Sync \<or> effectiveStrategy other \<noteq> Clean then []
      else if sync_target p = sync_target other \<or> isUnder (sync_target p) (sync_target other)
      then [CleanDeletesManifest (Label p) (sync_target p) (Label other) (sync_target other)]
      else if isUnder (sync_target other) (sync_target p)
      then [CleanInsideSync (Label other) (sync_target other) (sync_target p) (Label p)]
      else [])"

definition SyncTargetWarnings :: "Config \<Rightarrow> target_warning list" where
  "SyncTargetWarnings c =
     concat (map (\<lambda>p. concat (map (overlap_warning p) (cUploads c))) (cUploads c))"

section \<open>validate\<close>

definition proxy_error :: "string \<Rightarrow> Proxy \<Rightarrow> config_error option" where
  "proxy_error path p =
     (if pUsername p = [] then Some (Missing path ''connection.proxy.username'')
      else if pPassword p = [] \<and> TrimSpace (pPrivateKey p) = [] then Some (NoCredentials ''proxy-'')
      else if pPort p < 1 \<or> pPort p > 65535 then Some (PortOutOfRange ''connection.proxy.port'' (pPort p))
      else None)"

definition validate :: "Config \<Rightarrow> config_error option" where
  "validate c =
     (let requiredIn = (\<lambda>input field. if cConfigPath c \<noteq> [] then Missing (cConfigPath c) field else Missing [] input) in
      if cServer c = [] then Some (requiredIn ''host'' ''connection.host'')
      else if cUsername c = [] then Some (requiredIn ''username'' ''connection.username'')
      else if cPassword c = [] \<and> TrimSpace (cPrivateKey c) = [] then Some (NoCredentials [])
      else if cUploads c = [] then Some NoUploads
      else if cPort c < 1 \<or> cPort c > 65535 then Some (PortOutOfRange ''port'' (cPort c))
      else if cConcurrency c < 1 then Some (TooSmall ''advanced.concurrency'' (cConcurrency c))
      else if cSftpRequestConcurrency c < 1 then Some (TooSmall ''advanced.request_concurrency'' (cSftpRequestConcurrency c))
      else if cConnections c < 1 then Some (TooSmall ''advanced.connections'' (cConnections c))
      else if cRetries c < 0 then Some (NegativeValue ''advanced.retries'' (cRetries c))
      else if cTimeout c < 0 then Some (NegativeValue ''advanced.timeout'' (cTimeout c))
      else if cStallTimeout c < 0 then Some (NegativeValue ''advanced.stall_timeout'' (cStallTimeout c))
      else if cMaxDeletes c < 0 then Some (NegativeValue ''safety.max_deletes'' (cMaxDeletes c))
      else case (case cProxy c of None \<Rightarrow> None | Some p \<Rightarrow> proxy_error (cConfigPath c) p) of
             Some e \<Rightarrow> Some e
           | None \<Rightarrow> checkSyncTargets c)"

section \<open>Inline mode\<close>

text \<open>\<open>os.Getenv\<close> behind the \<open>EASYSFTP_\<close> prefix: the environment maps a name to its value, the
  empty string when it is not set.\<close>

type_synonym environment = "string \<Rightarrow> string"

definition envPrefix :: string where "envPrefix = ''EASYSFTP_''"

definition getenv :: "environment \<Rightarrow> string \<Rightarrow> string" where
  "getenv env name = env (envPrefix @ name)"

definition trimmed_env :: "environment \<Rightarrow> string \<Rightarrow> string" where
  "trimmed_env env name = TrimSpace (getenv env name)"

text \<open>The v2 inputs, each with the v3 setting its migration hint names.\<close>

definition removedInputs :: "(string \<times> string) list" where
  "removedInputs =
     [(''SERVER'', ''host''), (''HOST_KEY_FINGERPRINT'', ''host-key''), (''UPLOADS'', ''source and target''),
      (''CONFIG_FILE'', ''config''), (''STRATEGY'', ''mode''), (''IGNORE'', ''exclude''), (''IGNORE_FROM'', ''exclude''),
      (''MAX_DELETES'', ''safety.max_deletes''), (''DELETE'', ''mode: clean''), (''CONCURRENCY'', ''advanced.concurrency''),
      (''SFTP_REQUEST_CONCURRENCY'', ''advanced.request_concurrency''), (''RETRIES'', ''advanced.retries''),
      (''TIMEOUT'', ''advanced.timeout''), (''STALL_TIMEOUT'', ''advanced.stall_timeout''),
      (''SYNC_FAST_PATH'', ''sync.fast_path''), (''MANIFEST_NAME'', ''sync.manifest''),
      (''SKIP_UNCHANGED'', ''advanced.skip_unchanged''), (''PROXY_SERVER'', ''connection.proxy.host''),
      (''PROXY_PORT'', ''connection.proxy.port''), (''PROXY_USERNAME'', ''connection.proxy.username''),
      (''PROXY_HOST_KEY_FINGERPRINT'', ''connection.proxy.host_key''), (''PROXY_KNOWN_HOSTS'', ''connection.proxy.known_hosts'')]"

definition checkRemovedInputs :: "environment \<Rightarrow> config_error option" where
  "checkRemovedInputs env =
     (case find (\<lambda>(name, _). trimmed_env env name \<noteq> []) removedInputs of
        None \<Rightarrow> None
      | Some (_, hint) \<Rightarrow> Some (RemovedInput hint))"

definition input_result :: "string \<Rightarrow> (num_error, 'a) result \<Rightarrow> (config_error, 'a) result" where
  "input_result name r = (case r of Inl e \<Rightarrow> Inl (BadNumber name e) | Inr v \<Rightarrow> Inr v)"

definition loadInline :: "Config \<Rightarrow> environment \<Rightarrow> (config_error, Config) result" where
  "loadInline cfg env =
     bind_result (input_result ''port'' (parseInt (trimmed_env env ''PORT'') 22)) (\<lambda>port.
     bind_result (input_result ''allow-any-host-key'' (parseBool (trimmed_env env ''ALLOW_ANY_HOST_KEY'') False)) (\<lambda>anyKey.
     bind_result (parseMode (trimmed_env env ''FILE_MODE'') ''input file-mode'') (\<lambda>fileMode.
     bind_result (parseMode (trimmed_env env ''DIR_MODE'') ''input dir-mode'') (\<lambda>dirMode.
     bind_result (input_result ''preserve-times'' (parseBool (trimmed_env env ''PRESERVE_TIMES'') False)) (\<lambda>times.
     bind_result (if trimmed_env env ''MODE'' = [] then Inr Overlay
                  else case parse_strategy (trimmed_env env ''MODE'') of
                         None \<Rightarrow> Inl (BadMode ''input mode'' (trimmed_env env ''MODE''))
                       | Some s \<Rightarrow> Inr s) (\<lambda>mode.
     let source = trimmed_env env ''SOURCE''; target = trimmed_env env ''TARGET'' in
     if source = [] \<or> target = [] then Inl NothingToDeploy
     else Inr (cfg\<lparr>cServer := trimmed_env env ''HOST'', cUsername := trimmed_env env ''USERNAME'',
            cHostKeyFingerprints := splitLines (getenv env ''HOST_KEY''),
            cKnownHosts := trimmed_env env ''KNOWN_HOSTS'', cPort := port, cAllowAnyHostKey := anyKey,
            cFileMode := fileMode, cDirMode := dirMode, cPreserveTimes := times,
            cUploads := [\<lparr>Name = [], Local = source, Remote = target, Strategy = Some mode, Ignore = []\<rparr>],
            cIgnoreLines := splitLines (getenv env ''EXCLUDE'')\<rparr>)))))))"

section \<open>Load\<close>

definition inlineOnlyInputs :: "(string \<times> string) list" where
  "inlineOnlyInputs =
     [(''HOST'', ''host''), (''PORT'', ''port''), (''USERNAME'', ''username''), (''HOST_KEY'', ''host-key''),
      (''KNOWN_HOSTS'', ''known-hosts''), (''ALLOW_ANY_HOST_KEY'', ''allow-any-host-key''), (''SOURCE'', ''source''),
      (''TARGET'', ''target''), (''MODE'', ''mode''), (''EXCLUDE'', ''exclude''), (''FILE_MODE'', ''file-mode''),
      (''DIR_MODE'', ''dir-mode''), (''PRESERVE_TIMES'', ''preserve-times'')]"

definition inline_set :: "environment \<Rightarrow> string list" where
  "inline_set env = map snd (filter (\<lambda>(name, _). trimmed_env env name \<noteq> []) inlineOnlyInputs)"

text \<open>What the action inputs add to a config file's proxy.\<close>

definition with_proxy_credentials :: "environment \<Rightarrow> Proxy \<Rightarrow> Proxy" where
  "with_proxy_credentials env p =
     p\<lparr>pPassword := getenv env ''PROXY_PASSWORD'', pPrivateKey := getenv env ''PROXY_PRIVATE_KEY'',
       pPassphrase := getenv env ''PROXY_PASSPHRASE''\<rparr>"

definition haveProxyCreds :: "environment \<Rightarrow> bool" where
  "haveProxyCreds env \<longleftrightarrow> getenv env ''PROXY_PASSWORD'' \<noteq> [] \<or>
     TrimSpace (getenv env ''PROXY_PRIVATE_KEY'') \<noteq> [] \<or> getenv env ''PROXY_PASSPHRASE'' \<noteq> []"

text \<open>The config file's loader is a parameter here; \<open>Config_File\<close> gives the program's.\<close>

definition load_config_mode ::
  "(Config \<Rightarrow> string \<Rightarrow> (config_error, Config) result) \<Rightarrow> environment \<Rightarrow> Config \<Rightarrow> string \<Rightarrow>
   (config_error, Config) result" where
  "load_config_mode loadFile env cfg path =
     (if inline_set env \<noteq> [] then Inl (InlineInputsSet (inline_set env))
      else bind_result (loadFile cfg path) (\<lambda>cfg1.
        let cfg2 = cfg1\<lparr>cConfigPath := path\<rparr> in
        case cProxy cfg2 of
          Some p \<Rightarrow> Inr (cfg2\<lparr>cProxy := Some (with_proxy_credentials env p)\<rparr>)
        | None \<Rightarrow> if haveProxyCreds env then Inl UnusedProxyCredentials else Inr cfg2))"

definition load_with ::
  "(Config \<Rightarrow> string \<Rightarrow> (config_error, Config) result) \<Rightarrow> environment \<Rightarrow> (config_error, Config) result" where
  "load_with loadFile env =
     (case checkRemovedInputs env of
        Some e \<Rightarrow> Inl e
      | None \<Rightarrow>
          let cfg0 = Defaults\<lparr>cPassword := getenv env ''PASSWORD'', cPrivateKey := getenv env ''PRIVATE_KEY'',
                       cPassphrase := getenv env ''PASSPHRASE''\<rparr> in
          bind_result (input_result ''dry-run'' (parseBool (trimmed_env env ''DRY_RUN'') False)) (\<lambda>dry.
          bind_result (resolveLogLevel (trimmed_env env ''LOG_LEVEL'')) (\<lambda>level.
          let cfg = cfg0\<lparr>cDryRun := dry, cLogLevel := level\<rparr>; path = trimmed_env env ''CONFIG'' in
          bind_result
            (if path \<noteq> [] then load_config_mode loadFile env cfg path
             else if haveProxyCreds env then Inl ProxyNeedsConfigFile
             else loadInline cfg env)
            (\<lambda>cfg'. case validate cfg' of Some e \<Rightarrow> Inl e | None \<Rightarrow> Inr cfg'))))"

section \<open>What the checks establish\<close>

lemma sync_targets_loop_None:
  "sync_targets_loop ps seen = None \<longleftrightarrow>
     distinct (map sync_target (filter (\<lambda>p. effectiveStrategy p = Sync) ps)) \<and>
     (\<forall>p \<in> set ps. effectiveStrategy p = Sync \<longrightarrow> seen (sync_target p) = None)"
proof (induction ps arbitrary: seen)
  case (Cons p ps)
  show ?case
    by (cases "effectiveStrategy p = Sync"; cases "seen (sync_target p)")
      (auto simp: Cons image_iff)
qed simp

definition sync_targets :: "Config \<Rightarrow> string list" where
  "sync_targets c = map sync_target (filter (\<lambda>p. effectiveStrategy p = Sync) (cUploads c))"

lemma checkSyncTargets_None: "checkSyncTargets c = None \<longleftrightarrow> distinct (sync_targets c)"
  by (simp add: checkSyncTargets_def sync_targets_loop_None sync_targets_def)

definition proxy_valid :: "Proxy \<Rightarrow> bool" where
  "proxy_valid p \<longleftrightarrow> pUsername p \<noteq> [] \<and> (pPassword p \<noteq> [] \<or> \<not> blank (pPrivateKey p)) \<and>
     1 \<le> pPort p \<and> pPort p \<le> 65535"

definition settings_valid :: "Config \<Rightarrow> bool" where
  "settings_valid c \<longleftrightarrow>
     cServer c \<noteq> [] \<and> cUsername c \<noteq> [] \<and> (cPassword c \<noteq> [] \<or> \<not> blank (cPrivateKey c)) \<and>
     cUploads c \<noteq> [] \<and> 1 \<le> cPort c \<and> cPort c \<le> 65535 \<and>
     1 \<le> cConcurrency c \<and> 1 \<le> cSftpRequestConcurrency c \<and> 1 \<le> cConnections c \<and>
     0 \<le> cRetries c \<and> 0 \<le> cTimeout c \<and> 0 \<le> cStallTimeout c \<and> 0 \<le> cMaxDeletes c \<and>
     pred_option proxy_valid (cProxy c) \<and> distinct (sync_targets c)"

lemma proxy_error_None: "proxy_error path p = None \<longleftrightarrow> proxy_valid p"
  by (auto simp: proxy_error_def proxy_valid_def blank_def)

lemma validate_None: "validate c = None \<longleftrightarrow> settings_valid c"
proof (cases "cProxy c")
  case None
  then show ?thesis
    by (auto simp: validate_def settings_valid_def Let_def blank_def checkSyncTargets_None not_less)
next
  case (Some p)
  then show ?thesis
    using proxy_error_None [of "cConfigPath c" p]
    by (cases "proxy_error (cConfigPath c) p")
      (auto simp: validate_def settings_valid_def Let_def blank_def checkSyncTargets_None not_less)
qed

lemma parseMode_bound: "parseMode s name = Inr (Some v) \<Longrightarrow> v \<le> 511"
  by (auto simp: parseMode_def split: if_splits sum.splits)

lemma parseManifestName_bare:
  "parseManifestName s = Inr m \<Longrightarrow> plain_name m \<and> CHR 0x5C \<notin> set m"
  by (auto simp: parseManifestName_def plain_name_def DefaultManifestName_def split: if_splits)

text \<open>Every permission written in octal is read back.\<close>

lemma parseMode_octal: "v \<le> 511 \<Longrightarrow> parseMode (digits 8 v) name = Inr (Some v)"
  by (simp add: parseMode_def ParseUint_def parse_digits_digits)

section \<open>What a loaded configuration satisfies, whichever mode it came from\<close>

definition uploads_named :: "Config \<Rightarrow> bool" where
  "uploads_named c \<longleftrightarrow>
     list_all (\<lambda>p. Local p \<noteq> [] \<and> Remote p \<noteq> [] \<and> Strategy p \<noteq> None) (cUploads c) \<and>
     (if cConfigPath c = [] then map Name (cUploads c) = [[]]
      else distinct (map Name (cUploads c)) \<and> list_all (\<lambda>p. \<not> blank (Name p)) (cUploads c))"

definition permissions_octal :: "Config \<Rightarrow> bool" where
  "permissions_octal c \<longleftrightarrow> pred_option (\<lambda>m. m \<le> 511) (cFileMode c) \<and> pred_option (\<lambda>m. m \<le> 511) (cDirMode c)"

definition auto_carries_defaults :: "Config \<Rightarrow> bool" where
  "auto_carries_defaults c \<longleftrightarrow>
     (autoConcurrency (cAuto c) \<longrightarrow> cConcurrency c = defaultConcurrency) \<and>
     (autoRequestConcurrency (cAuto c) \<longrightarrow> cSftpRequestConcurrency c = defaultRequestConcurrency) \<and>
     (autoConnections (cAuto c) \<longrightarrow> cConnections c = defaultConnections)"

definition manifest_bare :: "Config \<Rightarrow> bool" where
  "manifest_bare c \<longleftrightarrow> plain_name (cManifestName c) \<and> CHR 0x5C \<notin> set (cManifestName c)"

definition proxy_from_file :: "Config \<Rightarrow> bool" where
  "proxy_from_file c \<longleftrightarrow> pred_option (\<lambda>p. pServer p \<noteq> [] \<and> cConfigPath c \<noteq> []) (cProxy c)"

definition well_formed :: "Config \<Rightarrow> bool" where
  "well_formed c \<longleftrightarrow> settings_valid c \<and> uploads_named c \<and> permissions_octal c \<and>
     auto_carries_defaults c \<and> manifest_bare c \<and> proxy_from_file c"

lemmas loaded_defs = uploads_named_def permissions_octal_def auto_carries_defaults_def manifest_bare_def
  proxy_from_file_def

lemma default_manifest_bare: "plain_name DefaultManifestName \<and> CHR 0x5C \<notin> set DefaultManifestName"
  by (simp add: DefaultManifestName_def plain_name_def)

lemma pred_option_mode: "parseMode s name = Inr m \<Longrightarrow> pred_option (\<lambda>v. v \<le> 511) m"
  by (cases m) (auto dest: parseMode_bound)

lemma loadInline_ok:
  assumes "loadInline cfg env = Inr c"
  obtains port anyKey files dirs times mode where
    "parseMode (trimmed_env env ''FILE_MODE'') ''input file-mode'' = Inr files"
    "parseMode (trimmed_env env ''DIR_MODE'') ''input dir-mode'' = Inr dirs"
    "trimmed_env env ''SOURCE'' \<noteq> []" "trimmed_env env ''TARGET'' \<noteq> []"
    "c = cfg\<lparr>cServer := trimmed_env env ''HOST'', cUsername := trimmed_env env ''USERNAME'',
            cHostKeyFingerprints := splitLines (getenv env ''HOST_KEY''),
            cKnownHosts := trimmed_env env ''KNOWN_HOSTS'', cPort := port, cAllowAnyHostKey := anyKey,
            cFileMode := files, cDirMode := dirs, cPreserveTimes := times,
            cUploads := [\<lparr>Name = [], Local = trimmed_env env ''SOURCE'', Remote = trimmed_env env ''TARGET'',
              Strategy = Some mode, Ignore = []\<rparr>],
            cIgnoreLines := splitLines (getenv env ''EXCLUDE'')\<rparr>"
  using assms unfolding loadInline_def Let_def
  by (auto split: if_splits simp del: append_Cons)

end
