(* ===== verification/Host_Keys.thy ===== *)
theory Host_Keys
  imports Configuration
begin

text \<open>
  Host key verification (\<open>internal/uploader/hostkeys.go\<close>): the parser of pinned fingerprints, the
  verifier of one hop (\<open>hop\<close> of connection.go) and the host key algorithms derived from known-hosts
  lines. x/crypto/ssh and
  its knownhosts parser are parameters: what they do with a key, a file of lines and a probe are the
  flds of the record \<open>ssh_lib\<close>, with \<open>'k\<close> the type of public keys.
\<close>

section \<open>strings.Fields\<close>

text \<open>The length of the space rune a string begins with, 0 when it begins with none.\<close>

definition space_here :: "string \<Rightarrow> nat" where
  "space_here s = (case find (\<lambda>r. prefix r s) space_runes of None \<Rightarrow> 0 | Some r \<Rightarrow> length r)"

text \<open>The scan: the current field, and the number of bytes of a space rune still to skip.\<close>

fun fields_scan :: "nat \<Rightarrow> string \<Rightarrow> string \<Rightarrow> string list" where
  "fields_scan skip cur [] = (if cur = [] then [] else [cur])"
| "fields_scan (Suc n) cur (c # cs) = fields_scan n cur cs"
| "fields_scan 0 cur (c # cs) =
     (if space_here (c # cs) = 0 then fields_scan 0 (cur @ [c]) cs
      else (if cur = [] then [] else [cur]) @ fields_scan (space_here (c # cs) - 1) [] cs)"

definition Fields :: "string \<Rightarrow> string list" where
  "Fields s = fields_scan 0 [] s"

section \<open>Fingerprint lines\<close>

record hopNames =
  n_hostKey :: string
  n_knownHosts :: string
  n_allowAny :: string
  n_privateKey :: string

definition isKnownHostsLine :: "string list \<Rightarrow> bool" where
  "isKnownHostsLine flds \<longleftrightarrow>
     (case flds of
        [] \<Rightarrow> False
      | f # rest \<Rightarrow>
          has_prefix f ''|1|'' \<or> has_prefix f ''@'' \<or>
          (case rest of [] \<Rightarrow> False
           | s # _ \<Rightarrow> has_prefix s ''ssh-'' \<or> has_prefix s ''ecdsa-'' \<or> has_prefix s ''sk-''))"

text \<open>Called with a non-empty list only.\<close>

definition isPublicKeyLine :: "string list \<Rightarrow> bool" where
  "isPublicKeyLine flds \<longleftrightarrow>
     has_prefix (hd flds) ''ssh-'' \<or> has_prefix (hd flds) ''ecdsa-'' \<or> has_prefix (hd flds) ''sk-''"

definition isMD5Fingerprint :: "string list \<Rightarrow> bool" where
  "isMD5Fingerprint flds \<longleftrightarrow> list_ex (\<lambda>f. has_prefix f ''MD5:'') flds"

datatype pin_error =
    NotSHA256 string string
  | TwoPins string string
  | MD5Pin string string
  | KnownHostsAsPin string string string
  | PublicKeyAsPin string string string

text \<open>The loop over the fields, with what was found so far (empty for nothing).\<close>

fun find_pin :: "string list \<Rightarrow> string \<Rightarrow> string option" where
  "find_pin [] found = Some found"
| "find_pin (f # fs) found =
     (if has_prefix f ''SHA256:''
      then if found \<noteq> [] then None else find_pin fs f
      else find_pin fs found)"

definition parseHostKeyFingerprint :: "string \<Rightarrow> hopNames \<Rightarrow> (pin_error, string) result" where
  "parseHostKeyFingerprint line names =
     (let flds = Fields line in
      if flds = [] then Inl (NotSHA256 (n_hostKey names) line)
      else case find_pin flds [] of
        None \<Rightarrow> Inl (TwoPins (n_hostKey names) line)
      | Some found \<Rightarrow>
          if found \<noteq> [] then Inr found
          else if isMD5Fingerprint flds then Inl (MD5Pin (n_hostKey names) line)
          else if isKnownHostsLine flds then Inl (KnownHostsAsPin (n_hostKey names) line (n_knownHosts names))
          else if isPublicKeyLine flds then Inl (PublicKeyAsPin (n_hostKey names) line (n_knownHosts names))
          else Inl (NotSHA256 (n_hostKey names) line))"

fun parse_pins :: "string list \<Rightarrow> hopNames \<Rightarrow> (pin_error, string list) result" where
  "parse_pins [] names = Inr []"
| "parse_pins (l # ls) names =
     bind_result (parseHostKeyFingerprint l names) (\<lambda>p.
     bind_result (parse_pins ls names) (\<lambda>ps. Inr (p # ps)))"

section \<open>One hop\<close>

text \<open>A known-hosts verifier refuses with the key types of the lines matching the address
  (\<open>knownhosts.KeyError\<close>), or for another reason.\<close>

datatype kh_error = KeyError "string list" | OtherKnownHosts goerr

record 'k ssh_lib =
  FingerprintSHA256 :: "'k \<Rightarrow> string"
  KeyType :: "'k \<Rightarrow> string"
  SupportedAlgorithms :: SSHAlgorithms
  probe_key :: "(goerr, 'k) result"
  create_temp :: "goerr option"
  write_temp :: "string \<Rightarrow> goerr option"
  close_temp :: "goerr option"
  knownhosts_new :: "string \<Rightarrow> (goerr, string \<Rightarrow> string \<Rightarrow> 'k \<Rightarrow> kh_error option) result"

record hop =
  h_addr :: string
  h_user :: string
  h_password :: string
  h_privateKey :: string
  h_passphrase :: string
  h_fingerprints :: "string list"
  h_knownHosts :: string
  h_allowAnyHostKey :: bool
  h_algorithms :: SSHAlgorithms
  h_names :: hopNames

text \<open>The lines are staged in a temporary file, removed again in every case.\<close>

datatype staging_error = Staging goerr | ParsingKnownHosts goerr

definition knownHostsCallback ::
  "'k ssh_lib \<Rightarrow> string \<Rightarrow> (staging_error, string \<Rightarrow> string \<Rightarrow> 'k \<Rightarrow> kh_error option) result" where
  "knownHostsCallback lib lines =
     (case create_temp lib of
        Some e \<Rightarrow> Inl (Staging e)
      | None \<Rightarrow>
          (case write_temp lib (lines @ [CHR 0x0A]) of
             Some e \<Rightarrow> Inl (Staging e)
           | None \<Rightarrow>
               (case close_temp lib of
                  Some e \<Rightarrow> Inl (Staging e)
                | None \<Rightarrow>
                    (case knownhosts_new lib (lines @ [CHR 0x0A]) of
                       Inl e \<Rightarrow> Inl (ParsingKnownHosts e)
                     | Inr cb \<Rightarrow> Inr cb))))"

definition algorithmsForKeyType :: "string \<Rightarrow> string list" where
  "algorithmsForKeyType t =
     (if t = ''ssh-rsa'' \<or> t = ''ssh-rsa-cert-v01@openssh.com''
      then [''rsa-sha2-256-cert-v01@openssh.com'', ''rsa-sha2-512-cert-v01@openssh.com'', ''rsa-sha2-256'', ''rsa-sha2-512'']
      else if t = ''ecdsa-sha2-nistp256'' then [''ecdsa-sha2-nistp256-cert-v01@openssh.com'', ''ecdsa-sha2-nistp256'']
      else if t = ''ecdsa-sha2-nistp384'' then [''ecdsa-sha2-nistp384-cert-v01@openssh.com'', ''ecdsa-sha2-nistp384'']
      else if t = ''ecdsa-sha2-nistp521'' then [''ecdsa-sha2-nistp521-cert-v01@openssh.com'', ''ecdsa-sha2-nistp521'']
      else if t = ''ssh-ed25519'' then [''ssh-ed25519-cert-v01@openssh.com'', ''ssh-ed25519'']
      else [t])"

text \<open>The two nested loops that collect the algorithms of the matching lines.\<close>

fun add_algorithms :: "string list \<Rightarrow> string list \<Rightarrow> string list \<Rightarrow> string list" where
  "add_algorithms supp [] algos = algos"
| "add_algorithms supp (a # as) algos =
     (if \<not> List.member supp a then add_algorithms supp as algos
      else if \<not> List.member algos a then add_algorithms supp as (algos @ [a])
      else add_algorithms supp as algos)"

definition pinnedHostKeyAlgorithms ::
  "'k ssh_lib \<Rightarrow> hop \<Rightarrow> (string \<Rightarrow> string \<Rightarrow> 'k \<Rightarrow> kh_error option) option \<Rightarrow> string list" where
  "pinnedHostKeyAlgorithms lib h kh =
     (case kh of
        None \<Rightarrow> []
      | Some cb \<Rightarrow>
          if h_fingerprints h \<noteq> [] then []
          else (case probe_key lib of
            Inl _ \<Rightarrow> []
          | Inr k \<Rightarrow>
              (case cb (h_addr h) (h_addr h) k of
                 Some (KeyError want) \<Rightarrow>
                   foldl (\<lambda>algos t. add_algorithms (HostKeyAlgorithms (SupportedAlgorithms lib)) (algorithmsForKeyType t) algos) [] want
               | _ \<Rightarrow> [])))"

section \<open>The verifier\<close>

fun join_text :: "string \<Rightarrow> string list \<Rightarrow> string" where
  "join_text sep [] = []"
| "join_text sep [x] = x"
| "join_text sep (x # y # ys) = x @ sep @ join_text sep (y # ys)"

definition hostKeyMismatchError :: "string \<Rightarrow> string \<Rightarrow> string \<Rightarrow> string list \<Rightarrow> string \<Rightarrow> bool \<Rightarrow> goerr" where
  "hostKeyMismatchError hostname got keyType accepted knownHostsOption fingerprintsOnly =
     Err Plain
       (''host key mismatch for '' @ hostname @ '': got '' @ got @ '' ('' @ keyType @ ''), want one of: '' @ join_text '', '' accepted @
        (if fingerprintsOnly
         then ''. The server presented its '' @ keyType @ '' key; if you pinned only one of this server's keys, '' @
              ''pin this one too, or pin all of its keys, or use '' @ knownHostsOption @
              '', which asks the server for the key types you pinned''
         else []))"

datatype pin_setup_error =
    Unverifiable string
  | BadPin pin_error
  | BadKnownHosts staging_error

definition verify_key ::
  "'k ssh_lib \<Rightarrow> hop \<Rightarrow> string list \<Rightarrow> (string \<Rightarrow> string \<Rightarrow> 'k \<Rightarrow> kh_error option) option \<Rightarrow>
   string \<Rightarrow> string \<Rightarrow> 'k \<Rightarrow> goerr option" where
  "verify_key lib h want kh hostname remote key =
     (let got = FingerprintSHA256 lib key in
      if list_ex (\<lambda>fp. got = fp) want then None
      else if (case kh of None \<Rightarrow> False | Some cb \<Rightarrow> cb hostname remote key = None) then None
      else
        let accepted = (case kh of None \<Rightarrow> want | Some _ \<Rightarrow> want @ [''the known-hosts entries'']) in
        Some (Permanent (hostKeyMismatchError hostname got (KeyType lib key) accepted (n_knownHosts (h_names h)) (kh = None))))"

text \<open>The verifier, the algorithms to offer, and whether the opt-out warning was logged.\<close>

definition hostKeyCallback ::
  "'k ssh_lib \<Rightarrow> hop \<Rightarrow>
   (pin_setup_error, (string \<Rightarrow> string \<Rightarrow> 'k \<Rightarrow> goerr option) \<times> string list \<times> bool) result" where
  "hostKeyCallback lib h =
     (if h_fingerprints h = [] \<and> h_knownHosts h = [] then
        if \<not> h_allowAnyHostKey h then Inl (Unverifiable (h_addr h))
        else Inr (\<lambda>_ _ _. None, [], True)
      else
        case parse_pins (h_fingerprints h) (h_names h) of
          Inl e \<Rightarrow> Inl (BadPin e)
        | Inr want \<Rightarrow>
            if h_knownHosts h = [] then Inr (verify_key lib h want None, pinnedHostKeyAlgorithms lib h None, False)
            else (case knownHostsCallback lib (h_knownHosts h) of
              Inl e \<Rightarrow> Inl (BadKnownHosts e)
            | Inr cb \<Rightarrow> Inr (verify_key lib h want (Some cb), pinnedHostKeyAlgorithms lib h (Some cb), False)))"

section \<open>Pins\<close>

lemma find_pin_spec:
  "find_pin fs found = Some p \<longleftrightarrow>
     (if found = [] then (filter (\<lambda>f. has_prefix f ''SHA256:'') fs = [] \<and> p = []) \<or>
        (p \<noteq> [] \<and> filter (\<lambda>f. has_prefix f ''SHA256:'') fs = [p])
      else filter (\<lambda>f. has_prefix f ''SHA256:'') fs = [] \<and> p = found)"
proof (induction fs arbitrary: found)
  case (Cons f fs)
  have ne: "has_prefix f ''SHA256:'' \<Longrightarrow> f \<noteq> []" by (auto simp: has_prefix_def)
  show ?case
  proof (cases "has_prefix f ''SHA256:''")
    case True
    with ne Cons [of f] show ?thesis by (cases "found = []") auto
  next
    case False
    with Cons [of found] show ?thesis by simp
  qed
qed auto

lemma pin_not_empty: "filter (\<lambda>f. has_prefix f ''SHA256:'') fs = [p] \<Longrightarrow> p \<noteq> []"
proof
  assume "filter (\<lambda>f. has_prefix f ''SHA256:'') fs = [p]" "p = []"
  then have "[] \<in> set (filter (\<lambda>f. has_prefix f ''SHA256:'') fs)" by simp
  then show False by (simp add: has_prefix_def)
qed

lemma parse_pin_iff:
  "parseHostKeyFingerprint line names = Inr p \<longleftrightarrow> filter (\<lambda>f. has_prefix f ''SHA256:'') (Fields line) = [p]"
proof -
  have p: "find_pin (Fields line) [] = Some q \<and> q \<noteq> [] \<longleftrightarrow> filter (\<lambda>f. has_prefix f ''SHA256:'') (Fields line) = [q]" for q
    using find_pin_spec [of "Fields line" "[]" q] pin_not_empty [of "Fields line" q] by auto
  have "parseHostKeyFingerprint line names = Inr p \<longleftrightarrow> find_pin (Fields line) [] = Some p \<and> p \<noteq> []"
    by (cases "Fields line = []"; cases "find_pin (Fields line) []")
      (auto simp: parseHostKeyFingerprint_def Let_def)
  with p show ?thesis by simp
qed

lemma parse_pins_set: "parse_pins ls names = Inr ps \<Longrightarrow>
   set ps = {p. \<exists>l \<in> set ls. filter (\<lambda>f. has_prefix f ''SHA256:'') (Fields l) = [p]}"
  by (induction ls arbitrary: ps) (auto simp: parse_pin_iff)

section \<open>What the verifier accepts\<close>

text \<open>A key is trusted when a pinned line's one SHA256 field is its fingerprint, or when the
  known-hosts lines accept it.\<close>

definition trusted_key :: "'k ssh_lib \<Rightarrow> hop \<Rightarrow> string \<Rightarrow> string \<Rightarrow> 'k \<Rightarrow> bool" where
  "trusted_key lib h hostname remote key \<longleftrightarrow>
     (\<exists>l \<in> set (h_fingerprints h). filter (\<lambda>f. has_prefix f ''SHA256:'') (Fields l) = [FingerprintSHA256 lib key]) \<or>
     (h_knownHosts h \<noteq> [] \<and>
      (\<exists>kh. knownhosts_new lib (h_knownHosts h @ [CHR 0x0A]) = Inr kh \<and> kh hostname remote key = None))"

definition opted_out :: "hop \<Rightarrow> bool" where
  "opted_out h \<longleftrightarrow> h_fingerprints h = [] \<and> h_knownHosts h = [] \<and> h_allowAnyHostKey h"

lemma verify_key_None:
  "verify_key lib h want kh hostname remote key = None \<longleftrightarrow>
     FingerprintSHA256 lib key \<in> set want \<or> (\<exists>cb. kh = Some cb \<and> cb hostname remote key = None)"
  by (cases kh) (auto simp: verify_key_def Let_def list_ex_iff)

lemma knownHostsCallback_Inr:
  "knownHostsCallback lib lines = Inr cb \<Longrightarrow> knownhosts_new lib (lines @ [CHR 0x0A]) = Inr cb"
  by (auto simp: knownHostsCallback_def split: option.splits sum.splits)

lemma hostKeyCallback_accepts:
  assumes "hostKeyCallback lib h = Inr (cb, algos, warned)"
  shows "cb hostname remote key = None \<longleftrightarrow> opted_out h \<or> trusted_key lib h hostname remote key"
    and "warned \<longleftrightarrow> opted_out h"
proof -
  have "(cb hostname remote key = None \<longleftrightarrow> opted_out h \<or> trusted_key lib h hostname remote key) \<and> (warned \<longleftrightarrow> opted_out h)"
  proof (cases "h_fingerprints h = [] \<and> h_knownHosts h = []")
    case True
    with assms show ?thesis by (auto simp: hostKeyCallback_def opted_out_def split: if_splits)
  next
    case False
    then obtain want where w: "parse_pins (h_fingerprints h) (h_names h) = Inr want"
      using assms by (cases "parse_pins (h_fingerprints h) (h_names h)") (auto simp: hostKeyCallback_def split: if_splits)
    note set = parse_pins_set [OF w]
    show ?thesis
    proof (cases "h_knownHosts h = []")
      case True
      with False w assms have "cb = verify_key lib h want None" "\<not> warned" by (auto simp: hostKeyCallback_def)
      with True False set show ?thesis by (auto simp: verify_key_None trusted_key_def opted_out_def)
    next
      case known: False
      with w assms obtain kh where k: "knownHostsCallback lib (h_knownHosts h) = Inr kh" "cb = verify_key lib h want (Some kh)" "\<not> warned"
        by (cases "knownHostsCallback lib (h_knownHosts h)") (auto simp: hostKeyCallback_def)
      with knownHostsCallback_Inr [OF k(1)] known set show ?thesis
        by (auto simp: verify_key_None trusted_key_def opted_out_def)
    qed
  qed
  then show "cb hostname remote key = None \<longleftrightarrow> opted_out h \<or> trusted_key lib h hostname remote key" "warned \<longleftrightarrow> opted_out h"
    by auto
qed

lemma hostKeyCallback_refusal:
  assumes "hostKeyCallback lib h = Inr (cb, algos, warned)" "cb hostname remote key = Some e"
  shows "\<not> isRetryableConnect e"
  using assms
  by (auto simp: hostKeyCallback_def verify_key_def Let_def isRetryableConnect_def
      split: if_splits sum.splits option.splits)

section \<open>The algorithms offered\<close>

lemma add_algorithms_keeps:
  "distinct algos \<Longrightarrow> set algos \<subseteq> set supp \<Longrightarrow>
   distinct (add_algorithms supp as algos) \<and> set (add_algorithms supp as algos) = set algos \<union> (set as \<inter> set supp)"
proof (induction as arbitrary: algos)
  case (Cons a as)
  then show ?case
    using Cons.IH [of algos] Cons.IH [of "algos @ [a]"] by auto
qed simp

lemma fold_algorithms:
  "distinct algos \<Longrightarrow> set algos \<subseteq> set supp \<Longrightarrow>
   distinct (foldl (\<lambda>al t. add_algorithms supp (algorithmsForKeyType t) al) algos want) \<and>
   set (foldl (\<lambda>al t. add_algorithms supp (algorithmsForKeyType t) al) algos want) =
     set algos \<union> (\<Union>t \<in> set want. set (algorithmsForKeyType t) \<inter> set supp)"
proof (induction want arbitrary: algos)
  case (Cons t want)
  note k = add_algorithms_keeps [OF Cons.prems, of "algorithmsForKeyType t"]
  with Cons.IH [of "add_algorithms supp (algorithmsForKeyType t) algos"] Cons.prems show ?case by auto
qed simp

text \<open>Only supported algorithms are offered, each once, and only when known-hosts lines are the only
  pins; then they are exactly the supported ones of the key types the probe found.\<close>

lemma offered_algorithms:
  "distinct (pinnedHostKeyAlgorithms lib h kh) \<and> set (pinnedHostKeyAlgorithms lib h kh) \<subseteq> set (HostKeyAlgorithms (SupportedAlgorithms lib)) \<and>
   (pinnedHostKeyAlgorithms lib h kh \<noteq> [] \<longrightarrow> h_fingerprints h = [] \<and> kh \<noteq> None)"
  using fold_algorithms [of "[]" "HostKeyAlgorithms (SupportedAlgorithms lib)"]
  by (auto simp: pinnedHostKeyAlgorithms_def split: option.splits sum.splits kh_error.splits)

end
