(* ===== verification/Connection.thy ===== *)
theory Connection
  imports Host_Keys
begin

text \<open>
  Opening one connection (\<open>internal/uploader/connection.go\<close>): the parameters of a hop, its client
  configuration, the dial of a server directly or through a jump host, and the SFTP client on top,
  with every connection, deadline and timer of the way in a ledger. The network and x/crypto/ssh are
  the fields of \<open>net_lib\<close>, functions on an outside world \<open>'w\<close>.
\<close>

section \<open>Hops\<close>

definition JoinHostPort :: "string \<Rightarrow> string \<Rightarrow> string" where
  "JoinHostPort host port =
     (if CHR '':'' \<in> set host then ''['' @ host @ '']:'' @ port else host @ '':'' @ port)"

definition targetHop :: "Config \<Rightarrow> hop" where
  "targetHop cfg =
     \<lparr>h_addr = JoinHostPort (cServer cfg) (int_text (cPort cfg)), h_user = cUsername cfg,
      h_password = cPassword cfg, h_privateKey = cPrivateKey cfg, h_passphrase = cPassphrase cfg,
      h_fingerprints = cHostKeyFingerprints cfg, h_knownHosts = cKnownHosts cfg,
      h_allowAnyHostKey = cAllowAnyHostKey cfg, h_algorithms = cAlgorithms cfg,
      h_names =
        (if cConfigPath cfg \<noteq> []
         then \<lparr>n_hostKey = ''connection.host_key'', n_knownHosts = ''connection.known_hosts'',
               n_allowAny = ''connection.allow_any_host_key'', n_privateKey = ''private-key''\<rparr>
         else \<lparr>n_hostKey = ''host-key'', n_knownHosts = ''known-hosts'', n_allowAny = ''allow-any-host-key'',
               n_privateKey = ''private-key''\<rparr>)\<rparr>"

definition jumpHop :: "Proxy \<Rightarrow> SSHAlgorithms \<Rightarrow> hop" where
  "jumpHop p algorithms =
     \<lparr>h_addr = JoinHostPort (pServer p) (int_text (pPort p)), h_user = pUsername p, h_password = pPassword p,
      h_privateKey = pPrivateKey p, h_passphrase = pPassphrase p, h_fingerprints = pHostKeyFingerprints p,
      h_knownHosts = pKnownHosts p, h_allowAnyHostKey = pAllowAnyHostKey p, h_algorithms = algorithms,
      h_names = \<lparr>n_hostKey = ''connection.proxy.host_key'', n_knownHosts = ''connection.proxy.known_hosts'',
                 n_allowAny = ''connection.proxy.allow_any_host_key'', n_privateKey = ''proxy-private-key''\<rparr>\<rparr>"

section \<open>The client configuration\<close>

datatype 's auth_method = PublicKeys 's | PasswordAuth string | KeyboardInteractive string

text \<open>An empty algorithm list is nil: the library's defaults.\<close>

record ('k, 's) client_config =
  cc_user :: string
  cc_auth :: "'s auth_method list"
  cc_callback :: "string \<Rightarrow> string \<Rightarrow> 'k \<Rightarrow> goerr option"
  cc_timeout :: int
  cc_kex :: "string list"
  cc_ciphers :: "string list"
  cc_macs :: "string list"
  cc_hostkeys :: "string list"

type_synonym handle = nat

record ('k, 's, 'w) net_lib = "'k ssh_lib" +
  parse_key :: "string \<Rightarrow> string option \<Rightarrow> (goerr, 's) result"
  dial_tcp :: "string \<Rightarrow> int \<Rightarrow> 'w \<Rightarrow> goerr option \<times> 'w"
  handshake :: "handle \<Rightarrow> string \<Rightarrow> ('k, 's) client_config \<Rightarrow> 'w \<Rightarrow> (goerr, 'k) result \<times> 'w"
  remote_addr :: "handle \<Rightarrow> string"
  tunnel :: "handle \<Rightarrow> string \<Rightarrow> 'w \<Rightarrow> goerr option \<times> 'w"
  sftp_client :: "handle \<Rightarrow> int \<Rightarrow> 'w \<Rightarrow> goerr option \<times> 'w"
  timer_fired :: "handle \<Rightarrow> 'w \<Rightarrow> bool"

definition authMethods :: "('k, 's, 'w) net_lib \<Rightarrow> hop \<Rightarrow> (goerr, 's auth_method list) result" where
  "authMethods lib h =
     (let key = TrimSpace (h_privateKey h);
          pw = (if h_password h \<noteq> [] then [PasswordAuth (h_password h), KeyboardInteractive (h_password h)] else [])
      in
      if key = [] then Inr pw
      else case parse_key lib (key @ [CHR 0x0A]) (if h_passphrase h \<noteq> [] then Some (h_passphrase h) else None) of
             Inl e \<Rightarrow> Inl (Wrap (''parsing '' @ n_privateKey (h_names h) @ '': '') e [])
           | Inr signer \<Rightarrow> Inr (PublicKeys signer # pw))"

fun appendAlgorithms :: "string list \<Rightarrow> string list \<Rightarrow> string list" where
  "appendAlgorithms out [] = out"
| "appendAlgorithms out (a # as) =
     (if list_ex (\<lambda>e. e = a) out then appendAlgorithms out as else appendAlgorithms (out @ [a]) as)"

definition applySSHAlgorithms ::
  "SSHAlgorithms \<Rightarrow> ('k, 's) client_config \<Rightarrow> SSHAlgorithms \<Rightarrow> ('k, 's) client_config" where
  "applySSHAlgorithms supp c a =
     c\<lparr>cc_kex := (if KeyExchanges a \<noteq> [] then appendAlgorithms (KeyExchanges supp) (KeyExchanges a) else cc_kex c),
       cc_ciphers := (if Ciphers a \<noteq> [] then appendAlgorithms (Ciphers supp) (Ciphers a) else cc_ciphers c),
       cc_macs := (if MACs a \<noteq> [] then appendAlgorithms (MACs supp) (MACs a) else cc_macs c),
       cc_hostkeys := (if HostKeyAlgorithms a \<noteq> [] then appendAlgorithms (HostKeyAlgorithms supp) (HostKeyAlgorithms a)
                       else cc_hostkeys c)\<rparr>"

datatype setup_error = BadAuth goerr | BadPins pin_setup_error

definition clientConfig ::
  "('k, 's, 'w) net_lib \<Rightarrow> hop \<Rightarrow> int \<Rightarrow> (setup_error, ('k, 's) client_config) result" where
  "clientConfig lib h timeout =
     (case authMethods lib h of
        Inl e \<Rightarrow> Inl (BadAuth e)
      | Inr auth \<Rightarrow>
          (case hostKeyCallback (ssh_lib.truncate lib) h of
             Inl e \<Rightarrow> Inl (BadPins e)
           | Inr (cb, pinned, _) \<Rightarrow>
               let c = applySSHAlgorithms (SupportedAlgorithms lib)
                         \<lparr>cc_user = h_user h, cc_auth = auth, cc_callback = cb, cc_timeout = timeout,
                          cc_kex = [], cc_ciphers = [], cc_macs = [], cc_hostkeys = []\<rparr> (h_algorithms h)
               in Inr (if cc_hostkeys c = [] \<and> pinned \<noteq> [] then c\<lparr>cc_hostkeys := pinned\<rparr> else c)))"

section \<open>The ledger\<close>

text \<open>
  What is open, which connections have a socket deadline set and which an armed timer would close. A
  client and the connection or tunnel it runs over share a handle; closing one closes the other, and
  closing twice changes nothing.
\<close>

record 'w net =
  outside :: 'w
  next_handle :: nat
  open_handles :: "handle list"
  deadlines :: "handle list"
  timers :: "handle list"

definition open_new :: "'w net \<Rightarrow> handle \<times> 'w net" where
  "open_new st = (next_handle st,
     st\<lparr>next_handle := Suc (next_handle st), open_handles := next_handle st # open_handles st\<rparr>)"

definition close_handle :: "handle \<Rightarrow> 'w net \<Rightarrow> 'w net" where
  "close_handle h st = st\<lparr>open_handles := removeAll h (open_handles st)\<rparr>"

definition arm :: "int \<Rightarrow> handle \<Rightarrow> 'w net \<Rightarrow> 'w net" where
  "arm timeout h st = (if timeout \<le> 0 then st else st\<lparr>timers := h # timers st\<rparr>)"

text \<open>Disarming a timer that has fired in the meantime finds its connection closed.\<close>

definition disarm :: "('k, 's, 'w) net_lib \<Rightarrow> int \<Rightarrow> handle \<Rightarrow> 'w net \<Rightarrow> 'w net" where
  "disarm lib timeout h st =
     (if timeout \<le> 0 then st
      else
        let st' = st\<lparr>timers := removeAll h (timers st)\<rparr> in
        if timer_fired lib h (outside st) then close_handle h st' else st')"

section \<open>Dialing\<close>

datatype connect_error =
    LocalSetup setup_error
  | ConnectingTo string goerr
  | ConnectingToJump string goerr
  | DialingThrough string string goerr
  | ConnectingThrough string string goerr
  | OpeningSFTP goerr

text \<open>Whether the connect retry loop tries again: local problems are tagged permanent, the others
  wrap the library's error.\<close>

fun connect_retryable :: "connect_error \<Rightarrow> bool" where
  "connect_retryable (LocalSetup e) = False"
| "connect_retryable (ConnectingTo a e) = isRetryableConnect e"
| "connect_retryable (ConnectingToJump a e) = isRetryableConnect e"
| "connect_retryable (DialingThrough a j e) = isRetryableConnect e"
| "connect_retryable (ConnectingThrough a j e) = isRetryableConnect e"
| "connect_retryable (OpeningSFTP e) = isRetryableConnect e"

definition dialSSH ::
  "('k, 's, 'w) net_lib \<Rightarrow> string \<Rightarrow> ('k, 's) client_config \<Rightarrow> 'w net \<Rightarrow> (goerr, handle \<times> 'k) result \<times> 'w net" where
  "dialSSH lib addr cfg st =
     (case dial_tcp lib addr (cc_timeout cfg) (outside st) of
        (Some e, w) \<Rightarrow> (Inl e, st\<lparr>outside := w\<rparr>)
      | (None, w) \<Rightarrow>
          let (h, st1) = open_new (st\<lparr>outside := w\<rparr>);
              st2 = (if cc_timeout cfg > 0 then st1\<lparr>deadlines := h # deadlines st1\<rparr> else st1);
              (r, w2) = handshake lib h addr cfg (outside st2);
              st3 = st2\<lparr>outside := w2\<rparr>;
              st4 = (if cc_timeout cfg > 0 then st3\<lparr>deadlines := removeAll h (deadlines st3)\<rparr> else st3)
          in case r of
               Inl e \<Rightarrow> (Inl e, close_handle h st4)
             | Inr k \<Rightarrow> (Inr (h, k), st4))"

text \<open>A connection: its SSH client with the key the server proved, and the jump host's, if any.\<close>

record 'k connection =
  ssh_client :: handle
  server_key :: 'k
  jump_client :: "(handle \<times> 'k) option"

definition dialViaJump ::
  "('k, 's, 'w) net_lib \<Rightarrow> Config \<Rightarrow> Proxy \<Rightarrow> string \<Rightarrow> ('k, 's) client_config \<Rightarrow> 'w net \<Rightarrow>
   (connect_error, 'k connection) result \<times> 'w net" where
  "dialViaJump lib cfg p targetAddr targetConfig st =
     (let jump = jumpHop p (cAlgorithms cfg) in
      case clientConfig lib jump (cTimeout cfg) of
        Inl e \<Rightarrow> (Inl (LocalSetup e), st)
      | Inr jumpConfig \<Rightarrow>
          (case dialSSH lib (h_addr jump) jumpConfig st of
             (Inl e, st1) \<Rightarrow> (Inl (ConnectingToJump (h_addr jump) e), st1)
           | (Inr (j, jk), st1) \<Rightarrow>
               let st2 = arm (cTimeout cfg) j st1;
                   (te, w) = tunnel lib j targetAddr (outside st2);
                   st3 = st2\<lparr>outside := w\<rparr>
               in case te of
                    Some e \<Rightarrow> (Inl (DialingThrough targetAddr (h_addr jump) e),
                               close_handle j (disarm lib (cTimeout cfg) j st3))
                  | None \<Rightarrow>
                      let (t, st4) = open_new st3;
                          (r, w2) = handshake lib t targetAddr targetConfig (outside st4);
                          st5 = disarm lib (cTimeout cfg) j (st4\<lparr>outside := w2\<rparr>)
                      in case r of
                           Inl e \<Rightarrow> (Inl (ConnectingThrough targetAddr (h_addr jump) e),
                                     close_handle j (close_handle t st5))
                         | Inr k \<Rightarrow> (Inr \<lparr>ssh_client = t, server_key = k, jump_client = Some (j, jk)\<rparr>, st5)))"

text \<open>The cleanup function a caller gets: it closes the jump host's transport.\<close>

definition run_cleanup :: "'k connection \<Rightarrow> 'w net \<Rightarrow> 'w net" where
  "run_cleanup c st = (case jump_client c of None \<Rightarrow> st | Some (j, _) \<Rightarrow> close_handle j st)"

definition open_ssh ::
  "('k, 's, 'w) net_lib \<Rightarrow> Config \<Rightarrow> string \<Rightarrow> ('k, 's) client_config \<Rightarrow> 'w net \<Rightarrow>
   (connect_error, 'k connection) result \<times> 'w net" where
  "open_ssh lib cfg addr targetConfig st =
     (case cProxy cfg of
        None \<Rightarrow>
          (case dialSSH lib addr targetConfig st of
             (Inl e, st1) \<Rightarrow> (Inl (ConnectingTo addr e), st1)
           | (Inr (h, k), st1) \<Rightarrow> (Inr \<lparr>ssh_client = h, server_key = k, jump_client = None\<rparr>, st1))
      | Some p \<Rightarrow> dialViaJump lib cfg p addr targetConfig st)"

definition connect_server ::
  "('k, 's, 'w) net_lib \<Rightarrow> Config \<Rightarrow> int \<Rightarrow> 'w net \<Rightarrow> (connect_error, 'k connection) result \<times> 'w net" where
  "connect_server lib cfg requests st =
     (let target = targetHop cfg in
      case clientConfig lib target (cTimeout cfg) of
        Inl e \<Rightarrow> (Inl (LocalSetup e), st)
      | Inr targetConfig \<Rightarrow>
          (case open_ssh lib cfg (h_addr target) targetConfig st of
             (Inl e, st1) \<Rightarrow> (Inl e, st1)
           | (Inr c, st1) \<Rightarrow>
               let st2 = arm (cTimeout cfg) (ssh_client c) st1;
                   (se, w) = sftp_client lib (ssh_client c) requests (outside st2);
                   st3 = disarm lib (cTimeout cfg) (ssh_client c) (st2\<lparr>outside := w\<rparr>)
               in case se of
                    Some e \<Rightarrow> (Inl (OpeningSFTP e), run_cleanup c (close_handle (ssh_client c) st3))
                  | None \<Rightarrow> (Inr c, st3)))"

section \<open>Nothing is left behind\<close>

text \<open>The ledger only speaks of handles it gave out.\<close>

definition unused :: "'w net \<Rightarrow> handle \<Rightarrow> bool" where
  "unused st h \<longleftrightarrow> h \<notin> set (open_handles st) \<and> h \<notin> set (deadlines st) \<and> h \<notin> set (timers st)"

definition ledger_ok :: "'w net \<Rightarrow> bool" where
  "ledger_ok st \<longleftrightarrow> (\<forall>h. next_handle st \<le> h \<longrightarrow> unused st h)"

text \<open>A later state in which, of what is new, only the handles \<open>H\<close> may be open and only the
  timers \<open>T\<close> are armed.\<close>

definition extends :: "handle list \<Rightarrow> handle list \<Rightarrow> 'w net \<Rightarrow> 'w net \<Rightarrow> bool" where
  "extends H T st st' \<longleftrightarrow>
     next_handle st \<le> next_handle st' \<and> list_all (\<lambda>h. next_handle st \<le> h) H \<and>
     filter (\<lambda>h. h \<notin> set H) (open_handles st') = open_handles st \<and>
     deadlines st' = deadlines st \<and> timers st' = T @ timers st"

lemma ledger_okD: "ledger_ok st \<Longrightarrow> next_handle st \<le> h \<Longrightarrow> unused st h"
  by (simp add: ledger_ok_def)

lemma extends_refl: "extends [] [] st st"
  by (simp add: extends_def)

lemma extends_outside: "extends H T st st' \<Longrightarrow> extends H T st (st'\<lparr>outside := w\<rparr>)"
  by (simp add: extends_def)

lemma extends_more:
  assumes "ledger_ok st" "extends H T st st'" "next_handle st' \<le> h" "next_handle st' \<le> next_handle st''"
    "open_handles st'' = h # open_handles st'" "deadlines st'' = deadlines st'" "timers st'' = timers st'"
  shows "extends (h # H) T st st''"
proof -
  have n: "next_handle st \<le> h" using assms(2,3) by (simp add: extends_def)
  have "filter (\<lambda>x. x \<notin> set (h # H)) (open_handles st'') = filter (\<lambda>x. x \<noteq> h) (filter (\<lambda>x. x \<notin> set H) (open_handles st'))"
    by (auto simp: assms(5) intro: filter_cong)
  also have "\<dots> = filter (\<lambda>x. x \<noteq> h) (open_handles st)" using assms(2) by (simp add: extends_def)
  also have "\<dots> = open_handles st"
    using ledger_okD [OF assms(1) n] by (intro filter_True) (auto simp: unused_def)
  finally show ?thesis using assms n by (simp add: extends_def)
qed

lemma extends_open_new:
  assumes "ledger_ok st" "extends H T st st'" "open_new st' = (h, st'')"
  shows "extends (h # H) T st st''"
  by (rule extends_more [OF assms(1,2)]) (use assms(3) in \<open>auto simp: open_new_def\<close>)

lemma filter_removeAll: "filter P (removeAll h xs) = filter (\<lambda>x. P x \<and> x \<noteq> h) xs"
  by (induction xs) auto

lemma extends_close:
  assumes "extends (h # H) T st st'"
  shows "extends H T st (close_handle h st')"
proof -
  have "(\<lambda>x. x \<notin> set H \<and> x \<noteq> h) = (\<lambda>x. x \<notin> set (h # H))" by auto
  then show ?thesis using assms by (simp add: extends_def close_handle_def filter_removeAll)
qed

lemma extends_close_kept:
  assumes "h \<in> set H" "extends H T st st'"
  shows "extends H T st (close_handle h st')"
proof -
  have "(\<lambda>x. x \<notin> set H \<and> x \<noteq> h) = (\<lambda>x. x \<notin> set H)" using assms(1) by auto
  then show ?thesis using assms(2) by (simp add: extends_def close_handle_def filter_removeAll)
qed

lemma extends_arm: "extends H [] st st' \<Longrightarrow> extends H (if t \<le> 0 then [] else [h]) st (arm t h st')"
  by (simp add: extends_def arm_def)

lemma extends_disarm:
  assumes "ledger_ok st" "extends H (if t \<le> 0 then [] else [h]) st st'" "h \<in> set H"
  shows "extends H [] st (disarm lib t h st')"
proof -
  have "next_handle st \<le> h" using assms(2,3) by (simp add: extends_def list_all_iff)
  then have h: "removeAll h (timers st) = timers st"
    using ledger_okD [OF assms(1)] by (simp add: unused_def removeAll_id)
  have d: "extends H [] st (st'\<lparr>timers := removeAll h (timers st')\<rparr>)" if "\<not> t \<le> 0"
    using assms(2) that h by (simp add: extends_def)
  show ?thesis
  proof (cases "t \<le> 0")
    case True
    with assms(2) show ?thesis by (simp add: disarm_def)
  next
    case False
    with d extends_close_kept [OF assms(3) d] show ?thesis by (simp add: disarm_def Let_def)
  qed
qed

lemma dialSSH_extends:
  assumes "dialSSH lib addr cfg st = (r, st')" "ledger_ok st"
  shows "case r of Inl _ \<Rightarrow> extends [] [] st st' | Inr (h, k) \<Rightarrow> extends [h] [] st st'"
proof -
  obtain e w where dial: "dial_tcp lib addr (cc_timeout cfg) (outside st) = (e, w)" by fastforce
  obtain r' w2 where h: "handshake lib (next_handle st) addr cfg w = (r', w2)" by fastforce
  have "unused st (next_handle st)" by (rule ledger_okD [OF assms(2)]) simp
  then have g: "removeAll (next_handle st) (deadlines st) = deadlines st"
    "removeAll (next_handle st) (open_handles st) = open_handles st"
    "filter (\<lambda>h. h \<noteq> next_handle st) (open_handles st) = open_handles st"
    by (auto simp: unused_def removeAll_id intro: filter_True)
  show ?thesis
    using assms(1) dial h g
    by (cases e; cases r')
      (auto simp: dialSSH_def open_new_def close_handle_def extends_def Let_def split: if_splits)
qed

text \<open>What a dial through a jump host, or directly, leaves open.\<close>

definition own_handles :: "'k connection \<Rightarrow> handle list" where
  "own_handles c = ssh_client c # (case jump_client c of None \<Rightarrow> [] | Some (j, _) \<Rightarrow> [j])"

lemma dialViaJump_extends:
  assumes "dialViaJump lib cfg p addr tc st = (r, st')" "ledger_ok st"
  shows "case r of Inl _ \<Rightarrow> extends [] [] st st' | Inr c \<Rightarrow> extends (own_handles c) [] st st'"
proof (cases "clientConfig lib (jumpHop p (cAlgorithms cfg)) (cTimeout cfg)")
  case (Inl e)
  with assms show ?thesis by (auto simp: dialViaJump_def Let_def extends_refl)
next
  case (Inr jc)
  note config = this
  obtain dr st1 where d: "dialSSH lib (h_addr (jumpHop p (cAlgorithms cfg))) jc st = (dr, st1)" by fastforce
  note e1 = dialSSH_extends [OF d assms(2)]
  show ?thesis
  proof (cases dr)
    case (Inl e)
    with assms(1) config d e1 show ?thesis by (auto simp: dialViaJump_def Let_def)
  next
    case (Inr jk)
    obtain j k where jk: "jk = (j, k)" by (cases jk)
    with e1 Inr have e1: "extends [j] [] st st1" by simp
    define st2 where "st2 = arm (cTimeout cfg) j st1"
    obtain te w where te: "tunnel lib j addr (outside st2) = (te, w)" by fastforce
    have e3: "extends [j] (if cTimeout cfg \<le> 0 then [] else [j]) st (st2\<lparr>outside := w\<rparr>)"
      unfolding st2_def by (intro extends_outside extends_arm e1)
    show ?thesis
    proof (cases te)
      case (Some e)
      have "extends [] [] st (close_handle j (disarm lib (cTimeout cfg) j (st2\<lparr>outside := w\<rparr>)))"
        by (rule extends_close [OF extends_disarm [OF assms(2) e3]]) simp
      with assms(1) config d Inr jk te Some show ?thesis
        by (auto simp: dialViaJump_def Let_def st2_def [symmetric])
    next
      case None
      obtain t st4 where t: "open_new (st2\<lparr>outside := w\<rparr>) = (t, st4)" by fastforce
      obtain hr w2 where h: "handshake lib t addr tc (outside st4) = (hr, w2)" by fastforce
      have "extends [t, j] (if cTimeout cfg \<le> 0 then [] else [j]) st (st4\<lparr>outside := w2\<rparr>)"
        by (intro extends_outside extends_open_new [OF assms(2) e3 t])
      then have e5: "extends [t, j] [] st (disarm lib (cTimeout cfg) j (st4\<lparr>outside := w2\<rparr>))"
        by (rule extends_disarm [OF assms(2)]) simp
      have "extends [] [] st (close_handle j (close_handle t (disarm lib (cTimeout cfg) j (st4\<lparr>outside := w2\<rparr>))))"
        by (intro extends_close e5)
      with e5 assms(1) config d Inr jk te None t h show ?thesis
        by (cases hr) (auto simp: dialViaJump_def Let_def st2_def [symmetric] own_handles_def)
    qed
  qed
qed

lemma open_ssh_extends:
  assumes "open_ssh lib cfg addr tc st = (r, st')" "ledger_ok st"
  shows "case r of Inl _ \<Rightarrow> extends [] [] st st' | Inr c \<Rightarrow> extends (own_handles c) [] st st'"
proof (cases "cProxy cfg")
  case None
  obtain dr st1 where d: "dialSSH lib addr tc st = (dr, st1)" by fastforce
  with dialSSH_extends [OF d assms(2)] assms(1) None show ?thesis
    by (cases dr) (auto simp: open_ssh_def own_handles_def)
next
  case (Some p)
  with assms(1) show ?thesis using dialViaJump_extends [OF _ assms(2)] by (simp add: open_ssh_def)
qed

text \<open>What a caller does with a connection it no longer needs.\<close>

definition tear_down :: "'k connection \<Rightarrow> 'w net \<Rightarrow> 'w net" where
  "tear_down c st = run_cleanup c (close_handle (ssh_client c) st)"

lemma tear_down_extends: "extends (own_handles c) [] st st' \<Longrightarrow> extends [] [] st (tear_down c st')"
  by (cases "jump_client c") (auto simp: own_handles_def tear_down_def run_cleanup_def intro: extends_close)

text \<open>Property C12. Connecting leaves nothing behind: whatever fails on the way, directly or through a
  jump host, no connection it opened stays open; no socket deadline and no timer outlives it, failed
  or not; and closing a successful connection's client and running its cleanup closes everything it
  opened and nothing else.\<close>

theorem connect_leaks_nothing:
  assumes "connect_server lib cfg requests st = (r, st')" "ledger_ok st"
  shows "deadlines st' = deadlines st \<and> timers st' = timers st \<and>
    (case r of Inl _ \<Rightarrow> open_handles st' = open_handles st
     | Inr c \<Rightarrow> open_handles (tear_down c st') = open_handles st \<and> ssh_client c \<notin> set (open_handles st))"
proof (cases "clientConfig lib (targetHop cfg) (cTimeout cfg)")
  case (Inl e)
  with assms(1) show ?thesis by (auto simp: connect_server_def Let_def)
next
  case (Inr tc)
  obtain sr st1 where s: "open_ssh lib cfg (h_addr (targetHop cfg)) tc st = (sr, st1)" by fastforce
  note e = open_ssh_extends [OF s assms(2)]
  show ?thesis
  proof (cases sr)
    case (Inl err)
    with assms(1) Inr s e show ?thesis by (auto simp: connect_server_def Let_def extends_def)
  next
    case c: (Inr c)
    define st2 where "st2 = arm (cTimeout cfg) (ssh_client c) st1"
    obtain se w where q: "sftp_client lib (ssh_client c) requests (outside st2) = (se, w)" by fastforce
    have "extends (own_handles c) (if cTimeout cfg \<le> 0 then [] else [ssh_client c]) st (st2\<lparr>outside := w\<rparr>)"
      unfolding st2_def using e c by (intro extends_outside extends_arm) simp
    then have e3: "extends (own_handles c) [] st (disarm lib (cTimeout cfg) (ssh_client c) (st2\<lparr>outside := w\<rparr>))"
      by (rule extends_disarm [OF assms(2)]) (simp add: own_handles_def)
    have "next_handle st \<le> ssh_client c" using e3 by (simp add: extends_def own_handles_def)
    then have new: "ssh_client c \<notin> set (open_handles st)"
      using ledger_okD [OF assms(2)] by (simp add: unused_def)
    show ?thesis
      using assms(1) Inr s c q e3 tear_down_extends [OF e3] new
      by (cases se) (auto simp: connect_server_def Let_def st2_def [symmetric] extends_def tear_down_def [symmetric])
  qed
qed

section \<open>Every hop is verified\<close>

text \<open>The documented behaviour of \<open>ssh.NewClientConn\<close> the program relies on: a handshake succeeds
  only if the configured verifier accepted the key the server proved to hold.\<close>

definition honours_callbacks :: "('k, 's, 'w) net_lib \<Rightarrow> bool" where
  "honours_callbacks lib \<longleftrightarrow>
     (\<forall>h addr cfg w k w'. handshake lib h addr cfg w = (Inr k, w') \<longrightarrow>
        cc_callback cfg addr (remote_addr lib h) k = None)"

definition hop_verified :: "('k, 's, 'w) net_lib \<Rightarrow> hop \<Rightarrow> handle \<Rightarrow> 'k \<Rightarrow> bool" where
  "hop_verified lib hp h k \<longleftrightarrow>
     opted_out hp \<or> trusted_key (ssh_lib.truncate lib) hp (h_addr hp) (remote_addr lib h) k"

lemma clientConfig_callback:
  assumes "clientConfig lib hp timeout = Inr c"
  shows "cc_callback c hostname remote k = None \<longleftrightarrow>
    opted_out hp \<or> trusted_key (ssh_lib.truncate lib) hp hostname remote k"
proof -
  from assms obtain cb pinned warned where
    h: "hostKeyCallback (ssh_lib.truncate lib) hp = Inr (cb, pinned, warned)" "cc_callback c = cb"
    by (auto simp: clientConfig_def Let_def applySSHAlgorithms_def split: sum.splits prod.splits if_splits)
  from hostKeyCallback_accepts(1) [OF h(1)] h(2) show ?thesis by simp
qed

lemma handshake_verified:
  assumes "honours_callbacks lib" "clientConfig lib hp timeout = Inr c"
    "handshake lib h (h_addr hp) c w = (Inr k, w')"
  shows "hop_verified lib hp h k"
  using assms(1,3) clientConfig_callback [OF assms(2)] unfolding honours_callbacks_def hop_verified_def by blast

lemma dialSSH_handshake:
  assumes "dialSSH lib addr cfg st = (Inr (h, k), st')"
  shows "\<exists>w w'. handshake lib h addr cfg w = (Inr k, w')"
  using assms
  by (auto simp: dialSSH_def open_new_def Let_def split: prod.splits option.splits sum.splits)

lemma dialViaJump_handshakes:
  assumes "dialViaJump lib cfg p addr tc st = (Inr c, st')"
  obtains j jk jc w1 w1' w2 w2' where "jump_client c = Some (j, jk)"
    "clientConfig lib (jumpHop p (cAlgorithms cfg)) (cTimeout cfg) = Inr jc"
    "handshake lib j (h_addr (jumpHop p (cAlgorithms cfg))) jc w1 = (Inr jk, w1')"
    "handshake lib (ssh_client c) addr tc w2 = (Inr (server_key c), w2')"
proof -
  obtain jc where jc: "clientConfig lib (jumpHop p (cAlgorithms cfg)) (cTimeout cfg) = Inr jc"
    using assms by (cases "clientConfig lib (jumpHop p (cAlgorithms cfg)) (cTimeout cfg)") (auto simp: dialViaJump_def Let_def)
  obtain dr st1 where d: "dialSSH lib (h_addr (jumpHop p (cAlgorithms cfg))) jc st = (dr, st1)" by fastforce
  obtain j jk where jk: "dr = Inr (j, jk)"
    using assms jc d by (cases dr) (auto simp: dialViaJump_def Let_def)
  from dialSSH_handshake [OF d [unfolded jk]] obtain w1 w1' where
    h1: "handshake lib j (h_addr (jumpHop p (cAlgorithms cfg))) jc w1 = (Inr jk, w1')" by blast
  define st2 where "st2 = arm (cTimeout cfg) j st1"
  obtain te w where te: "tunnel lib j addr (outside st2) = (te, w)" by fastforce
  have te': "te = None"
    using assms jc d jk te by (cases te) (auto simp: dialViaJump_def Let_def st2_def [symmetric])
  obtain t st4 where t: "open_new (st2\<lparr>outside := w\<rparr>) = (t, st4)" by fastforce
  obtain hr w2 where h: "handshake lib t addr tc (outside st4) = (hr, w2)" by fastforce
  obtain k where k: "hr = Inr k"
    using assms jc d jk te te' t h by (cases hr) (auto simp: dialViaJump_def Let_def st2_def [symmetric])
  have "c = \<lparr>ssh_client = t, server_key = k, jump_client = Some (j, jk)\<rparr>"
    using assms jc d jk te te' t h k by (auto simp: dialViaJump_def Let_def st2_def [symmetric])
  with h k show ?thesis by (intro that [OF _ jc h1]) auto
qed

text \<open>Property C8. No connection is used unverified: with a library that honours the verifier it is
  given, a connection that was made runs to a server whose key is pinned, by one of the fingerprint
  lines or by the known-hosts lines, unless that hop pinned nothing and explicitly opted out; and the
  same holds of the jump host, which is there exactly when one is configured.\<close>

theorem connection_verified:
  assumes "honours_callbacks lib" "connect_server lib cfg requests st = (Inr c, st')"
  shows "hop_verified lib (targetHop cfg) (ssh_client c) (server_key c) \<and>
    (case cProxy cfg of
       None \<Rightarrow> jump_client c = None
     | Some p \<Rightarrow> \<exists>j k. jump_client c = Some (j, k) \<and> hop_verified lib (jumpHop p (cAlgorithms cfg)) j k)"
proof -
  obtain tc where tc: "clientConfig lib (targetHop cfg) (cTimeout cfg) = Inr tc"
    using assms(2) by (cases "clientConfig lib (targetHop cfg) (cTimeout cfg)") (auto simp: connect_server_def Let_def)
  obtain sr st1 where s: "open_ssh lib cfg (h_addr (targetHop cfg)) tc st = (sr, st1)" by fastforce
  have sr: "sr = Inr c"
    using assms(2) tc s by (cases sr) (auto simp: connect_server_def Let_def split: prod.splits option.splits)
  show ?thesis
  proof (cases "cProxy cfg")
    case None
    obtain dr st2 where d: "dialSSH lib (h_addr (targetHop cfg)) tc st = (dr, st2)" by fastforce
    from s sr None d obtain h k where hk: "dr = Inr (h, k)" "c = \<lparr>ssh_client = h, server_key = k, jump_client = None\<rparr>"
      by (cases dr) (auto simp: open_ssh_def)
    from dialSSH_handshake [OF d [unfolded hk(1)]] obtain w w' where
      "handshake lib h (h_addr (targetHop cfg)) tc w = (Inr k, w')" by blast
    from handshake_verified [OF assms(1) tc this] None hk(2) show ?thesis by simp
  next
    case (Some p)
    with s sr have j: "dialViaJump lib cfg p (h_addr (targetHop cfg)) tc st = (Inr c, st1)" by (simp add: open_ssh_def)
    show ?thesis
      by (rule dialViaJump_handshakes [OF j])
        (use handshake_verified [OF assms(1)] tc Some in \<open>simp; blast\<close>)
  qed
qed

section \<open>A connection through a jump host\<close>

text \<open>A library whose servers all hold one key and whose handshake asks the verifier.\<close>

definition sample_lib :: "(string, unit, unit) net_lib" where
  "sample_lib =
     \<lparr>FingerprintSHA256 = (\<lambda>k. k), KeyType = (\<lambda>_. ''ssh-ed25519''), SupportedAlgorithms = no_algorithms,
      probe_key = Inl (Err Plain []), create_temp = None, write_temp = (\<lambda>_. None), close_temp = None,
      knownhosts_new = (\<lambda>_. Inl (Err Plain [])), parse_key = (\<lambda>_ _. Inl (Err Plain [])),
      dial_tcp = (\<lambda>_ _ w. (None, w)),
      handshake = (\<lambda>h addr cfg w. (case cc_callback cfg addr ''192.0.2.1:22'' ''SHA256:abc'' of
         None \<Rightarrow> Inr ''SHA256:abc'' | Some e \<Rightarrow> Inl e, w)),
      remote_addr = (\<lambda>_. ''192.0.2.1:22''), tunnel = (\<lambda>_ _ w. (None, w)), sftp_client = (\<lambda>_ _ w. (None, w)),
      timer_fired = (\<lambda>_ _. False)\<rparr>"

definition sample_proxy :: Proxy where
  "sample_proxy =
     \<lparr>pServer = ''bastion'', pPort = 22, pUsername = ''u'', pPassword = ''p'', pPrivateKey = [], pPassphrase = [],
      pHostKeyFingerprints = [], pKnownHosts = [], pAllowAnyHostKey = True\<rparr>"

definition sample_target :: Config where
  "sample_target = Defaults\<lparr>cServer := ''host'', cPort := 22, cUsername := ''u'', cPassword := ''p'',
     cHostKeyFingerprints := [''256 SHA256:abc host''], cProxy := Some sample_proxy\<rparr>"

definition idle_net :: "unit net" where
  "idle_net = \<lparr>outside = (), next_handle = 0, open_handles = [], deadlines = [], timers = []\<rparr>"

lemma sample_lib_honours: "honours_callbacks sample_lib"
  by (auto simp: honours_callbacks_def sample_lib_def split: option.splits)

lemma sample_pin: "parseHostKeyFingerprint ''256 SHA256:abc host'' names = Inr ''SHA256:abc''"
  unfolding parse_pin_iff by code_simp

lemma sample_auth: "TrimSpace [] = []"
  by code_simp

lemma sample_hop_config:
  "\<exists>tc. clientConfig sample_lib (targetHop sample_target) t = Inr tc \<and> cc_timeout tc = t \<and>
     (\<forall>a r. cc_callback tc a r ''SHA256:abc'' = None)"
  "\<exists>jc. clientConfig sample_lib (jumpHop sample_proxy no_algorithms) t = Inr jc \<and> cc_timeout jc = t \<and>
     (\<forall>a r. cc_callback jc a r ''SHA256:abc'' = None)"
  by (simp_all add: clientConfig_def authMethods_def targetHop_def jumpHop_def sample_target_def sample_proxy_def
      sample_lib_def Defaults_def sample_auth hostKeyCallback_def sample_pin verify_key_def ssh_lib.defs
      applySSHAlgorithms_def no_algorithms_def pinnedHostKeyAlgorithms_def Let_def)

lemma sample_connects:
  "connect_server sample_lib sample_target 16 idle_net =
     (Inr \<lparr>ssh_client = 1, server_key = ''SHA256:abc'', jump_client = Some (0, ''SHA256:abc'')\<rparr>,
      idle_net\<lparr>next_handle := 2, open_handles := [1, 0]\<rparr>)"
proof -
  have c: "cTimeout sample_target = i64 30000000000" "cProxy sample_target = Some sample_proxy" "cAlgorithms sample_target = no_algorithms"
    by (simp_all add: sample_target_def Defaults_def defaultTimeoutSec_def second_ns_def)
  have i: "i64 30000000000 = 30000000000" by code_simp
  have lib: "dial_tcp sample_lib a t w = (None, w)" "tunnel sample_lib h a w = (None, w)"
    "sftp_client sample_lib h q w = (None, w)" "timer_fired sample_lib h w = False"
    "handshake sample_lib h a tc w = (case cc_callback tc a ''192.0.2.1:22'' ''SHA256:abc'' of
         None \<Rightarrow> Inr ''SHA256:abc'' | Some e \<Rightarrow> Inl e, w)" for a t w h q tc
    by (simp_all add: sample_lib_def)
  obtain tc where tc: "clientConfig sample_lib (targetHop sample_target) 30000000000 = Inr tc"
    "\<And>a r. cc_callback tc a r ''SHA256:abc'' = None" using sample_hop_config(1) by metis
  obtain jc where jc: "clientConfig sample_lib (jumpHop sample_proxy no_algorithms) 30000000000 = Inr jc"
    "cc_timeout jc = 30000000000" "\<And>a r. cc_callback jc a r ''SHA256:abc'' = None" using sample_hop_config(2) by metis
  show ?thesis
    by (simp add: connect_server_def open_ssh_def dialViaJump_def dialSSH_def c i lib tc jc Let_def arm_def disarm_def
        open_new_def idle_net_def)
qed

lemma connection_verified_witness:
  "trusted_key (ssh_lib.truncate sample_lib) (targetHop sample_target) (h_addr (targetHop sample_target)) ''192.0.2.1:22'' ''SHA256:abc''"
proof -
  have "\<not> opted_out (targetHop sample_target)" "remote_addr sample_lib h = ''192.0.2.1:22''" for h
    by (simp_all add: opted_out_def targetHop_def sample_target_def sample_lib_def)
  with connection_verified [OF sample_lib_honours sample_connects] show ?thesis
    by (simp add: hop_verified_def)
qed

lemma connect_leaks_nothing_witness:
  "open_handles (tear_down \<lparr>ssh_client = 1, server_key = ''SHA256:abc'', jump_client = Some (0, ''SHA256:abc'')\<rparr>
     (idle_net\<lparr>next_handle := 2, open_handles := [1, 0]\<rparr>)) = open_handles idle_net"
proof -
  have "ledger_ok idle_net" by (simp add: ledger_ok_def unused_def idle_net_def)
  from connect_leaks_nothing [OF sample_connects this] show ?thesis by simp
qed

section \<open>Answering keyboard-interactive prompts\<close>

datatype challenge_error = CountMismatch nat nat | MoreSecrets

text \<open>One round: the questions with their echo flags; the flag kept between rounds says that the
  password has been given.\<close>

definition password_round ::
  "string \<Rightarrow> bool \<Rightarrow> string list \<times> bool list \<Rightarrow> (challenge_error, string list) result \<times> bool" where
  "password_round password answeredSecret rd =
     (let (questions, echos) = rd in
      if length questions \<noteq> length echos then (Inl (CountMismatch (length questions) (length echos)), answeredSecret)
      else
        let secretQuestions = length (filter Not echos) in
        if secretQuestions = 0 then (Inr (replicate (length questions) []), answeredSecret)
        else if answeredSecret \<or> secretQuestions > 1 then (Inl MoreSecrets, answeredSecret)
        else (Inr (map (\<lambda>echo. if echo then [] else password) echos), True))"

fun passwordChallenge ::
  "string \<Rightarrow> bool \<Rightarrow> (string list \<times> bool list) list \<Rightarrow> (challenge_error, string list) result list" where
  "passwordChallenge password answered [] = []"
| "passwordChallenge password answered (r # rs) =
     (let (out, answered') = password_round password answered r
      in out # passwordChallenge password answered' rs)"

text \<open>Everything sent to the server, each answer with the echo flag of its question.\<close>

definition answers_sent :: "(challenge_error, string list) result list \<Rightarrow> (string list \<times> bool list) list \<Rightarrow> (string \<times> bool) list" where
  "answers_sent outs rounds =
     concat (map (\<lambda>(out, _, echos). case out of Inl _ \<Rightarrow> [] | Inr as \<Rightarrow> zip as echos) (zip outs rounds))"

lemma no_secret_answers: "filter (\<lambda>(a, e). a \<noteq> []) (zip (replicate n []) es) = []"
  by (auto simp: filter_empty_conv set_zip)

lemma all_echoed: "filter Not es = [] \<Longrightarrow> filter (\<lambda>(a, e). a \<noteq> []) (zip (map (\<lambda>e. if e then [] else pw) es) es) = []"
  by (induction es) (auto split: if_splits)

lemma one_secret_answer:
  "length (filter Not es) = 1 \<Longrightarrow> filter (\<lambda>(a, e). a \<noteq> []) (zip (map (\<lambda>e. if e then [] else pw) es) es) =
     (if pw = [] then [] else [(pw, False)])"
proof (induction es)
  case Nil
  then show ?case by simp
next
  case (Cons e es)
  show ?case
  proof (cases e)
    case True
    then have "length (filter Not es) = 1" using Cons.prems by simp
    from Cons.IH [OF this] True show ?thesis by simp
  next
    case False
    then have "filter Not es = []" using Cons.prems by simp
    from all_echoed [OF this, of pw] False show ?thesis by simp
  qed
qed

lemma answers_sent_Cons:
  "answers_sent (out # outs) ((qs, es) # rounds) = (case out of Inl _ \<Rightarrow> [] | Inr as \<Rightarrow> zip as es) @ answers_sent outs rounds"
  by (simp add: answers_sent_def)

lemma answered_says_nothing:
  "filter (\<lambda>(a, e). a \<noteq> []) (answers_sent (passwordChallenge pw True rounds) rounds) = []"
proof (induction rounds)
  case (Cons r rs)
  obtain qs es where r: "r = (qs, es)" by (cases r)
  show ?case
    using Cons.IH by (simp add: r answers_sent_Cons password_round_def Let_def no_secret_answers)
qed (simp add: answers_sent_def)

text \<open>Property C32. However many rounds of questions a server asks, the password is sent at most once,
  and only to a question the server does not echo; every other answer is empty.\<close>

theorem password_sent_once:
  "filter (\<lambda>(a, echo). a \<noteq> []) (answers_sent (passwordChallenge password False rounds) rounds) \<in> {[], [(password, False)]}"
proof (induction rounds)
  case (Cons r rs)
  obtain qs es where r: "r = (qs, es)" by (cases r)
  show ?case
  proof (cases "length qs = length es \<and> length (filter Not es) = 1")
    case True
    then have o: "password_round password False (qs, es) = (Inr (map (\<lambda>e. if e then [] else password) es), True)"
      by (simp add: password_round_def Let_def)
    show ?thesis
      using one_secret_answer [of es password] True answered_says_nothing [of password rs]
      by (simp add: r answers_sent_Cons o)
  next
    case False
    then have "\<exists>out. password_round password False (qs, es) = (out, False) \<and> (out = Inr (replicate (length qs) []) \<or> isl out)"
      by (cases "filter Not es") (auto simp: password_round_def Let_def)
    then obtain out where o: "password_round password False (qs, es) = (out, False)"
      "out = Inr (replicate (length qs) []) \<or> isl out" by blast
    from o(2) Cons.IH show ?thesis
      by (elim disjE) (auto simp: r answers_sent_Cons o(1) no_secret_answers isl_def)
  qed
qed (simp add: answers_sent_def)

end
