(* ===== verification/Keepalive.thy ===== *)
theory Keepalive
  imports Prelude
begin

text \<open>
  The keepalive loop of \<open>internal/uploader/connection.go\<close>: one goroutine ticks over the live
  connections and starts a sender for each that has none, the senders return in any order (or never,
  on a wedged connection) and report on a channel the loop reads. A step is one event of the loop or of
  a sender; \<open>'c\<close> is the type of connections.
\<close>

record 'c keepalives =
  inFlight :: "'c list"
  sending :: "'c list"
  waiting :: "'c list"
  requests_made :: "'c list"

definition no_keepalives :: "'c keepalives" where
  "no_keepalives = \<lparr>inFlight = [], sending = [], waiting = [], requests_made = []\<rparr>"

text \<open>The loop over \<open>clients()\<close> at a tick.\<close>

fun keepalive_tick :: "'c list \<Rightarrow> 'c keepalives \<Rightarrow> 'c keepalives" where
  "keepalive_tick [] s = s"
| "keepalive_tick (c # cs) s =
     (if List.member (inFlight s) c then keepalive_tick cs s
      else keepalive_tick cs (s\<lparr>inFlight := c # inFlight s, sending := c # sending s,
             requests_made := c # requests_made s\<rparr>))"

text \<open>A sender's \<open>SendRequest\<close> returns; the loop receives from \<open>done\<close>.\<close>

definition send_returns :: "'c \<Rightarrow> 'c keepalives \<Rightarrow> 'c keepalives" where
  "send_returns c s = s\<lparr>sending := remove1 c (sending s), waiting := c # waiting s\<rparr>"

definition receive_done :: "'c \<Rightarrow> 'c keepalives \<Rightarrow> 'c keepalives" where
  "receive_done c s = s\<lparr>inFlight := removeAll c (inFlight s), waiting := remove1 c (waiting s)\<rparr>"

inductive keepaliveLoop :: "'c keepalives \<Rightarrow> 'c keepalives \<Rightarrow> bool" where
  tick: "keepaliveLoop s (keepalive_tick clients s)"
| returns: "c \<in> set (sending s) \<Longrightarrow> keepaliveLoop s (send_returns c s)"
| receive: "c \<in> set (waiting s) \<Longrightarrow> keepaliveLoop s (receive_done c s)"

inductive_cases keepaliveLoopE: "keepaliveLoop s s'"

definition one_each :: "'c keepalives \<Rightarrow> bool" where
  "one_each s \<longleftrightarrow> distinct (sending s @ waiting s) \<and> set (inFlight s) = set (sending s) \<union> set (waiting s)"

lemma one_each_start: "one_each no_keepalives"
  by (simp add: one_each_def no_keepalives_def)

lemma one_each_tick: "one_each s \<Longrightarrow> one_each (keepalive_tick cs s)"
proof (induction cs s rule: keepalive_tick.induct)
  case (2 c cs s)
  then show ?case
    by (cases "List.member (inFlight s) c") (auto simp: one_each_def)
qed simp

lemma one_each_step: "keepaliveLoop s s' \<Longrightarrow> one_each s \<Longrightarrow> one_each s'"
proof (induction rule: keepaliveLoop.induct)
  case (returns c s)
  then show ?case by (auto simp: one_each_def send_returns_def)
next
  case (receive c s)
  then show ?case by (auto simp: one_each_def receive_done_def)
qed (rule one_each_tick)

lemma one_each_reach: "keepaliveLoop\<^sup>*\<^sup>* no_keepalives s \<Longrightarrow> one_each s"
  by (induction rule: rtranclp_induct) (auto intro: one_each_start one_each_step)

lemma tick_requests:
  "\<exists>new. requests_made (keepalive_tick cs s) = new @ requests_made s \<and> distinct new \<and>
     set new = set cs - set (inFlight s) \<and> inFlight (keepalive_tick cs s) = new @ inFlight s \<and>
     waiting (keepalive_tick cs s) = waiting s"
proof (induction cs s rule: keepalive_tick.induct)
  case (2 c cs s)
  show ?case
  proof (cases "c \<in> set (inFlight s)")
    case True
    with 2(1) show ?thesis by auto
  next
    case False
    with 2(2) obtain new where n: "requests_made (keepalive_tick (c # cs) s) = new @ c # requests_made s" "distinct new"
      "set new = set cs - set (c # inFlight s)" "inFlight (keepalive_tick (c # cs) s) = new @ c # inFlight s"
      "waiting (keepalive_tick (c # cs) s) = waiting s" by auto
    then show ?thesis using False by (intro exI [of _ "new @ [c]"]) auto
  qed
qed simp

text \<open>In every interleaving of ticks, returning senders and received reports, each connection
  has at most one keepalive outstanding, a connection is marked in flight exactly while it has one,
  and a tick sends to every live connection without one, once, however many others are wedged.\<close>

theorem keepalive_one_in_flight:
  assumes "keepaliveLoop\<^sup>*\<^sup>* no_keepalives s"
  shows "distinct (sending s @ waiting s) \<and> set (inFlight s) = set (sending s) \<union> set (waiting s) \<and>
    (\<exists>new. requests_made (keepalive_tick clients s) = new @ requests_made s \<and> distinct new \<and>
       set new = set clients - (set (sending s) \<union> set (waiting s)))"
  using one_each_reach [OF assms] tick_requests [of clients s] unfolding one_each_def by metis

text \<open>Connection 1 is wedged; the tick reaches connection 2.\<close>

lemma keepalive_one_in_flight_witness:
  "requests_made (keepalive_tick [1, 2] (keepalive_tick [1] (no_keepalives :: nat keepalives))) = [2, 1] \<and>
   distinct (sending (keepalive_tick [1] no_keepalives :: nat keepalives))"
proof -
  have "keepaliveLoop\<^sup>*\<^sup>* no_keepalives (keepalive_tick [1] no_keepalives :: nat keepalives)"
    by (rule r_into_rtranclp) (rule keepaliveLoop.tick)
  from keepalive_one_in_flight [OF this, of "[1, 2]"] show ?thesis
    by (simp add: no_keepalives_def)
qed

end
