(* ===== verification/Ram_Server.thy ===== *)
theory Ram_Server
  imports Sftp_Env
begin

text \<open>
  A concrete environment: files held in memory as an association list, and a script of failures
  consumed one entry per request (an exhausted script never fails). It lists the files whose path
  lies directly in a directory, redials at once, and runs parallel items in index order. It makes
  the assumptions on \<open>remote\<close> satisfiable: the properties are instantiated on it.
\<close>

record ram =
  disk :: "(string \<times> string) list"
  script :: "goerr option list"

definition ram_lookup :: "ram \<Rightarrow> string \<Rightarrow> string option" where
  "ram_lookup w p = map_of (disk w) p"

definition ram_put :: "string \<Rightarrow> string \<Rightarrow> ram \<Rightarrow> ram" where
  "ram_put p d w = w\<lparr>disk := (p, d) # filter (\<lambda>(q, _). q \<noteq> p) (disk w)\<rparr>"

definition ram_drop :: "string \<Rightarrow> ram \<Rightarrow> ram" where
  "ram_drop p w = w\<lparr>disk := filter (\<lambda>(q, _). q \<noteq> p) (disk w)\<rparr>"

definition ram_request :: "(ram \<Rightarrow> goerr option \<times> ram) \<Rightarrow> ram \<Rightarrow> goerr option \<times> ram" where
  "ram_request f w =
     (case script w of
        [] \<Rightarrow> f w
      | None # r \<Rightarrow> f (w\<lparr>script := r\<rparr>)
      | Some e # r \<Rightarrow> (Some e, w\<lparr>script := r\<rparr>))"

definition no_such_file :: goerr where
  "no_such_file = Err NotExist ''file does not exist''"

definition ram_remove :: "string \<Rightarrow> ram \<Rightarrow> goerr option \<times> ram" where
  "ram_remove p w =
     (if ram_lookup w p = None then (Some no_such_file, w) else (None, ram_drop p w))"

definition ram_move :: "bool \<Rightarrow> string \<Rightarrow> string \<Rightarrow> ram \<Rightarrow> goerr option \<times> ram" where
  "ram_move replace p q w =
     (case ram_lookup w p of
        None \<Rightarrow> (Some no_such_file, w)
      | Some d \<Rightarrow>
          if \<not> replace \<and> ram_lookup w q \<noteq> None then (Some (Err (Status FxFailure) ''sftp: Failure''), w)
          else (None, ram_put q d (ram_drop p w)))"

definition ram_info :: "string \<Rightarrow> string \<Rightarrow> file_info" where
  "ram_info p d = \<lparr>fi_name = p, fi_dir = False, fi_regular = True, fi_size = int (length d), fi_mtime = 0\<rparr>"

definition ram_stat :: "string \<Rightarrow> ram \<Rightarrow> (goerr, file_info) result \<times> ram" where
  "ram_stat p w =
     (case ram_lookup w p of None \<Rightarrow> (Inl no_such_file, w) | Some d \<Rightarrow> (Inr (ram_info p d), w))"

definition ram_list :: "string \<Rightarrow> ram \<Rightarrow> (goerr, file_info list) result \<times> ram" where
  "ram_list dir w =
     (Inr (List.map_filter (\<lambda>(p, d).
        let n = drop (length dir + 1) p in
        if has_prefix p (dir @ ''/'') \<and> CHR ''/'' \<notin> set n then Some (ram_info n d) else None) (disk w)), w)"

text \<open>\<open>sources\<close> are the local files; \<open>posix\<close> says whether the server replaces on rename.\<close>

definition ram_env :: "(string \<times> string) list \<Rightarrow> bool \<Rightarrow> (unit, ram) remote" where
  "ram_env sources posix =
     \<lparr>Remove = \<lambda>c p. ram_request (ram_remove p),
      RemoveDirectory = \<lambda>c p. ram_request (\<lambda>w. (None, w)),
      Rename = \<lambda>c p q. ram_request (ram_move False p q),
      PosixRename = \<lambda>c p q. if posix then ram_request (ram_move True p q)
        else (\<lambda>w. (Some (Err (Status FxOpUnsupported) ''sftp: Operation unsupported''), w)),
      HasPosixRename = \<lambda>c. posix,
      Stat = \<lambda>c. ram_stat,
      Lstat = \<lambda>c. ram_stat,
      ReadDir = \<lambda>c. ram_list,
      MkdirAll = \<lambda>c p w. (None, w),
      Chmod = \<lambda>c p m w. (None, w),
      Chtimes = \<lambda>c p m w. (None, w),
      OpenTrunc = \<lambda>c p. ram_request (\<lambda>w. (None, ram_put p [] w)),
      StreamFrom = \<lambda>c p src k w.
        (case map_of sources src of
           None \<Rightarrow> ((0, Some no_such_file), w)
         | Some d \<Rightarrow> ((int (length d), None), ram_put p d w)),
      WriteAll = \<lambda>c p d w. (None, ram_put p d w),
      CloseFile = \<lambda>c p w. (None, w),
      OpenRead = \<lambda>c p w. (if ram_lookup w p = None then (Some no_such_file, w) else (None, w)),
      ReadLimited = \<lambda>c p n w.
        (case ram_lookup w p of None \<Rightarrow> (Inl no_such_file, w) | Some d \<Rightarrow> (Inr (if int (length d) \<le> n then d else take (nat n) d), w)),
      connect = \<lambda>w. (Inr (), w),
      closeConn = \<lambda>c w. w,
      sleepBackoff = \<lambda>n w. (None, w),
      ctx_err = \<lambda>w. None,
      fired = \<lambda>w. False,
      now = \<lambda>w. 0,
      schedule = \<lambda>l n w. map (\<lambda>i. (i, False)) [0..<n],
      moves = \<lambda>i w. [],
      open_local = \<lambda>p w. (if map_of sources p = None then Some no_such_file else None),
      hash_local = \<lambda>p w. (case map_of sources p of None \<Rightarrow> Inl no_such_file | Some d \<Rightarrow> Inr d)\<rparr>"

lemma ram_lookup_put: "ram_lookup (ram_put p d w) = (ram_lookup w)(p := Some d)"
  by (simp add: ram_lookup_def ram_put_def map_of_without fun_eq_iff)

lemma ram_lookup_drop: "ram_lookup (ram_drop p w) = (ram_lookup w)(p := None)"
  by (simp add: ram_lookup_def ram_drop_def map_of_without fun_eq_iff)

lemma ram_lookup_script [simp]: "ram_lookup (w\<lparr>script := r\<rparr>) = ram_lookup w"
  by (simp add: ram_lookup_def fun_eq_iff)

text \<open>A configuration and an empty server for the concrete runs.\<close>

definition sample_config :: config where
  "sample_config = \<lparr>Retries = 2, DryRun = False, SkipUnchanged = False, SyncFastPath = False,
     PreserveTimes = False, FileMode = None, DirMode = None, ManifestName = ''.m.json'',
     MaxDeletes = 5, FixedConcurrency = 0, FixedConnections = 0, StallTimeout = 0\<rparr>"

definition idle_ram :: ram where
  "idle_ram = \<lparr>disk = [], script = []\<rparr>"

lemma ram_schedule: "valid_schedule l n (schedule (ram_env sources posix) l n w)"
  by (simp add: valid_schedule_def ram_env_def comp_def filter_map lessThan_atLeast0)

end
