(* ===== verification/Session.thy ===== *)
theory Session
  imports Ram_Server
begin

text \<open>
  The run's connections (\<open>internal/uploader/session.go\<close>): the lazily dialed pool behind
  \<open>acquire\<close>, the spread the policy moves with \<open>setSpread\<close>, the latch a refused dial sets, and
  \<open>reconnect\<close> with the budget that bounds it. \<open>do\<close> runs one idempotent operation on the first
  connection and redials when the connection died. Connection objects are shared between slots, so
  a slot holds an index into a heap of connections. One step of the model is one call: the waits on
  another worker's dial or redial do not appear.
\<close>

section \<open>State\<close>

record 'c conn =
  client :: 'c
  gen :: nat

record 'c session =
  heap :: "'c conn list"
  slots :: "nat option list"
  spread :: nat
  refused :: bool
  reconnects :: nat

type_synonym ('c, 'w) state = "'c session \<times> 'w"

definition conn_at :: "'c session \<Rightarrow> nat \<Rightarrow> 'c conn" where
  "conn_at s i = heap s ! i"

section \<open>The pool\<close>

fun count_slots :: "nat set \<Rightarrow> nat option list \<Rightarrow> nat" where
  "count_slots seen [] = 0"
| "count_slots seen (None # r) = 0"
| "count_slots seen (Some c # r) =
     (if c \<in> seen then count_slots seen r else Suc (count_slots (insert c seen) r))"

definition openSlots :: "'c session \<Rightarrow> nat" where
  "openSlots s = max (count_slots {} (slots s)) 1"

definition setSpread :: "(nat \<Rightarrow> nat) \<Rightarrow> nat \<Rightarrow> 'c session \<Rightarrow> nat \<times> 'c session" where
  "setSpread clampConnections n s =
     (let m = clampConnections (min (max n 1) (length (slots s))) in
      if refused s \<and> m > spread s then (spread s, s) else (m, s\<lparr>spread := m\<rparr>))"

definition currentSpread :: "'c session \<Rightarrow> nat" where
  "currentSpread s = max (spread s) 1"

definition granted :: "'c session \<Rightarrow> nat \<times> bool" where
  "granted s = (openSlots s, refused s)"

definition workers :: "config \<Rightarrow> nat \<Rightarrow> nat" where
  "workers cfg items =
     (if FixedConcurrency cfg > 0 then nat (FixedConcurrency cfg)
      else if items < 1 then 1 else min items 64)"

definition errPoolRefused :: goerr where
  "errPoolRefused = Err PoolRefused ''the server already refused an extra connection''"

definition dialPooled :: "('c, 'w) remote \<Rightarrow> 'c session \<Rightarrow> 'w \<Rightarrow> (goerr, 'c) result \<times> 'w" where
  "dialPooled env s w = (if refused s then (Inl errPoolRefused, w) else connect env w)"

definition noteDialFailure :: "config \<Rightarrow> goerr \<Rightarrow> 'c session \<Rightarrow> 'c session" where
  "noteDialFailure cfg e s =
     (if err_id e = PoolRefused then s
      else let s' = s\<lparr>refused := True\<rparr> in
           if FixedConnections cfg = 0 then s'\<lparr>spread := openSlots s'\<rparr> else s')"

definition acquire ::
    "config \<Rightarrow> ('c, 'w) remote \<Rightarrow> nat \<Rightarrow> ('c, 'w) state \<Rightarrow> nat \<times> ('c, 'w) state" where
  "acquire cfg env index st =
     (case st of (s, w) \<Rightarrow>
        let slot = index mod max (spread s) 1 in
        case slots s ! slot of
          Some i \<Rightarrow> (i, (s, w))
        | None \<Rightarrow>
            (case dialPooled env s w of
               (Inl e, w') \<Rightarrow>
                 let s' = noteDialFailure cfg e s; i = the (slots s' ! 0) in
                 (i, (s'\<lparr>slots := (slots s')[slot := Some i]\<rparr>, w'))
             | (Inr c, w') \<Rightarrow>
                 let i = length (heap s) in
                 (i, (s\<lparr>heap := heap s @ [\<lparr>client = c, gen = 0\<rparr>],
                        slots := (slots s)[slot := Some i]\<rparr>, w'))))"

section \<open>The first connection (newSession)\<close>

text \<open>\<open>left\<close> attempts remain after the current one; \<open>pool\<close> is the size \<open>poolCeiling\<close> allocates.\<close>

definition first_session :: "nat \<Rightarrow> 'c \<Rightarrow> 'c session" where
  "first_session pool c =
     \<lparr>heap = [\<lparr>client = c, gen = 0\<rparr>], slots = Some 0 # replicate (max pool 1 - 1) None, spread = 1,
      refused = False, reconnects = 0\<rparr>"

primrec dial_first ::
    "config \<Rightarrow> ('c, 'w) remote \<Rightarrow> nat \<Rightarrow> nat \<Rightarrow> 'w \<Rightarrow> (goerr, 'c session) result \<times> 'w" where
  "dial_first cfg env pool 0 w =
     (case connect env w of (Inl e, w') \<Rightarrow> (Inl e, w') | (Inr c, w') \<Rightarrow> (Inr (first_session pool c), w'))"
| "dial_first cfg env pool (Suc left) w =
     (case connect env w of
        (Inr c, w') \<Rightarrow> (Inr (first_session pool c), w')
      | (Inl e, w') \<Rightarrow>
          if \<not> isRetryableConnect e then (Inl e, w')
          else
            (case sleepBackoff env (Retries cfg - left) w' of
               (Some ce, w2) \<Rightarrow> (Inl ce, w2)
             | (None, w2) \<Rightarrow> dial_first cfg env pool left w2))"

definition newSession ::
    "config \<Rightarrow> ('c, 'w) remote \<Rightarrow> nat \<Rightarrow> 'w \<Rightarrow> (goerr, 'c session) result \<times> 'w" where
  "newSession cfg env pool w = dial_first cfg env pool (Retries cfg) w"

section \<open>Redialing\<close>

definition budget_spent :: "config \<Rightarrow> goerr" where
  "budget_spent cfg = Err Plain (''connection lost and the reconnect budget is spent ('' @
     decimal (Retries cfg) @ '', from the retries input)'')"

definition stalled_redial :: goerr where
  "stalled_redial = Err Plain ''connection lost and the stall watchdog fired during the redial''"

definition redial ::
    "('c, 'w) remote \<Rightarrow> nat \<Rightarrow> 'c \<Rightarrow> 'w \<Rightarrow> (goerr, 'c) result \<times> 'w" where
  "redial env attempt dead w =
     (case sleepBackoff env attempt w of
        (Some e, w') \<Rightarrow> (Inl e, w')
      | (None, w') \<Rightarrow> connect env (closeConn env dead w'))"

definition reconnect ::
    "config \<Rightarrow> ('c, 'w) remote \<Rightarrow> bool \<Rightarrow> nat \<Rightarrow> nat \<Rightarrow> ('c, 'w) state
       \<Rightarrow> (goerr, 'c) result \<times> ('c, 'w) state" where
  "reconnect cfg env watch i g st =
     (case st of (s, w) \<Rightarrow>
        if gen (conn_at s i) \<noteq> g then (Inr (client (conn_at s i)), (s, w))
        else if reconnects s \<ge> Retries cfg then (Inl (budget_spent cfg), (s, w))
        else
          let s' = s\<lparr>reconnects := Suc (reconnects s)\<rparr> in
          (case redial env (reconnects s') (client (conn_at s i)) w of
             (Inl e, w') \<Rightarrow>
               if err_id e \<in> {Canceled, DeadlineExceeded} then (Inl e, (s', w'))
               else (Inl (Wrap ''reconnecting: '' e []), (s', w'))
           | (Inr c, w') \<Rightarrow>
               if watch \<and> fired env w' then (Inl stalled_redial, (s', closeConn env c w'))
               else (Inr c, (s'\<lparr>heap := (heap s')[i := \<lparr>client = c, gen = Suc g\<rparr>]\<rparr>, w'))))"

lemma acquire_reconnects:
  "acquire cfg env index st = (i, st') \<Longrightarrow> reconnects (fst st') = reconnects (fst st)"
  by (auto simp: acquire_def noteDialFailure_def Let_def split: prod.splits option.splits sum.splits if_splits)

lemma reconnect_spends:
  assumes "reconnect cfg env watch i g st = (r, st')"
  shows "reconnects (fst st) \<le> reconnects (fst st')"
    "reconnects (fst st) \<le> Retries cfg \<Longrightarrow> reconnects (fst st') \<le> Retries cfg"
    "\<And>c. r = Inr c \<Longrightarrow> gen (conn_at (fst st) i) = g \<Longrightarrow>
       reconnects (fst st') = Suc (reconnects (fst st)) \<and> reconnects (fst st) < Retries cfg"
  using assms
  by (auto simp: reconnect_def Let_def split: prod.splits sum.splits if_splits)

lemma redial_measure:
  assumes "(i, y) = acquire cfg env index st" "(s, w) = y"
    and "(r, st') = reconnect cfg env watch i (gen (conn_at s i)) (s, w')" "r = Inr c"
  shows "Retries cfg - reconnects (fst st') < Retries cfg - reconnects (fst st)"
proof -
  have "reconnects s = reconnects (fst st)"
    using acquire_reconnects [OF assms(1) [symmetric]] assms(2) [symmetric] by simp
  with reconnect_spends(3) [OF assms(3) [symmetric] assms(4)] show ?thesis
    by (simp add: diff_less_mono2)
qed

text \<open>
  \<open>do\<close>: the operation sees the client and the world, and its closure's result is its value.
\<close>

function session_do ::
    "config \<Rightarrow> ('c, 'w) remote \<Rightarrow> bool \<Rightarrow> ('c \<Rightarrow> 'w \<Rightarrow> (goerr, 'a) result \<times> 'w) \<Rightarrow> ('c, 'w) state
       \<Rightarrow> (goerr, 'a) result \<times> ('c, 'w) state" where
  "session_do cfg env watch action st =
     (case acquire cfg env 0 st of
        (i, (s, w)) \<Rightarrow>
          case action (client (conn_at s i)) w of
            (Inr a, w') \<Rightarrow> (Inr a, (s, w'))
          | (Inl e, w') \<Rightarrow>
              if \<not> isConnError e then (Inl e, (s, w'))
              else if watch \<and> fired env w' then (Inl e, (s, w'))
              else
                (case reconnect cfg env watch i (gen (conn_at s i)) (s, w') of
                   (Inl re, st') \<Rightarrow> (Inl (Wrap [] e ('' ('' @ err_text re @ '')'')), st')
                 | (Inr c, st') \<Rightarrow> session_do cfg env watch action st'))"
  by pat_completeness auto
termination
  by (relation "measure (\<lambda>(cfg, env, watch, action, st). Retries cfg - reconnects (fst st))")
    (auto dest: redial_measure)

declare session_do.simps [simp del]

text \<open>One round of \<open>do\<close>, by what it ended with.\<close>

lemma session_do_cases [consumes 1, case_names completed failed stalled lost redialed]:
  assumes "session_do cfg env watch action st = (r, st')"
  obtains i s w a w' where "acquire cfg env 0 st = (i, (s, w))"
      "action (client (conn_at s i)) w = (Inr a, w')" "r = Inr a" "st' = (s, w')"
    | i s w e w' where "acquire cfg env 0 st = (i, (s, w))"
      "action (client (conn_at s i)) w = (Inl e, w')" "\<not> isConnError e" "r = Inl e" "st' = (s, w')"
    | i s w e w' where "acquire cfg env 0 st = (i, (s, w))"
      "action (client (conn_at s i)) w = (Inl e, w')" "isConnError e" "watch" "fired env w'"
      "r = Inl e" "st' = (s, w')"
    | i s w e w' re where "acquire cfg env 0 st = (i, (s, w))"
      "action (client (conn_at s i)) w = (Inl e, w')" "isConnError e" "\<not> (watch \<and> fired env w')"
      "reconnect cfg env watch i (gen (conn_at s i)) (s, w') = (Inl re, st')"
      "r = Inl (Wrap [] e ('' ('' @ err_text re @ '')''))"
    | i s w e w' c st1 where "acquire cfg env 0 st = (i, (s, w))"
      "action (client (conn_at s i)) w = (Inl e, w')" "isConnError e" "\<not> (watch \<and> fired env w')"
      "reconnect cfg env watch i (gen (conn_at s i)) (s, w') = (Inr c, st1)"
      "session_do cfg env watch action st1 = (r, st')"
  using assms
  by (subst (asm) session_do.simps) (auto split: prod.splits sum.splits if_splits)

section \<open>The session stays well formed\<close>

definition session_ok :: "config \<Rightarrow> 'c session \<Rightarrow> bool" where
  "session_ok cfg s \<longleftrightarrow>
     slots s \<noteq> [] \<and> slots s ! 0 \<noteq> None \<and> 1 \<le> spread s \<and> spread s \<le> length (slots s) \<and>
     (\<forall>i. Some i \<in> set (slots s) \<longrightarrow> i < length (heap s)) \<and> reconnects s \<le> Retries cfg"

lemma count_slots_le: "count_slots seen xs \<le> length xs"
  by (induction seen xs rule: count_slots.induct) auto

lemma openSlots_bounds: "slots s \<noteq> [] \<Longrightarrow> 1 \<le> openSlots s \<and> openSlots s \<le> length (slots s)"
  using count_slots_le [of "{}" "slots s"] by (cases "slots s") (auto simp: openSlots_def)

lemma noteDialFailure_ok:
  "session_ok cfg s \<Longrightarrow> session_ok cfg (noteDialFailure cfg e s) \<and> slots (noteDialFailure cfg e s) = slots s
     \<and> heap (noteDialFailure cfg e s) = heap s"
  using openSlots_bounds [of "s\<lparr>refused := True\<rparr>"]
  by (auto simp: noteDialFailure_def session_ok_def Let_def)

lemma acquire_cases [consumes 1, case_names opened denied dialed]:
  assumes "acquire cfg env index (s, w) = (i, st')"
  obtains "slots s ! (index mod max (spread s) 1) = Some i" "st' = (s, w)"
    | e w' where "slots s ! (index mod max (spread s) 1) = None" "dialPooled env s w = (Inl e, w')"
      "i = the (slots (noteDialFailure cfg e s) ! 0)"
      "st' = (noteDialFailure cfg e s\<lparr>slots :=
         (slots (noteDialFailure cfg e s))[index mod max (spread s) 1 := Some i]\<rparr>, w')"
    | c w' where "slots s ! (index mod max (spread s) 1) = None" "dialPooled env s w = (Inr c, w')"
      "i = length (heap s)"
      "st' = (s\<lparr>heap := heap s @ [\<lparr>client = c, gen = 0\<rparr>],
         slots := (slots s)[index mod max (spread s) 1 := Some i]\<rparr>, w')"
  using assms unfolding acquire_def Let_def prod.case
  by (auto split: option.splits prod.splits sum.splits)

lemma slot_in_range: "session_ok cfg s \<Longrightarrow> index mod max (spread s) 1 < length (slots s)"
  by (auto simp: session_ok_def max_def intro: less_le_trans [OF mod_less_divisor])

lemma session_ok_redirect:
  assumes "session_ok cfg s" "j < length (heap s)"
  shows "session_ok cfg (s\<lparr>slots := (slots s)[k := Some j]\<rparr>)"
proof -
  have "(slots s)[k := Some j] ! 0 \<noteq> None"
    using assms(1) by (cases "slots s"; cases k) (auto simp: session_ok_def)
  with assms show ?thesis
    by (auto simp: session_ok_def dest!: set_update_subset_insert [THEN subsetD])
qed

lemma session_ok_grow:
  "session_ok cfg s \<Longrightarrow> session_ok cfg (s\<lparr>heap := heap s @ [c]\<rparr>)"
  by (auto simp: session_ok_def less_SucI)

lemma acquire_ok:
  assumes "session_ok cfg (fst st)" "acquire cfg env index st = (i, st')"
  shows "session_ok cfg (fst st') \<and> i < length (heap (fst st'))"
proof -
  obtain s w where st: "st = (s, w)" by (cases st)
  have ok: "session_ok cfg s" using assms(1) st by simp
  note slot = slot_in_range [OF ok, of index]
  from assms(2) [unfolded st] show ?thesis
  proof (cases rule: acquire_cases)
    case opened
    then have "Some i \<in> set (slots s)" using nth_mem [OF slot] by simp
    with opened ok show ?thesis by (simp add: session_ok_def)
  next
    case (denied e w')
    define s' where "s' = noteDialFailure cfg e s"
    have ok': "session_ok cfg s'" using noteDialFailure_ok [OF ok] by (simp add: s'_def)
    then have ne: "slots s' \<noteq> []" "slots s' ! 0 \<noteq> None" by (simp_all add: session_ok_def)
    then have "Some i \<in> set (slots s')"
      using denied(3) nth_mem [of 0 "slots s'"] by (auto simp: s'_def)
    then have "i < length (heap s')" using ok' by (simp add: session_ok_def)
    with session_ok_redirect [OF ok' this] denied(4) show ?thesis by (simp add: s'_def)
  next
    case (dialed c w')
    have "session_ok cfg ((s\<lparr>heap := heap s @ [\<lparr>client = c, gen = 0\<rparr>]\<rparr>)\<lparr>slots :=
        (slots s)[index mod max (spread s) 1 := Some (length (heap s))]\<rparr>)"
      using session_ok_redirect [OF session_ok_grow [OF ok, of "\<lparr>client = c, gen = 0\<rparr>"], of "length (heap s)"]
      by simp
    with dialed show ?thesis by simp
  qed
qed

lemma reconnect_ok:
  assumes "session_ok cfg (fst st)" "reconnect cfg env watch i g st = (r, st')"
  shows "session_ok cfg (fst st') \<and> slots (fst st') = slots (fst st)"
  using assms
  by (auto simp: reconnect_def session_ok_def Let_def split: prod.splits sum.splits if_splits)

lemma setSpread_ok:
  assumes "session_ok cfg s" "\<And>m. 1 \<le> m \<Longrightarrow> 1 \<le> clamp m \<and> clamp m \<le> m"
  shows "session_ok cfg (snd (setSpread clamp n s))"
proof -
  have "1 \<le> min (max n 1) (length (slots s))" using assms(1) by (cases "slots s") (auto simp: session_ok_def)
  with assms(2) [OF this] assms(1) show ?thesis
    by (auto simp: setSpread_def session_ok_def Let_def)
qed

section \<open>Invariants of a whole retried operation\<close>

lemma session_do_invariant:
  assumes "P st"
    and acq: "\<And>st i st'. P st \<Longrightarrow> acquire cfg env 0 st = (i, st') \<Longrightarrow> P st'"
    and act: "\<And>s w c x w'. P (s, w) \<Longrightarrow> action c w = (x, w') \<Longrightarrow> P (s, w')"
    and rec: "\<And>st i x st'. P st \<Longrightarrow> reconnect cfg env watch i (gen (conn_at (fst st) i)) st = (x, st') \<Longrightarrow> P st'"
    and run: "session_do cfg env watch action st = (r, st')"
  shows "P st'"
  using run \<open>P st\<close>
proof (induction "Retries cfg - reconnects (fst st)" arbitrary: st rule: less_induct)
  case less
  from less.prems(1) show ?case
  proof (cases rule: session_do_cases)
    case (redialed i s w e w' c st1)
    have "P (s, w')" using acq [OF less.prems(2) redialed(1)] act redialed(2) by blast
    with rec [of "(s, w')" i _ st1] redialed(5) have "P st1" by simp
    moreover have "Retries cfg - reconnects (fst st1) < Retries cfg - reconnects (fst st)"
      using redial_measure [OF redialed(1) [symmetric] refl redialed(5) [symmetric] refl] .
    ultimately show ?thesis using less.hyps redialed(6) by blast
  next
    case (lost i s w e w' re)
    have "P (s, w')" using acq [OF less.prems(2) lost(1)] act lost(2) by blast
    with rec [of "(s, w')" i _ st'] lost(5) show ?thesis by simp
  qed (use acq [OF less.prems(2)] act in blast)+
qed

lemma session_do_ok:
  assumes "session_ok cfg (fst st)" "session_do cfg env watch action st = (r, st')"
  shows "session_ok cfg (fst st')"
  by (rule session_do_invariant [where P = "\<lambda>st. session_ok cfg (fst st)", OF assms(1) _ _ _ assms(2)])
    (auto dest: acquire_ok reconnect_ok)

lemma session_do_success:
  assumes "session_do cfg env watch action st = (Inr a, st')"
  shows "\<exists>c w. action c w = (Inr a, snd st')"
  using assms
proof (induction "Retries cfg - reconnects (fst st)" arbitrary: st rule: less_induct)
  case less
  from less.prems show ?case
  proof (cases rule: session_do_cases)
    case (redialed i s w e w' c st1)
    with less.hyps [OF redial_measure [OF redialed(1) [symmetric] refl redialed(5) [symmetric] refl]]
    show ?thesis by blast
  qed auto
qed

text \<open>
  How often an operation can run: each rerun spends one unit of the run-wide budget. \<open>count\<close> is
  any meter of the world that only the operation moves, and by one per run.
\<close>

lemma session_do_attempts:
  assumes act: "\<And>c w. count (snd (action c w)) = Suc (count w)"
    and con: "\<And>w. count (snd (connect env w)) = count w"
    and clo: "\<And>c w. count (closeConn env c w) = count w"
    and slp: "\<And>n w. count (snd (sleepBackoff env n w)) = count w"
    and run: "session_do cfg env watch action st = (r, st')"
  shows "count (snd st') + reconnects (fst st) \<le> Suc (count (snd st) + reconnects (fst st'))"
  using run
proof (induction "Retries cfg - reconnects (fst st)" arbitrary: st rule: less_induct)
  case less
  have acq: "count w = count (snd st)" "reconnects s = reconnects (fst st)"
    if "acquire cfg env 0 st = (i, (s, w))" for i s w
  proof -
    show "reconnects s = reconnects (fst st)" using acquire_reconnects [OF that] by simp
    obtain s0 w0 where st: "st = (s0, w0)" by (cases st)
    have d: "count w' = count w0" if "dialPooled env s0 w0 = (d, w')" for d w'
      using that con [of w0] by (auto simp: dialPooled_def split: if_splits)
    from that [unfolded st] show "count w = count (snd st)"
      by (cases rule: acquire_cases) (auto simp: st dest: d)
  qed
  have one: "count w' = Suc (count (snd st))"
    if "acquire cfg env 0 st = (i, (s, w))" "action c w = (x, w')" for i s w c x w'
    using acq(1) [OF that(1)] act [of c w] that(2) by simp
  have rec: "count (snd st1) = count w"
    if "reconnect cfg env watch i g (s, w) = (x, st1)" for i g s w x st1
  proof -
    have "count w' = count w" if "redial env n c w = (y, w')" for n c y w'
      using that slp [of n w] con clo
      by (auto simp: redial_def split: prod.splits option.splits) (metis snd_conv)
    with that clo show ?thesis
      by (auto simp: reconnect_def Let_def split: if_splits prod.splits sum.splits)
  qed
  from less.prems show ?case
  proof (cases rule: session_do_cases)
    case (redialed i s w e w' c st1)
    have m: "Retries cfg - reconnects (fst st1) < Retries cfg - reconnects (fst st)"
      using redial_measure [OF redialed(1) [symmetric] refl redialed(5) [symmetric] refl] .
    have "reconnects (fst st1) = Suc (reconnects s)" using reconnect_spends(3) [OF redialed(5)] by simp
    with less.hyps [OF m redialed(6)] rec [OF redialed(5)] one [OF redialed(1,2)] acq(2) [OF redialed(1)]
    show ?thesis by simp
  next
    case (lost i s w e w' re)
    with reconnect_spends(1) [OF lost(5)] rec [OF lost(5)] one [OF lost(1,2)] acq(2) [OF lost(1)]
    show ?thesis by simp
  qed (use one acq in fastforce)+
qed

section \<open>What any interleaving of calls keeps\<close>

text \<open>
  The calls the workers make on a session, in any order, with the world moving on its own between
  them; \<open>clamp\<close> is the ceiling the policy puts on a spread. \<open>dials\<close> is a meter of the handshakes made
  so far: a connect moves it by one and nothing else does, the world between the calls included.
\<close>

definition dial_meter :: "('c, 'w) remote \<Rightarrow> ('w \<Rightarrow> nat) \<Rightarrow> bool" where
  "dial_meter env dials \<longleftrightarrow>
     (\<forall>w. dials (snd (connect env w)) = Suc (dials w)) \<and> (\<forall>c w. dials (closeConn env c w) = dials w) \<and>
     (\<forall>n w. dials (snd (sleepBackoff env n w)) = dials w)"

text \<open>The error that marks a dial the pool skipped is the session's own: no connect answers it.\<close>

definition marker_private :: "('c, 'w) remote \<Rightarrow> bool" where
  "marker_private env \<longleftrightarrow> (\<forall>w e w'. connect env w = (Inl e, w') \<longrightarrow> err_id e \<noteq> PoolRefused)"

inductive session_step ::
    "config \<Rightarrow> ('c, 'w) remote \<Rightarrow> (nat \<Rightarrow> nat) \<Rightarrow> ('w \<Rightarrow> nat) \<Rightarrow> ('c, 'w) state \<Rightarrow> ('c, 'w) state \<Rightarrow> bool"
  for cfg env clamp dials where
  step_acquire: "acquire cfg env index st = (i, st') \<Longrightarrow> session_step cfg env clamp dials st st'"
| step_reconnect: "reconnect cfg env watch i g st = (r, st') \<Longrightarrow> session_step cfg env clamp dials st st'"
| step_spread: "session_step cfg env clamp dials (s, w) (snd (setSpread clamp n s), w)"
| step_world: "dials w' = dials w \<Longrightarrow> session_step cfg env clamp dials (s, w) (s, w')"

inductive_cases session_stepE: "session_step cfg env clamp dials st st'"

text \<open>
  The dials a session made since its first, when the meter stood at \<open>n0\<close>, by what they were for. Every handshake after the first opened a connection
  of the pool, was the one the server refused, or was a redial paid from the budget; and a slot holds
  each connection and the refusal.
\<close>

definition slots_taken :: "'c session \<Rightarrow> nat" where
  "slots_taken s = length (filter (\<lambda>x. x \<noteq> None) (slots s))"

definition dials_accounted :: "nat \<Rightarrow> 'c session \<Rightarrow> nat \<Rightarrow> bool" where
  "dials_accounted n0 s n \<longleftrightarrow>
     Suc n \<le> n0 + length (heap s) + (if refused s then 1 else 0) + reconnects s \<and>
     length (heap s) + (if refused s then 1 else 0) \<le> slots_taken s"

lemma first_session_ok: "session_ok cfg (first_session pool c)"
  by (auto simp: session_ok_def first_session_def)

lemma dial_first_ok: "dial_first cfg env pool left w = (Inr s, w') \<Longrightarrow> session_ok cfg s"
  by (induction left arbitrary: w)
    (auto simp: first_session_ok split: prod.splits sum.splits option.splits if_splits)

lemma dial_first_accounted:
  "dial_first cfg env pool left w = (Inr s, w') \<Longrightarrow> dials_accounted n s n"
  by (induction left arbitrary: w)
    (auto simp: first_session_def dials_accounted_def slots_taken_def split: prod.splits sum.splits option.splits if_splits)

lemma session_step_ok:
  assumes "session_step cfg env clamp dials st st'" "session_ok cfg (fst st)"
    and "\<And>m. 1 \<le> m \<Longrightarrow> 1 \<le> clamp m \<and> clamp m \<le> m"
  shows "session_ok cfg (fst st')"
  using assms(1)
proof cases
  case (step_acquire index i)
  with acquire_ok assms(2) show ?thesis by blast
next
  case (step_reconnect watch i g r)
  with reconnect_ok assms(2) show ?thesis by blast
next
  case (step_spread s w n)
  with setSpread_ok [of cfg s clamp n] assms(2,3) show ?thesis by simp
qed (use assms in auto)

lemma session_steps_ok:
  assumes "(session_step cfg env clamp dials)\<^sup>*\<^sup>* st st'" "session_ok cfg (fst st)"
    and "\<And>m. 1 \<le> m \<Longrightarrow> 1 \<le> clamp m \<and> clamp m \<le> m"
  shows "session_ok cfg (fst st')"
  using assms(1)
  by (induction rule: rtranclp_induct) (use session_step_ok assms(2,3) in blast)+

lemma acquire_latch:
  assumes "acquire cfg env index st = (i, st')" "refused (fst st)"
  shows "refused (fst st')" "spread (fst st') = spread (fst st)" "snd st' = snd st"
proof -
  obtain s w where st: "st = (s, w)" by (cases st)
  have d: "dialPooled env s w = (Inl errPoolRefused, w)" using assms(2) st by (simp add: dialPooled_def)
  have n: "noteDialFailure cfg errPoolRefused s = s" by (simp add: noteDialFailure_def errPoolRefused_def)
  from assms(1) [unfolded st]
  have "refused (fst st') \<and> spread (fst st') = spread (fst st) \<and> snd st' = snd st"
    by (cases rule: acquire_cases) (use d n assms(2) st in auto)
  then show "refused (fst st')" "spread (fst st') = spread (fst st)" "snd st' = snd st" by simp_all
qed

lemma session_step_latch:
  assumes "session_step cfg env clamp dials st st'" "refused (fst st)"
  shows "refused (fst st') \<and> spread (fst st') \<le> spread (fst st)"
  using assms(1)
proof cases
  case (step_acquire index i)
  with acquire_latch assms(2) show ?thesis by (metis order_refl)
next
  case (step_reconnect watch i g r)
  with assms(2) show ?thesis
    by (auto simp: reconnect_def Let_def split: prod.splits sum.splits if_splits)
qed (use assms in \<open>auto simp: setSpread_def Let_def\<close>)

lemma taken_bounds: "slots_taken s \<le> length (slots s)"
  by (simp add: slots_taken_def)

lemma fill_slot:
  assumes "k < length xs" "xs ! k = None"
  shows "length (filter (\<lambda>x. x \<noteq> None) (xs[k := Some i])) = Suc (length (filter (\<lambda>x. x \<noteq> None) xs))"
proof -
  let ?n = "\<lambda>xs. length (filter (\<lambda>x. x \<noteq> None) xs)"
  have "?n xs = ?n (take k xs) + ?n (drop (Suc k) xs)"
    using arg_cong [OF id_take_nth_drop [OF assms(1)], of ?n] assms(2) by simp
  moreover have "?n (xs[k := Some i]) = Suc (?n (take k xs) + ?n (drop (Suc k) xs))"
    using arg_cong [OF upd_conv_take_nth_drop [OF assms(1)], of ?n "Some i"] by simp
  ultimately show ?thesis by simp
qed

text \<open>One acquisition: what it dials, and that a dial which opens nothing sets the latch.\<close>

lemma acquire_dials:
  assumes ac: "acquire cfg env index (s, w) = (i, (s', w'))" and ok: "session_ok cfg s"
    and m: "dial_meter env dials" and own: "marker_private env"
  shows "reconnects s' = reconnects s" "slots_taken s \<le> slots_taken s'"
    "if dials w' = dials w then heap s' = heap s \<and> refused s' = refused s
     else dials w' = Suc (dials w) \<and> \<not> refused s \<and> slots_taken s' = Suc (slots_taken s) \<and>
       (if refused s' then heap s' = heap s \<and> (FixedConnections cfg = 0 \<longrightarrow> spread s' = openSlots s)
        else length (heap s') = Suc (length (heap s)))"
proof -
  let ?k = "index mod max (spread s) 1"
  note k = slot_in_range [OF ok, of index]
  have fill: "slots_taken (t\<lparr>slots := (slots s)[?k := Some j]\<rparr>) = Suc (slots_taken s)" if "slots s ! ?k = None" for j and t :: "'a session"
    using fill_slot [OF k that] by (simp add: slots_taken_def)
  have "reconnects s' = reconnects s \<and> slots_taken s \<le> slots_taken s' \<and>
    (if dials w' = dials w then heap s' = heap s \<and> refused s' = refused s
     else dials w' = Suc (dials w) \<and> \<not> refused s \<and> slots_taken s' = Suc (slots_taken s) \<and>
       (if refused s' then heap s' = heap s \<and> (FixedConnections cfg = 0 \<longrightarrow> spread s' = openSlots s)
        else length (heap s') = Suc (length (heap s))))"
    using ac
  proof (cases rule: acquire_cases)
    case (denied e w1)
    show ?thesis
    proof (cases "refused s")
      case True
      then have "e = errPoolRefused" "w1 = w" using denied(2) by (simp_all add: dialPooled_def)
      moreover from this have "noteDialFailure cfg e s = s" by (simp add: noteDialFailure_def errPoolRefused_def)
      ultimately show ?thesis using denied(4) fill [OF denied(1), where t = s and j = i] by simp
    next
      case False
      then have c: "connect env w = (Inl e, w1)" using denied(2) by (simp add: dialPooled_def)
      have d: "dials w1 = Suc (dials w)" using m c by (metis dial_meter_def snd_conv)
      have n: "refused (noteDialFailure cfg e s)" "heap (noteDialFailure cfg e s) = heap s"
        "slots (noteDialFailure cfg e s) = slots s" "reconnects (noteDialFailure cfg e s) = reconnects s"
        "FixedConnections cfg = 0 \<longrightarrow> spread (noteDialFailure cfg e s) = openSlots s"
        using own c by (auto simp: noteDialFailure_def openSlots_def marker_private_def Let_def)
      with False d denied(4) fill [OF denied(1), where t = "noteDialFailure cfg e s" and j = i] show ?thesis by simp
    qed
  next
    case (dialed c w1)
    have r: "\<not> refused s" using dialed(2) by (auto simp: dialPooled_def split: if_splits)
    then have "connect env w = (Inr c, w1)" using dialed(2) by (simp add: dialPooled_def)
    then have "dials w1 = Suc (dials w)" using m by (metis dial_meter_def snd_conv)
    with r dialed(4) fill [OF dialed(1), where t = "s\<lparr>heap := heap s @ [\<lparr>client = c, gen = 0\<rparr>]\<rparr>" and j = i] show ?thesis by simp
  qed simp
  then show "reconnects s' = reconnects s" "slots_taken s \<le> slots_taken s'"
    "if dials w' = dials w then heap s' = heap s \<and> refused s' = refused s
     else dials w' = Suc (dials w) \<and> \<not> refused s \<and> slots_taken s' = Suc (slots_taken s) \<and>
       (if refused s' then heap s' = heap s \<and> (FixedConnections cfg = 0 \<longrightarrow> spread s' = openSlots s)
        else length (heap s') = Suc (length (heap s)))" by blast+
qed

text \<open>One redial: at most one handshake, and then one unit of the budget.\<close>

lemma reconnect_dials:
  assumes "reconnect cfg env watch i g (s, w) = (r, (s', w'))" "dial_meter env dials"
  shows "dials w' + reconnects s \<le> dials w + reconnects s'" "reconnects s \<le> reconnects s'"
    "length (heap s') = length (heap s)" "refused s' = refused s" "spread s' = spread s" "slots s' = slots s"
proof -
  have rd: "dials w1 \<le> Suc (dials w)" if "redial env n c w = (x, w1)" for n c x w1
  proof -
    obtain e w2 where z: "sleepBackoff env n w = (e, w2)" by (meson surj_pair)
    have "dials w2 = dials w" using assms(2) z by (metis dial_meter_def snd_conv)
    with that z assms(2) show ?thesis
      by (cases e) (auto simp: redial_def dial_meter_def dest: arg_cong [where f = "dials \<circ> snd"])
  qed
  have cl: "dials (closeConn env c w) = dials w" for c w using assms(2) by (simp add: dial_meter_def)
  have "dials w' + reconnects s \<le> dials w + reconnects s' \<and> reconnects s \<le> reconnects s' \<and>
    length (heap s') = length (heap s) \<and> refused s' = refused s \<and> spread s' = spread s \<and> slots s' = slots s"
    using assms(1) rd by (auto simp: reconnect_def cl Let_def split: if_splits prod.splits sum.splits)
  then show "dials w' + reconnects s \<le> dials w + reconnects s'" "reconnects s \<le> reconnects s'"
    "length (heap s') = length (heap s)" "refused s' = refused s" "spread s' = spread s" "slots s' = slots s" by blast+
qed

text \<open>What one step, whatever it is, does to the account.\<close>

lemma session_step_dials:
  assumes step: "session_step cfg env clamp dials (s, w) (s', w')" and ok: "session_ok cfg s"
    and m: "dial_meter env dials" and own: "marker_private env"
  shows "(dials_accounted n0 s (dials w) \<longrightarrow> dials_accounted n0 s' (dials w')) \<and>
    (dials w + reconnects s' < dials w' + reconnects s \<longrightarrow>
       \<not> refused s \<and> (refused s' \<or> length (heap s') = Suc (length (heap s)))) \<and>
    (\<not> refused s \<and> refused s' \<and> FixedConnections cfg = 0 \<longrightarrow> spread s' = openSlots s)"
  using step
proof cases
  case (step_acquire index i)
  note a = acquire_dials [OF step_acquire ok m own]
  from a show ?thesis by (auto simp: dials_accounted_def split: if_splits)
next
  case (step_reconnect watch i g r)
  from reconnect_dials [OF step_reconnect m] show ?thesis by (auto simp: dials_accounted_def slots_taken_def)
next
  case (step_spread n)
  then show ?thesis by (auto simp: setSpread_def dials_accounted_def slots_taken_def Let_def)
qed (auto simp: dials_accounted_def)

lemma session_steps_dials:
  assumes "(session_step cfg env clamp dials)\<^sup>*\<^sup>* (s0, w0) st" "session_ok cfg s0" "dials_accounted n0 s0 (dials w0)"
    and "\<And>m. 1 \<le> m \<Longrightarrow> 1 \<le> clamp m \<and> clamp m \<le> m" "dial_meter env dials"
    and "marker_private env"
  shows "session_ok cfg (fst st) \<and> dials_accounted n0 (fst st) (dials (snd st))"
  using assms(1)
proof (induction rule: rtranclp_induct)
  case (step st st')
  obtain s w s' w' where st: "st = (s, w)" "st' = (s', w')" by (metis surj_pair)
  have ok: "session_ok cfg s" using step.IH st by simp
  have "session_ok cfg s'" using session_step_ok [OF step.hyps(2) _ assms(4)] step.IH st by simp
  with session_step_dials [OF step.hyps(2) [unfolded st] ok assms(5,6), of n0] step.IH st show ?case by simp
qed (use assms(2,3) in simp)


text \<open>
  A server that grants one connection: it counts the handshakes as entries of its disk and refuses
  what its script says. The second slot's dial is refused, and the latch stops the third.
\<close>

definition strict_server :: "(unit, ram) remote" where
  "strict_server = (ram_env [] True)
     \<lparr>connect := \<lambda>w. case script w of
        Some e # r \<Rightarrow> (Inl (Err Plain ''too many sessions''), w\<lparr>disk := (''dial'', []) # disk w, script := r\<rparr>)
      | _ \<Rightarrow> (Inr (), w\<lparr>disk := (''dial'', []) # disk w, script := tl (script w)\<rparr>)\<rparr>"

definition strict_world :: ram where
  "strict_world = \<lparr>disk = [], script = [None, Some (Err Plain ''full'')]\<rparr>"

definition ram_dials :: "ram \<Rightarrow> nat" where
  "ram_dials w = length (disk w)"

lemma strict_meter: "dial_meter strict_server ram_dials"
  by (auto simp: dial_meter_def strict_server_def ram_env_def ram_dials_def split: list.split option.split)

lemma strict_marker: "marker_private strict_server"
  by (auto simp: marker_private_def strict_server_def split: list.splits option.splits)

definition strict_start :: "(goerr, unit session) result \<times> ram" where
  "strict_start = newSession sample_config strict_server 3 strict_world"

definition strict_spread :: "(unit, ram) state" where
  "strict_spread = (snd (setSpread (\<lambda>n. n) 3 (first_session 3 ())), snd strict_start)"

definition strict_refused :: "(unit, ram) state" where
  "strict_refused = snd (acquire sample_config strict_server 1 strict_spread)"


end
