(* ===== verification/Guard.thy ===== *)
theory Guard
  imports Session
begin

text \<open>
  What a phase may ask of the server. The interface \<open>guarded_env\<close> collects, for a predicate on
  worlds, that every harmless request keeps it and that a destructive request keeps it when the
  request is allowed, writing to a file included when truncating it is; a phase that only makes allowed requests then keeps the predicate, through any
  number of retries and redials. The traced environment provides the interface for the predicate
  that everything noted so far was allowed, which turns each lemma into a statement about the
  requests a run makes.
\<close>

locale quiet_env =
  fixes env :: "('c, 'w) remote" and P :: "'w \<Rightarrow> bool"
  assumes keep_connect: "P w \<Longrightarrow> P (snd (connect env w))"
    and keep_close: "P w \<Longrightarrow> P (closeConn env c w)"
    and keep_sleep: "P w \<Longrightarrow> P (snd (sleepBackoff env n w))"
begin

lemma dialPooled_keeps: "P w \<Longrightarrow> P (snd (dialPooled env s w))"
  by (simp add: dialPooled_def keep_connect)

lemma acquire_keeps:
  assumes "P (snd st)" "acquire cfg env index st = (i, st')"
  shows "P (snd st')"
proof -
  obtain s w where st: "st = (s, w)" by (cases st)
  have "P (snd (dialPooled env s w))" using assms(1) st dialPooled_keeps by simp
  with assms(2) [unfolded st] assms(1) st show ?thesis
    by (cases rule: acquire_cases) auto
qed

lemma redial_keeps: "P w \<Longrightarrow> P (snd (redial env n c w))"
  using keep_sleep [of w n]
  by (auto simp: redial_def keep_connect keep_close split: prod.splits option.splits)

lemma reconnect_keeps:
  assumes "P (snd st)" "reconnect cfg env watch i g st = (r, st')"
  shows "P (snd st')"
proof -
  obtain s w where st: "st = (s, w)" by (cases st)
  define s' where "s' = s\<lparr>reconnects := Suc (reconnects s)\<rparr>"
  have "P (snd (redial env (reconnects s') (client (conn_at s i)) w))"
    using redial_keeps assms(1) st by simp
  with assms st show ?thesis
    by (auto simp: reconnect_def Let_def s'_def [symmetric] keep_close
        split: if_splits prod.splits sum.splits)
qed

text \<open>A retried operation that succeeds ended with a round in which its action succeeded.\<close>

lemma session_do_last:
  assumes "P (snd st)" "\<And>c w. P w \<Longrightarrow> P (snd (action c w))"
    and "session_do cfg env watch action st = (Inr a, st')"
  shows "\<exists>c w. P w \<and> action c w = (Inr a, snd st')"
  using assms(1,3)
proof (induction "Retries cfg - reconnects (fst st)" arbitrary: st rule: less_induct)
  case less
  from less.prems(2) show ?case
  proof (cases rule: session_do_cases)
    case (completed i s w b w')
    have "P w" using acquire_keeps [OF less.prems(1) completed(1)] by simp
    with completed show ?thesis by auto
  next
    case (redialed i s w e w' c st1)
    have "P w" using acquire_keeps [OF less.prems(1) redialed(1)] by simp
    then have "P w'" using assms(2) redialed(2) by (metis snd_conv)
    then have P1: "P (snd st1)" by (intro reconnect_keeps [OF _ redialed(5)]) simp
    have "Retries cfg - reconnects (fst st1) < Retries cfg - reconnects (fst st)"
      by (rule redial_measure [OF redialed(1) [symmetric] refl redialed(5) [symmetric] refl])
    from less.hyps [OF this P1 redialed(6)] show ?thesis .
  qed simp_all
qed

lemma session_do_keeps:
  assumes "P (snd st)" "\<And>c w. P w \<Longrightarrow> P (snd (action c w))"
    and "session_do cfg env watch action st = (r, st')"
  shows "P (snd st')"
proof (rule session_do_invariant [where P = "\<lambda>st. P (snd st)", OF assms(1) _ _ _ assms(3)])
  show "P (snd (s, w'))" if "P (snd (s, w))" "action c w = (x, w')" for s w c x w'
    using that assms(2) [of w c] by simp
qed (auto dest: acquire_keeps reconnect_keeps)

end

locale guarded_env = quiet_env +
  fixes allowed :: "request \<Rightarrow> bool"
  assumes guard_remove: "P w \<Longrightarrow> allowed (RemoveReq p) \<Longrightarrow> P (snd (Remove env c p w))"
    and guard_rmdir: "P w \<Longrightarrow> allowed (RmdirReq p) \<Longrightarrow> P (snd (RemoveDirectory env c p w))"
    and guard_rename: "P w \<Longrightarrow> allowed (RenameReq p q) \<Longrightarrow> P (snd (Rename env c p q w))"
    and guard_posix: "P w \<Longrightarrow> allowed (PosixRenameReq p q) \<Longrightarrow> P (snd (PosixRename env c p q w))"
    and guard_trunc: "P w \<Longrightarrow> allowed (TruncReq p) \<Longrightarrow> P (snd (OpenTrunc env c p w))"
    and keep_stat: "P w \<Longrightarrow> P (snd (Stat env c p w))"
    and keep_lstat: "P w \<Longrightarrow> P (snd (Lstat env c p w))"
    and keep_readdir: "P w \<Longrightarrow> P (snd (ReadDir env c p w))"
    and keep_mkdir: "P w \<Longrightarrow> P (snd (MkdirAll env c p w))"
    and keep_chmod: "P w \<Longrightarrow> P (snd (Chmod env c p m w))"
    and keep_chtimes: "P w \<Longrightarrow> P (snd (Chtimes env c p t w))"
    and guard_stream: "P w \<Longrightarrow> allowed (TruncReq p) \<Longrightarrow> P (snd (StreamFrom env c p src k w))"
    and guard_write: "P w \<Longrightarrow> allowed (TruncReq p) \<Longrightarrow> P (snd (WriteAll env c p d w))"
    and keep_closefile: "P w \<Longrightarrow> P (snd (CloseFile env c p w))"
    and keep_openread: "P w \<Longrightarrow> P (snd (OpenRead env c p w))"
    and keep_read: "P w \<Longrightarrow> P (snd (ReadLimited env c p l w))"

definition all_noted :: "(request \<Rightarrow> bool) \<Rightarrow> 'w noted \<Rightarrow> bool" where
  "all_noted ok s \<longleftrightarrow> (\<forall>r \<in> set (snd s). ok r)"

lemma all_noted_noting [simp]:
  "all_noted ok (snd (noting f rs s)) \<longleftrightarrow> (\<forall>r \<in> set rs. ok r) \<and> all_noted ok s"
  by (auto simp: all_noted_def)

interpretation tr: guarded_env "traced env" "all_noted ok" ok for env ok
  by unfold_locales (simp_all add: traced_def, simp_all add: all_noted_def)

end
