(* ===== verification/Delete_Budget.thy ===== *)
theory Delete_Budget
  imports Prelude
begin

text \<open>
  The run-wide removal budget behind \<open>safety.max_deletes\<close> (\<open>deleteBudget\<close> in
  \<open>internal/uploader/remote.go\<close>): \<open>reserve\<close> charges a batch before it runs, \<open>take\<close> one
  removal at a time, \<open>refund\<close> gives a charge back. The interface \<open>charge_account\<close> states what a
  phase may rely on; the budget provides it, and the property is that no sequence of calls, however
  the workers interleave them, lets more removals through than the limit.
\<close>

section \<open>The budget\<close>

record deleteBudget =
  limit :: int
  spent :: int

datatype budget_error =
    PastLimit int int int
  | ExceedsLimit int int

definition newDeleteBudget :: "int \<Rightarrow> deleteBudget" where
  "newDeleteBudget maxDeletes = \<lparr>limit = maxDeletes, spent = 0\<rparr>"

definition reserve :: "int \<Rightarrow> deleteBudget \<Rightarrow> budget_error option \<times> deleteBudget" where
  "reserve n b =
     (if limit b > 0 \<and> spent b + n > limit b then
        (if spent b > 0 then (Some (PastLimit n (spent b) (limit b)), b)
         else (Some (ExceedsLimit n (limit b)), b))
      else (None, b\<lparr>spent := spent b + n\<rparr>))"

definition take_one :: "deleteBudget \<Rightarrow> bool \<times> deleteBudget" where
  "take_one b =
     (if limit b > 0 \<and> spent b \<ge> limit b then (False, b) else (True, b\<lparr>spent := spent b + 1\<rparr>))"

definition refund :: "deleteBudget \<Rightarrow> deleteBudget" where
  "refund b = (if spent b > 0 then b\<lparr>spent := spent b - 1\<rparr> else b)"

section \<open>What the budget promises\<close>

text \<open>
  A sequence of calls on an account, and the net number of removals it let through: what was
  granted, less what was given back.
\<close>

datatype charge = ChargeMany nat | ChargeOne | GiveBack

fun run_charges ::
    "(int \<Rightarrow> 'b \<Rightarrow> bool \<times> 'b) \<Rightarrow> ('b \<Rightarrow> bool \<times> 'b) \<Rightarrow> ('b \<Rightarrow> 'b) \<Rightarrow> charge list \<Rightarrow> int \<Rightarrow> 'b \<Rightarrow> int \<times> 'b" where
  "run_charges many one undo [] net b = (net, b)"
| "run_charges many one undo (ChargeMany n # cs) net b =
     (case many (int n) b of (ok, b') \<Rightarrow> run_charges many one undo cs (if ok then net + int n else net) b')"
| "run_charges many one undo (ChargeOne # cs) net b =
     (case one b of (ok, b') \<Rightarrow> run_charges many one undo cs (if ok then net + 1 else net) b')"
| "run_charges many one undo (GiveBack # cs) net b = run_charges many one undo cs (net - 1) (undo b)"

text \<open>The contract: a balance of at most the limit, moved by the granted amount.\<close>

locale charge_account =
  fixes valid :: "'b \<Rightarrow> bool" and balance :: "'b \<Rightarrow> int" and ceiling_of :: "'b \<Rightarrow> int"
    and many :: "int \<Rightarrow> 'b \<Rightarrow> bool \<times> 'b"
    and one :: "'b \<Rightarrow> bool \<times> 'b"
    and undo :: "'b \<Rightarrow> 'b"
  assumes many_granted: "many n b = (True, b') \<Longrightarrow> valid b \<Longrightarrow> 0 \<le> n \<Longrightarrow>
        valid b' \<and> balance b' = balance b + n"
    and many_refused: "many n b = (False, b') \<Longrightarrow> b' = b"
    and one_granted: "one b = (True, b') \<Longrightarrow> valid b \<Longrightarrow> valid b' \<and> balance b' = balance b + 1"
    and one_refused: "one b = (False, b') \<Longrightarrow> b' = b"
    and given_back: "valid b \<Longrightarrow> valid (undo b) \<and> balance b - 1 \<le> balance (undo b)"
    and ceiling_fixed: "ceiling_of (snd (many n b)) = ceiling_of b" "ceiling_of (snd (one b)) = ceiling_of b"
      "ceiling_of (undo b) = ceiling_of b"
begin

lemma run_charges_bounded:
  "valid b \<Longrightarrow> net \<le> balance b \<Longrightarrow> run_charges many one undo cs net b = (net', b') \<Longrightarrow>
     valid b' \<and> net' \<le> balance b' \<and> ceiling_of b' = ceiling_of b"
proof (induction cs arbitrary: net b)
  case (Cons c cs)
  show ?case
  proof (cases c)
    case (ChargeMany n)
    obtain ok b1 where m: "many (int n) b = (ok, b1)" by fastforce
    have "valid b1 \<and> (if ok then net + int n else net) \<le> balance b1 \<and> ceiling_of b1 = ceiling_of b"
      using m Cons.prems many_granted [of "int n" b b1] many_refused [of "int n" b b1]
        ceiling_fixed(1) [of "int n" b] by (cases ok) auto
    with Cons.IH [of b1] Cons.prems(3) ChargeMany m show ?thesis by auto
  next
    case ChargeOne
    obtain ok b1 where o: "one b = (ok, b1)" by fastforce
    have "valid b1 \<and> (if ok then net + 1 else net) \<le> balance b1 \<and> ceiling_of b1 = ceiling_of b"
      using o Cons.prems one_granted [of b b1] one_refused [of b b1] ceiling_fixed(2) [of b]
      by (cases ok) auto
    with Cons.IH [of b1] Cons.prems(3) ChargeOne o show ?thesis by auto
  next
    case GiveBack
    with Cons.IH [of "undo b" "net - 1"] Cons.prems given_back [of b] ceiling_fixed(3) [of b]
    show ?thesis by auto
  qed
qed simp

end

definition within_limit :: "deleteBudget \<Rightarrow> bool" where
  "within_limit b \<longleftrightarrow> 0 \<le> spent b \<and> (limit b > 0 \<longrightarrow> spent b \<le> limit b)"

definition reserved :: "int \<Rightarrow> deleteBudget \<Rightarrow> bool \<times> deleteBudget" where
  "reserved n b = (case reserve n b of (e, b') \<Rightarrow> (e = None, b'))"

lemma reserved_cases:
  "reserved n b =
     (if limit b > 0 \<and> spent b + n > limit b then (False, b) else (True, b\<lparr>spent := spent b + n\<rparr>))"
  by (simp add: reserved_def reserve_def)

interpretation budget: charge_account within_limit spent limit reserved take_one refund
  by unfold_locales
    (auto simp: within_limit_def reserved_cases take_one_def refund_def split: if_splits)

text \<open>
  However reservations, single charges and refunds follow each other in a run, the
  removals they let through (what was granted, less what was given back) never exceed a positive
  \<open>safety.max_deletes\<close>, and the recorded balance stays between zero and the limit.
\<close>

theorem budget_never_exceeded:
  assumes "0 < maxDeletes"
    and "run_charges reserved take_one refund cs 0 (newDeleteBudget maxDeletes) = (net, b)"
  shows "net \<le> maxDeletes \<and> 0 \<le> spent b \<and> spent b \<le> maxDeletes"
proof -
  have "within_limit b \<and> net \<le> spent b \<and> limit b = limit (newDeleteBudget maxDeletes)"
    by (rule budget.run_charges_bounded [OF _ _ assms(2)])
      (use assms(1) in \<open>simp_all add: newDeleteBudget_def within_limit_def\<close>)
  then show ?thesis using assms(1) by (auto simp: within_limit_def newDeleteBudget_def)
qed

theorem budget_never_exceeded_witness:
  "fst (run_charges reserved take_one refund [ChargeMany 2, ChargeOne, ChargeOne, GiveBack, ChargeOne]
     0 (newDeleteBudget 3)) \<le> 3"
proof -
  have r: "run_charges reserved take_one refund [ChargeMany 2, ChargeOne, ChargeOne, GiveBack, ChargeOne]
      0 (newDeleteBudget 3) = (3, \<lparr>limit = 3, spent = 3\<rparr>)"
    by code_simp
  have "(3 :: int) \<le> 3 \<and> 0 \<le> spent \<lparr>limit = 3, spent = 3\<rparr> \<and> spent \<lparr>limit = 3, spent = 3\<rparr> \<le> 3"
    by (rule budget_never_exceeded [OF _ r]) simp
  then show ?thesis unfolding r by simp
qed

end
