(* ===== verification/Deletion.thy ===== *)
theory Deletion
  imports Guard Delete_Budget Remote_Path
begin

text \<open>
  The removing phases: absence checks, the delete sweep, directory removal by depth
  (\<open>internal/uploader/delete.go\<close>) and the recursive listing of a clean deployment's target
  (\<open>listRemoteContents\<close>, \<open>remoteAbsent\<close> in \<open>remote.go\<close>). Each keeps every predicate its
  removals keep; the listing returns only paths below its root.
\<close>

section \<open>Operations\<close>

definition remoteAbsent ::
    "('c, 'w) remote \<Rightarrow> 'c \<Rightarrow> string \<Rightarrow> 'w \<Rightarrow> (goerr, bool) result \<times> 'w" where
  "remoteAbsent env c p w =
     (case Lstat env c p w of
        (Inr _, w') \<Rightarrow> (Inr False, w')
      | (Inl e, w') \<Rightarrow>
          if isConnError e then (Inl e, w')
          else if err_id e = Permission then (Inr False, w')
          else (Inr True, w'))"

definition delete_action ::
    "('c, 'w) remote \<Rightarrow> string \<Rightarrow> 'c \<Rightarrow> 'w \<Rightarrow> (goerr, unit) result \<times> 'w" where
  "delete_action env p c w =
     (case Remove env c p w of
        (None, w') \<Rightarrow> (Inr (), w')
      | (Some e, w') \<Rightarrow>
          if err_id e = NotExist then (Inr (), w')
          else
            (case remoteAbsent env c p w' of
               (Inl ae, w'') \<Rightarrow> (Inl ae, w'')
             | (Inr absent, w'') \<Rightarrow> if absent then (Inr (), w'') else (Inl e, w'')))"

definition delete_item ::
    "config \<Rightarrow> ('c, 'w) remote \<Rightarrow> bool \<Rightarrow> string list \<Rightarrow> nat \<Rightarrow> bool list \<times> ('c, 'w) state
       \<Rightarrow> goerr option \<times> bool list \<times> ('c, 'w) state" where
  "delete_item cfg env watch paths i s =
     (case s of (deleted, st) \<Rightarrow>
        case session_do cfg env watch (delete_action env (paths ! i)) st of
          (Inl e, st') \<Rightarrow> (Some (Wrap (''deleting '' @ go_quote (paths ! i) @ '': '') e []), (deleted, st'))
        | (Inr _, st') \<Rightarrow> (None, (deleted[i := True], st')))"

definition deleteRemoteFiles ::
    "config \<Rightarrow> ('c, 'w) remote \<Rightarrow> bool \<Rightarrow> string list \<Rightarrow> ('c, 'w) state
       \<Rightarrow> (bool list \<times> goerr option) \<times> ('c, 'w) state" where
  "deleteRemoteFiles cfg env watch paths st =
     (if DryRun cfg then ((replicate (length paths) True, None), st)
      else
        (case runBounded (\<lambda>(_, _, w). ctx_err env w) (\<lambda>l n (_, _, w). schedule env l n w)
                (workers cfg (length paths)) (length paths) (delete_item cfg env watch paths)
                (replicate (length paths) False, st) of
           (err, (deleted, st')) \<Rightarrow> ((deleted, err), st')))"

definition countDeleted :: "bool list \<Rightarrow> nat" where
  "countDeleted deleted = length (filter (\<lambda>ok. ok) deleted)"

section \<open>Removing directories by depth\<close>

definition depth_of :: "string \<Rightarrow> nat" where
  "depth_of dir = count_list (path_clean dir) (CHR ''/'')"

definition rmdir_action ::
    "('c, 'w) remote \<Rightarrow> string \<Rightarrow> 'c \<Rightarrow> 'w \<Rightarrow> (goerr, unit) result \<times> 'w" where
  "rmdir_action env p c w =
     (case RemoveDirectory env c p w of
        (None, w') \<Rightarrow> (Inr (), w')
      | (Some e, w') \<Rightarrow> (Inl e, w'))"

type_synonym ('c, 'w) pruning = "nat \<times> deleteBudget option \<times> ('c, 'w) state"

definition rmdir_item ::
    "config \<Rightarrow> ('c, 'w) remote \<Rightarrow> bool \<Rightarrow> string list \<Rightarrow> nat \<Rightarrow> ('c, 'w) pruning
       \<Rightarrow> goerr option \<times> ('c, 'w) pruning" where
  "rmdir_item cfg env watch level i s =
     (case s of (removed, budget, st) \<Rightarrow>
        case (case budget of None \<Rightarrow> (True, None) | Some b \<Rightarrow> map_prod id Some (take_one b)) of
          (False, budget') \<Rightarrow> (None, (removed, budget', st))
        | (True, budget') \<Rightarrow>
            (case session_do cfg env watch (rmdir_action env (level ! i)) st of
               (Inr _, st') \<Rightarrow> (None, (Suc removed, budget', st'))
             | (Inl _, st') \<Rightarrow> (None, (removed, map_option refund budget', st'))))"

fun remove_levels ::
    "config \<Rightarrow> ('c, 'w) remote \<Rightarrow> bool \<Rightarrow> string list list \<Rightarrow> ('c, 'w) pruning \<Rightarrow> ('c, 'w) pruning" where
  "remove_levels cfg env watch [] s = s"
| "remove_levels cfg env watch (level # rest) s =
     remove_levels cfg env watch rest
       (snd (runBounded (\<lambda>(_, _, _, w). ctx_err env w) (\<lambda>l n (_, _, _, w). schedule env l n w)
              (workers cfg (length level)) (length level) (rmdir_item cfg env watch level) s))"

definition levels_of :: "string list \<Rightarrow> string list list" where
  "levels_of dirs =
     map (\<lambda>d. filter (\<lambda>dir. depth_of dir = d) dirs) (rev (sort (remdups (map depth_of dirs))))"

definition removeRemoteDirs ::
    "config \<Rightarrow> ('c, 'w) remote \<Rightarrow> bool \<Rightarrow> string list \<Rightarrow> deleteBudget option \<Rightarrow> ('c, 'w) state
       \<Rightarrow> ('c, 'w) pruning" where
  "removeRemoteDirs cfg env watch dirs budget st =
     (if dirs = [] then (0, budget, st)
      else if DryRun cfg then (length dirs, budget, st)
      else remove_levels cfg env watch (levels_of dirs) (0, budget, st))"

section \<open>Listing a tree\<close>

definition list_action ::
    "('c, 'w) remote \<Rightarrow> string \<Rightarrow> 'c \<Rightarrow> 'w \<Rightarrow> (goerr, file_info list) result \<times> 'w" where
  "list_action env dir c w =
     (case ReadDir env c dir w of
        (Inr listed, w') \<Rightarrow> (Inr listed, w')
      | (Inl e, w') \<Rightarrow>
          if os_IsNotExist e then (Inr [], w')
          else
            (case remoteAbsent env c dir w' of
               (Inl ae, w'') \<Rightarrow> (Inl ae, w'')
             | (Inr absent, w'') \<Rightarrow> if absent then (Inr [], w'') else (Inl e, w'')))"

definition list_item ::
    "config \<Rightarrow> ('c, 'w) remote \<Rightarrow> bool \<Rightarrow> string list \<Rightarrow> nat \<Rightarrow> file_info list list \<times> ('c, 'w) state
       \<Rightarrow> goerr option \<times> file_info list list \<times> ('c, 'w) state" where
  "list_item cfg env watch level i s =
     (case s of (entries, st) \<Rightarrow>
        case session_do cfg env watch (list_action env (level ! i)) st of
          (Inl e, st') \<Rightarrow> (Some (Wrap (''listing '' @ go_quote (level ! i) @ '': '') e []), (entries, st'))
        | (Inr listed, st') \<Rightarrow> (None, (entries[i := listed], st')))"

text \<open>One directory's entries: a name that does not stay inside it is skipped.\<close>

fun collect_entries ::
    "string \<Rightarrow> file_info list \<Rightarrow> string list \<times> string list \<Rightarrow> string list \<times> string list" where
  "collect_entries dir [] acc = acc"
| "collect_entries dir (e # es) (files, dirs) =
     (case safeChild dir (fi_name e) of
        Inl _ \<Rightarrow> collect_entries dir es (files, dirs)
      | Inr full \<Rightarrow>
          if fi_dir e then collect_entries dir es (files, dirs @ [full])
          else collect_entries dir es (files @ [full], dirs))"

fun collect_level ::
    "string list \<Rightarrow> file_info list list \<Rightarrow> string list \<times> string list \<Rightarrow> string list \<times> string list" where
  "collect_level (d # ds) (es # ess) acc = collect_level ds ess (collect_entries d es acc)"
| "collect_level _ _ acc = acc"

text \<open>
  The breadth-first loop. A server may keep answering with deeper directories, so the number of
  levels is fuel; \<open>None\<close> is running out of it.
\<close>

fun list_levels ::
    "config \<Rightarrow> ('c, 'w) remote \<Rightarrow> bool \<Rightarrow> nat \<Rightarrow> string list \<Rightarrow> string list \<times> string list
       \<Rightarrow> ('c, 'w) state \<Rightarrow> ((goerr, string list \<times> string list) result \<times> ('c, 'w) state) option" where
  "list_levels cfg env watch 0 level acc st = (if level = [] then Some (Inr acc, st) else None)"
| "list_levels cfg env watch (Suc fuel) level acc st =
     (if level = [] then Some (Inr acc, st)
      else
        (case runBounded (\<lambda>(_, _, w). ctx_err env w) (\<lambda>l n (_, _, w). schedule env l n w)
                (workers cfg (length level)) (length level) (list_item cfg env watch level)
                (replicate (length level) [], st) of
           (Some e, (entries, st')) \<Rightarrow> Some (Inl e, st')
         | (None, (entries, st')) \<Rightarrow>
             (case collect_level level entries ([], []) of
                (fs, ds) \<Rightarrow>
                  list_levels cfg env watch fuel (sort ds) (fst acc @ fs, snd acc @ ds) st')))"

definition listRemoteContents ::
    "config \<Rightarrow> ('c, 'w) remote \<Rightarrow> bool \<Rightarrow> nat \<Rightarrow> string \<Rightarrow> ('c, 'w) state
       \<Rightarrow> ((goerr, string list \<times> string list) result \<times> ('c, 'w) state) option" where
  "listRemoteContents cfg env watch fuel root st = list_levels cfg env watch fuel [root] ([], []) st"

section \<open>What the phases ask of the server\<close>

context guarded_env
begin

lemma remoteAbsent_keeps: "P w \<Longrightarrow> P (snd (remoteAbsent env c p w))"
  using keep_lstat [of w c p] by (auto simp: remoteAbsent_def split: prod.splits sum.splits)

lemma delete_action_keeps: "P w \<Longrightarrow> allowed (RemoveReq p) \<Longrightarrow> P (snd (delete_action env p c w))"
  using guard_remove [of w p c] remoteAbsent_keeps [of "snd (Remove env c p w)" c p]
  by (auto simp: delete_action_def split: prod.splits option.splits sum.splits)

lemma rmdir_action_keeps: "P w \<Longrightarrow> allowed (RmdirReq p) \<Longrightarrow> P (snd (rmdir_action env p c w))"
  using guard_rmdir [of w p c] by (auto simp: rmdir_action_def split: prod.splits option.splits)

lemma list_action_keeps: "P w \<Longrightarrow> P (snd (list_action env p c w))"
  using keep_readdir [of w c p] remoteAbsent_keeps [of "snd (ReadDir env c p w)" c p]
  by (auto simp: list_action_def split: prod.splits option.splits sum.splits)

lemma delete_item_keeps:
  assumes "P (snd (snd s))" "i < length paths" "\<forall>p \<in> set paths. allowed (RemoveReq p)"
  shows "P (snd (snd (snd (delete_item cfg env watch paths i s))))"
proof -
  obtain d st where s: "s = (d, st)" by (cases s)
  obtain r st' where r: "session_do cfg env watch (delete_action env (paths ! i)) st = (r, st')" by (meson surj_pair)
  have "P (snd st')"
    by (rule session_do_keeps [OF _ _ r]) (use assms s delete_action_keeps in auto)
  with r s show ?thesis by (cases r) (auto simp: delete_item_def)
qed

lemma deleteRemoteFiles_keeps:
  assumes "P (snd st)" "\<forall>p \<in> set paths. allowed (RemoveReq p)"
  shows "P (snd (snd (deleteRemoteFiles cfg env watch paths st)))"
proof -
  have "P (snd (snd (snd (runBounded (\<lambda>(_, _, w). ctx_err env w) (\<lambda>l n (_, _, w). schedule env l n w)
      (workers cfg (length paths)) (length paths) (delete_item cfg env watch paths)
      (replicate (length paths) False, st)))))"
    by (rule runBounded_invariant [where P = "\<lambda>s. P (snd (snd s))"])
      (use assms delete_item_keeps in auto)
  with assms(1) show ?thesis by (auto simp: deleteRemoteFiles_def split: prod.splits)
qed

lemma rmdir_item_keeps:
  assumes "P (snd (snd (snd s)))" "i < length level" "\<forall>d \<in> set level. allowed (RmdirReq d)"
  shows "P (snd (snd (snd (snd (rmdir_item cfg env watch level i s)))))"
proof -
  obtain n b st where s: "s = (n, b, st)" by (cases s)
  obtain r st' where r: "session_do cfg env watch (rmdir_action env (level ! i)) st = (r, st')" by (meson surj_pair)
  have "P (snd st')"
    by (rule session_do_keeps [OF _ _ r]) (use assms s rmdir_action_keeps in auto)
  with r s assms(1) show ?thesis by (auto simp: rmdir_item_def split: prod.splits sum.splits bool.splits)
qed

lemma remove_levels_keeps:
  "P (snd (snd (snd s))) \<Longrightarrow> \<forall>level \<in> set levels. \<forall>d \<in> set level. allowed (RmdirReq d) \<Longrightarrow>
     P (snd (snd (snd (remove_levels cfg env watch levels s))))"
proof (induction levels arbitrary: s)
  case (Cons level rest)
  have "P (snd (snd (snd (snd (runBounded (\<lambda>(_, _, _, w). ctx_err env w) (\<lambda>l n (_, _, _, w). schedule env l n w)
      (workers cfg (length level)) (length level) (rmdir_item cfg env watch level) s)))))"
    by (rule runBounded_invariant [where P = "\<lambda>s. P (snd (snd (snd s)))"])
      (use Cons.prems rmdir_item_keeps in auto)
  with Cons show ?case by simp
qed simp

lemma removeRemoteDirs_keeps:
  assumes "P (snd st)" "\<forall>d \<in> set dirs. allowed (RmdirReq d)"
  shows "P (snd (snd (snd (removeRemoteDirs cfg env watch dirs budget st))))"
  using assms remove_levels_keeps [of "(0, budget, st)" "levels_of dirs"]
  by (auto simp: removeRemoteDirs_def levels_of_def)

lemma list_item_keeps:
  assumes "P (snd (snd s))"
  shows "P (snd (snd (snd (list_item cfg env watch level i s))))"
proof -
  obtain d st where s: "s = (d, st)" by (cases s)
  obtain r st' where r: "session_do cfg env watch (list_action env (level ! i)) st = (r, st')" by (meson surj_pair)
  have "P (snd st')"
    by (rule session_do_keeps [OF _ _ r]) (use assms s list_action_keeps in auto)
  with r s show ?thesis by (cases r) (auto simp: list_item_def)
qed

lemma list_levels_keeps:
  "P (snd st) \<Longrightarrow> list_levels cfg env watch fuel level acc st = Some (r, st') \<Longrightarrow> P (snd st')"
proof (induction fuel arbitrary: level acc st)
  case (Suc fuel)
  let ?run = "runBounded (\<lambda>(_, _, w). ctx_err env w) (\<lambda>l n (_, _, w). schedule env l n w)
      (workers cfg (length level)) (length level) (list_item cfg env watch level)
      (replicate (length level) [], st)"
  have "P (snd (snd (snd ?run)))"
    by (rule runBounded_invariant [where P = "\<lambda>s. P (snd (snd s))"])
      (use Suc.prems(1) list_item_keeps in auto)
  then show ?case
    using Suc by (auto split: if_splits prod.splits option.splits)
qed (auto split: if_splits)

end

section \<open>The listing stays below its root\<close>

lemma collect_entries_below:
  "path_clean d \<noteq> ''.'' \<Longrightarrow> d \<noteq> [] \<Longrightarrow> collect_entries d es acc = (fs, ds) \<Longrightarrow>
     set fs \<union> set ds \<subseteq> set (fst acc) \<union> set (snd acc) \<union> {p. below d p}"
proof (induction d es acc arbitrary: fs ds rule: collect_entries.induct)
  case (2 d e es files dirs)
  show ?case
  proof (cases "safeChild d (fi_name e)")
    case (Inl x)
    with 2 show ?thesis by auto
  next
    case (Inr full)
    have b: "below d full" by (rule sc.join_below [OF 2(4,5) Inr])
    show ?thesis
    proof (cases "fi_dir e")
      case True
      with 2(2) [OF Inr True 2(4,5), of fs ds] 2(6) Inr b show ?thesis by auto
    next
      case False
      with 2(3) [OF Inr False 2(4,5), of fs ds] 2(6) Inr b show ?thesis by auto
    qed
  qed
qed auto

lemma collect_level_below:
  assumes "\<forall>d \<in> set level. path_clean d \<noteq> ''.'' \<and> d \<noteq> []"
    and "collect_level level ess acc = (fs, ds)" "p \<in> set fs \<union> set ds"
  shows "p \<in> set (fst acc) \<union> set (snd acc) \<or> (\<exists>d \<in> set level. below d p)"
  using assms
proof (induction level ess acc arbitrary: fs ds rule: collect_level.induct)
  case (1 d ds0 es ess acc)
  obtain fs1 ds1 where c: "collect_entries d es acc = (fs1, ds1)" by (meson surj_pair)
  have one: "set fs1 \<union> set ds1 \<subseteq> set (fst acc) \<union> set (snd acc) \<union> {p. below d p}"
    by (rule collect_entries_below [OF _ _ c]) (use 1 in auto)
  have "p \<in> set (fst (fs1, ds1)) \<union> set (snd (fs1, ds1)) \<or> (\<exists>d \<in> set ds0. below d p)"
    using 1(1) [of fs ds] 1(2-4) by (simp add: c)
  with one show ?case by auto
qed auto

lemma list_levels_below:
  assumes root: "path_clean root \<noteq> ''.''" "root \<noteq> []"
  shows "\<forall>d \<in> set level. d = root \<or> below root d \<Longrightarrow>
    \<forall>p \<in> set (fst acc) \<union> set (snd acc). below root p \<Longrightarrow>
    list_levels cfg env watch fuel level acc st = Some (Inr (fs, ds), st') \<Longrightarrow>
    p \<in> set fs \<union> set ds \<Longrightarrow> below root p"
proof (induction fuel arbitrary: level acc st)
  case 0
  then show ?case by (auto split: if_splits)
next
  case (Suc fuel)
  show ?case
  proof (cases "level = []")
    case True
    with Suc.prems show ?thesis by auto
  next
    case False
    let ?run = "runBounded (\<lambda>(_, _, w). ctx_err env w) (\<lambda>l n (_, _, w). schedule env l n w)
        (workers cfg (length level)) (length level) (list_item cfg env watch level)
        (replicate (length level) [], st)"
    obtain err entries st1 where run: "?run = (err, (entries, st1))" by (rule prod_cases3)
    obtain f1 d1 where c: "collect_level level entries ([], []) = (f1, d1)" by (meson surj_pair)
    have err: "err = None"
      using Suc.prems(3) unfolding list_levels.simps(2) run using False by (cases err) auto
    have ne: "\<forall>d \<in> set level. path_clean d \<noteq> ''.'' \<and> d \<noteq> []"
    proof
      fix d assume "d \<in> set level"
      with Suc.prems(1) consider "d = root" | "below root d" by blast
      then show "path_clean d \<noteq> ''.'' \<and> d \<noteq> []" using root below_not_dot by cases simp_all
    qed
    have new: "below root q" if q: "q \<in> set f1 \<union> set d1" for q
    proof -
      obtain d where "d \<in> set level" "below d q" using collect_level_below [OF ne c q] by auto
      moreover have "d = root \<or> below root d" using Suc.prems(1) \<open>d \<in> set level\<close> by blast
      ultimately show ?thesis using below_trans by blast
    qed
    show ?thesis
    proof (rule Suc.IH)
      show "list_levels cfg env watch fuel (sort d1) (fst acc @ f1, snd acc @ d1) st1
          = Some (Inr (fs, ds), st')"
        using Suc.prems(3) unfolding list_levels.simps(2) run using False c err by simp
    qed (use Suc.prems(2,4) new in auto)
  qed
qed

section \<open>How much a delete sweep can ask for\<close>

lemma traced_counts:
  "length (snd (snd (connect (traced env) w))) = length (snd w)"
  "length (snd (closeConn (traced env) c w)) = length (snd w)"
  "length (snd (snd (sleepBackoff (traced env) n w))) = length (snd w)"
  "length (snd (snd (delete_action (traced env) p c w))) = Suc (length (snd w))"
  by (auto simp: traced_def delete_action_def remoteAbsent_def noting_def
      split: prod.splits option.splits sum.splits)

lemma delete_item_meter:
  "int (length (snd (snd (snd (snd (delete_item cfg (traced env) watch paths i s)))))) -
      int (reconnects (fst (snd (snd (delete_item cfg (traced env) watch paths i s)))))
    \<le> int (length (snd (snd (snd s)))) - int (reconnects (fst (snd s))) + 1"
proof -
  obtain d st where s: "s = (d, st)" by (cases s)
  obtain r st' where r: "session_do cfg (traced env) watch (delete_action (traced env) (paths ! i)) st = (r, st')"
    by (meson surj_pair)
  have "length (snd (snd st')) + reconnects (fst st) \<le> Suc (length (snd (snd st)) + reconnects (fst st'))"
    by (rule session_do_attempts [where count = "\<lambda>w. length (snd w)", OF _ _ _ _ r])
      (simp_all add: traced_counts)
  then show ?thesis by (simp add: s delete_item_def r split: sum.split)
qed

text \<open>
  A delete sweep asks for nothing but removals of the paths it was given, and for at
  most one per path plus one per redial the run's \<open>retries\<close> budget still allows, whatever the
  server answers and however the workers interleave; a dry run asks for nothing.
\<close>

theorem delete_sweep_bounded:
  assumes "\<And>l n w. valid_schedule l n (schedule env l n w)"
    and "session_ok cfg s"
    and "deleteRemoteFiles cfg (traced env) watch paths (s, (w, [])) = (res, (s', (w', asked)))"
  shows "(\<forall>r \<in> set asked. \<exists>p \<in> set paths. r = RemoveReq p) \<and>
    length asked + reconnects s \<le> length paths + Retries cfg \<and> (DryRun cfg \<longrightarrow> asked = [])"
proof (cases "DryRun cfg")
  case True
  then show ?thesis using assms(2,3) by (auto simp: deleteRemoteFiles_def session_ok_def)
next
  case False
  let ?ok = "\<lambda>r. \<exists>p \<in> set paths. r = RemoveReq p"
  let ?run = "runBounded (\<lambda>(_, _, w). ctx_err (traced env) w) (\<lambda>l n (_, _, w). schedule (traced env) l n w)
      (workers cfg (length paths)) (length paths) (delete_item cfg (traced env) watch paths)
      (replicate (length paths) False, (s, (w, [])))"
  let ?m = "\<lambda>u :: bool list \<times> ('b, 'a noted) state. int (length (snd (snd (snd u)))) - int (reconnects (fst (snd u)))"
  obtain e d where run: "?run = (e, (d, (s', (w', asked))))"
    using assms(3) False by (auto simp: deleteRemoteFiles_def split: prod.splits)
  have "?m (snd ?run) \<le> ?m (replicate (length paths) False, (s, (w, []))) + int (length paths)"
  proof (rule runBounded_measure [where m = ?m])
    show "?m (snd (delete_item cfg (traced env) watch paths i u)) \<le> ?m u + 1" for i and u :: "bool list \<times> ('b, 'a noted) state"
      by (rule delete_item_meter)
  qed (simp add: traced_def assms(1))
  then have m: "int (length asked) - int (reconnects s') \<le> int (length paths) - int (reconnects s)"
    by (simp add: run)
  have "session_ok cfg (fst (snd (snd ?run)))"
  proof (rule runBounded_invariant [where P = "\<lambda>u. session_ok cfg (fst (snd u))"])
    fix i and u :: "bool list \<times> ('b, 'a noted) state"
    assume u: "session_ok cfg (fst (snd u))"
    obtain d0 st where su: "u = (d0, st)" by (cases u)
    obtain r st' where r: "session_do cfg (traced env) watch (delete_action (traced env) (paths ! i)) st = (r, st')"
      by (meson surj_pair)
    show "session_ok cfg (fst (snd (snd (delete_item cfg (traced env) watch paths i u))))"
      using session_do_ok [OF _ r] u by (simp add: su delete_item_def r split: sum.split)
  qed (simp add: assms(2))
  then have "reconnects s' \<le> Retries cfg" by (simp add: run session_ok_def)
  with m have len: "length asked + reconnects s \<le> length paths + Retries cfg" by linarith
  have "all_noted ?ok (snd (snd (deleteRemoteFiles cfg (traced env) watch paths (s, (w, [])))))"
    by (rule tr.deleteRemoteFiles_keeps) (auto simp: all_noted_def)
  with len False show ?thesis by (simp add: assms(3) all_noted_def)
qed

theorem delete_sweep_bounded_witness:
  "\<exists>res s' w' asked. deleteRemoteFiles sample_config (traced (ram_env [] True)) False [''/w/a'', ''/w/b'']
      (first_session 1 (), (idle_ram, [])) = (res, (s', (w', asked))) \<and> length asked \<le> 4"
proof -
  obtain res s' w' asked where r: "deleteRemoteFiles sample_config (traced (ram_env [] True)) False
      [''/w/a'', ''/w/b''] (first_session 1 (), (idle_ram, [])) = (res, (s', (w', asked)))"
    by (metis surj_pair)
  from delete_sweep_bounded [OF ram_schedule first_session_ok r] have "length asked \<le> 4"
    by (simp add: sample_config_def)
  with r show ?thesis by blast
qed

end
