(* ===== verification/Publish.thy ===== *)
theory Publish
  imports Deletion Ram_Server
begin

text \<open>
  Moving an uploaded temporary file over the live one, and the temporary names
  (\<open>internal/uploader/transfer.go\<close>): \<open>renameReplace\<close> with its backup fallback, \<open>cleanupTmp\<close>,
  \<open>isTempFileName\<close> and the sweep of stale temporary files. The safety argument for the fallback
  is over a view of the server's files that every request moves as the protocol documents.
\<close>

section \<open>Temporary names\<close>

definition tmpSuffix :: string where
  "tmpSuffix = ''.easysftp-tmp''"

definition bakSuffix :: string where
  "bakSuffix = tmpSuffix @ ''.bak''"

definition uploadTempPath :: "string \<Rightarrow> nat \<Rightarrow> string" where
  "uploadTempPath remotePath index = remotePath @ tmpSuffix @ ''.'' @ decimal index"

text \<open>\<open>strings.LastIndex\<close>, as the text before and after the last occurrence.\<close>

fun last_split :: "string \<Rightarrow> string \<Rightarrow> (string \<times> string) option" where
  "last_split [] sub = (if sub = [] then Some ([], []) else None)"
| "last_split (c # s) sub =
     (case last_split s sub of
        Some (a, b) \<Rightarrow> Some (c # a, b)
      | None \<Rightarrow> if has_prefix (c # s) sub then Some ([], drop (length sub) (c # s)) else None)"

definition isTempFileName :: "string \<Rightarrow> bool" where
  "isTempFileName name =
     (case last_split name tmpSuffix of
        None \<Rightarrow> False
      | Some (before, rest) \<Rightarrow>
          if before = [] then False
          else if rest = [] \<or> rest = ''.bak'' then True
          else if hd rest \<noteq> CHR ''.'' \<or> length rest < 2 then False
          else list_all (\<lambda>c. CHR ''0'' \<le> c \<and> c \<le> CHR ''9'') (tl rest))"

section \<open>Publishing\<close>

text \<open>The second half of the fallback: move the upload into place, undo the parking on failure.\<close>

definition place_upload ::
    "('c, 'w) remote \<Rightarrow> 'c \<Rightarrow> string \<Rightarrow> string \<Rightarrow> string \<Rightarrow> bool \<Rightarrow> 'w \<Rightarrow> goerr option \<times> 'w" where
  "place_upload env c tmp final backup parked w =
     (case Rename env c tmp final w of
        (None, w') \<Rightarrow> (None, snd (Remove env c backup w'))
      | (Some err, w') \<Rightarrow>
          if \<not> parked then (Some err, w')
          else
            (case Rename env c backup final w' of
               (None, w'') \<Rightarrow> (Some err, w'')
             | (Some rerr, w'') \<Rightarrow>
                 (Some (Wrap [] err (''; restoring the previous file from '' @ backup @
                    '' also failed: '' @ err_text rerr)), w'')))"

definition renameReplaceViaBackup ::
    "('c, 'w) remote \<Rightarrow> 'c \<Rightarrow> string \<Rightarrow> string \<Rightarrow> 'w \<Rightarrow> goerr option \<times> 'w" where
  "renameReplaceViaBackup env c tmp final w =
     (let backup = final @ bakSuffix;
          w1 = snd (Remove env c backup w) in
      case Rename env c final backup w1 of
        (None, w2) \<Rightarrow> place_upload env c tmp final backup True w2
      | (Some err, w2) \<Rightarrow>
          if err_id err = NotExist then place_upload env c tmp final backup False w2
          else
            (case remoteAbsent env c final w2 of
               (Inl aerr, w3) \<Rightarrow> (Some aerr, w3)
             | (Inr absent, w3) \<Rightarrow>
                 if \<not> absent then (Some (Wrap ''could not move the existing file aside: '' err []), w3)
                 else place_upload env c tmp final backup False w3))"

definition renameReplace ::
    "('c, 'w) remote \<Rightarrow> 'c \<Rightarrow> string \<Rightarrow> string \<Rightarrow> 'w \<Rightarrow> goerr option \<times> 'w" where
  "renameReplace env c tmp final w =
     (case PosixRename env c tmp final w of
        (None, w') \<Rightarrow> (None, w')
      | (Some err, w') \<Rightarrow>
          if \<not> posixRenameUnsupported err (HasPosixRename env c) then (Some err, w')
          else renameReplaceViaBackup env c tmp final w')"

definition cleanupTmp :: "('c, 'w) remote \<Rightarrow> 'c \<Rightarrow> string \<Rightarrow> 'w \<Rightarrow> 'w" where
  "cleanupTmp env c tmp w = snd (Remove env c tmp w)"

section \<open>The stale-temp sweep\<close>

definition staleTempMaxAge :: int where
  "staleTempMaxAge = 3600 * 1000000000"

fun sweep_entries ::
    "('c, 'w) remote \<Rightarrow> string \<Rightarrow> string list \<Rightarrow> 'c \<Rightarrow> file_info list \<Rightarrow> 'w
       \<Rightarrow> (goerr, unit) result \<times> 'w" where
  "sweep_entries env dir keep c [] w = (Inr (), w)"
| "sweep_entries env dir keep c (e # es) w =
     (if fi_dir e \<or> \<not> isTempFileName (fi_name e) then sweep_entries env dir keep c es w
      else if now env w - fi_mtime e < staleTempMaxAge then sweep_entries env dir keep c es w
      else
        (case safeChild dir (fi_name e) of
           Inl _ \<Rightarrow> sweep_entries env dir keep c es w
         | Inr full \<Rightarrow>
             if full \<in> set keep then sweep_entries env dir keep c es w
             else
               (case Remove env c full w of
                  (None, w') \<Rightarrow> sweep_entries env dir keep c es w'
                | (Some err, w') \<Rightarrow>
                    if isConnError err then (Inl err, w') else sweep_entries env dir keep c es w')))"

definition sweepDirStaleTemps ::
    "('c, 'w) remote \<Rightarrow> string \<Rightarrow> string list \<Rightarrow> 'c \<Rightarrow> 'w \<Rightarrow> (goerr, unit) result \<times> 'w" where
  "sweepDirStaleTemps env dir keep c w =
     (case ReadDir env c dir w of
        (Inl err, w') \<Rightarrow> if isConnError err then (Inl err, w') else (Inr (), w')
      | (Inr entries, w') \<Rightarrow> sweep_entries env dir keep c entries w')"

definition sweep_dirs :: "string \<Rightarrow> string list \<Rightarrow> string list \<Rightarrow> string list" where
  "sweep_dirs base plannedDirs keep =
     (let sweepBase = (if base \<in> set keep then path_dir base else base) in
      sort (remdups (sweepBase #
        filter (\<lambda>d. d = sweepBase \<or> has_prefix d (trim_suffix sweepBase ''/'' @ ''/'')) plannedDirs)))"

definition sweep_item ::
    "config \<Rightarrow> ('c, 'w) remote \<Rightarrow> bool \<Rightarrow> string list \<Rightarrow> string list \<Rightarrow> nat \<Rightarrow> ('c, 'w) state
       \<Rightarrow> goerr option \<times> ('c, 'w) state" where
  "sweep_item cfg env watch dirs keep i st =
     (None, snd (session_do cfg env watch (sweepDirStaleTemps env (dirs ! i) keep) st))"

definition sweepStaleTemps ::
    "config \<Rightarrow> ('c, 'w) remote \<Rightarrow> bool \<Rightarrow> string \<Rightarrow> string list \<Rightarrow> string list \<Rightarrow> ('c, 'w) state
       \<Rightarrow> ('c, 'w) state" where
  "sweepStaleTemps cfg env watch base plannedDirs keep st =
     (let dirs = sweep_dirs base plannedDirs keep in
      snd (runBounded (\<lambda>(_, w). ctx_err env w) (\<lambda>l n (_, w). schedule env l n w)
             (workers cfg (length dirs)) (length dirs) (sweep_item cfg env watch dirs keep) st))"

section \<open>What the temporary names are\<close>

lemma last_split_Some: "last_split s sub = Some (a, b) \<Longrightarrow> s = a @ sub @ b"
  by (induction s arbitrary: a b) (auto split: option.splits if_splits simp: has_prefix_iff)

lemma last_split_found: "sublist sub s \<Longrightarrow> last_split s sub \<noteq> None"
  by (induction s) (auto simp: has_prefix_def sublist_Cons_right split: option.splits)

lemma hex_digit_decimal: "n < 10 \<Longrightarrow> CHR ''0'' \<le> hex_digit n \<and> hex_digit n \<le> CHR ''9''"
  by (auto simp: hex_digit_def less_Suc_eq numeral_eq_Suc)

lemma decimal_digits: "list_all (\<lambda>c. CHR ''0'' \<le> c \<and> c \<le> CHR ''9'') (decimal n)"
  by (induction n rule: decimal.induct) (subst decimal.simps, simp add: hex_digit_decimal)

lemma decimal_not_Nil [simp]: "decimal n \<noteq> []"
  by (subst decimal.simps) simp

section \<open>What the publish path and the sweep ask of the server\<close>

context guarded_env
begin

lemma place_upload_keeps:
  assumes "P w" "allowed (RenameReq tmp final)" "allowed (RenameReq backup final)" "allowed (RemoveReq backup)"
  shows "P (snd (place_upload env c tmp final backup parked w))"
proof -
  obtain e w1 where r: "Rename env c tmp final w = (e, w1)" by (meson surj_pair)
  have w1: "P w1" using guard_rename [OF assms(1,2), of c] by (simp add: r)
  obtain e2 w2 where r2: "Rename env c backup final w1 = (e2, w2)" by (meson surj_pair)
  have w2: "P w2" using guard_rename [OF w1 assms(3), of c] by (simp add: r2)
  show ?thesis
    using w1 w2 guard_remove [OF w1 assms(4)]
    by (simp add: place_upload_def r r2 split: option.split)
qed

lemma renameReplaceViaBackup_keeps:
  assumes "P w" "allowed (RenameReq tmp final)" "allowed (RenameReq final (final @ bakSuffix))"
    "allowed (RenameReq (final @ bakSuffix) final)" "allowed (RemoveReq (final @ bakSuffix))"
  shows "P (snd (renameReplaceViaBackup env c tmp final w))"
proof -
  let ?w1 = "snd (Remove env c (final @ bakSuffix) w)"
  obtain e w2 where r: "Rename env c final (final @ bakSuffix) ?w1 = (e, w2)" by (meson surj_pair)
  have w2: "P w2"
    using guard_rename [OF guard_remove [OF assms(1,5), of c] assms(3), of c] by (simp add: r)
  obtain a w3 where ra: "remoteAbsent env c final w2 = (a, w3)" by (meson surj_pair)
  have "P w3" using remoteAbsent_keeps [OF w2, of c final] by (simp add: ra)
  with w2 place_upload_keeps assms show ?thesis
    by (auto simp: renameReplaceViaBackup_def Let_def r ra split: option.splits sum.splits)
qed

lemma renameReplace_keeps:
  assumes "P w" "allowed (PosixRenameReq tmp final)" "allowed (RenameReq tmp final)"
    "allowed (RenameReq final (final @ bakSuffix))" "allowed (RenameReq (final @ bakSuffix) final)"
    "allowed (RemoveReq (final @ bakSuffix))"
  shows "P (snd (renameReplace env c tmp final w))"
proof -
  obtain e w1 where r: "PosixRename env c tmp final w = (e, w1)" by (meson surj_pair)
  have "P w1" using guard_posix [OF assms(1,2), of c] by (simp add: r)
  with renameReplaceViaBackup_keeps [OF _ assms(3-6)] show ?thesis
    by (auto simp: renameReplace_def r split: option.splits)
qed

lemma sweep_entries_keeps:
  assumes "\<And>name full. isTempFileName name \<Longrightarrow> safeChild dir name = Inr full \<Longrightarrow> full \<notin> set keep \<Longrightarrow>
      allowed (RemoveReq full)"
  shows "P w \<Longrightarrow> P (snd (sweep_entries env dir keep c es w))"
proof (induction es arbitrary: w)
  case (Cons e es)
  show ?case
  proof (cases "fi_dir e \<or> \<not> isTempFileName (fi_name e) \<or> now env w - fi_mtime e < staleTempMaxAge")
    case True
    then show ?thesis using Cons.IH [OF Cons.prems] by auto
  next
    case temp: False
    show ?thesis
    proof (cases "safeChild dir (fi_name e)")
      case (Inl x)
      then show ?thesis using Cons.IH [OF Cons.prems] temp by simp
    next
      case (Inr full)
      show ?thesis
      proof (cases "full \<in> set keep")
        case False
        obtain e w' where r: "Remove env c full w = (e, w')" by (meson surj_pair)
        have "allowed (RemoveReq full)" using assms Inr False temp by blast
        then have "P w'" using guard_remove [OF Cons.prems, of full c] by (simp add: r)
        with temp Inr False show ?thesis by (simp add: r Cons.IH split: option.split)
      qed (use Cons.IH [OF Cons.prems] temp Inr in simp)
    qed
  qed
qed simp

lemma sweepStaleTemps_keeps:
  assumes "P (snd st)"
    and "\<And>dir name full. dir \<in> set (sweep_dirs base plannedDirs keep) \<Longrightarrow> isTempFileName name \<Longrightarrow>
      safeChild dir name = Inr full \<Longrightarrow> full \<notin> set keep \<Longrightarrow> allowed (RemoveReq full)"
  shows "P (snd (sweepStaleTemps cfg env watch base plannedDirs keep st))"
proof -
  let ?dirs = "sweep_dirs base plannedDirs keep"
  have act: "P (snd (sweepDirStaleTemps env dir keep c w))" if "P w" "dir \<in> set ?dirs" for dir c w
    using keep_readdir [OF that(1), of c dir] sweep_entries_keeps [of dir keep] assms(2) that(2)
    by (auto simp: sweepDirStaleTemps_def split: prod.splits sum.splits)
  have item: "P (snd (snd (sweep_item cfg env watch ?dirs keep i s)))"
    if i: "i < length ?dirs" and s: "P (snd s)" for i s
  proof -
    obtain r s' where r: "session_do cfg env watch (sweepDirStaleTemps env (?dirs ! i) keep) s = (r, s')"
      by (meson surj_pair)
    have "P (snd s')" by (rule session_do_keeps [OF s _ r]) (rule act [OF _ nth_mem [OF i]])
    with r show ?thesis by (simp add: sweep_item_def)
  qed
  have "P (snd (snd (runBounded (\<lambda>(_, w). ctx_err env w) (\<lambda>l n (_, w). schedule env l n w)
      (workers cfg (length ?dirs)) (length ?dirs) (sweep_item cfg env watch ?dirs keep) st)))"
    by (rule runBounded_invariant [where P = "\<lambda>s. P (snd s)"]) (use assms(1) item in auto)
  then show ?thesis by (simp add: sweepStaleTemps_def Let_def)
qed

end

section \<open>The live file survives\<close>

text \<open>
  What a file server does with the requests of the publish path, seen through the content found at
  each path: a removal takes at most the named path out; a rename that succeeds moves the content
  (the server may or may not replace an existing target); a request that reports an error changed
  nothing or took effect all the same, as when the connection died before the answer; a stat
  changes nothing.
\<close>

definition moved :: "string \<Rightarrow> string \<Rightarrow> (string \<Rightarrow> 'd option) \<Rightarrow> string \<Rightarrow> 'd option" where
  "moved p q m = (m(p := None))(q := m p)"

definition file_server :: "('c, 'w) remote \<Rightarrow> ('w \<Rightarrow> string \<Rightarrow> 'd option) \<Rightarrow> bool" where
  "file_server env content \<longleftrightarrow>
     (\<forall>c p w. content (snd (Remove env c p w)) \<in> {content w, (content w)(p := None)}) \<and>
     (\<forall>c p q w. (fst (Rename env c p q w) = None \<longrightarrow>
        content w p \<noteq> None \<and> content (snd (Rename env c p q w)) = moved p q (content w)) \<and>
        (content (snd (Rename env c p q w)) = content w \<or>
         content w p \<noteq> None \<and> content (snd (Rename env c p q w)) = moved p q (content w))) \<and>
     (\<forall>c p w. content (snd (Lstat env c p w)) = content w)"

lemma server_remove:
  "file_server env content \<Longrightarrow> Remove env c p w = (e, w') \<Longrightarrow>
     content w' = content w \<or> content w' = (content w)(p := None)"
  unfolding file_server_def by (metis insertE singletonD snd_conv)

lemma server_rename_ok:
  "file_server env content \<Longrightarrow> Rename env c p q w = (None, w') \<Longrightarrow>
     content w p \<noteq> None \<and> content w' = moved p q (content w)"
  unfolding file_server_def by (metis fst_conv snd_conv)

lemma server_rename:
  "file_server env content \<Longrightarrow> Rename env c p q w = (e, w') \<Longrightarrow>
     content w' = content w \<or> (content w p \<noteq> None \<and> content w' = moved p q (content w))"
  unfolding file_server_def by (metis snd_conv)

lemma server_absent:
  assumes "file_server env content" "remoteAbsent env c p w = (r, w')"
  shows "content w' = content w"
proof -
  have "content (snd (Lstat env c p w)) = content w" using assms(1) unfolding file_server_def by blast
  with assms(2) show ?thesis
    by (auto simp: remoteAbsent_def split: prod.splits sum.splits if_splits)
qed

text \<open>
  A state of the publish: the old content is live or parked, or the new content is live; nothing
  else moved.
\<close>

definition kept ::
    "string \<Rightarrow> string \<Rightarrow> string \<Rightarrow> (string \<Rightarrow> 'd option) \<Rightarrow> (string \<Rightarrow> 'd option) \<Rightarrow> bool" where
  "kept tmp final backup m0 m \<longleftrightarrow>
     (m final = m0 tmp \<or> m final = m0 final \<or> m backup = m0 final) \<and>
     (\<forall>p. p \<notin> {tmp, final, backup} \<longrightarrow> m p = m0 p)"

lemma place_upload_kept:
  assumes fs: "file_server env content"
    and d: "distinct [tmp, final, backup]"
    and m: "content w tmp = m0 tmp" "content w final = m0 final \<or> content w backup = m0 final"
      "parked \<Longrightarrow> content w backup = m0 final" "\<forall>p. p \<notin> {tmp, final, backup} \<longrightarrow> content w p = m0 p"
    and run: "place_upload env c tmp final backup parked w = (e, w')"
  shows "kept tmp final backup m0 (content w') \<and> (e = None \<longrightarrow> content w' final = m0 tmp \<and> m0 tmp \<noteq> None)"
proof -
  obtain e1 w1 where r1: "Rename env c tmp final w = (e1, w1)" by fastforce
  show ?thesis
  proof (cases e1)
    case None
    obtain e2 w2 where r2: "Remove env c backup w1 = (e2, w2)" by fastforce
    from server_rename_ok [OF fs r1 [unfolded None]] server_remove [OF fs r2] run m d
    show ?thesis
      by (auto simp: place_upload_def r1 r2 None kept_def moved_def)
  next
    case (Some err)
    note eff = server_rename [OF fs r1]
    show ?thesis
    proof (cases parked)
      case False
      with run eff m d show ?thesis
        by (auto simp: place_upload_def r1 Some kept_def moved_def)
    next
      case True
      obtain e2 w2 where r2: "Rename env c backup final w1 = (e2, w2)" by fastforce
      have "e \<noteq> None" "w' = w2"
        using run True by (auto simp: place_upload_def r1 r2 Some split: option.splits)
      with server_rename [OF fs r2] eff m d True show ?thesis
        by (auto simp: kept_def moved_def)
    qed
  qed
qed

lemma via_backup_kept:
  assumes fs: "file_server env content"
    and d: "distinct [tmp, final, final @ bakSuffix]"
    and run: "renameReplaceViaBackup env c tmp final w = (e, w')"
  shows "kept tmp final (final @ bakSuffix) (content w) (content w') \<and>
     (e = None \<longrightarrow> content w' final = content w tmp \<and> content w tmp \<noteq> None)"
proof -
  define backup where "backup = final @ bakSuffix"
  obtain e1 w1 where r1: "Remove env c backup w = (e1, w1)" by fastforce
  have m1: "content w1 p = content w p" if "p \<noteq> backup" for p
    using server_remove [OF fs r1] that by auto
  obtain e2 w2 where r2: "Rename env c final backup w1 = (e2, w2)" by fastforce
  note d' = d [folded backup_def]
  have m2: "content w2 tmp = content w tmp"
    "content w2 final = content w final \<or> content w2 backup = content w final"
    "\<forall>p. p \<notin> {tmp, final, backup} \<longrightarrow> content w2 p = content w p"
    using server_rename [OF fs r2] m1 d' by (auto simp: moved_def)
  note place = place_upload_kept [OF fs d', where ?m0.0 = "content w"]
  show ?thesis
  proof (cases e2)
    case None
    have "content w2 backup = content w final"
      using server_rename_ok [OF fs r2 [unfolded None]] m1 [of final] d' by (auto simp: moved_def)
    with place [of w2 True c e w'] m2 run None show ?thesis
      by (simp add: renameReplaceViaBackup_def Let_def backup_def [symmetric] r1 r2)
  next
    case (Some err)
    show ?thesis
    proof (cases "err_id err = NotExist")
      case True
      with place [of w2 False c e w'] m2 run Some show ?thesis
        by (simp add: renameReplaceViaBackup_def Let_def backup_def [symmetric] r1 r2)
    next
      case False
      obtain a w3 where r3: "remoteAbsent env c final w2 = (a, w3)" by fastforce
      have c3: "content w3 = content w2" by (rule server_absent [OF fs r3])
      show ?thesis
      proof (cases "a = Inr True")
        case True
        with place [of w3 False c e w'] m2 c3 run Some False r3 show ?thesis
          by (simp add: renameReplaceViaBackup_def Let_def backup_def [symmetric] r1 r2)
      next
        case na: False
        have "w' = w3" "e \<noteq> None"
          using run Some False na
          by (auto simp: renameReplaceViaBackup_def Let_def backup_def [symmetric] r1 r2 r3 split: sum.splits if_splits)
        with m2 c3 show ?thesis by (auto simp: kept_def backup_def [symmetric])
      qed
    qed
  qed
qed

section \<open>Properties\<close>

lemma ram_file_server: "file_server (ram_env sources posix) ram_lookup"
  unfolding file_server_def ram_env_def
  by (auto simp: ram_request_def ram_remove_def ram_move_def ram_stat_def moved_def
      ram_lookup_put ram_lookup_drop fun_eq_iff split: list.splits option.splits if_splits)

text \<open>
  Whatever the server lists, the stale-temp sweep asks it to remove only entries that
  carry one of this program's temporary names, sit directly in a swept directory (the deployment's
  base or a planned directory below it), and are not a planned target of the run.
\<close>

theorem sweep_removes_only_temps:
  "all_noted (\<lambda>r. \<exists>dir name full. r = RemoveReq full \<and> dir \<in> set (sweep_dirs base plannedDirs keep) \<and>
       safeChild dir name = Inr full \<and> isTempFileName name \<and> full \<notin> set keep)
     (snd (sweepStaleTemps cfg (traced env) watch base plannedDirs keep (s, (w, []))))"
  by (rule tr.sweepStaleTemps_keeps) (auto simp: all_noted_def)

text \<open>
  Property C26. On a server without \<open>posix-rename\<close>, one publish attempt never loses the live file:
  whatever fails on the way, and even when a failed request took effect, the previous content is
  still found at the target or at its backup name, or the new content is live; no fourth file
  changes; and the attempt reports success only when the uploaded content is what the target holds.
\<close>

theorem backup_publish_keeps_live_file:
  assumes "file_server env content" "distinct [tmp, final, final @ bakSuffix]"
    and "renameReplaceViaBackup env c tmp final w = (e, w')"
  shows "kept tmp final (final @ bakSuffix) (content w) (content w') \<and>
     (e = None \<longrightarrow> content w' final = content w tmp \<and> content w tmp \<noteq> None)"
  by (rule via_backup_kept [OF assms])

theorem backup_publish_keeps_live_file_witness:
  "kept ''a.t'' ''a'' (''a'' @ bakSuffix)
     (ram_lookup \<lparr>disk = [(''a'', ''old''), (''a.t'', ''new'')], script = [None, None, Some no_such_file]\<rparr>)
     (ram_lookup \<lparr>disk = [(''a'', ''old''), (''a.t'', ''new'')], script = []\<rparr>)"
proof -
  have r: "renameReplaceViaBackup (ram_env [] False) () ''a.t'' ''a''
       \<lparr>disk = [(''a'', ''old''), (''a.t'', ''new'')], script = [None, None, Some no_such_file]\<rparr>
     = (Some no_such_file, \<lparr>disk = [(''a'', ''old''), (''a.t'', ''new'')], script = []\<rparr>)"
    by code_simp
  have d: "distinct [''a.t'', ''a'', ''a'' @ bakSuffix]" by code_simp
  show ?thesis using backup_publish_keeps_live_file [OF ram_file_server d r] by blast
qed

section \<open>Two attempts in a row\<close>

text \<open>Where a content is found: at the paths of a set only.\<close>

definition held_at :: "string set \<Rightarrow> 'd \<Rightarrow> (string \<Rightarrow> 'd option) \<Rightarrow> bool" where
  "held_at S d m \<longleftrightarrow> (\<forall>q. m q = Some d \<longrightarrow> q \<in> S)"

lemma held_moved: "held_at S d m \<Longrightarrow> (p \<in> S \<Longrightarrow> q \<in> S) \<Longrightarrow> held_at S d (moved p q m)"
  by (auto simp: held_at_def moved_def)

lemma held_remove: "held_at S d (content w) \<Longrightarrow> file_server env content \<Longrightarrow> Remove env c p w = (e, w') \<Longrightarrow>
    held_at S d (content w')"
  using server_remove [of env content c p w e w'] by (auto simp: held_at_def split: if_splits)

lemma held_rename: "held_at S d (content w) \<Longrightarrow> file_server env content \<Longrightarrow> Rename env c p q w = (e, w') \<Longrightarrow>
    (p \<in> S \<Longrightarrow> q \<in> S) \<Longrightarrow> held_at S d (content w')"
  using server_rename [of env content c p q w e w'] held_moved [of S d "content w" p q] by auto

lemma place_upload_held:
  assumes h: "held_at S d (content w)" and fs: "file_server env content"
    and S: "tmp \<notin> S" "backup \<in> S \<Longrightarrow> final \<in> S"
    and run: "place_upload env c tmp final backup parked w = (e, w')"
  shows "held_at S d (content w')"
proof -
  obtain e1 w1 where r1: "Rename env c tmp final w = (e1, w1)" by fastforce
  have h1: "held_at S d (content w1)" by (rule held_rename [OF h fs r1]) (use S in simp)
  obtain e2 w2 where r2: "Remove env c backup w1 = (e2, w2)" by fastforce
  obtain e3 w3 where r3: "Rename env c backup final w1 = (e3, w3)" by fastforce
  have "held_at S d (content w3)" by (rule held_rename [OF h1 fs r3 S(2)])
  with run h1 held_remove [OF h1 fs r2] show ?thesis
    by (auto simp: place_upload_def r1 r2 r3 split: option.splits if_splits)
qed

text \<open>After its opening removal a publish moves a content between the target and the backup only.\<close>

lemma via_backup_held:
  assumes h: "held_at S d (content (snd (Remove env c (final @ bakSuffix) w)))" and fs: "file_server env content"
    and S: "tmp \<notin> S" "final @ bakSuffix \<in> S \<longleftrightarrow> final \<in> S"
    and run: "renameReplaceViaBackup env c tmp final w = (e, w')"
  shows "held_at S d (content w')"
proof -
  let ?b = "final @ bakSuffix"
  obtain e1 w1 where r1: "Remove env c ?b w = (e1, w1)" by fastforce
  obtain e2 w2 where r2: "Rename env c final ?b w1 = (e2, w2)" by fastforce
  have h2: "held_at S d (content w2)" by (rule held_rename [OF _ fs r2]) (use h S(2) in \<open>simp_all add: r1\<close>)
  have place: "held_at S d (content w')" if "place_upload env c tmp final ?b k w4 = (e, w')" "content w4 = content w2" for k w4
    by (rule place_upload_held [OF _ fs S(1) _ that(1)]) (use h2 S(2) that(2) in simp_all)
  obtain a w3 where r3: "remoteAbsent env c final w2 = (a, w3)" by fastforce
  note c3 = server_absent [OF fs r3]
  show ?thesis
    using run place h2 c3
    by (auto simp: renameReplaceViaBackup_def Let_def r1 r2 r3 split: option.splits if_splits sum.splits)
qed

text \<open>
  Property C38. Two publish attempts in a row do lose it. On any server: when the first attempt parks
  the live file and can neither publish nor restore it, so that the target is missing when it fails,
  the second one starts by removing the backup, which by then is the only copy. If that removal takes
  effect, no path holds the previous content any more, whatever else the second attempt does and
  whether or not it succeeds. Between the attempts only the temporary name is written.
\<close>

theorem second_publish_attempt_loses_live_file:
  assumes "file_server env content" "distinct [tmp, final, final @ bakSuffix]"
    and "content w0 final = Some old" "content w0 tmp \<noteq> None" "\<forall>q. q \<notin> {final, final @ bakSuffix} \<longrightarrow> content w0 q \<noteq> Some old"
    and "renameReplaceViaBackup env c tmp final w0 = (Some err, w1)" "content w1 final = None"
    and "\<forall>q. q \<noteq> tmp \<longrightarrow> content w2 q = content w1 q" "content w2 tmp \<noteq> Some old"
    and "content (snd (Remove env c' (final @ bakSuffix) w2)) (final @ bakSuffix) = None"
    and "renameReplaceViaBackup env c' tmp final w2 = (e, w3)"
  shows "content w1 (final @ bakSuffix) = Some old \<and> (\<forall>q. content w3 q \<noteq> Some old)"
proof -
  let ?b = "final @ bakSuffix"
  have d: "tmp \<noteq> final" "tmp \<noteq> ?b" "final \<noteq> ?b" using assms(2) by simp_all
  have "kept tmp final ?b (content w0) (content w1)" using via_backup_kept [OF assms(1,2,6)] by simp
  with assms(3,4,7) have parked: "content w1 ?b = Some old" by (auto simp: kept_def)
  have h0: "held_at {final, ?b} old (content w0)" using assms(5) by (auto simp: held_at_def)
  obtain e1 v where r1: "Remove env c ?b w0 = (e1, v)" by fastforce
  have "held_at {final, ?b} old (content w1)"
    by (rule via_backup_held [OF _ assms(1) _ _ assms(6)]) (use held_remove [OF h0 assms(1) r1] d in \<open>simp_all add: r1\<close>)
  then have h2: "held_at {?b} old (content w2)" using assms(7-9) d by (auto simp: held_at_def) (metis option.distinct(1))
  obtain e2 u where r2: "Remove env c' ?b w2 = (e2, u)" by fastforce
  have "held_at {} old (content u)"
    using held_remove [OF h2 assms(1) r2] assms(10) by (auto simp: held_at_def r2)
  then have "held_at {} old (content w3)" by (intro via_backup_held [OF _ assms(1) _ _ assms(11)]) (simp_all add: r2)
  with parked show ?thesis by (auto simp: held_at_def)
qed

text \<open>
  On the server in memory: the first attempt's publish and its restore both fail on a full quota, and
  so does the second attempt's publish.
\<close>

definition quota :: "goerr option" where
  "quota = Some (Err (Status FxFailure) ''sftp: Failure'')"

definition park_first :: "goerr option \<times> ram" where
  "park_first = renameReplaceViaBackup (ram_env [] False) () ''a.t'' ''a''
     \<lparr>disk = [(''a'', ''old''), (''a.t'', ''new'')], script = [None, None, quota, quota, None, None, quota]\<rparr>"

theorem second_publish_attempt_loses_live_file_witness:
  "fst park_first \<noteq> None \<and> ram_lookup (snd park_first) (''a'' @ bakSuffix) = Some ''old'' \<and>
   (\<forall>q. ram_lookup (snd (renameReplaceViaBackup (ram_env [] False) () ''a.t'' ''a'' (snd park_first))) q \<noteq> Some ''old'')"
proof -
  let ?w0 = "\<lparr>disk = [(''a'', ''old''), (''a.t'', ''new'')], script = [None, None, quota, quota, None, None, quota]\<rparr>"
  have v: "fst park_first \<noteq> None" "ram_lookup (snd park_first) ''a'' = None" "ram_lookup (snd park_first) ''a.t'' \<noteq> Some ''old''"
    "ram_lookup (snd (Remove (ram_env [] False) () (''a'' @ bakSuffix) (snd park_first))) (''a'' @ bakSuffix) = None"
    by code_simp+
  obtain err w1 where p: "park_first = (Some err, w1)" using v(1) by (metis not_None_eq prod.collapse)
  have d: "distinct [''a.t'', ''a'', ''a'' @ bakSuffix]" by code_simp
  have old: "ram_lookup ?w0 ''a'' = Some ''old''" "ram_lookup ?w0 ''a.t'' \<noteq> None"
    "\<forall>q. q \<notin> {''a'', ''a'' @ bakSuffix} \<longrightarrow> ram_lookup ?w0 q \<noteq> Some ''old''" by (simp_all add: ram_lookup_def)
  obtain e w3 where r: "renameReplaceViaBackup (ram_env [] False) () ''a.t'' ''a'' w1 = (e, w3)" by fastforce
  from second_publish_attempt_loses_live_file [OF ram_file_server d old p [unfolded park_first_def] _ _ _ _ r] v r
  show ?thesis unfolding p by simp
qed

end
