(* ===== verification/Uploads.thy ===== *)
theory Uploads
  imports Publish Planner
begin

text \<open>
  Creating directories and uploading files (\<open>createRemoteDirs\<close>, \<open>nonDirConflict\<close> in
  \<open>remote.go\<close>; \<open>uploadFile\<close>, \<open>remoteSameSize\<close>, \<open>uploadFiles\<close> in \<open>transfer.go\<close>;
  \<open>uploadFileWithRetry\<close> in \<open>retry.go\<close>). The settings the policy chose for a deployment
  (workers and connections) are an argument. The runtime controller moves the spread while files are
  under way; the counts it asked for before a file takes effect are the environment's to choose
  (\<open>moves\<close>). Log lines are left out.
\<close>

section \<open>Directories\<close>

fun nonDirConflict_in ::
    "('c, 'w) remote \<Rightarrow> 'c \<Rightarrow> string list \<Rightarrow> 'w \<Rightarrow> (goerr, string) result \<times> 'w" where
  "nonDirConflict_in env c [] w = (Inr [], w)"
| "nonDirConflict_in env c (d # ds) w =
     (case Stat env c d w of
        (Inl e, w') \<Rightarrow> if isConnError e then (Inl e, w') else nonDirConflict_in env c ds w'
      | (Inr info, w') \<Rightarrow> if \<not> fi_dir info then (Inr d, w') else nonDirConflict_in env c ds w')"

definition nonDirConflict ::
    "('c, 'w) remote \<Rightarrow> 'c \<Rightarrow> string \<Rightarrow> 'w \<Rightarrow> (goerr, string) result \<times> 'w" where
  "nonDirConflict env c dir w = nonDirConflict_in env c (parentDirs dir @ [dir]) w"

definition mkdir_action ::
    "('c, 'w) remote \<Rightarrow> string \<Rightarrow> 'c \<Rightarrow> 'w \<Rightarrow> (goerr, unit) result \<times> 'w" where
  "mkdir_action env dir c w =
     (case MkdirAll env c dir w of
        (None, w') \<Rightarrow> (Inr (), w')
      | (Some err, w1) \<Rightarrow>
          (case Stat env c dir w1 of
             (Inr info, w2) \<Rightarrow>
               if fi_dir info then (Inr (), w2)
               else
                 (case nonDirConflict env c dir w2 of
                    (Inl ce, w3) \<Rightarrow> (Inl ce, w3)
                  | (Inr bad, w3) \<Rightarrow>
                      if bad \<noteq> [] then
                        (Inl (Err Plain (''remote path '' @ go_quote bad @ '' exists but is not a directory'')), w3)
                      else (Inl (Wrap (''creating remote directory '' @ go_quote dir @ '': '') err []), w3))
           | (Inl se, w2) \<Rightarrow>
               if isConnError se then (Inl se, w2)
               else
                 (case nonDirConflict env c dir w2 of
                    (Inl ce, w3) \<Rightarrow> (Inl ce, w3)
                  | (Inr bad, w3) \<Rightarrow>
                      if bad \<noteq> [] then
                        (Inl (Err Plain (''remote path '' @ go_quote bad @ '' exists but is not a directory'')), w3)
                      else (Inl (Wrap (''creating remote directory '' @ go_quote dir @ '': '') err []), w3))))"

definition mkdir_item ::
    "config \<Rightarrow> ('c, 'w) remote \<Rightarrow> bool \<Rightarrow> string list \<Rightarrow> nat \<Rightarrow> ('c, 'w) state
       \<Rightarrow> goerr option \<times> ('c, 'w) state" where
  "mkdir_item cfg env watch leaves i st =
     (case session_do cfg env watch (mkdir_action env (leaves ! i)) st of
        (Inl e, st') \<Rightarrow> (Some e, st')
      | (Inr _, st') \<Rightarrow> (None, st'))"

definition chmod_action ::
    "('c, 'w) remote \<Rightarrow> string \<Rightarrow> nat \<Rightarrow> 'c \<Rightarrow> 'w \<Rightarrow> (goerr, unit) result \<times> 'w" where
  "chmod_action env dir m c w =
     (case Chmod env c dir m w of
        (None, w') \<Rightarrow> (Inr (), w')
      | (Some e, w') \<Rightarrow> (Inl e, w'))"

definition chmod_item ::
    "config \<Rightarrow> ('c, 'w) remote \<Rightarrow> bool \<Rightarrow> string list \<Rightarrow> nat \<Rightarrow> nat \<Rightarrow> ('c, 'w) state
       \<Rightarrow> goerr option \<times> ('c, 'w) state" where
  "chmod_item cfg env watch dirs m i st =
     (None, snd (session_do cfg env watch (chmod_action env (dirs ! i) m) st))"

definition createRemoteDirs ::
    "config \<Rightarrow> ('c, 'w) remote \<Rightarrow> bool \<Rightarrow> string list \<Rightarrow> ('c, 'w) state \<Rightarrow> goerr option \<times> ('c, 'w) state" where
  "createRemoteDirs cfg env watch dirs st =
     (let leaves = leafDirs dirs in
      case runBounded (\<lambda>(_, w). ctx_err env w) (\<lambda>l n (_, w). schedule env l n w)
             (workers cfg (length leaves)) (length leaves) (mkdir_item cfg env watch leaves) st of
        (Some e, st') \<Rightarrow> (Some e, st')
      | (None, st') \<Rightarrow>
          (case DirMode cfg of
             None \<Rightarrow> (None, st')
           | Some m \<Rightarrow>
               (None, snd (runBounded (\<lambda>(_, w). ctx_err env w) (\<lambda>l n (_, w). schedule env l n w)
                        (workers cfg (length dirs)) (length dirs) (chmod_item cfg env watch dirs m) st'))))"

section \<open>One file\<close>

definition uploadFile ::
    "config \<Rightarrow> ('c, 'w) remote \<Rightarrow> int \<Rightarrow> fileItem \<Rightarrow> nat \<Rightarrow> nat \<Rightarrow> 'c \<Rightarrow> 'w
       \<Rightarrow> (goerr, int) result \<times> 'w" where
  "uploadFile cfg env requests f index m c w =
     (case open_local env (localPath f) w of
        Some e \<Rightarrow> (Inl e, w)
      | None \<Rightarrow>
          let tmp = uploadTempPath (remotePath f) index in
          case OpenTrunc env c tmp w of
            (Some e, w1) \<Rightarrow> (Inl e, w1)
          | (None, w1) \<Rightarrow>
              (case StreamFrom env c tmp (localPath f) (max requests 1) w1 of
                 ((n, err), w2) \<Rightarrow>
                   (case CloseFile env c tmp w2 of
                      (cerr, w3) \<Rightarrow>
                        (case (if err = None then cerr else err) of
                           Some e \<Rightarrow> (Inl e, cleanupTmp env c tmp w3)
                         | None \<Rightarrow>
                             let w4 = snd (Chmod env c tmp m w3) in
                             (case renameReplace env c tmp (remotePath f) w4 of
                                (Some rerr, w5) \<Rightarrow>
                                  (Inl (Wrap (''replacing '' @ go_quote (remotePath f) @ '': '') rerr []),
                                   cleanupTmp env c tmp w5)
                              | (None, w5) \<Rightarrow>
                                  (Inr n, if PreserveTimes cfg then snd (Chtimes env c (remotePath f) (mtime f) w5)
                                          else w5))))))"

definition uploading :: "fileItem \<Rightarrow> goerr \<Rightarrow> string \<Rightarrow> goerr" where
  "uploading f e post =
     Wrap (''uploading '' @ go_quote (localPath f) @ '' to '' @ go_quote (remotePath f) @ '': '') e post"

definition give_up :: "fileItem \<Rightarrow> goerr \<Rightarrow> goerr" where
  "give_up f lastErr =
     (if isPermanentStatus lastErr
      then uploading f lastErr '' (the server rejected this outright; retrying would not have helped)''
      else uploading f lastErr [])"

text \<open>
  One attempt on connection \<open>i\<close>: it ends the loop, or leaves the error the next attempt follows.
  \<open>again\<close> says that the attempt is not the last, the only case in which the connection is redialed.
\<close>

datatype ('c, 'w) attempt =
    Finished "(goerr, int) result" "('c, 'w) state"
  | Retry goerr "('c, 'w) state"

definition upload_attempt ::
    "config \<Rightarrow> ('c, 'w) remote \<Rightarrow> bool \<Rightarrow> int \<Rightarrow> fileItem \<Rightarrow> nat \<Rightarrow> nat \<Rightarrow> nat \<Rightarrow> bool \<Rightarrow> ('c, 'w) state
       \<Rightarrow> ('c, 'w) attempt" where
  "upload_attempt cfg env watch requests f index m i again st =
     (case uploadFile cfg env requests f index m (client (conn_at (fst st) i)) (snd st) of
        (Inr n, w1) \<Rightarrow> Finished (Inr n) (fst st, w1)
      | (Inl err, w1) \<Rightarrow>
          if \<not> isRetryable err then Finished (Inl (give_up f err)) (fst st, w1)
          else if watch \<and> fired env w1 then Finished (Inl (give_up f err)) (fst st, w1)
          else if isConnError err \<and> again then
            (case reconnect cfg env watch i (gen (conn_at (fst st) i)) (fst st, w1) of
               (Inl rerr, st2) \<Rightarrow>
                 Finished (Inl (uploading f err ('' ('' @ err_text rerr @ '')''))) st2
             | (Inr _, st2) \<Rightarrow> Retry err st2)
          else Retry err (fst st, w1))"

text \<open>The loop: \<open>left\<close> attempts remain after the current one, so the next is \<open>Retries - left\<close>.\<close>

primrec upload_attempts ::
    "config \<Rightarrow> ('c, 'w) remote \<Rightarrow> bool \<Rightarrow> int \<Rightarrow> fileItem \<Rightarrow> nat \<Rightarrow> nat \<Rightarrow> nat \<Rightarrow> nat \<Rightarrow> ('c, 'w) state
       \<Rightarrow> (goerr, int) result \<times> ('c, 'w) state" where
  "upload_attempts cfg env watch requests f index m i 0 st =
     (case upload_attempt cfg env watch requests f index m i False st of
        Finished r st1 \<Rightarrow> (r, st1)
      | Retry err st1 \<Rightarrow> (Inl (give_up f err), st1))"
| "upload_attempts cfg env watch requests f index m i (Suc left) st =
     (case upload_attempt cfg env watch requests f index m i True st of
        Finished r st1 \<Rightarrow> (r, st1)
      | Retry err st1 \<Rightarrow>
          (case sleepBackoff env (Retries cfg - left) (snd st1) of
             (Some e, w2) \<Rightarrow> (Inl e, (fst st1, w2))
           | (None, w2) \<Rightarrow>
               upload_attempts cfg env watch requests f index m i left
                 (fst st1, snd (Remove env (client (conn_at (fst st1) i))
                    (uploadTempPath (remotePath f) index) w2))))"

definition uploadFileWithRetry ::
    "config \<Rightarrow> ('c, 'w) remote \<Rightarrow> bool \<Rightarrow> int \<Rightarrow> fileItem \<Rightarrow> nat \<Rightarrow> nat \<Rightarrow> ('c, 'w) state
       \<Rightarrow> (goerr, int) result \<times> ('c, 'w) state" where
  "uploadFileWithRetry cfg env watch requests f index m st =
     (case acquire cfg env index st of
        (i, st') \<Rightarrow> upload_attempts cfg env watch requests f index m i (Retries cfg) st')"

section \<open>The skip-unchanged check\<close>

function remoteSameSize ::
    "config \<Rightarrow> ('c, 'w) remote \<Rightarrow> bool \<Rightarrow> fileItem \<Rightarrow> nat \<Rightarrow> ('c, 'w) state
       \<Rightarrow> (goerr, bool) result \<times> ('c, 'w) state" where
  "remoteSameSize cfg env watch f index st =
     (case acquire cfg env index st of
        (i, (s, w)) \<Rightarrow>
          case Stat env (client (conn_at s i)) (remotePath f) w of
            (Inr fi, w') \<Rightarrow> (Inr (fi_regular fi \<and> fi_size fi = fsize f), (s, w'))
          | (Inl e, w') \<Rightarrow>
              if \<not> isConnError e then (Inr False, (s, w'))
              else if watch \<and> fired env w' then (Inl e, (s, w'))
              else
                (case reconnect cfg env watch i (gen (conn_at s i)) (s, w') of
                   (Inl re, st') \<Rightarrow>
                     (Inl (Wrap (''stat '' @ remotePath f @ '': '') e ('' ('' @ err_text re @ '')'')), st')
                 | (Inr c, st') \<Rightarrow> remoteSameSize cfg env watch f index st'))"
  by pat_completeness auto
termination
  by (relation "measure (\<lambda>(cfg, env, watch, f, index, st). Retries cfg - reconnects (fst st))")
    (auto dest: redial_measure)

declare remoteSameSize.simps [simp del]

section \<open>All files of a deployment\<close>

text \<open>The run's counters, of which the code keeps the files and directories as \<open>int\<close>; they only grow.\<close>

record Stats =
  FilesUploaded :: nat
  FilesDeleted :: nat
  DirsDeleted :: nat
  FilesSkipped :: nat
  BytesUploaded :: int

type_synonym ('c, 'w) uploads = "bool list \<times> bool list \<times> int list \<times> ('c, 'w) state"

definition upload_item ::
    "config \<Rightarrow> ('c, 'w) remote \<Rightarrow> bool \<Rightarrow> int \<Rightarrow> bool \<Rightarrow> fileItem list \<Rightarrow> nat \<Rightarrow> ('c, 'w) uploads
       \<Rightarrow> goerr option \<times> ('c, 'w) uploads" where
  "upload_item cfg env watch requests skipUnchanged fs i s =
     (case s of (completed, skipped, results, st) \<Rightarrow>
        case (if skipUnchanged then remoteSameSize cfg env watch (fs ! i) i st else (Inr False, st)) of
          (Inl e, st1) \<Rightarrow> (Some e, (completed, skipped, results, st1))
        | (Inr same, st1) \<Rightarrow>
            if same then (None, (completed, skipped[i := True], results, st1))
            else if DryRun cfg then
              (None, (completed[i := True], skipped, results[i := fsize (fs ! i)], st1))
            else
              (case uploadFileWithRetry cfg env watch requests (fs ! i) i
                      (case FileMode cfg of Some m \<Rightarrow> m | None \<Rightarrow> fmode (fs ! i) mod 512) st1 of
                 (Inl e, st2) \<Rightarrow> (Some e, (completed, skipped, results, st2))
               | (Inr n, st2) \<Rightarrow> (None, (completed[i := True], skipped, results[i := n], st2))))"

text \<open>
  The settings chosen for the deployment, the clamp of its session's \<open>setSpread\<close>, and whether a
  controller may change the spread.
\<close>

record chosen =
  ch_concurrency :: nat
  ch_connections :: nat
  ch_requests :: int
  ch_clamp :: "nat \<Rightarrow> nat"
  ch_adaptive :: bool

text \<open>What the controller's goroutine has done to the spread by the time a file takes effect.\<close>

definition steered :: "(nat \<Rightarrow> nat) \<Rightarrow> nat list \<Rightarrow> 'c session \<Rightarrow> 'c session" where
  "steered clamp ns s = fold (\<lambda>n s. snd (setSpread clamp n s)) ns s"

definition steer ::
    "config \<Rightarrow> ('c, 'w) remote \<Rightarrow> chosen \<Rightarrow> nat \<Rightarrow> ('c, 'w) uploads \<Rightarrow> ('c, 'w) uploads" where
  "steer cfg env ch i u =
     (case u of (completed, skipped, results, (s, w)) \<Rightarrow>
        (completed, skipped, results,
         (if ch_adaptive ch \<and> \<not> DryRun cfg then steered (ch_clamp ch) (moves env i w) s else s, w)))"

definition steered_item ::
    "config \<Rightarrow> ('c, 'w) remote \<Rightarrow> bool \<Rightarrow> chosen \<Rightarrow> bool \<Rightarrow> fileItem list \<Rightarrow> nat \<Rightarrow> ('c, 'w) uploads
       \<Rightarrow> goerr option \<times> ('c, 'w) uploads" where
  "steered_item cfg env watch ch skipUnchanged fs i u =
     upload_item cfg env watch (ch_requests ch) skipUnchanged fs i (steer cfg env ch i u)"

fun tally :: "bool list \<Rightarrow> bool list \<Rightarrow> int list \<Rightarrow> Stats \<Rightarrow> Stats" where
  "tally (c # cs) (k # ks) (n # ns) stats =
     tally cs ks ns
       (if k then stats\<lparr>FilesSkipped := FilesSkipped stats + 1\<rparr>
        else if c then stats\<lparr>FilesUploaded := FilesUploaded stats + 1, BytesUploaded := BytesUploaded stats + n\<rparr>
        else stats)"
| "tally _ _ _ stats = stats"

definition run_uploads ::
    "config \<Rightarrow> ('c, 'w) remote \<Rightarrow> bool \<Rightarrow> chosen \<Rightarrow> bool \<Rightarrow> fileItem list \<Rightarrow> ('c, 'w) state
       \<Rightarrow> goerr option \<times> ('c, 'w) uploads" where
  "run_uploads cfg env watch ch skipUnchanged fs st =
     (let s = snd (setSpread (ch_clamp ch) (ch_connections ch) (fst st)) in
      runBounded (\<lambda>(_, _, _, _, w). ctx_err env w) (\<lambda>l n (_, _, _, _, w). schedule env l n w)
        (ch_concurrency ch) (length fs) (steered_item cfg env watch ch skipUnchanged fs)
        (replicate (length fs) False, replicate (length fs) False, replicate (length fs) 0, (s, snd st)))"

definition uploadFiles ::
    "config \<Rightarrow> ('c, 'w) remote \<Rightarrow> bool \<Rightarrow> chosen \<Rightarrow> fileItem list \<Rightarrow> fileItem list \<Rightarrow> string list
       \<Rightarrow> string list \<Rightarrow> string \<Rightarrow> bool \<Rightarrow> Stats \<times> ('c, 'w) state
       \<Rightarrow> (bool list \<times> goerr option) \<times> Stats \<times> ('c, 'w) state" where
  "uploadFiles cfg env watch ch fs planned dirs sweepDirs base skipUnchanged sst =
     (case sst of (stats, st) \<Rightarrow>
        case (if DryRun cfg then (None, st)
              else
                (case createRemoteDirs cfg env watch dirs st of
                   (Some e, st1) \<Rightarrow> (Some e, st1)
                 | (None, st1) \<Rightarrow>
                     (None, sweepStaleTemps cfg env watch base sweepDirs (map remotePath planned) st1))) of
          (Some e, st1) \<Rightarrow> ((replicate (length fs) False, Some e), (stats, st1))
        | (None, st1) \<Rightarrow>
            (case run_uploads cfg env watch ch skipUnchanged fs st1 of
               (err, (completed, skipped, results, st2)) \<Rightarrow>
                 ((completed, err), (tally completed skipped results stats, st2))))"

text \<open>Steering touches the session's spread and nothing else.\<close>

lemma steer_world [simp]: "snd (snd (snd (snd (steer cfg env ch i u)))) = snd (snd (snd (snd u)))"
  by (simp add: steer_def split: prod.split)

lemma steer_counts [simp]: "fst (steer cfg env ch i u) = fst u" "fst (snd (steer cfg env ch i u)) = fst (snd u)"
  "fst (snd (snd (steer cfg env ch i u))) = fst (snd (snd u))"
  by (simp_all add: steer_def split: prod.split)

section \<open>What an upload asks of the server\<close>

text \<open>The requests of uploading one file: its temporary name, its backup name and its target.\<close>

fun upload_request :: "fileItem \<Rightarrow> nat \<Rightarrow> request \<Rightarrow> bool" where
  "upload_request f i (TruncReq p) = (p = uploadTempPath (remotePath f) i)"
| "upload_request f i (RemoveReq p) = (p = uploadTempPath (remotePath f) i \<or> p = remotePath f @ bakSuffix)"
| "upload_request f i (PosixRenameReq p q) = (p = uploadTempPath (remotePath f) i \<and> q = remotePath f)"
| "upload_request f i (RenameReq p q) =
     (p = uploadTempPath (remotePath f) i \<and> q = remotePath f \<or>
      p = remotePath f \<and> q = remotePath f @ bakSuffix \<or> p = remotePath f @ bakSuffix \<and> q = remotePath f)"
| "upload_request f i (RmdirReq p) = False"

context guarded_env
begin

lemma nonDirConflict_in_keeps: "P w \<Longrightarrow> P (snd (nonDirConflict_in env c ds w))"
proof (induction ds arbitrary: w)
  case (Cons d ds)
  obtain r w' where r: "Stat env c d w = (r, w')" by (meson surj_pair)
  have "P w'" using keep_stat [OF Cons.prems, of c d] by (simp add: r)
  then show ?case by (simp add: r Cons.IH split: sum.split)
qed simp

lemma mkdir_action_keeps:
  assumes "P w"
  shows "P (snd (mkdir_action env dir c w))"
proof -
  obtain e w1 where m: "MkdirAll env c dir w = (e, w1)" by (meson surj_pair)
  obtain i w2 where s: "Stat env c dir w1 = (i, w2)" by (meson surj_pair)
  obtain b w3 where n: "nonDirConflict env c dir w2 = (b, w3)" by (meson surj_pair)
  have w1: "P w1" using keep_mkdir [OF assms] m by (metis snd_conv)
  have w2: "P w2" using keep_stat [OF w1] s by (metis snd_conv)
  have w3: "P w3" using nonDirConflict_in_keeps [OF w2] n unfolding nonDirConflict_def by (metis snd_conv)
  show ?thesis using w1 w2 w3
    by (auto simp: mkdir_action_def m s n split: option.splits sum.splits)
qed

lemma chmod_action_keeps: "P w \<Longrightarrow> P (snd (chmod_action env dir m c w))"
  using keep_chmod [of w c dir m] by (auto simp: chmod_action_def split: prod.splits option.splits)

lemma createRemoteDirs_keeps:
  assumes "P (snd st)"
  shows "P (snd (snd (createRemoteDirs cfg env watch dirs st)))"
proof -
  have one: "P (snd (snd (mkdir_item cfg env watch ds i s)))" if "P (snd s)" for ds i s
  proof -
    obtain r s' where r: "session_do cfg env watch (mkdir_action env (ds ! i)) s = (r, s')" by (meson surj_pair)
    have "P (snd s')" by (rule session_do_keeps [OF that mkdir_action_keeps r])
    with r show ?thesis by (auto simp: mkdir_item_def split: sum.splits)
  qed
  have two: "P (snd (snd (chmod_item cfg env watch ds m i s)))" if "P (snd s)" for ds m i s
  proof -
    obtain r s' where r: "session_do cfg env watch (chmod_action env (ds ! i) m) s = (r, s')"
      by (meson surj_pair)
    have "P (snd s')" by (rule session_do_keeps [OF that chmod_action_keeps r])
    with r show ?thesis by (simp add: chmod_item_def)
  qed
  let ?run1 = "runBounded (\<lambda>(_, w). ctx_err env w) (\<lambda>l n (_, w). schedule env l n w)
             (workers cfg (length (leafDirs dirs))) (length (leafDirs dirs)) (mkdir_item cfg env watch (leafDirs dirs)) st"
  obtain e st1 where r1: "?run1 = (e, st1)" by (meson surj_pair)
  have "P (snd (snd ?run1))"
    by (rule runBounded_invariant [where P = "\<lambda>s. P (snd s)"]) (use assms one in auto)
  then have st1: "P (snd st1)" by (simp add: r1)
  have "P (snd (snd (runBounded (\<lambda>(_, w). ctx_err env w) (\<lambda>l n (_, w). schedule env l n w)
                        (workers cfg (length dirs)) (length dirs) (chmod_item cfg env watch dirs m) st1)))" for m
    by (rule runBounded_invariant [where P = "\<lambda>s. P (snd s)"]) (use st1 two in auto)
  with st1 show ?thesis by (auto simp: createRemoteDirs_def Let_def r1 split: option.splits)
qed

lemma uploadFile_keeps:
  assumes P: "P w" and ok: "\<And>r. upload_request f i r \<Longrightarrow> allowed r"
  shows "P (snd (uploadFile cfg env requests f i m c w))"
proof -
  let ?tmp = "uploadTempPath (remotePath f) i"
  obtain e1 w1 where r1: "OpenTrunc env c ?tmp w = (e1, w1)" by (meson surj_pair)
  have w1: "P w1" using guard_trunc [OF P, of ?tmp c] ok by (simp add: r1)
  obtain n e2 w2 where r2: "StreamFrom env c ?tmp (localPath f) (max requests 1) w1 = ((n, e2), w2)"
    by (metis surj_pair)
  have w2: "P w2" using guard_stream [OF w1, of ?tmp c "localPath f" "max requests 1"] ok by (simp add: r2)
  obtain e3 w3 where r3: "CloseFile env c ?tmp w2 = (e3, w3)" by (meson surj_pair)
  have w3: "P w3" using keep_closefile [OF w2, of c ?tmp] by (simp add: r3)
  have clean: "P (cleanupTmp env c ?tmp u)" if "P u" for u
    using guard_remove [OF that, of ?tmp c] ok by (simp add: cleanupTmp_def)
  obtain e5 w5 where r5: "renameReplace env c ?tmp (remotePath f) (snd (Chmod env c ?tmp m w3)) = (e5, w5)"
    by (meson surj_pair)
  have "P (snd (renameReplace env c ?tmp (remotePath f) (snd (Chmod env c ?tmp m w3))))"
    by (rule renameReplace_keeps [OF keep_chmod [OF w3]]) (auto intro: ok)
  then have w5: "P w5" by (simp add: r5)
  show ?thesis
    using P w1 w3 w5 clean keep_chtimes [OF w5, of c "remotePath f" "mtime f"]
    by (simp add: uploadFile_def Let_def r1 r2 r3 r5 split: option.split)
qed

lemma upload_attempt_keeps:
  assumes P: "P (snd st)" and ok: "\<And>r. upload_request f k r \<Longrightarrow> allowed r"
  shows "case upload_attempt cfg env watch requests f k m i again st of
      Finished _ st' \<Rightarrow> P (snd st') | Retry _ st' \<Rightarrow> P (snd st')"
proof -
  let ?c = "client (conn_at (fst st) i)" and ?g = "gen (conn_at (fst st) i)"
  obtain r w1 where u: "uploadFile cfg env requests f k m ?c (snd st) = (r, w1)" by (meson surj_pair)
  have w1: "P w1" using uploadFile_keeps [OF P, of f k cfg requests m ?c] ok by (simp add: u)
  obtain x st2 where rc: "reconnect cfg env watch i ?g (fst st, w1) = (x, st2)" by (meson surj_pair)
  have "P (snd st2)" by (rule reconnect_keeps [OF _ rc]) (simp add: w1)
  with w1 show ?thesis by (simp add: upload_attempt_def u rc split: sum.split)
qed

lemma upload_attempts_keeps:
  assumes ok: "\<And>r. upload_request f k r \<Longrightarrow> allowed r"
  shows "P (snd st) \<Longrightarrow> P (snd (snd (upload_attempts cfg env watch requests f k m i left st)))"
proof (induction left arbitrary: st)
  case 0
  show ?case
    using upload_attempt_keeps [OF 0 ok, of f k cfg watch requests m i False]
    by (cases "upload_attempt cfg env watch requests f k m i False st") simp_all
next
  case (Suc left)
  show ?case
  proof (cases "upload_attempt cfg env watch requests f k m i True st")
    case (Finished r st1)
    with upload_attempt_keeps [OF Suc.prems ok, of f k cfg watch requests m i True] show ?thesis by simp
  next
    case (Retry err st1)
    have st1: "P (snd st1)"
      using upload_attempt_keeps [OF Suc.prems ok, of f k cfg watch requests m i True] Retry by simp
    obtain e w2 where sl: "sleepBackoff env (Retries cfg - left) (snd st1) = (e, w2)" by (meson surj_pair)
    have w2: "P w2" using keep_sleep [OF st1, of "Retries cfg - left"] by (simp add: sl)
    have "P (snd (Remove env (client (conn_at (fst st1) i)) (uploadTempPath (remotePath f) k) w2))"
      by (rule guard_remove [OF w2]) (rule ok, simp)
    then show ?thesis using w2 Suc.IH
      by (simp add: Retry sl split: option.split)
  qed
qed

lemma uploadFileWithRetry_keeps:
  assumes P: "P (snd st)" and ok: "\<And>r. upload_request f k r \<Longrightarrow> allowed r"
  shows "P (snd (snd (uploadFileWithRetry cfg env watch requests f k m st)))"
proof -
  obtain i st' where a: "acquire cfg env k st = (i, st')" by (meson surj_pair)
  have "P (snd st')" by (rule acquire_keeps [OF P a])
  from upload_attempts_keeps [OF ok this] show ?thesis by (simp add: uploadFileWithRetry_def a)
qed

lemma remoteSameSize_keeps:
  "P (snd st) \<Longrightarrow> remoteSameSize cfg env watch f k st = (r, st') \<Longrightarrow> P (snd st')"
proof (induction "Retries cfg - reconnects (fst st)" arbitrary: st rule: less_induct)
  case less
  obtain i s w where a: "acquire cfg env k st = (i, (s, w))" by (metis surj_pair)
  have w: "P w" using acquire_keeps [OF less.prems(1) a] by simp
  obtain x w1 where st: "Stat env (client (conn_at s i)) (remotePath f) w = (x, w1)" by (meson surj_pair)
  have w1: "P w1" using keep_stat [OF w, of "client (conn_at s i)" "remotePath f"] by (simp add: st)
  obtain y st2 where rc: "reconnect cfg env watch i (gen (conn_at s i)) (s, w1) = (y, st2)"
    by (meson surj_pair)
  have st2: "P (snd st2)" by (rule reconnect_keeps [OF _ rc]) (simp add: w1)
  note run = less.prems(2) [unfolded remoteSameSize.simps [of cfg env watch f k st] a prod.case st]
  show ?case
  proof (cases "\<exists>e. x = Inl e \<and> isConnError e \<and> \<not> (watch \<and> fired env w1) \<and> (\<exists>c. y = Inr c)")
    case True
    then obtain e c where e: "x = Inl e" "isConnError e" "\<not> (watch \<and> fired env w1)" "y = Inr c" by blast
    have m: "Retries cfg - reconnects (fst st2) < Retries cfg - reconnects (fst st)"
      by (rule redial_measure [OF a [symmetric] refl rc [symmetric] e(4)])
    have "remoteSameSize cfg env watch f k st2 = (r, st')" using run e rc by simp
    with less.hyps [OF m st2] show ?thesis by simp
  next
    case False
    then show ?thesis using run w1 st2 rc
      by (cases x; cases y) (auto split: if_splits)
  qed
qed

lemma upload_item_keeps:
  assumes P: "P (snd (snd (snd (snd u))))" and k: "k < length fs"
    and ok: "\<And>r. upload_request (fs ! k) k r \<Longrightarrow> allowed r"
  shows "P (snd (snd (snd (snd (snd (upload_item cfg env watch requests su fs k u))))))"
proof -
  obtain completed skipped results st where u: "u = (completed, skipped, results, st)" by (metis surj_pair)
  obtain x st1 where c: "(if su then remoteSameSize cfg env watch (fs ! k) k st else (Inr False, st)) = (x, st1)"
    by (meson surj_pair)
  have st1: "P (snd st1)"
    using c P u remoteSameSize_keeps [of st cfg watch "fs ! k" k x st1] by (auto split: if_splits)
  let ?m = "case FileMode cfg of Some m \<Rightarrow> m | None \<Rightarrow> fmode (fs ! k) mod 512"
  obtain y st2 where t: "uploadFileWithRetry cfg env watch requests (fs ! k) k ?m st1 = (y, st2)"
    by (meson surj_pair)
  have "P (snd (snd (uploadFileWithRetry cfg env watch requests (fs ! k) k ?m st1)))"
    by (rule uploadFileWithRetry_keeps [OF st1]) (rule ok)
  then have st2: "P (snd st2)" by (simp add: t)
  show ?thesis using st1 st2
    by (simp add: upload_item_def u c t split: sum.split)
qed

lemma run_uploads_keeps:
  assumes P: "P (snd st)"
    and ok: "\<And>k r. k < length fs \<Longrightarrow> upload_request (fs ! k) k r \<Longrightarrow> allowed r"
  shows "P (snd (snd (snd (snd (snd (run_uploads cfg env watch ch su fs st))))))"
  unfolding run_uploads_def Let_def
proof (rule runBounded_invariant [where P = "\<lambda>u. P (snd (snd (snd (snd u))))"])
  fix k and u :: "('a, 'b) uploads"
  assume k: "k < length fs" and u: "P (snd (snd (snd (snd u))))"
  show "P (snd (snd (snd (snd (snd (steered_item cfg env watch ch su fs k u))))))"
    unfolding steered_item_def by (rule upload_item_keeps [OF _ k]) (use u ok [OF k] in simp_all)
qed (use P in simp)

lemma uploadFiles_keeps:
  assumes P: "P (snd (snd sst))"
    and ok: "\<And>k r. k < length fs \<Longrightarrow> upload_request (fs ! k) k r \<Longrightarrow> allowed r"
    and sw: "\<And>dir name full. dir \<in> set (sweep_dirs base sweepDirs (map remotePath planned)) \<Longrightarrow>
      isTempFileName name \<Longrightarrow> safeChild dir name = Inr full \<Longrightarrow> full \<notin> remotePath ` set planned \<Longrightarrow>
      allowed (RemoveReq full)"
  shows "P (snd (snd (snd (uploadFiles cfg env watch ch fs planned dirs sweepDirs base su sst))))"
proof -
  obtain stats st where sst: "sst = (stats, st)" by (meson surj_pair)
  obtain e st1 where d: "createRemoteDirs cfg env watch dirs st = (e, st1)" by (meson surj_pair)
  have P0: "P (snd st)" using P sst by simp
  have st1: "P (snd st1)" using createRemoteDirs_keeps [OF P0, of cfg watch dirs] by (simp add: d)
  let ?st2 = "sweepStaleTemps cfg env watch base sweepDirs (map remotePath planned) st1"
  have st2: "P (snd ?st2)"
    by (rule sweepStaleTemps_keeps [OF st1]) (rule sw, simp_all)
  have run: "P (snd (snd (snd (snd u))))" if "run_uploads cfg env watch ch su fs st' = (x, u)" "P (snd st')" for st' x u
    using run_uploads_keeps [where cfg = cfg and watch = watch and ch = ch and su = su and fs = fs,
        OF that(2) ok] that(1) by simp
  obtain x u where ru: "run_uploads cfg env watch ch su fs (if DryRun cfg then st else ?st2) = (x, u)"
    by (meson surj_pair)
  obtain a b c v where u: "u = (a, b, c, v)" by (metis surj_pair)
  have "P (snd v)" using run [OF ru] P0 st2 u by (simp split: if_splits)
  with st1 ru u show ?thesis
    by (auto simp: uploadFiles_def sst d split: option.split)
qed

end

text \<open>
  A deployment's upload phase touches nothing but its own names: every truncation,
  removal and rename it asks for concerns a planned file's temporary name, its backup name or its
  target, apart from the removals of the stale-temp sweep.
\<close>

theorem upload_touches_only_its_names:
  "all_noted (\<lambda>r. (\<exists>k < length fs. upload_request (fs ! k) k r) \<or>
       (\<exists>dir name full. r = RemoveReq full \<and>
          dir \<in> set (sweep_dirs base sweepDirs (map remotePath planned)) \<and>
          safeChild dir name = Inr full \<and> isTempFileName name \<and> full \<notin> remotePath ` set planned))
     (snd (snd (snd (uploadFiles cfg (traced env) watch ch fs planned dirs sweepDirs base su
        (stats, (s, (w, [])))))))"
  by (rule tr.uploadFiles_keeps) (auto simp: all_noted_def)

section \<open>A successful phase uploaded or skipped every file\<close>

definition sized :: "fileItem list \<Rightarrow> ('c, 'w) uploads \<Rightarrow> bool" where
  "sized fs u \<longleftrightarrow> length (fst u) = length fs \<and> length (fst (snd u)) = length fs \<and>
     length (fst (snd (snd u))) = length fs"

definition settled :: "nat \<Rightarrow> ('c, 'w) uploads \<Rightarrow> bool" where
  "settled i u \<longleftrightarrow> fst u ! i \<or> fst (snd u) ! i"

lemma upload_item_sized: "sized fs u \<Longrightarrow> sized fs (snd (upload_item cfg env watch rq su fs i u))"
  by (auto simp: sized_def upload_item_def split: prod.splits sum.splits)

lemma upload_item_settles:
  assumes "sized fs u" "i < length fs" "fst (upload_item cfg env watch rq su fs i u) = None"
  shows "settled i (snd (upload_item cfg env watch rq su fs i u))"
  using assms by (auto simp: sized_def settled_def upload_item_def split: prod.splits sum.splits if_splits)

lemma nth_update_True: "xs ! i \<Longrightarrow> i < length xs \<Longrightarrow> xs[j := True] ! i"
  by (cases "i = j") auto

lemma upload_item_stays:
  assumes "sized fs u" "settled i u" "i < length fs"
  shows "settled i (snd (upload_item cfg env watch rq su fs j u))"
  using assms
  by (auto simp: sized_def settled_def upload_item_def nth_update_True split: prod.splits sum.splits)

lemma steer_sized [simp]: "sized fs (steer cfg env ch i u) = sized fs u"
  "settled j (steer cfg env ch i u) = settled j u"
  by (simp_all add: sized_def settled_def)

lemma steered_item_counts:
  "sized fs u \<Longrightarrow> sized fs (snd (steered_item cfg env watch ch su fs i u))"
  "sized fs u \<Longrightarrow> i < length fs \<Longrightarrow> fst (steered_item cfg env watch ch su fs i u) = None \<Longrightarrow>
     settled i (snd (steered_item cfg env watch ch su fs i u))"
  "sized fs u \<Longrightarrow> settled i u \<Longrightarrow> i < length fs \<Longrightarrow> settled i (snd (steered_item cfg env watch ch su fs j u))"
  by (simp_all add: steered_item_def upload_item_sized upload_item_settles upload_item_stays)

lemma tally_counts:
  "length ks = length cs \<Longrightarrow> length ns = length cs \<Longrightarrow> \<forall>i < length cs. cs ! i \<or> ks ! i \<Longrightarrow>
     FilesUploaded (tally cs ks ns stats) + FilesSkipped (tally cs ks ns stats) =
     FilesUploaded stats + FilesSkipped stats + length cs"
proof (induction cs ks ns stats rule: tally.induct)
  case (1 c cs k ks n ns stats)
  have "\<forall>i < length cs. cs ! i \<or> ks ! i" using 1(4) by (auto dest: spec [of _ "Suc i" for i])
  moreover have "c \<or> k" using 1(4) by (auto dest: spec [of _ 0])
  ultimately show ?case using 1 by auto
qed auto

text \<open>
  An upload phase that reports no error has dealt with every file it was given: each
  one is marked completed or was skipped as unchanged, and the run's counters account for all of
  them, whatever order and overlap the workers had.
\<close>

theorem upload_phase_complete:
  assumes "\<And>l n w. valid_schedule l n (schedule env l n w)"
    and "uploadFiles cfg env watch ch fs planned dirs sweepDirs base su (stats, st) =
      ((completed, None), (stats', st'))"
  shows "length completed = length fs \<and>
    FilesUploaded stats' + FilesSkipped stats' = FilesUploaded stats + FilesSkipped stats + length fs"
proof -
  obtain st1 c k r st2 where run: "run_uploads cfg env watch ch su fs st1 = (None, (c, k, r, st2))"
    and res: "completed = c" "stats' = tally c k r stats"
    using assms(2) by (auto simp: uploadFiles_def split: prod.splits option.splits if_splits)
  let ?u = "(c, k, r, st2)"
  have "sized fs ?u \<and> (\<forall>i < length fs. settled i ?u)"
  proof (rule runBounded_all_ran [where I = "sized fs" and Q = settled,
        OF run [unfolded run_uploads_def Let_def]])
    show "sized fs (replicate (length fs) False, replicate (length fs) False, replicate (length fs) 0,
        snd (setSpread (ch_clamp ch) (ch_connections ch) (fst st1)), snd st1)"
      by (simp add: sized_def)
    show "valid_schedule (max (ch_concurrency ch) 1) (length fs)
        (case (replicate (length fs) False, replicate (length fs) False, replicate (length fs) (0 :: int),
          snd (setSpread (ch_clamp ch) (ch_connections ch) (fst st1)), snd st1) of
          (_, _, _, _, w) \<Rightarrow> schedule env (max (ch_concurrency ch) 1) (length fs) w)"
      by (simp add: assms(1))
  qed ((rule steered_item_counts; assumption)+)
  then show ?thesis
    using tally_counts [of k c r stats] res by (auto simp: sized_def settled_def)
qed

section \<open>Publishing a file is atomic\<close>

text \<open>
  The rest of what a file server does with an upload: opening truncates at most the named file,
  streaming writes at most the named file and, when it reports no error, leaves the source's
  content there; closing and changing attributes leave contents alone; a \<open>posix-rename\<close> moves the
  content or changes nothing, and changes nothing when it is answered as unsupported.
\<close>

definition only_at :: "string \<Rightarrow> (string \<Rightarrow> 'd option) \<Rightarrow> (string \<Rightarrow> 'd option) \<Rightarrow> bool" where
  "only_at p m m' \<longleftrightarrow> (\<forall>q. q \<noteq> p \<longrightarrow> m' q = m q)"

definition upload_server ::
    "('c, 'w) remote \<Rightarrow> ('w \<Rightarrow> string \<Rightarrow> 'd option) \<Rightarrow> (string \<Rightarrow> 'd) \<Rightarrow> bool" where
  "upload_server env content data \<longleftrightarrow> file_server env content \<and>
     (\<forall>c p w. only_at p (content w) (content (snd (OpenTrunc env c p w)))) \<and>
     (\<forall>c p src k w. only_at p (content w) (content (snd (StreamFrom env c p src k w))) \<and>
        (snd (fst (StreamFrom env c p src k w)) = None \<longrightarrow>
           content (snd (StreamFrom env c p src k w)) p = Some (data src))) \<and>
     (\<forall>c p w. content (snd (CloseFile env c p w)) = content w) \<and>
     (\<forall>c p k w. content (snd (Chmod env c p k w)) = content w) \<and>
     (\<forall>c p t w. content (snd (Chtimes env c p t w)) = content w) \<and>
     (\<forall>c p q w. content (snd (PosixRename env c p q w)) \<in> {content w, moved p q (content w)}) \<and>
     (\<forall>c p q w. fst (PosixRename env c p q w) = None \<longrightarrow>
        content (snd (PosixRename env c p q w)) = moved p q (content w)) \<and>
     (\<forall>c p q w e. fst (PosixRename env c p q w) = Some e \<longrightarrow>
        posixRenameUnsupported e (HasPosixRename env c) \<longrightarrow>
        content (snd (PosixRename env c p q w)) = content w)"

lemma temp_names_distinct:
  "distinct [uploadTempPath p i, p, p @ bakSuffix]"
proof -
  have "decimal i \<noteq> ''bak''"
  proof
    assume "decimal i = ''bak''"
    with decimal_digits [of i] show False by simp
  qed
  then have "''.'' @ decimal i \<noteq> ''.bak''" by simp
  then show ?thesis by (simp add: uploadTempPath_def bakSuffix_def tmpSuffix_def)
qed

text \<open>What an upload attempt may leave: the target old, new, or parked; other files untouched.\<close>

definition published ::
    "string \<Rightarrow> nat \<Rightarrow> 'd \<Rightarrow> (string \<Rightarrow> 'd option) \<Rightarrow> (string \<Rightarrow> 'd option) \<Rightarrow> bool" where
  "published final i d m m' \<longleftrightarrow>
     (m' final = m final \<or> m' final = Some d \<or> m' (final @ bakSuffix) = m final) \<and>
     (\<forall>q. q \<notin> {uploadTempPath final i, final, final @ bakSuffix} \<longrightarrow> m' q = m q)"

lemma renameReplace_published:
  assumes us: "upload_server env content data"
    and m: "only_at (uploadTempPath final i) m0 (content w)" "content w (uploadTempPath final i) = Some d"
    and run: "renameReplace env c (uploadTempPath final i) final w = (e, w')"
  shows "published final i d m0 (content w') \<and> (e = None \<longrightarrow> content w' final = Some d)"
proof -
  let ?tmp = "uploadTempPath final i"
  note ds = temp_names_distinct [of final i]
  have fs: "file_server env content" using us by (simp add: upload_server_def)
  have mf: "content w final = m0 final" using m(1) ds by (auto simp: only_at_def)
  obtain pe w1 where p: "PosixRename env c ?tmp final w = (pe, w1)" by (meson surj_pair)
  have eff: "content w1 = content w \<or> content w1 = moved ?tmp final (content w)"
    using us p unfolding upload_server_def by (metis insertE singletonD snd_conv)
  have mv: "published final i d m0 (moved ?tmp final (content w))"
    "moved ?tmp final (content w) final = Some d"
    using m ds by (auto simp: published_def moved_def only_at_def)
  have same: "published final i d m0 (content w)"
    using m mf by (auto simp: published_def only_at_def)
  show ?thesis
  proof (cases pe)
    case None
    have "content w1 = moved ?tmp final (content w)"
      using us p None unfolding upload_server_def by (metis fst_conv snd_conv)
    with run mv p None show ?thesis by (simp add: renameReplace_def)
  next
    case (Some err)
    show ?thesis
    proof (cases "posixRenameUnsupported err (HasPosixRename env c)")
      case False
      with run p Some have "w' = w1" "e = Some err" by (auto simp: renameReplace_def)
      with eff mv same show ?thesis by auto
    next
      case True
      have c1: "content w1 = content w"
        using us p Some True unfolding upload_server_def by (metis fst_conv snd_conv)
      have "renameReplaceViaBackup env c ?tmp final w1 = (e, w')"
        using run p Some True by (simp add: renameReplace_def)
      from via_backup_kept [OF fs ds this] c1 m mf show ?thesis
        by (auto simp: published_def kept_def only_at_def)
    qed
  qed
qed

lemma cleanup_published:
  assumes "file_server env content" "published final i d m (content w)"
  shows "published final i d m (content (cleanupTmp env c (uploadTempPath final i) w))"
proof -
  obtain e w' where r: "Remove env c (uploadTempPath final i) w = (e, w')" by (meson surj_pair)
  from server_remove [OF assms(1) r] assms(2) temp_names_distinct [of final i] show ?thesis
    by (auto simp: cleanupTmp_def r published_def)
qed

lemma ram_upload_server:
  "upload_server (ram_env sources posix) ram_lookup (\<lambda>p. the (map_of sources p))"
  unfolding upload_server_def
proof (intro conjI ram_file_server)
qed (auto simp: ram_env_def ram_request_def ram_move_def only_at_def moved_def posixRenameUnsupported_def
    no_such_file_def ram_lookup_put ram_lookup_drop fun_eq_iff split: list.splits option.splits if_splits)

definition sample_session :: "unit session" where
  "sample_session = \<lparr>heap = [\<lparr>client = (), gen = 0\<rparr>], slots = [Some 0], spread = 1, refused = False,
     reconnects = 0\<rparr>"

definition sample_item :: "string \<Rightarrow> fileItem" where
  "sample_item n = \<lparr>localPath = n, remotePath = ''/w/'' @ n, rel = n, fsize = 3, mtime = 7, fmode = 420,
     hash = []\<rparr>"

definition sample_chosen :: chosen where
  "sample_chosen = \<lparr>ch_concurrency = 2, ch_connections = 1, ch_requests = 8, ch_clamp = (\<lambda>n. n), ch_adaptive = True\<rparr>"

definition no_stats :: Stats where
  "no_stats = \<lparr>FilesUploaded = 0, FilesDeleted = 0, DirsDeleted = 0, FilesSkipped = 0, BytesUploaded = 0\<rparr>"

lemma uploadFile_published:
  assumes "upload_server env content data"
    and "uploadFile cfg env requests f i m c w = (r, w')"
  shows "published (remotePath f) i (data (localPath f)) (content w) (content w') \<and>
    (\<forall>n. r = Inr n \<longrightarrow> content w' (remotePath f) = Some (data (localPath f)))"
proof -
  let ?tmp = "uploadTempPath (remotePath f) i" and ?d = "data (localPath f)"
  have fs: "file_server env content" using assms(1) by (simp add: upload_server_def)
  obtain e1 w1 where r1: "OpenTrunc env c ?tmp w = (e1, w1)" by (meson surj_pair)
  obtain n e2 w2 where r2: "StreamFrom env c ?tmp (localPath f) (max requests 1) w1 = ((n, e2), w2)"
    by (metis surj_pair)
  obtain e3 w3 where r3: "CloseFile env c ?tmp w2 = (e3, w3)" by (meson surj_pair)
  define w4 where "w4 = snd (Chmod env c ?tmp m w3)"
  obtain e5 w5 where r5: "renameReplace env c ?tmp (remotePath f) w4 = (e5, w5)" by (meson surj_pair)
  have o1: "only_at ?tmp (content w) (content w1)"
    using assms(1) r1 unfolding upload_server_def by (metis snd_conv)
  have o2: "only_at ?tmp (content w1) (content w2)" "e2 = None \<Longrightarrow> content w2 ?tmp = Some ?d"
    using assms(1) r2 unfolding upload_server_def by (metis fst_conv snd_conv)+
  have c34: "content w3 = content w2" "content w4 = content w3"
    using assms(1) r3 unfolding upload_server_def w4_def by (metis snd_conv)+
  have o3: "only_at ?tmp (content w) (content w3)" using o1 o2 c34 by (simp add: only_at_def)
  have quiet: "published (remotePath f) i ?d (content w) (content u)"
    if "only_at ?tmp (content w) (content u)" for u
    using that temp_names_distinct [of "remotePath f" i] by (auto simp: published_def only_at_def)
  have same: "published (remotePath f) i ?d (content w) (content w)" by (simp add: published_def)
  have ct: "content (snd (Chtimes env c (remotePath f) (mtime f) w5)) = content w5"
    using assms(1) by (simp add: upload_server_def)
  have pub: "e2 = None \<Longrightarrow> published (remotePath f) i ?d (content w) (content w5) \<and>
      (e5 = None \<longrightarrow> content w5 (remotePath f) = Some ?d)"
    by (rule renameReplace_published [OF assms(1) _ _ r5]) (use o3 o2 c34 in simp_all)
  note clean = cleanup_published [OF fs, of "remotePath f" i ?d "content w" _ c]
  show ?thesis
    using assms(2) quiet [OF o1] same clean [OF quiet [OF o3]] clean pub ct
    by (auto simp: uploadFile_def Let_def r1 r2 r3 r5 w4_def [symmetric] split: option.splits if_splits)
qed

text \<open>
  Property C6. One upload attempt is atomic for the target: on success the target holds the whole
  local content; on any failure, wherever it struck, the target still holds its previous content, or
  already the whole new one, or the previous content is under the backup name. It is never left with
  a partial file, and no file besides the three names of this transfer changes.
\<close>

theorem uploadFile_atomic:
  assumes "upload_server env content data"
    and "uploadFile cfg env requests f i m c w = (r, w')"
  shows "published (remotePath f) i (data (localPath f)) (content w) (content w') \<and>
    (\<forall>n. r = Inr n \<longrightarrow> content w' (remotePath f) = Some (data (localPath f)))"
  by (rule uploadFile_published [OF assms])

theorem uploadFile_atomic_witness:
  "published ''/w/a'' 0 ''abc'' (ram_lookup \<lparr>disk = [(''/w/a'', ''old'')], script = []\<rparr>)
     (ram_lookup \<lparr>disk = [(''/w/a'', ''abc'')], script = []\<rparr>)"
proof -
  have r: "uploadFile sample_config (ram_env [(''a'', ''abc'')] False) 8 (sample_item ''a'') 0 420 ()
      \<lparr>disk = [(''/w/a'', ''old'')], script = []\<rparr>
    = (Inr 3, \<lparr>disk = [(''/w/a'', ''abc'')], script = []\<rparr>)" by code_simp
  from uploadFile_atomic [OF ram_upload_server r] show ?thesis by (simp add: sample_item_def)
qed

theorem upload_phase_complete_witness:
  "\<exists>completed stats' st'. uploadFiles sample_config (ram_env [(''a'', ''abc''), (''b'', ''xyz'')] True) False
      sample_chosen [sample_item ''a'', sample_item ''b''] [sample_item ''a'', sample_item ''b''] [''/w''] [''/w'']
      ''/w'' False (no_stats, (sample_session, \<lparr>disk = [], script = []\<rparr>)) = ((completed, None), (stats', st')) \<and>
     length completed = 2 \<and> FilesUploaded stats' + FilesSkipped stats' = 2"
proof -
  let ?run = "uploadFiles sample_config (ram_env [(''a'', ''abc''), (''b'', ''xyz'')] True) False
      sample_chosen [sample_item ''a'', sample_item ''b''] [sample_item ''a'', sample_item ''b''] [''/w''] [''/w'']
      ''/w'' False (no_stats, (sample_session, \<lparr>disk = [], script = []\<rparr>))"
  have n: "snd (fst ?run) = None" by code_simp
  obtain completed stats' st' where r: "?run = ((completed, None), (stats', st'))"
    using n by (metis prod.collapse)
  from upload_phase_complete [OF ram_schedule r] have "length completed = 2"
    "FilesUploaded stats' + FilesSkipped stats' = 2" by (simp_all add: no_stats_def)
  with r show ?thesis by blast
qed

end
