(* ===== verification/Sync_Decide.thy ===== *)
theory Sync_Decide
  imports Planner
begin

text \<open>
  The decisions of the sync mode (\<open>internal/uploader/sync.go\<close>) that need no server: which files
  to upload and which recorded entries to delete, which deletions must happen before the upload
  (\<open>collidingDeletes\<close>), which directories a collision takes out, which directories a deletion
  may leave empty, and the manifest a partially failed run leaves behind (\<open>mergedManifest\<close>). A
  manifest's map is an association list. The folding of one path segment (Unicode compatibility
  normalisation and lower case) is the parameter \<open>fold_seg\<close>.
\<close>

section \<open>Manifests\<close>

record manifest =
  Version :: int
  Files :: "(string \<times> manifestEntry) list"

definition manifestVersion :: int where
  "manifestVersion = 3"

definition m_put :: "string \<Rightarrow> manifestEntry \<Rightarrow> (string \<times> manifestEntry) list \<Rightarrow> (string \<times> manifestEntry) list" where
  "m_put k e m = (k, e) # filter (\<lambda>(k', _). k' \<noteq> k) m"

definition m_del :: "string \<Rightarrow> (string \<times> manifestEntry) list \<Rightarrow> (string \<times> manifestEntry) list" where
  "m_del k m = filter (\<lambda>(k', _). k' \<noteq> k) m"

definition entry_of :: "fileItem \<Rightarrow> manifestEntry" where
  "entry_of f = \<lparr>Hash = hash f, Size = fsize f, MTime = mtime f\<rparr>"

definition mergedManifest :: "manifest \<Rightarrow> fileItem list \<Rightarrow> bool list \<Rightarrow> string list \<Rightarrow> manifest" where
  "mergedManifest old upload completed deleted =
     (let put = fold (\<lambda>(f, c) m. if c then m_put (rel f) (entry_of f) m else m) (zip upload completed) (Files old)
      in \<lparr>Version = manifestVersion, Files = fold m_del deleted put\<rparr>)"

definition joins_below :: "string \<Rightarrow> string \<Rightarrow> bool" where
  "joins_below dir relp = (case safeJoin dir relp of Inl _ \<Rightarrow> False | Inr _ \<Rightarrow> True)"

definition confineManifest :: "manifest \<Rightarrow> string \<Rightarrow> manifest" where
  "confineManifest m dir = m\<lparr>Files := filter (\<lambda>(relp, _). joins_below dir relp) (Files m)\<rparr>"

section \<open>What to upload and what to delete\<close>

definition changed_files :: "manifest \<Rightarrow> fileItem list \<Rightarrow> fileItem list" where
  "changed_files old fs =
     filter (\<lambda>f. case map_of (Files old) (rel f) of None \<Rightarrow> True | Some e \<Rightarrow> Hash e \<noteq> hash f) fs"

definition stale_entries :: "manifest \<Rightarrow> string \<Rightarrow> fileItem list \<Rightarrow> string list" where
  "stale_entries old base fs =
     sort (filter (\<lambda>relp. relp \<notin> rel ` set fs \<and> joins_below base relp) (remdups (map fst (Files old))))"

definition local_manifest :: "fileItem list \<Rightarrow> (string \<times> manifestEntry) list" where
  "local_manifest fs = fold (\<lambda>f m. m_put (rel f) (entry_of f) m) fs []"

section \<open>Colliding deletions\<close>

definition foldPath :: "(string \<Rightarrow> string) \<Rightarrow> string \<Rightarrow> string" where
  "foldPath fold_seg p = join_with (CHR ''/'') (map fold_seg (split_on (CHR ''/'') p))"

definition conflicts :: "(string \<Rightarrow> string) \<Rightarrow> fileItem list \<Rightarrow> string \<Rightarrow> bool" where
  "conflicts fold_seg plan relp \<longleftrightarrow>
     (\<exists>f \<in> set plan. relp \<in> set (up_chain (rel f))) \<or>
     (\<exists>d \<in> set (up_chain (path_dir relp)). d \<in> rel ` set plan) \<or>
     foldPath fold_seg relp \<in> (\<lambda>f. foldPath fold_seg (rel f)) ` set plan"

definition collidingDeletes ::
    "(string \<Rightarrow> string) \<Rightarrow> string list \<Rightarrow> fileItem list \<Rightarrow> string list \<times> string list" where
  "collidingDeletes fold_seg toDelete plan =
     (filter (conflicts fold_seg plan) toDelete, filter (\<lambda>r. \<not> conflicts fold_seg plan r) toDelete)"

text \<open>A chain of ancestors up to \<open>upto_dir\<close>, stopping at a directory already collected.\<close>

fun collect_to :: "string option \<Rightarrow> string list \<Rightarrow> string list \<Rightarrow> string list" where
  "collect_to upto_dir [] acc = acc"
| "collect_to upto_dir (d # ds) acc =
     (if d \<in> set acc then acc
      else if Some d = upto_dir then acc @ [d]
      else collect_to upto_dir ds (acc @ [d]))"

definition collide_dirs :: "string list \<Rightarrow> fileItem list \<Rightarrow> string list" where
  "collide_dirs colliding plan =
     fold (\<lambda>relp acc.
        case List.find (\<lambda>d. d \<in> rel ` set plan) (up_chain (path_dir relp)) of
          None \<Rightarrow> acc
        | Some t \<Rightarrow> collect_to (Some t) (up_chain (path_dir relp)) acc) colliding []"

definition prune_candidates :: "string \<Rightarrow> string list \<Rightarrow> string list" where
  "prune_candidates base deleted =
     fold (\<lambda>f acc. collect_to None (takeWhile (\<lambda>d. d \<noteq> base) (up_chain (path_dir f))) acc) deleted []"

section \<open>Facts about the decisions\<close>

lemma colliding_partition:
  assumes "collidingDeletes fold_seg toDelete plan = (colliding, rest)"
  shows "set colliding \<union> set rest = set toDelete" "set colliding \<inter> set rest = {}"
    "sorted toDelete \<Longrightarrow> sorted colliding \<and> sorted rest"
  using assms by (auto simp: collidingDeletes_def intro: sorted_filter [where f = id, simplified])

lemma map_of_m_put: "map_of (m_put k e m) = (map_of m)(k \<mapsto> e)"
  by (simp add: m_put_def map_of_without fun_eq_iff)

lemma map_of_m_del: "map_of (m_del k m) = (map_of m)(k := None)"
  by (simp add: m_del_def map_of_without)

lemma map_of_fold_del:
  "map_of (fold m_del ks m) k = (if k \<in> set ks then None else map_of m k)"
  by (induction ks arbitrary: m) (auto simp: map_of_m_del)

lemma clean_chain:
  assumes "path_clean p = p" "\<not> path_stop p"
  shows "set (up_chain p) = {d. is_rooted d = is_rooted p \<and> path_clean d = d \<and> path_elems d \<noteq> [] \<and>
    prefix (path_elems d) (path_elems p)}"
proof -
  have n: "normal_elems (is_rooted p) (path_elems p)" by (rule path_elems_normal)
  have r: "p = render_path (is_rooted p) (path_elems p)" using assms(1) by (simp add: path_clean_def)
  have "set (up_chain p) = {render_path (is_rooted p) q | q. prefix q (path_elems p) \<and> q \<noteq> []}"
    using set_up_chain_render [OF n] r by simp
  moreover have "normal_elems (is_rooted p) q" if "prefix q (path_elems p)" for q
    using n that normal_elems_appendD by (metis prefix_def)
  moreover have "x = render_path (is_rooted x) (path_elems x)" if "path_clean x = x" for x
    using that by (simp add: path_clean_def)
  ultimately show ?thesis
    by (auto simp: path_elems_render path_clean_def)
qed

text \<open>A manifest key as this program writes it: a cleaned relative path that names something.\<close>

definition proper_key :: "string \<Rightarrow> bool" where
  "proper_key relp \<longleftrightarrow> path_clean relp = relp \<and> \<not> path_stop relp \<and> \<not> is_rooted relp"

lemma proper_chain:
  "proper_key p \<Longrightarrow> set (up_chain p) =
     {d. \<not> is_rooted d \<and> path_clean d = d \<and> path_elems d \<noteq> [] \<and> prefix (path_elems d) (path_elems p)}"
  using clean_chain [of p] by (auto simp: proper_key_def)

lemma proper_in_chain:
  assumes "proper_key d" "proper_key p"
  shows "d \<in> set (up_chain p) \<longleftrightarrow> prefix (path_elems d) (path_elems p)"
  using assms dir_elems(1) [of d] unfolding proper_chain [OF assms(2)] by (auto simp: proper_key_def)

lemma chain_unfold: "\<not> path_stop p \<Longrightarrow> up_chain p = p # up_chain (path_dir p)"
  by (subst up_chain.simps) simp

lemma no_conflict_incomparable:
  assumes "proper_key relp" "f \<in> set plan" "proper_key (rel f)" "\<not> conflicts fold_seg plan relp"
  shows "\<not> prefix (path_elems relp) (path_elems (rel f))" "\<not> prefix (path_elems (rel f)) (path_elems relp)"
    "foldPath fold_seg relp \<noteq> foldPath fold_seg (rel f)"
proof -
  have a: "relp \<notin> set (up_chain (rel f))" and b: "rel f \<notin> set (up_chain (path_dir relp))"
    using assms(2,4) unfolding conflicts_def by blast+
  show "foldPath fold_seg relp \<noteq> foldPath fold_seg (rel f)"
    using assms(2,4) unfolding conflicts_def by blast
  show np: "\<not> prefix (path_elems relp) (path_elems (rel f))"
    using a proper_in_chain [OF assms(1,3)] by simp
  show "\<not> prefix (path_elems (rel f)) (path_elems relp)"
  proof
    assume "prefix (path_elems (rel f)) (path_elems relp)"
    then have "rel f \<in> set (up_chain relp)" using proper_in_chain [OF assms(3,1)] by simp
    then have "rel f = relp" using b chain_unfold [of relp] assms(1) by (auto simp: proper_key_def)
    with np show False by simp
  qed
qed

text \<open>
  Property C7. The deletions left for after the upload cannot touch what the run uploads. For keys of
  the form this program writes, the entries moved ahead and the entries left behind partition the
  stale entries in order, and a path deleted after the upload is neither a planned target, nor inside
  one, nor a directory above one, nor a case or normalisation variant of one.
\<close>

theorem late_deletes_miss_the_plan:
  assumes "collidingDeletes fold_seg toDelete plan = (colliding, rest)"
    and "path_clean base \<noteq> ''.''" "base \<noteq> []"
    and "\<forall>r \<in> set toDelete. proper_key r"
    and "\<forall>f \<in> set plan. proper_key (rel f) \<and> safeJoin base (rel f) = Inr (remotePath f)"
  shows "set colliding \<union> set rest = set toDelete \<and> set colliding \<inter> set rest = {} \<and>
    (\<forall>r \<in> set rest. \<forall>full. safeJoin base r = Inr full \<longrightarrow>
       (\<forall>f \<in> set plan. foldPath fold_seg r \<noteq> foldPath fold_seg (rel f) \<and>
          \<not> prefix (path_elems full) (path_elems (remotePath f)) \<and>
          \<not> prefix (path_elems (remotePath f)) (path_elems full)))"
proof (intro conjI ballI allI impI)
  show "set colliding \<union> set rest = set toDelete" "set colliding \<inter> set rest = {}"
    using colliding_partition(1,2) [OF assms(1)] by blast+
next
  fix r full f
  assume r: "r \<in> set rest" and full: "safeJoin base r = Inr full" and f: "f \<in> set plan"
  have rt: "r \<in> set toDelete" "\<not> conflicts fold_seg plan r"
    using r assms(1) by (auto simp: collidingDeletes_def)
  note inc = no_conflict_incomparable [OF assms(4) [rule_format, OF rt(1)] f
      conjunct1 [OF assms(5) [rule_format, OF f]] rt(2)]
  have e: "path_elems full = path_elems base @ path_elems r"
    "path_elems (remotePath f) = path_elems base @ path_elems (rel f)"
    using safeJoin_Inr_elems(1) [OF assms(2,3)] full assms(5) f by blast+
  show "foldPath fold_seg r \<noteq> foldPath fold_seg (rel f)" by (rule inc(3))
  show "\<not> prefix (path_elems full) (path_elems (remotePath f))"
    "\<not> prefix (path_elems (remotePath f)) (path_elems full)"
    using inc(1,2) by (simp_all add: e)
qed

text \<open>Lower case on ASCII letters, an instance of the segment folding.\<close>

definition ascii_lower :: "string \<Rightarrow> string" where
  "ascii_lower s = map (\<lambda>c. if CHR ''A'' \<le> c \<and> c \<le> CHR ''Z'' then char_of (of_char c + (32 :: nat)) else c) s"

definition named :: "string \<Rightarrow> fileItem" where
  "named r = \<lparr>localPath = r, remotePath = ''/w/'' @ r, rel = r, fsize = 1, mtime = 1, fmode = 420, hash = ''h''\<rparr>"

theorem late_deletes_miss_the_plan_witness:
  "collidingDeletes ascii_lower [''About'', ''docs'', ''old.css''] [named ''about'', named ''docs/a''] =
     ([''About'', ''docs''], [''old.css'']) \<and>
   \<not> prefix (path_elems ''/w/old.css'') (path_elems (remotePath (named ''docs/a'')))"
proof -
  have c: "collidingDeletes ascii_lower [''About'', ''docs'', ''old.css''] [named ''about'', named ''docs/a''] =
     ([''About'', ''docs''], [''old.css''])" by code_simp
  have b: "path_clean ''/w'' \<noteq> ''.''" "''/w'' \<noteq> []" by code_simp+
  have k: "\<forall>r \<in> set [''About'', ''docs'', ''old.css'']. proper_key r" by code_simp
  have p: "\<forall>f \<in> set [named ''about'', named ''docs/a'']. proper_key (rel f) \<and> safeJoin ''/w'' (rel f) = Inr (remotePath f)"
    by code_simp
  have j: "safeJoin ''/w'' ''old.css'' = Inr ''/w/old.css''" by code_simp
  from late_deletes_miss_the_plan [OF c b k p] j c show ?thesis by auto
qed

section \<open>The recovery manifest\<close>

lemma fold_put_other:
  "\<forall>(f, c) \<in> set fcs. c \<longrightarrow> rel f \<noteq> k \<Longrightarrow>
     map_of (fold (\<lambda>(f, c) m. if c then m_put (rel f) (entry_of f) m else m) fcs m) k = map_of m k"
  by (induction fcs arbitrary: m) (auto simp: map_of_m_put split: prod.splits)

lemma fold_put_hit:
  "(f, True) \<in> set fcs \<Longrightarrow> distinct (map (rel \<circ> fst) fcs) \<Longrightarrow>
     map_of (fold (\<lambda>(f, c) m. if c then m_put (rel f) (entry_of f) m else m) fcs m) (rel f) = Some (entry_of f)"
proof (induction fcs arbitrary: m)
  case (Cons x fcs)
  show ?case
  proof (cases "x = (f, True)")
    case True
    then have "\<forall>(f', c) \<in> set fcs. c \<longrightarrow> rel f' \<noteq> rel f" using Cons.prems(2) by force
    from fold_put_other [OF this] True show ?thesis by (simp add: map_of_m_put)
  next
    case False
    with Cons show ?thesis by auto
  qed
qed simp

lemma find_Some_mem: "List.find Q xs = Some x \<Longrightarrow> x \<in> set xs \<and> Q x"
  by (induction xs) (auto split: if_splits)

text \<open>
  The manifest a failing run records says what is on the server: an entry the run
  deleted is gone, a file the run completed carries its new hash, size and time, and every other
  entry is the one recorded before, under the current manifest version.
\<close>

theorem mergedManifest_entries:
  assumes "length completed = length upload" "distinct (map rel upload)"
  shows "Version (mergedManifest old upload completed deleted) = manifestVersion \<and>
    map_of (Files (mergedManifest old upload completed deleted)) k =
      (if k \<in> set deleted then None
       else case List.find (\<lambda>(f, c). c \<and> rel f = k) (zip upload completed) of
         Some (f, _) \<Rightarrow> Some (entry_of f)
       | None \<Rightarrow> map_of (Files old) k)"
proof -
  let ?z = "zip upload completed"
  have d: "distinct (map (rel \<circ> fst) ?z)"
    using assms by (simp flip: map_map)
  have put: "map_of (fold (\<lambda>(f, c) m. if c then m_put (rel f) (entry_of f) m else m) ?z (Files old)) k =
      (case List.find (\<lambda>(f, c). c \<and> rel f = k) ?z of
         Some (f, _) \<Rightarrow> Some (entry_of f) | None \<Rightarrow> map_of (Files old) k)"
  proof (cases "List.find (\<lambda>(f, c). c \<and> rel f = k) ?z")
    case None
    then have "\<forall>(f, c) \<in> set ?z. c \<longrightarrow> rel f \<noteq> k" by (auto simp: find_None_iff)
    from fold_put_other [OF this] None show ?thesis by simp
  next
    case (Some fc)
    from find_Some_mem [OF this] obtain f where f: "fc = (f, True)" "(f, True) \<in> set ?z" "rel f = k"
      by (cases fc; cases "snd fc") auto
    from fold_put_hit [OF f(2) d, of "Files old"] f Some show ?thesis by simp
  qed
  show ?thesis by (simp add: mergedManifest_def Let_def map_of_fold_del put)
qed

theorem mergedManifest_entries_witness:
  "map_of (Files (mergedManifest \<lparr>Version = 2, Files = [(''gone'', \<lparr>Hash = ''g'', Size = 1, MTime = 0\<rparr>),
       (''kept'', \<lparr>Hash = ''k'', Size = 1, MTime = 0\<rparr>)]\<rparr> [named ''new'', named ''failed''] [True, False] [''gone'']))
     ''new'' = Some \<lparr>Hash = ''h'', Size = 1, MTime = 1\<rparr>"
proof -
  have a: "length [True, False] = length [named ''new'', named ''failed'']" by simp
  have b: "distinct (map rel [named ''new'', named ''failed''])" by code_simp
  from mergedManifest_entries [OF a b, of "\<lparr>Version = 2, Files = [(''gone'', \<lparr>Hash = ''g'', Size = 1, MTime = 0\<rparr>),
       (''kept'', \<lparr>Hash = ''k'', Size = 1, MTime = 0\<rparr>)]\<rparr>" "[''gone'']" "''new''"]
  show ?thesis by (simp add: named_def entry_of_def)
qed

end
