(* ===== verification/Go_Duration.thy ===== *)
theory Go_Duration
  imports Go_Error Go_Float
begin

text \<open>
  \<open>time.Duration\<close> as the program prints it: 64-bit nanoseconds, \<open>Round\<close> and \<open>String\<close> of the Go
  library. \<open>took\<close> is the text of a duration rounded to milliseconds, which the reports use.
\<close>

text \<open>\<open>Duration.Round\<close> on 64-bit nanoseconds: halves away from zero, saturating.\<close>

definition duration_round :: "int \<Rightarrow> int \<Rightarrow> int" where
  "duration_round d m =
     (if m \<le> 0 then d
      else
        let r = d smod m in
        if d < 0 then
          let r = - r in
          if 2 * r < m then d + r
          else let d1 = i64 (d - m + r) in if d1 < d then d1 else MinInt64
        else if 2 * r < m then d - r
        else let d1 = i64 (d + m - r) in if d1 > d then d1 else MaxInt64)"

text \<open>\<open>fmtFrac\<close>: the digits of a fraction without trailing zeros.\<close>

fun frac_digits :: "nat \<Rightarrow> nat \<Rightarrow> bool \<Rightarrow> string \<Rightarrow> string" where
  "frac_digits 0 v shown acc = (if shown then ''.'' @ acc else acc)"
| "frac_digits (Suc k) v shown acc =
     (let digit = v mod 10; shown = (shown \<or> digit \<noteq> 0)
      in frac_digits k (v div 10) shown (if shown then hex_digit digit # acc else acc))"

definition in_unit :: "nat \<Rightarrow> nat \<Rightarrow> string \<Rightarrow> string" where
  "in_unit prec u unit = decimal (u div 10 ^ prec) @ frac_digits prec u False [] @ unit"

definition duration_text :: "int \<Rightarrow> string" where
  "duration_text d =
     (let u = nat \<bar>d\<bar>;
          secs = u div 10 ^ 9;
          body =
            (if u = 0 then ''0s''
             else if u < 1000 then in_unit 0 u ''ns''
             else if u < 1000000 then in_unit 3 u [CHR 0xC2, CHR 0xB5, CHR ''s'']
             else if secs = 0 then in_unit 6 u ''ms''
             else
               (if secs div 3600 > 0 then decimal (secs div 3600) @ ''h'' else []) @
               (if secs div 60 > 0 then decimal (secs div 60 mod 60) @ ''m'' else []) @
               decimal (secs mod 60) @ frac_digits 9 u False [] @ ''s'')
      in (if d < 0 then ''-'' else []) @ body)"

definition millisecond_ns :: int where
  "millisecond_ns = 1000000"

definition took :: "int \<Rightarrow> string" where
  "took d = duration_text (duration_round d millisecond_ns)"

end
