(* ===== verification/Deploy.thy ===== *)
theory Deploy
  imports Uploads Sync_Decide Go_Duration
begin

text \<open>
  The deployments themselves: the manifest on the server (\<open>readManifest\<close>, \<open>writeManifest\<close>,
  \<open>writeRecoveryManifest\<close>), \<open>clearCollideParents\<close>, \<open>pruneEmptyDirs\<close> and \<open>executeSync\<close>
  of \<open>internal/uploader/sync.go\<close>, and \<open>executeOverlayOrClean\<close>, \<open>executePlan\<close>, the local scan and
  the loop over deployments of \<open>Run\<close> (\<open>uploader.go\<close>). The JSON encoding of a manifest is the record \<open>codec\<close>; the
  settings policy and the segment folding are arguments. Every guard of the code and every early
  return is a branch; log lines and metrics are left out.
\<close>

section \<open>Parameters\<close>

text \<open>
  \<open>decode\<close> is \<open>json.Unmarshal\<close> into a manifest with its \<open>files\<close> present, \<open>decode_v1\<close> the
  same for the hash-only format.
\<close>

record codec =
  decode :: "string \<Rightarrow> manifest option"
  decode_v1 :: "string \<Rightarrow> (int \<times> (string \<times> string) list) option"
  encode :: "manifest \<Rightarrow> string"

record params =
  pr_codec :: codec
  pr_fold :: "string \<Rightarrow> string"
  pr_policy :: "fileItem list \<Rightarrow> bool \<Rightarrow> chosen"
  pr_cpus :: nat
  pr_fuel :: nat

definition root_goerr :: "root_error \<Rightarrow> goerr" where
  "root_goerr e =
     (case e of
        RootUnspecific r \<Rightarrow> Err Plain (''refusing a destructive mode on remote root '' @ go_quote r @
          ''; target a specific subdirectory instead'')
      | RootOfDrive r n \<Rightarrow> Err Plain (''refusing a destructive mode on remote root '' @ go_quote r @
          '': it resolves to '' @ go_quote n @
          '', the root of a Windows drive; target a specific subdirectory instead'')
      | RootAbove r n \<Rightarrow> Err Plain (''refusing a destructive mode on remote root '' @ go_quote r @
          '': it resolves to '' @ go_quote n @
          '', above the directory the session starts in; target a specific subdirectory instead''))"

definition budget_goerr :: "budget_error \<Rightarrow> goerr" where
  "budget_goerr e =
     (case e of
        PastLimit n sp l \<Rightarrow> Err Plain (''refusing to delete '' @ decimal (nat n) @
          '' more remote entries (files and directories): '' @ decimal (nat sp) @
          '' were already deleted earlier in this run, which would take it past safety.max_deletes='' @
          decimal (nat l) @ '' (raise the limit in the config file, or run with dry-run to inspect the plan)'')
      | ExceedsLimit n l \<Rightarrow> Err Plain (''refusing to delete '' @ decimal (nat n) @
          '' remote entries (files and directories): exceeds safety.max_deletes='' @ decimal (nat l) @
          '' (raise the limit in the config file, or run with dry-run to inspect the plan)''))"

section \<open>The manifest on the server\<close>

definition maxManifestBytes :: int where
  "maxManifestBytes = 64 * 2 ^ 20"

definition empty_manifest :: manifest where
  "empty_manifest = \<lparr>Version = manifestVersion, Files = []\<rparr>"

definition parse_manifest :: "codec \<Rightarrow> string \<Rightarrow> string \<Rightarrow> manifest" where
  "parse_manifest cd dir data =
     (case decode cd data of
        Some m \<Rightarrow>
          confineManifest
            (if Version m < 3 then m\<lparr>Files := map (\<lambda>(k, e). (k, e\<lparr>MTime := 0\<rparr>)) (Files m)\<rparr> else m) dir
      | None \<Rightarrow>
          (case decode_v1 cd data of
             Some (v, fs) \<Rightarrow>
               confineManifest
                 \<lparr>Version = v, Files = map (\<lambda>(k, h). (k, \<lparr>Hash = h, Size = 0, MTime = 0\<rparr>)) fs\<rparr> dir
           | None \<Rightarrow> empty_manifest))"

definition readManifest ::
    "codec \<Rightarrow> ('c, 'w) remote \<Rightarrow> string \<Rightarrow> string \<Rightarrow> 'c \<Rightarrow> 'w \<Rightarrow> (goerr, manifest) result \<times> 'w" where
  "readManifest cd env dir name c w =
     (let p = path_join dir name in
      case OpenRead env c p w of
        (Some e, w1) \<Rightarrow>
          if isConnError e then (Inl e, w1)
          else if err_id e \<noteq> NotExist then
            (case remoteAbsent env c p w1 of
               (Inl ae, w2) \<Rightarrow> (Inl ae, w2)
             | (Inr _, w2) \<Rightarrow> (Inr empty_manifest, w2))
          else (Inr empty_manifest, w1)
      | (None, w1) \<Rightarrow>
          (case ReadLimited env c p (maxManifestBytes + 1) w1 of
             (Inl e, w2) \<Rightarrow>
               (if isConnError e then Inl e else Inr empty_manifest, snd (CloseFile env c p w2))
           | (Inr data, w2) \<Rightarrow>
               (Inr (if int (length data) > maxManifestBytes then empty_manifest
                     else parse_manifest cd dir data), snd (CloseFile env c p w2))))"

definition writeManifest ::
    "codec \<Rightarrow> ('c, 'w) remote \<Rightarrow> string \<Rightarrow> string \<Rightarrow> manifest \<Rightarrow> 'c \<Rightarrow> 'w \<Rightarrow> (goerr, unit) result \<times> 'w" where
  "writeManifest cd env dir name m c w =
     (let target = path_join dir name; tmp = target @ tmpSuffix in
      case OpenTrunc env c tmp w of
        (Some e, w1) \<Rightarrow> (Inl e, w1)
      | (None, w1) \<Rightarrow>
          (case WriteAll env c tmp (encode cd m) w1 of
             (Some e, w2) \<Rightarrow> (Inl e, snd (CloseFile env c tmp w2))
           | (None, w2) \<Rightarrow>
               (case CloseFile env c tmp w2 of
                  (Some e, w3) \<Rightarrow> (Inl e, w3)
                | (None, w3) \<Rightarrow>
                    (case renameReplace env c tmp target w3 of
                       (Some e, w4) \<Rightarrow> (Inl e, w4)
                     | (None, w4) \<Rightarrow> (Inr (), w4)))))"

definition syncManifestName :: "config \<Rightarrow> string" where
  "syncManifestName cfg = (if ManifestName cfg = [] then ''.easysftp-manifest.json'' else ManifestName cfg)"

definition writeRecoveryManifest ::
    "params \<Rightarrow> config \<Rightarrow> ('c, 'w) remote \<Rightarrow> bool \<Rightarrow> string \<Rightarrow> manifest \<Rightarrow> ('c, 'w) state \<Rightarrow> ('c, 'w) state" where
  "writeRecoveryManifest pr cfg env watch base m st =
     (if DryRun cfg then st
      else snd (session_do cfg env (watch \<and> \<not> fired env (snd st))
                  (writeManifest (pr_codec pr) env base (syncManifestName cfg) m) st))"

section \<open>Directories in the way\<close>

text \<open>The closure of \<open>clearCollideParents\<close> keeps the removal's error as its value.\<close>

definition rmdir_probe ::
    "('c, 'w) remote \<Rightarrow> string \<Rightarrow> 'c \<Rightarrow> 'w \<Rightarrow> (goerr, goerr option) result \<times> 'w" where
  "rmdir_probe env p c w = (case RemoveDirectory env c p w of (e, w') \<Rightarrow> (Inr e, w'))"

definition leftover_action ::
    "('c, 'w) remote \<Rightarrow> string \<Rightarrow> 'c \<Rightarrow> 'w \<Rightarrow> (goerr, string list) result \<times> 'w" where
  "leftover_action env p c w =
     (case ReadDir env c p w of
        (Inl e, w') \<Rightarrow> if err_id e \<noteq> NotExist then (Inl e, w') else (Inr [], w')
      | (Inr es, w') \<Rightarrow> (Inr (map fi_name es), w'))"

definition join_goerr :: "join_error \<Rightarrow> goerr" where
  "join_goerr e = Err Plain ''refusing remote-supplied path''"

fun clear_dirs ::
    "config \<Rightarrow> ('c, 'w) remote \<Rightarrow> bool \<Rightarrow> string \<Rightarrow> string list \<Rightarrow> nat \<Rightarrow> deleteBudget \<Rightarrow> ('c, 'w) state
       \<Rightarrow> (nat \<times> goerr option) \<times> deleteBudget \<times> ('c, 'w) state" where
  "clear_dirs cfg env watch base [] removed b st = ((removed, None), b, st)"
| "clear_dirs cfg env watch base (dir # rest) removed b st =
     (case safeJoin base dir of
        Inl je \<Rightarrow> ((removed, Some (join_goerr je)), b, st)
      | Inr full \<Rightarrow>
          (case take_one b of
             (False, b1) \<Rightarrow>
               ((removed, Some (Err Plain (''refusing to remove the emptied directory '' @ go_quote full))), b1, st)
           | (True, b1) \<Rightarrow>
               (case session_do cfg env watch (rmdir_probe env full) st of
                  (Inl e, st1) \<Rightarrow> ((removed, Some e), b1, st1)
                | (Inr None, st1) \<Rightarrow> clear_dirs cfg env watch base rest (Suc removed) b1 st1
                | (Inr (Some rmErr), st1) \<Rightarrow>
                    if err_id rmErr = NotExist then clear_dirs cfg env watch base rest removed (refund b1) st1
                    else
                      (case session_do cfg env watch (leftover_action env full) st1 of
                         (Inl e, st2) \<Rightarrow> ((removed, Some e), b1, st2)
                       | (Inr [], st2) \<Rightarrow>
                           ((removed, Some (Wrap (''removing remote directory '' @ go_quote full @ '': '') rmErr [])), b1, st2)
                       | (Inr (n # ns), st2) \<Rightarrow>
                           ((removed, Some (Err Plain (''cannot turn the directory '' @ go_quote full @
                              '' into the file the plan uploads: it holds '' @ decimal (Suc (length ns)) @
                              '' entries this deployment did not upload (first: '' @ go_quote n @ '')''))), b1, st2)))))"

definition clearCollideParents ::
    "config \<Rightarrow> ('c, 'w) remote \<Rightarrow> bool \<Rightarrow> string \<Rightarrow> string list \<Rightarrow> fileItem list \<Rightarrow> deleteBudget
       \<Rightarrow> ('c, 'w) state \<Rightarrow> (nat \<times> goerr option) \<times> deleteBudget \<times> ('c, 'w) state" where
  "clearCollideParents cfg env watch base colliding plan b st =
     (let dirs = collide_dirs colliding plan in
      if dirs = [] then ((0, None), b, st)
      else if DryRun cfg then ((length dirs, None), b, st)
      else clear_dirs cfg env watch base (rev (sort dirs)) 0 b st)"

definition pruneEmptyDirs ::
    "config \<Rightarrow> ('c, 'w) remote \<Rightarrow> bool \<Rightarrow> string \<Rightarrow> string list \<Rightarrow> deleteBudget \<Rightarrow> ('c, 'w) state
       \<Rightarrow> nat \<times> deleteBudget \<times> ('c, 'w) state" where
  "pruneEmptyDirs cfg env watch base deleted b st =
     (case removeRemoteDirs cfg env watch (prune_candidates base deleted) (Some b) st of
        (n, b', st') \<Rightarrow> (n, case b' of Some x \<Rightarrow> x | None \<Rightarrow> b, st'))"

section \<open>A sync deployment (executeSync)\<close>

type_synonym ('c, 'w) progress = "Stats \<times> deleteBudget \<times> ('c, 'w) state"

definition more_files_deleted :: "nat \<Rightarrow> Stats \<Rightarrow> Stats" where
  "more_files_deleted n stats = stats\<lparr>FilesDeleted := FilesDeleted stats + n\<rparr>"

definition more_dirs_deleted :: "nat \<Rightarrow> Stats \<Rightarrow> Stats" where
  "more_dirs_deleted n stats = stats\<lparr>DirsDeleted := DirsDeleted stats + n\<rparr>"

definition joined :: "string \<Rightarrow> string list \<Rightarrow> string list" where
  "joined base rels = map (\<lambda>r. case safeJoin base r of Inl _ \<Rightarrow> [] | Inr p \<Rightarrow> p) rels"

definition picked :: "bool list \<Rightarrow> string list \<Rightarrow> string list" where
  "picked oks rels = map snd (filter fst (zip oks rels))"

text \<open>The entries that must go before the upload, with the two recovery manifests of this stage.\<close>

definition sync_collide ::
    "params \<Rightarrow> config \<Rightarrow> ('c, 'w) remote \<Rightarrow> bool \<Rightarrow> string \<Rightarrow> manifest \<Rightarrow> fileItem list \<Rightarrow> string list
       \<Rightarrow> fileItem list \<Rightarrow> ('c, 'w) progress \<Rightarrow> (goerr option \<times> string list) \<times> ('c, 'w) progress" where
  "sync_collide pr cfg env watch base old upload colliding fs pg =
     (case pg of (stats, b, st) \<Rightarrow>
        if colliding = [] then ((None, []), pg)
        else
          (case deleteRemoteFiles cfg env watch (joined base colliding) st of
             ((oks, cerr), st1) \<Rightarrow>
               let preDeleted = picked oks colliding;
                   stats1 = more_files_deleted (length preDeleted) stats;
                   none = replicate (length upload) False in
               (case cerr of
                  Some e \<Rightarrow>
                    ((Some (Wrap ''removing the manifest entries the upload must replace: '' e []), preDeleted),
                     (stats1, b, writeRecoveryManifest pr cfg env watch base
                        (mergedManifest old upload none preDeleted) st1))
                | None \<Rightarrow>
                    (case clearCollideParents cfg env watch base colliding fs b st1 of
                       ((n, derr), b1, st2) \<Rightarrow>
                         let stats2 = more_dirs_deleted n stats1 in
                         (case derr of
                            Some e \<Rightarrow>
                              ((Some e, preDeleted),
                               (stats2, b1, writeRecoveryManifest pr cfg env watch base
                                  (mergedManifest old upload none []) st2))
                          | None \<Rightarrow> ((None, preDeleted), (stats2, b1, st2)))))))"

text \<open>After the upload: the remaining deletions, the prune and the new manifest.\<close>

definition sync_finish ::
    "params \<Rightarrow> config \<Rightarrow> ('c, 'w) remote \<Rightarrow> bool \<Rightarrow> string \<Rightarrow> manifest \<Rightarrow> fileItem list \<Rightarrow> fileItem list
       \<Rightarrow> bool list \<Rightarrow> string list \<Rightarrow> string list \<Rightarrow> ('c, 'w) progress \<Rightarrow> goerr option \<times> ('c, 'w) progress" where
  "sync_finish pr cfg env watch base old fs upload completed preDeleted rest pg =
     (case pg of (stats, b, st) \<Rightarrow>
        case deleteRemoteFiles cfg env watch (joined base rest) st of
          ((oks, derr), st1) \<Rightarrow>
            let deleted = picked oks rest; stats1 = more_files_deleted (length deleted) stats in
            (case derr of
               Some e \<Rightarrow>
                 (Some e, (stats1, b, writeRecoveryManifest pr cfg env watch base
                    (mergedManifest old upload completed (preDeleted @ deleted)) st1))
             | None \<Rightarrow>
                 let stats2 = stats1\<lparr>FilesSkipped := FilesSkipped stats1 + (length fs - length upload)\<rparr> in
                 if DryRun cfg then (None, (stats2, b, st1))
                 else
                   (case pruneEmptyDirs cfg env watch base (joined base deleted) b st1 of
                      (n, b1, st2) \<Rightarrow>
                        let stats3 = more_dirs_deleted n stats2 in
                        (case session_do cfg env watch
                                (writeManifest (pr_codec pr) env base (syncManifestName cfg)
                                   \<lparr>Version = manifestVersion, Files = local_manifest fs\<rparr>) st2 of
                           (Inl e, st3) \<Rightarrow>
                             (Some (Wrap (''writing sync manifest in '' @ go_quote base @ '': '') e []),
                              (stats3, b1, st3))
                         | (Inr _, st3) \<Rightarrow> (None, (stats3, b1, st3))))))"

text \<open>The guard and the reservation, when there is anything to delete.\<close>

definition sync_admit ::
    "plan \<Rightarrow> string list \<Rightarrow> ('c, 'w) progress \<Rightarrow> goerr option \<times> ('c, 'w) progress" where
  "sync_admit p toDelete pg =
     (if toDelete = [] then (None, pg)
      else
        (case checkRemoteRoot (Remote (pair p)) of
           Some re \<Rightarrow> (Some (root_goerr re), pg)
         | None \<Rightarrow>
             (case pg of (stats, b, st) \<Rightarrow>
                (case reserve (int (length toDelete)) b of
                   (be, b') \<Rightarrow> (map_option budget_goerr be, (stats, b', st))))))"

text \<open>The colliding deletions, the upload, then the rest.\<close>

definition sync_transfer ::
    "params \<Rightarrow> config \<Rightarrow> ('c, 'w) remote \<Rightarrow> bool \<Rightarrow> plan \<Rightarrow> string \<Rightarrow> manifest \<Rightarrow> fileItem list
       \<Rightarrow> string list \<times> string list \<Rightarrow> ('c, 'w) progress \<Rightarrow> goerr option \<times> ('c, 'w) progress" where
  "sync_transfer pr cfg env watch p base old fs dels pg =
     (let upload = changed_files old fs in
      case sync_collide pr cfg env watch base old upload (fst dels) fs pg of
        ((Some e, _), pg1) \<Rightarrow> (Some e, pg1)
      | ((None, preDeleted), (stats, b, st)) \<Rightarrow>
          let dirs = (if DirMode cfg = None then dirsForFiles upload else remoteDirs p) in
          (case uploadFiles cfg env watch (pr_policy pr upload False) upload fs dirs (remoteDirs p)
                  base False (stats, st) of
             ((completed, Some e), (stats1, st1)) \<Rightarrow>
               (Some e, (stats1, b, writeRecoveryManifest pr cfg env watch base
                  (mergedManifest old upload completed preDeleted) st1))
           | ((completed, None), (stats1, st1)) \<Rightarrow>
               sync_finish pr cfg env watch base old fs upload completed preDeleted (snd dels)
                 (stats1, b, st1)))"

definition sync_apply ::
    "params \<Rightarrow> config \<Rightarrow> ('c, 'w) remote \<Rightarrow> bool \<Rightarrow> plan \<Rightarrow> manifest \<Rightarrow> fileItem list
       \<Rightarrow> ('c, 'w) progress \<Rightarrow> goerr option \<times> ('c, 'w) progress" where
  "sync_apply pr cfg env watch p old fs pg =
     (let base = NormalizeRemote (Remote (pair p)); toDelete = stale_entries old base fs in
      case sync_admit p toDelete pg of
        (Some e, pg1) \<Rightarrow> (Some e, pg1)
      | (None, pg1) \<Rightarrow>
          sync_transfer pr cfg env watch p base old fs (collidingDeletes (pr_fold pr) toDelete fs) pg1)"

definition executeSync ::
    "params \<Rightarrow> config \<Rightarrow> ('c, 'w) remote \<Rightarrow> bool \<Rightarrow> plan \<Rightarrow> ('c, 'w) progress
       \<Rightarrow> goerr option \<times> ('c, 'w) progress" where
  "executeSync pr cfg env watch p pg =
     (case pg of (stats, b, st) \<Rightarrow>
        let base = NormalizeRemote (Remote (pair p)) in
        case session_do cfg env watch (readManifest (pr_codec pr) env base (syncManifestName cfg)) st of
          (Inl e, st1) \<Rightarrow>
            (Some (Wrap (''reading sync manifest in '' @ go_quote base @ '': '') e []), (stats, b, st1))
        | (Inr old, st1) \<Rightarrow>
            let w = snd st1; n = length (plan_files p) in
            (case hashPlanFiles (\<lambda>q. hash_local env q w) (ctx_err env w)
                    (schedule env (max (pr_cpus pr) 1) n w) (plan_files p)
                    (if SyncFastPath cfg then map_of (Files old) else (\<lambda>_. None)) of
               (Some e, _) \<Rightarrow>
                 (Some (Wrap (''hashing local files under '' @ go_quote (Local (pair p)) @ '': '') e []),
                  (stats, b, st1))
             | (None, fs) \<Rightarrow> sync_apply pr cfg env watch p old fs (stats, b, st1)))"

section \<open>Overlay and clean deployments, and the run\<close>

text \<open>\<open>None\<close> is a listing that did not end within \<open>pr_fuel\<close> levels of directories.\<close>

definition clean_target ::
    "params \<Rightarrow> config \<Rightarrow> ('c, 'w) remote \<Rightarrow> bool \<Rightarrow> plan \<Rightarrow> ('c, 'w) progress
       \<Rightarrow> (goerr option \<times> ('c, 'w) progress) option" where
  "clean_target pr cfg env watch p pg =
     (case checkRemoteRoot (Remote (pair p)) of
        Some re \<Rightarrow> Some (Some (root_goerr re), pg)
      | None \<Rightarrow>
          (case pg of (stats, b, st) \<Rightarrow>
             case listRemoteContents cfg env watch (pr_fuel pr) (NormalizeRemote (Remote (pair p))) st of
               None \<Rightarrow> None
             | Some (Inl e, st1) \<Rightarrow>
                 Some (Some (Wrap (''scanning remote directory '' @ go_quote (Remote (pair p)) @ '': '') e []),
                       (stats, b, st1))
             | Some (Inr (fs, dirs), st1) \<Rightarrow>
                 (case reserve (int (length fs + length dirs)) b of
                    (Some be, b1) \<Rightarrow> Some (Some (budget_goerr be), (stats, b1, st1))
                  | (None, b1) \<Rightarrow>
                      (case deleteRemoteFiles cfg env watch fs st1 of
                         ((deleted, e), st2) \<Rightarrow>
                           let stats1 = more_files_deleted (countDeleted deleted) stats in
                           (case e of
                              Some er \<Rightarrow> Some (Some er, (stats1, b1, st2))
                            | None \<Rightarrow>
                                (case removeRemoteDirs cfg env watch dirs None st2 of
                                   (n, _, st3) \<Rightarrow> Some (None, (more_dirs_deleted n stats1, b1, st3))))))))"

definition executeOverlayOrClean ::
    "params \<Rightarrow> config \<Rightarrow> ('c, 'w) remote \<Rightarrow> bool \<Rightarrow> plan \<Rightarrow> ('c, 'w) progress
       \<Rightarrow> (goerr option \<times> ('c, 'w) progress) option" where
  "executeOverlayOrClean pr cfg env watch p pg =
     (case (if strat p = Clean then clean_target pr cfg env watch p pg else Some (None, pg)) of
        None \<Rightarrow> None
      | Some (Some e, pg1) \<Rightarrow> Some (Some e, pg1)
      | Some (None, (stats, b, st)) \<Rightarrow>
          let skipUnchanged = SkipUnchanged cfg \<and> strat p = Overlay in
          (case uploadFiles cfg env watch (pr_policy pr (plan_files p) skipUnchanged) (plan_files p)
                  (plan_files p) (remoteDirs p) (remoteDirs p) (NormalizeRemote (Remote (pair p)))
                  skipUnchanged (stats, st) of
             ((_, e), (stats1, st1)) \<Rightarrow> Some (e, (stats1, b, st1))))"

definition executePlan ::
    "params \<Rightarrow> config \<Rightarrow> ('c, 'w) remote \<Rightarrow> bool \<Rightarrow> plan \<Rightarrow> ('c, 'w) progress
       \<Rightarrow> (goerr option \<times> ('c, 'w) progress) option" where
  "executePlan pr cfg env watch p pg =
     (if strat p = Sync then Some (executeSync pr cfg env watch p pg)
      else executeOverlayOrClean pr cfg env watch p pg)"

record DeploymentStats =
  ds_Name :: string
  ds_Local :: string
  ds_Remote :: string
  ds_Strategy :: strategy
  ds_FilesUploaded :: nat
  ds_FilesDeleted :: nat
  ds_DirsDeleted :: nat
  ds_FilesSkipped :: nat
  ds_BytesUploaded :: int

definition deployment_stats :: "plan \<Rightarrow> Stats \<Rightarrow> Stats \<Rightarrow> DeploymentStats" where
  "deployment_stats p before after =
     \<lparr>ds_Name = Name (pair p), ds_Local = Local (pair p), ds_Remote = Remote (pair p), ds_Strategy = strat p,
      ds_FilesUploaded = FilesUploaded after - FilesUploaded before,
      ds_FilesDeleted = FilesDeleted after - FilesDeleted before,
      ds_DirsDeleted = DirsDeleted after - DirsDeleted before,
      ds_FilesSkipped = FilesSkipped after - FilesSkipped before,
      ds_BytesUploaded = BytesUploaded after - BytesUploaded before\<rparr>"

text \<open>The loop over the plans: one budget for all of them, a row per deployment, stop at an error.\<close>

fun run_plans ::
    "params \<Rightarrow> config \<Rightarrow> ('c, 'w) remote \<Rightarrow> bool \<Rightarrow> plan list \<Rightarrow> DeploymentStats list \<Rightarrow> ('c, 'w) progress
       \<Rightarrow> (goerr option \<times> DeploymentStats list \<times> ('c, 'w) progress) option" where
  "run_plans pr cfg env watch [] rows pg = Some (None, rows, pg)"
| "run_plans pr cfg env watch (p # ps) rows pg =
     (case ctx_err env (snd (snd (snd pg))) of
        Some e \<Rightarrow> Some (Some e, rows, pg)
      | None \<Rightarrow>
          (case executePlan pr cfg env watch p pg of
             None \<Rightarrow> None
           | Some (err, pg1) \<Rightarrow>
               let rows1 = rows @ [deployment_stats p (fst pg) (fst pg1)] in
               (case err of
                  None \<Rightarrow> run_plans pr cfg env watch ps rows1 pg1
                | Some e \<Rightarrow>
                    Some (Some (if watch \<and> fired env (snd (snd (snd pg1)))
                                then Wrap (''transfer stalled: no progress for '' @ duration_text (StallTimeout cfg) @
                                  '', connection closed (stall-timeout): '') e []
                                else e), rows1, pg1))))"

text \<open>The local scan: every plan is built before the network is touched.\<close>

definition plan_options :: "config \<Rightarrow> string list \<Rightarrow> gitignorePattern list \<Rightarrow> planOptions" where
  "plan_options cfg lines pats =
     \<lparr>matcher = pats, pruneDirs = \<not> hasNegation lines, manifestName = syncManifestName cfg\<rparr>"

datatype scan_error = BadPattern pattern_error | BadLocal goerr

fun scan_plans ::
    "config \<Rightarrow> string list \<Rightarrow> (uploadPair \<Rightarrow> root_stat \<times> string) \<Rightarrow> uploadPair list
       \<Rightarrow> (scan_error, plan list) result" where
  "scan_plans cfg ignoreLines local [] = Inr []"
| "scan_plans cfg ignoreLines local (p # ps) =
     (let lines = ignoreLines @ Ignore p in
      case compileGitignore lines of
        Inl e \<Rightarrow> Inl (BadPattern e)
      | Inr pats \<Rightarrow>
          (case buildPlan p (effectiveStrategy p) (plan_options cfg lines pats) (fst (local p)) (snd (local p)) of
             Inl e \<Rightarrow> Inl (BadLocal e)
           | Inr pl \<Rightarrow>
               (case scan_plans cfg ignoreLines local ps of
                  Inl e \<Rightarrow> Inl e
                | Inr pls \<Rightarrow> Inr (pl # pls))))"

definition zero_stats :: Stats where
  "zero_stats = \<lparr>FilesUploaded = 0, FilesDeleted = 0, DirsDeleted = 0, FilesSkipped = 0, BytesUploaded = 0\<rparr>"

end
