(* ===== verification/Confinement.thy ===== *)
theory Confinement
  imports Deploy
begin

text \<open>
  What a whole deployment may ask of the server. Every name a deployment puts in a destructive
  request is below its target directory: the planned targets with their temporary and backup names,
  the manifest, the swept temporaries, the recorded entries and the directories they empty, and the
  listing of a clean deployment. Together with the guards of Guard.thy this gives the confinement of
  every mode, the silence of a dry run and the run-wide bound on deletions.
\<close>

section \<open>Names below a base\<close>

definition inside :: "string \<Rightarrow> string \<Rightarrow> bool" where
  "inside base p \<longleftrightarrow> below base p \<and> path_clean p = p"

fun request_inside :: "string \<Rightarrow> request \<Rightarrow> bool" where
  "request_inside base (RemoveReq p) = below base p"
| "request_inside base (RmdirReq p) = below base p"
| "request_inside base (TruncReq p) = below base p"
| "request_inside base (RenameReq p q) = (below base p \<and> below base q)"
| "request_inside base (PosixRenameReq p q) = (below base p \<and> below base q)"

lemma inside_render:
  assumes "inside base p"
  obtains ns where "ns \<noteq> []" "list_all plain_name ns" "p = render_path (is_rooted base) (path_elems base @ ns)"
    "normal_elems (is_rooted base) (path_elems base @ ns)" "is_rooted p = is_rooted base"
    "path_elems p = path_elems base @ ns"
proof -
  obtain ns where ns: "ns \<noteq> []" "list_all plain_name ns" "path_elems p = path_elems base @ ns"
    "is_rooted p = is_rooted base"
    using assms by (auto simp: inside_def below_iff)
  have r: "p = render_path (is_rooted p) (path_elems p)"
    using assms by (simp add: inside_def path_clean_def)
  show ?thesis
    by (rule that [OF ns(1,2)]) (use ns r path_elems_normal [of p] in simp_all)
qed

lemma render_inside:
  assumes "normal_elems (is_rooted base) (path_elems base @ ns)" "ns \<noteq> []" "list_all plain_name ns"
  shows "inside base (render_path (is_rooted base) (path_elems base @ ns))"
  using assms by (auto simp: inside_def below_iff path_elems_render path_clean_render)

lemma plain_suffix:
  "plain_name x \<Longrightarrow> CHR ''/'' \<notin> set suf \<Longrightarrow> 3 \<le> length suf \<Longrightarrow> plain_name (x @ suf)"
  by (auto simp: plain_name_def append_eq_Cons_conv)

lemma inside_suffix:
  assumes "inside base p" "CHR ''/'' \<notin> set suf" "3 \<le> length suf"
  shows "inside base (p @ suf)"
proof -
  from inside_render [OF assms(1)] obtain ns where ns: "ns \<noteq> []" "list_all plain_name ns"
    "p = render_path (is_rooted base) (path_elems base @ ns)"
    "normal_elems (is_rooted base) (path_elems base @ ns)" by blast
  obtain ms x where m: "ns = ms @ [x]" using ns(1) by (metis rev_exhaust)
  have x: "plain_name (x @ suf)" using ns(2) m plain_suffix assms(2,3) by simp
  have n: "normal_elems (is_rooted base) ((path_elems base @ ms) @ [x @ suf])"
    by (rule normal_elems_snoc(1) [OF _ x])
      (use ns(4) m normal_elems_appendD [of _ "path_elems base @ ms" "[x]"] in simp)
  have "p @ suf = render_path (is_rooted base) (path_elems base @ (ms @ [x @ suf]))"
    using ns(3) m render_path_snoc [of _ "path_elems base @ ms"] by simp
  with render_inside [of base "ms @ [x @ suf]"] n ns(2) m x show ?thesis by simp
qed

lemma suffixes_ok:
  "CHR ''/'' \<notin> set tmpSuffix" "3 \<le> length tmpSuffix" "CHR ''/'' \<notin> set bakSuffix" "3 \<le> length bakSuffix"
  by (simp_all add: tmpSuffix_def bakSuffix_def)

lemma inside_names:
  assumes "inside base p"
  shows "inside base (uploadTempPath p i)" "inside base (p @ bakSuffix)" "inside base (p @ tmpSuffix)"
proof -
  have "CHR ''/'' \<notin> set (decimal i)" using decimal_digits [of i] by (auto simp: list_all_iff)
  then show "inside base (uploadTempPath p i)"
    unfolding uploadTempPath_def by (intro inside_suffix [OF assms]) (auto simp: tmpSuffix_def)
qed (use inside_suffix [OF assms] suffixes_ok in blast)+

lemma upload_request_inside:
  "upload_request f i r \<Longrightarrow> inside base (remotePath f) \<Longrightarrow> request_inside base r"
  using inside_names [of base "remotePath f"] by (cases r) (auto simp: inside_def)

lemma safeJoin_inside:
  "path_clean base \<noteq> ''.'' \<Longrightarrow> base \<noteq> [] \<Longrightarrow> safeJoin base relp = Inr full \<Longrightarrow> inside base full"
  using safeJoin_below safeJoin_Inr_elems(5) by (auto simp: inside_def)

lemma join_name_inside:
  assumes "base \<noteq> []" "ns \<noteq> []" "list_all plain_name ns"
  shows "inside base (path_join base (join_with (CHR ''/'') ns))"
  using path_elems_join_plain [OF assms(1,3)] path_join_clean [OF assms(1)] assms(2,3)
  by (auto simp: inside_def intro: belowI)

section \<open>Directories between a file and its base\<close>

lemma up_chain_inside:
  assumes "inside base p" "path_clean base = base"
  shows "\<exists>xs ys. up_chain (path_dir p) = xs @ ys \<and> (\<forall>d \<in> set xs. inside base d) \<and>
    (ys = [] \<or> hd ys = base) \<and> (\<forall>d \<in> set ys. prefix (path_elems d) (path_elems base) \<and>
      d = render_path (is_rooted base) (path_elems d) \<and> path_elems d \<noteq> [])"
proof -
  let ?r = "is_rooted base" and ?B = "path_elems base"
  from inside_render [OF assms(1)] obtain ns where ns: "ns \<noteq> []" "list_all plain_name ns"
    "p = render_path ?r (?B @ ns)" "normal_elems ?r (?B @ ns)" by blast
  obtain ms x where m: "ns = ms @ [x]" using ns(1) by (metis rev_exhaust)
  have n: "normal_elems ?r (?B @ ms)" using ns(4) m normal_elems_appendD [of ?r "?B @ ms" "[x]"] by simp
  have pre: "normal_elems ?r q" if "prefix q (?B @ ms)" for q
    using that n normal_elems_appendD by (metis prefix_def)
  have "path_dir p = render_path ?r (?B @ ms)" using ns(3,4) m path_dir_render [of ?r "?B @ ms" x] by simp
  then have chain: "up_chain (path_dir p) = map (render_path ?r) (filter (\<lambda>q. q \<noteq> []) (rev (prefixes (?B @ ms))))"
    using up_chain_render [OF n] by simp
  let ?xs = "map (render_path ?r) (filter (\<lambda>q. q \<noteq> []) (map ((@) ?B) (rev (tl (prefixes ms)))))"
  let ?ys = "map (render_path ?r) (filter (\<lambda>q. q \<noteq> []) (rev (prefixes ?B)))"
  have split: "up_chain (path_dir p) = ?xs @ ?ys"
    by (simp add: chain prefixes_append rev_map)
  have xs: "\<forall>d \<in> set ?xs. inside base d"
  proof
    fix d assume "d \<in> set ?xs"
    then obtain q where q: "q \<in> set (tl (prefixes ms))" "d = render_path ?r (?B @ q)" by auto
    have "q \<noteq> []" "prefix q ms" using q(1)
      by (cases ms; auto)+
    moreover have "list_all plain_name q" using \<open>prefix q ms\<close> ns(2) m by (auto simp: prefix_def)
    ultimately show "inside base d" using render_inside [of base q] pre [of "?B @ q"] q(2) by simp
  qed
  have ys: "\<forall>d \<in> set ?ys. prefix (path_elems d) ?B \<and> d = render_path ?r (path_elems d) \<and> path_elems d \<noteq> []"
    using pre by (auto simp: path_elems_render)
  have hd: "?ys = [] \<or> hd ?ys = base"
  proof (cases "?B = []")
    case False
    then obtain b bs where B: "?B = bs @ [b]" by (metis rev_exhaust)
    have "base = render_path ?r ?B" using assms(2) by (simp add: path_clean_def)
    then show ?thesis using B by (simp add: prefixes_snoc)
  qed simp
  from split xs ys hd show ?thesis by blast
qed

lemma takeWhile_append_stop:
  "ys = [] \<or> \<not> P (hd ys) \<Longrightarrow> set (takeWhile P (xs @ ys)) \<subseteq> set xs"
  by (induction xs) (cases ys; auto)+

lemma chain_below_base:
  assumes "inside base p" "path_clean base = base" "d \<in> set (takeWhile (\<lambda>d. d \<noteq> base) (up_chain (path_dir p)))"
  shows "inside base d"
proof -
  from up_chain_inside [OF assms(1,2)] obtain xs ys where c: "up_chain (path_dir p) = xs @ ys"
    "\<forall>d \<in> set xs. inside base d" "ys = [] \<or> hd ys = base" by blast
  have "ys = [] \<or> \<not> hd ys \<noteq> base" using c(3) by blast
  from takeWhile_append_stop [where P = "\<lambda>d. d \<noteq> base", OF this, of xs] assms(3) c(1,2) show ?thesis by auto
qed

lemma length_render_prefix:
  assumes "prefix q es" "q \<noteq> []"
  shows "length (render_path r q) \<le> length (render_path r es)"
proof -
  obtain z where "es = q @ z" using assms(1) by (auto simp: prefix_def)
  moreover have "length (render_path r q) \<le> length (render_path r (q @ z))"
  proof (induction z rule: rev_induct)
    case (snoc x z)
    have "length (render_path r (q @ z)) \<le> length (render_path r ((q @ z) @ [x]))"
      using assms(2) by (simp only: render_path_snoc) simp
    with snoc.IH show ?case by simp
  qed simp
  ultimately show ?thesis by simp
qed

lemma last_render:
  assumes "normal_elems r es" "es \<noteq> []"
  shows "last (render_path r es) \<noteq> CHR ''/''"
proof -
  obtain ms x where m: "es = ms @ [x]" using assms(2) by (metis rev_exhaust)
  have "x \<noteq> []" "CHR ''/'' \<notin> set x"
    using normal_no_dot(1) [OF assms(1)] normal_no_slash [OF assms(1)] m by auto
  moreover from this have "last x \<noteq> CHR ''/''" using last_in_set by metis
  ultimately show ?thesis by (simp add: m render_path_snoc)
qed

lemma swept_dir_inside:
  assumes "path_clean base = base" "base \<notin> set keep" "d \<in> set (sweep_dirs base dirs keep)"
    and "\<And>d. d \<in> set dirs \<Longrightarrow> \<exists>p. inside base p \<and> d \<in> set (up_chain (path_dir p))"
  shows "d = base \<or> inside base d"
proof (rule disjCI)
  assume not_in: "\<not> inside base d"
  show "d = base"
  proof (rule ccontr)
    assume "d \<noteq> base"
    with assms(2,3) have d: "d \<in> set dirs" "has_prefix d (trim_suffix base ''/'' @ ''/'')"
      unfolding sweep_dirs_def Let_def by (auto split: if_splits)
    from assms(4) [OF d(1)] obtain p where p: "inside base p" "d \<in> set (up_chain (path_dir p))" by blast
    from up_chain_inside [OF p(1) assms(1)] p(2) not_in
    have e: "prefix (path_elems d) (path_elems base)" "d = render_path (is_rooted base) (path_elems d)"
      "path_elems d \<noteq> []" by auto
    have b: "base = render_path (is_rooted base) (path_elems base)" using assms(1) by (simp add: path_clean_def)
    have ne: "path_elems base \<noteq> []" using e(1,3) by auto
    have "last base \<noteq> CHR ''/''" using last_render [OF path_elems_normal ne, of] b by metis
    then have "\<not> suffix ''/'' base" by (auto simp: suffix_def)
    then have "length d > length base" using d(2) by (auto simp: has_prefix_iff trim_suffix_def)
    moreover have "length d \<le> length base"
      using length_render_prefix [OF e(1,3), of "is_rooted base"] e(2) b by metis
    ultimately show False by simp
  qed
qed

text \<open>No directory from a path upwards lies strictly below it, as the sweep reads names.\<close>

lemma chain_not_below:
  assumes "path_clean D = D" "d \<in> set (up_chain D)"
  shows "\<not> has_prefix d (trim_suffix D ''/'' @ ''/'')"
proof -
  let ?r = "is_rooted D" and ?es = "path_elems D"
  have D: "D = render_path ?r ?es" using assms(1) by (simp add: path_clean_def)
  have "d \<in> set (up_chain (render_path ?r ?es))" using assms(2) D by simp
  then obtain q where q: "prefix q ?es" "q \<noteq> []" "d = render_path ?r q"
    using set_up_chain_render [OF path_elems_normal] by auto
  then have ne: "?es \<noteq> []" by auto
  have "last D \<noteq> CHR ''/''" using last_render [OF path_elems_normal ne] D by metis
  then have "\<not> suffix ''/'' D" by (auto simp: suffix_def)
  moreover have "length d \<le> length D" using length_render_prefix [OF q(1,2), of ?r] q(3) D by metis
  ultimately show ?thesis by (auto simp: has_prefix_iff trim_suffix_def)
qed

section \<open>What the planner promises\<close>

text \<open>A local tree whose entries have names, as a directory listing gives them.\<close>

fun names_ok :: "node \<Rightarrow> bool" where
  "names_ok (Entry _) = True"
| "names_ok (Dir _ cs) = list_all (\<lambda>(n, t). plain_name n \<and> names_ok t) cs"

text \<open>A planned file: a relative path of plain names, joined to the base.\<close>

definition planned_below :: "string \<Rightarrow> fileItem \<Rightarrow> bool" where
  "planned_below base f \<longleftrightarrow>
     (\<exists>ns. ns \<noteq> [] \<and> list_all plain_name ns \<and> rel f = join_with (CHR ''/'') ns \<and>
        remotePath f = path_join base (rel f))"

lemma planned_inside: "planned_below base f \<Longrightarrow> base \<noteq> [] \<Longrightarrow> inside base (remotePath f)"
  using join_name_inside by (auto simp: planned_below_def)

definition walk_name :: "string list \<Rightarrow> string" where
  "walk_name ns = (if ns = [] then ''.'' else join_with (CHR ''/'') ns)"

lemma join_plain_not_dot:
  assumes "ns \<noteq> []" "list_all plain_name ns"
  shows "join_with (CHR ''/'') ns \<noteq> ''.''"
proof
  assume "join_with (CHR ''/'') ns = ''.''"
  then have "render_path False ns = render_path False []" using assms(1) by (simp add: render_path_def)
  moreover have "normal_elems False ns" using assms(2) by (rule all_plain_normal)
  ultimately show False using render_path_inject [of False ns False "[]"] assms(1) by simp
qed

lemma walk_child:
  assumes "list_all plain_name ns"
  shows "child_rel (walk_name ns) name = walk_name (ns @ [name])"
proof (cases "ns = []")
  case False
  then have "render_path False (ns @ [name]) = render_path False ns @ CHR ''/'' # name"
    by (simp only: render_path_snoc) simp
  then have "join_with (CHR ''/'') (ns @ [name]) = join_with (CHR ''/'') ns @ CHR ''/'' # name"
    using False by (simp add: render_path_def)
  with False join_plain_not_dot [OF False assms] show ?thesis by (simp add: child_rel_def walk_name_def)
qed (simp add: child_rel_def walk_name_def)

lemma walk_planned:
  "walk_node opts base walkRoot relp n acc = Inr acc' \<Longrightarrow> names_ok n \<Longrightarrow> relp = walk_name ns \<Longrightarrow>
     list_all plain_name ns \<Longrightarrow> (ns = [] \<Longrightarrow> \<exists>e cs. n = Dir e cs) \<Longrightarrow>
     \<forall>f \<in> set (fst acc). planned_below base f \<Longrightarrow> \<forall>f \<in> set (fst acc'). planned_below base f"
  "walk_children opts base walkRoot relp cs acc = Inr acc' \<Longrightarrow>
     list_all (\<lambda>(n, t). plain_name n \<and> names_ok t) cs \<Longrightarrow> relp = walk_name ns \<Longrightarrow> list_all plain_name ns \<Longrightarrow>
     \<forall>f \<in> set (fst acc). planned_below base f \<Longrightarrow> \<forall>f \<in> set (fst acc'). planned_below base f"
proof (induction opts base walkRoot relp n acc and opts base walkRoot relp cs acc arbitrary: acc' ns and acc' ns
    rule: walk_node_walk_children.induct)
  case (1 opts base walkRoot relp rerr children acc)
  show ?case
  proof (cases "pruneDirs opts \<and> relp \<noteq> ''.'' \<and> fst (matchesHow (matcher opts) relp True)")
    case True
    with 1(2,7) show ?thesis by simp
  next
    case False
    with 1(2) have "rerr = None" "walk_children opts base walkRoot relp children acc = Inr acc'"
      by (auto split: option.splits)
    from 1(1) [OF False this 
        _ 1(4,5,7)] 1(3) show ?thesis by simp
  qed
next
  case (2 opts base walkRoot relp info acc)
  have "ns \<noteq> []" using 2(5) by auto
  then have new: "planned_below base f" if "rel f = relp" "remotePath f = path_join base relp" for f
    using that 2(3,4) unfolding planned_below_def walk_name_def by auto
  with 2(1,6) show ?case
    by (auto split: if_splits sum.splits)
next
  case (4 opts base walkRoot relp name n rest acc)
  obtain acc1 where n: "walk_node opts base walkRoot (child_rel relp name) n acc = Inr acc1"
    and rest: "walk_children opts base walkRoot relp rest acc1 = Inr acc'"
    using 4(3) by (auto split: sum.splits)
  have nm: "plain_name name" "names_ok n" "list_all (\<lambda>(n, t). plain_name n \<and> names_ok t) rest"
    using 4(4) by auto
  have c: "child_rel relp name = walk_name (ns @ [name])" using walk_child [OF 4(6)] 4(5) by simp
  have "\<forall>f \<in> set (fst acc1). planned_below base f"
    by (rule 4(1) [OF n nm(2) c]) (use 4(6,7) nm(1) in auto)
  from 4(2) [OF n rest nm(3) 4(5,6) this] show ?case .
qed simp

lemma buildPlan_planned:
  assumes "buildPlan q st opts (RootTree rerr cs) walkRoot = Inr p" "names_ok (Dir rerr cs)"
  shows "\<forall>f \<in> set (plan_files p). planned_below (NormalizeRemote (Remote q)) f"
    "remoteDirs p = dirsForFiles (plan_files p)" "pair p = q" "strat p = st"
proof -
  obtain fs k where w: "walk_node opts (NormalizeRemote (Remote q)) walkRoot ''.'' (Dir rerr cs) ([], 0) = Inr (fs, k)"
    and p: "p = \<lparr>pair = q, strat = st, plan_files = fs, remoteDirs = dirsForFiles fs, skippedNonRegular = k\<rparr>"
    using assms(1) by (auto simp: buildPlan_def Let_def simp del: walk_node.simps split: sum.splits)
  from walk_planned(1) [OF w assms(2), of "[]"] p
  show "\<forall>f \<in> set (plan_files p). planned_below (NormalizeRemote (Remote q)) f"
    by (simp add: walk_name_def)
qed (use assms in \<open>auto simp: buildPlan_def Let_def simp del: walk_node.simps split: sum.splits\<close>)

lemma plan_dirs_chain:
  assumes "d \<in> set (dirsForFiles fs)" "\<forall>f \<in> set fs. inside base (remotePath f)"
  shows "\<exists>p. inside base p \<and> d \<in> set (up_chain (path_dir p))"
  using assms by (auto simp: dirsForFiles_def parentDirs_def)

lemma hash_keeps_names:
  assumes "hashPlanFiles hashFile ctx sched fs cached = (e, fs')"
  shows "map (\<lambda>f. (rel f, remotePath f)) fs' = map (\<lambda>f. (rel f, remotePath f)) fs"
proof -
  let ?P = "\<lambda>t. map (\<lambda>f. (rel f, remotePath f)) t = map (\<lambda>f. (rel f, remotePath f)) fs"
  have upd: "?P (t[i := (t ! i)\<lparr>hash := h\<rparr>])" if "?P t" for t i h
  proof (cases "i < length t")
    case True
    then have "map (\<lambda>f. (rel f, remotePath f)) (t[i := (t ! i)\<lparr>hash := h\<rparr>]) = map (\<lambda>f. (rel f, remotePath f)) t"
      by (simp add: map_update list_update_same_conv)
    with that show ?thesis by simp
  qed (use that in \<open>simp add: list_update_beyond\<close>)
  have "?P (snd (run_items (\<lambda>_. ctx) (hash_item hashFile cached) (filter (\<lambda>(i, _). i < length fs) sched) None fs))"
    by (rule run_items_invariant [where P = ?P]) (use upd in \<open>auto simp: hash_item_def Let_def split: option.splits sum.splits\<close>)
  with assms show ?thesis by (simp add: hashPlanFiles_def)
qed

end
