(* ===== verification/Deploy_Guard.thy ===== *)
theory Deploy_Guard
  imports Confinement
begin

text \<open>
  The guards of a whole deployment. Inside the interface \<open>guarded_env\<close>, a deployment whose plan is
  below its base, run by code that is allowed every request below the base unless it is a dry run,
  keeps the guarded predicate in every mode. The traced environment then gives two properties: a
  deployment never asks for anything destructive outside its target, and a dry run never asks for
  anything destructive at all.
\<close>

text \<open>An invariant of every deployment is one of the loop over them.\<close>

lemma run_plans_invariant:
  assumes step: "\<And>p pg e pg'. p \<in> qs \<Longrightarrow> I pg \<Longrightarrow> executePlan pr cfg env watch p pg = Some (e, pg') \<Longrightarrow> I pg'"
  shows "I pg \<Longrightarrow> run_plans pr cfg env watch ps rows pg = Some (e, rows', pg') \<Longrightarrow> set ps \<subseteq> qs \<Longrightarrow> I pg'"
proof (induction ps arbitrary: rows pg)
  case (Cons p ps)
  show ?case
  proof (cases "ctx_err env (snd (snd (snd pg)))")
    case None
    obtain pe pg1 where x: "executePlan pr cfg env watch p pg = Some (pe, pg1)"
      using Cons.prems(2) None by (auto split: option.splits)
    have a1: "I pg1" by (rule step [OF _ Cons.prems(1) x]) (use Cons.prems(3) in simp)
    show ?thesis
    proof (cases pe)
      case None
      with Cons.prems(2) \<open>ctx_err env _ = None\<close> x
      have "run_plans pr cfg env watch ps (rows @ [deployment_stats p (fst pg) (fst pg1)]) pg1 = Some (e, rows', pg')"
        by (simp add: Let_def)
      from Cons.IH [OF a1 this] Cons.prems(3) show ?thesis by simp
    next
      case (Some er)
      with Cons.prems(2) \<open>ctx_err env _ = None\<close> x a1 show ?thesis by (auto simp: Let_def)
    qed
  qed (use Cons.prems in auto)
qed simp

text \<open>
  What a deployment of a single file asks for: the names of its one upload, and temporary names of
  this program, never the target itself, swept from the target's own directory. A file the ignore
  patterns exclude is not uploaded; then temporary names right below the configured path are swept.
\<close>

definition file_target :: "uploadPair \<Rightarrow> string" where
  "file_target q =
     (let base = NormalizeRemote (Remote q) in
      if has_suffix (Remote q) ''/'' \<or> base = ''.'' then path_join base (path_base (Local q)) else base)"

definition file_excluded :: "string list \<Rightarrow> uploadPair \<Rightarrow> bool" where
  "file_excluded lines q \<longleftrightarrow>
     (case compileGitignore (lines @ Ignore q) of
        Inl _ \<Rightarrow> False | Inr pats \<Rightarrow> fst (matchesHow pats (path_base (Local q)) False))"

definition sweep_request :: "string \<Rightarrow> request \<Rightarrow> bool" where
  "sweep_request dir r \<longleftrightarrow> (\<exists>name full. r = RemoveReq full \<and> isTempFileName name \<and> safeChild dir name = Inr full)"

definition file_request :: "string list \<Rightarrow> uploadPair \<Rightarrow> request \<Rightarrow> bool" where
  "file_request lines q r \<longleftrightarrow>
     (if file_excluded lines q then sweep_request (NormalizeRemote (Remote q)) r
      else (\<exists>f. remotePath f = file_target q \<and> upload_request f 0 r) \<or>
        r \<noteq> RemoveReq (file_target q) \<and> sweep_request (path_dir (file_target q)) r)"

lemma path_dir_clean [simp]: "path_clean (path_dir p) = path_dir p"
  by (simp add: path_dir_def)

lemma path_dir_join:
  assumes "path_clean base = base" "base \<noteq> []" "plain_name name"
  shows "path_dir (path_join base name) = base"
proof -
  let ?r = "is_rooted base" and ?es = "path_elems base"
  have e: "path_elems (path_join base name) = ?es @ [name]" "is_rooted (path_join base name) = ?r"
    using path_elems_join_plain [OF assms(2), of "[name]"] assms(3) by simp_all
  then have j: "path_join base name = render_path ?r (?es @ [name])"
    using path_join_clean [OF assms(2), of name] by (simp add: path_clean_def)
  have "normal_elems ?r (?es @ [name])" using path_elems_normal [of "path_join base name"] e by simp
  from path_dir_render [OF this] j assms(1) show ?thesis by (simp add: path_clean_def)
qed

text \<open>The sweep of a planned single file visits the target's own directory and nothing else.\<close>

lemma swept_beside_target:
  assumes "plain_name (path_base (Local q))"
  shows "set (sweep_dirs (NormalizeRemote (Remote q)) (parentDirs (file_target q)) [file_target q])
    \<subseteq> {path_dir (file_target q)}"
proof -
  let ?base = "NormalizeRemote (Remote q)" and ?dir = "path_dir (file_target q)"
  have "(if ?base \<in> set [file_target q] then path_dir ?base else ?base) = ?dir"
    using path_dir_join [of ?base "path_base (Local q)"] assms by (auto simp: file_target_def Let_def)
  moreover have "\<not> has_prefix d (trim_suffix ?dir ''/'' @ ''/'')" if "d \<in> set (parentDirs (file_target q))" for d
    by (rule chain_not_below) (use that in \<open>simp_all add: parentDirs_def\<close>)
  ultimately show ?thesis by (auto simp: sweep_dirs_def Let_def)
qed

context quiet_env
begin

lemma newSession_keeps: "P w \<Longrightarrow> newSession cfg env pool w = (r, w') \<Longrightarrow> P w'"
proof -
  have "P w \<Longrightarrow> dial_first cfg env pool k w = (r, w') \<Longrightarrow> P w'" for k
  proof (induction k arbitrary: w)
    case 0
    then show ?case using keep_connect [of w] by (auto split: prod.splits sum.splits)
  next
    case (Suc k)
    obtain x w1 where c: "connect env w = (x, w1)" by (meson surj_pair)
    have w1: "P w1" using keep_connect [OF Suc.prems(1)] c by simp
    obtain y w2 where s: "sleepBackoff env (Retries cfg - k) w1 = (y, w2)" by (meson surj_pair)
    have w2: "P w2" using keep_sleep [OF w1, of "Retries cfg - k"] s by simp
    show ?case using Suc.prems(2) Suc.IH [OF w2] w1 w2
      by (auto simp: c s split: sum.splits if_splits option.splits)
  qed
  then show "P w \<Longrightarrow> newSession cfg env pool w = (r, w') \<Longrightarrow> P w'" by (simp add: newSession_def)
qed

end

context guarded_env
begin

lemma readManifest_keeps: "P w \<Longrightarrow> P (snd (readManifest cd env dir name c w))"
proof -
  assume w: "P w"
  let ?p = "path_join dir name"
  obtain e w1 where o: "OpenRead env c ?p w = (e, w1)" by (meson surj_pair)
  have w1: "P w1" using keep_openread [OF w, of c ?p] by (simp add: o)
  obtain a w2 where ab: "remoteAbsent env c ?p w1 = (a, w2)" by (meson surj_pair)
  have w2: "P w2" using remoteAbsent_keeps [OF w1, of c ?p] by (simp add: ab)
  obtain r w3 where rd: "ReadLimited env c ?p (maxManifestBytes + 1) w1 = (r, w3)" by (meson surj_pair)
  have w3: "P w3" using keep_read [OF w1, of c ?p "maxManifestBytes + 1"] by (simp add: rd)
  have "P (snd (CloseFile env c ?p w3))" by (rule keep_closefile [OF w3])
  with w1 w2 show ?thesis
    by (simp add: readManifest_def Let_def o ab rd split: option.split sum.split)
qed

lemma writeManifest_keeps:
  assumes w: "P w" and target: "inside base (path_join base name)"
    and ok: "\<And>r. request_inside base r \<Longrightarrow> allowed r"
  shows "P (snd (writeManifest cd env base name m c w))"
proof -
  let ?t = "path_join base name" and ?tmp = "path_join base name @ tmpSuffix"
  have b: "below base ?t" "below base ?tmp" "below base (?t @ bakSuffix)"
    using target inside_names [OF target] by (simp_all add: inside_def)
  obtain e1 w1 where r1: "OpenTrunc env c ?tmp w = (e1, w1)" by (meson surj_pair)
  have w1: "P w1" using guard_trunc [OF w ok, of ?tmp c] b by (simp add: r1)
  obtain e2 w2 where r2: "WriteAll env c ?tmp (encode cd m) w1 = (e2, w2)" by (meson surj_pair)
  have w2: "P w2" using guard_write [OF w1 ok, of ?tmp c "encode cd m"] b by (simp add: r2)
  obtain e3 w3 where r3: "CloseFile env c ?tmp w2 = (e3, w3)" by (meson surj_pair)
  have w3: "P w3" using keep_closefile [OF w2, of c ?tmp] by (simp add: r3)
  obtain e4 w4 where r4: "renameReplace env c ?tmp ?t w3 = (e4, w4)" by (meson surj_pair)
  have "P (snd (renameReplace env c ?tmp ?t w3))"
    by (rule renameReplace_keeps [OF w3]; rule ok) (simp_all add: b)
  then have "P w4" by (simp add: r4)
  with w1 w3 show ?thesis
    by (simp add: writeManifest_def Let_def r1 r2 r3 r4 split: option.split)
qed

lemma writeRecoveryManifest_keeps:
  assumes "P (snd st)" "inside base (path_join base (syncManifestName cfg))"
    and ok: "\<And>r. \<not> DryRun cfg \<Longrightarrow> request_inside base r \<Longrightarrow> allowed r"
  shows "P (snd (writeRecoveryManifest pr cfg env watch base m st))"
proof (cases "DryRun cfg")
  case False
  obtain r st' where r: "session_do cfg env (watch \<and> \<not> fired env (snd st))
      (writeManifest (pr_codec pr) env base (syncManifestName cfg) m) st = (r, st')" by (meson surj_pair)
  have "P (snd st')"
    by (rule session_do_keeps [OF assms(1) _ r]) (rule writeManifest_keeps [OF _ assms(2) ok [OF False]])
  with False show ?thesis by (simp add: writeRecoveryManifest_def r)
qed (use assms in \<open>simp add: writeRecoveryManifest_def\<close>)

lemma deletes_keep:
  assumes "P (snd st)" "\<And>p. \<not> DryRun cfg \<Longrightarrow> p \<in> set paths \<Longrightarrow> allowed (RemoveReq p)"
  shows "P (snd (snd (deleteRemoteFiles cfg env watch paths st)))"
proof (cases "DryRun cfg")
  case False
  with deleteRemoteFiles_keeps [OF assms(1)] assms(2) show ?thesis by blast
qed (use assms(1) in \<open>simp add: deleteRemoteFiles_def\<close>)

lemma rmdirs_keep:
  assumes "P (snd st)" "\<And>p. \<not> DryRun cfg \<Longrightarrow> p \<in> set dirs \<Longrightarrow> allowed (RmdirReq p)"
  shows "P (snd (snd (snd (removeRemoteDirs cfg env watch dirs budget st))))"
proof (cases "DryRun cfg")
  case False
  with removeRemoteDirs_keeps [OF assms(1)] assms(2) show ?thesis by blast
qed (use assms(1) in \<open>simp add: removeRemoteDirs_def\<close>)

lemma rmdir_probe_keeps: "P w \<Longrightarrow> allowed (RmdirReq p) \<Longrightarrow> P (snd (rmdir_probe env p c w))"
  using guard_rmdir [of w p c] by (auto simp: rmdir_probe_def split: prod.splits)

lemma leftover_keeps: "P w \<Longrightarrow> P (snd (leftover_action env p c w))"
  using keep_readdir [of w c p] by (auto simp: leftover_action_def split: prod.splits sum.splits)

lemma clear_dirs_keeps:
  assumes ok: "\<And>dir full. dir \<in> set dirs \<Longrightarrow> safeJoin base dir = Inr full \<Longrightarrow> allowed (RmdirReq full)"
    and "P (snd st)"
  shows "P (snd (snd (snd (clear_dirs cfg env watch base dirs removed b st))))"
  using assms
proof (induction dirs arbitrary: removed b st)
  case (Cons dir rest)
  show ?case
  proof (cases "safeJoin base dir")
    case (Inl e)
    then show ?thesis using Cons.prems(2) by simp
  next
    case (Inr full)
    have al: "allowed (RmdirReq full)" by (rule Cons.prems(1) [OF _ Inr]) simp
    obtain taken b1 where t: "take_one b = (taken, b1)" by (meson surj_pair)
    obtain x st1 where s1: "session_do cfg env watch (rmdir_probe env full) st = (x, st1)" by (meson surj_pair)
    have st1: "P (snd st1)"
      by (rule session_do_keeps [OF Cons.prems(2) _ s1]) (rule rmdir_probe_keeps [OF _ al])
    obtain y st2 where s2: "session_do cfg env watch (leftover_action env full) st1 = (y, st2)" by (meson surj_pair)
    have st2: "P (snd st2)" by (rule session_do_keeps [OF st1 leftover_keeps s2])
    have IH: "P (snd (snd (snd (clear_dirs cfg env watch base rest k b' st1))))" for k b'
      by (rule Cons.IH [OF Cons.prems(1) st1]) simp_all
    show ?thesis using Cons.prems(2) st1 st2 IH
      by (simp add: Inr t s1 s2 split: bool.split sum.split option.split list.split)
  qed
qed simp

lemma clearCollideParents_keeps:
  assumes st: "P (snd st)" and base: "path_clean base = base" "base \<noteq> []"
    and here: "base = ''.'' \<Longrightarrow> colliding = []"
    and ok: "\<And>r. \<not> DryRun cfg \<Longrightarrow> request_inside base r \<Longrightarrow> allowed r"
  shows "P (snd (snd (snd (clearCollideParents cfg env watch base colliding fs b st))))"
proof (cases "DryRun cfg \<or> base = ''.''")
  case False
  then have nd: "\<not> DryRun cfg" and b: "base \<noteq> ''.''" by simp_all
  have "P (snd (snd (snd (clear_dirs cfg env watch base dirs 0 b st))))" for dirs
    by (rule clear_dirs_keeps [OF ok [OF nd] st])
      (use safeJoin_inside [of base] base b in \<open>auto simp: inside_def\<close>)
  with st show ?thesis by (simp add: clearCollideParents_def Let_def)
qed (use st here in \<open>auto simp: clearCollideParents_def collide_dirs_def Let_def\<close>)

lemma pruneEmptyDirs_keeps:
  assumes st: "P (snd st)" and base: "path_clean base = base"
    and del: "\<And>f. f \<in> set deleted \<Longrightarrow> inside base f"
    and ok: "\<And>r. \<not> DryRun cfg \<Longrightarrow> request_inside base r \<Longrightarrow> allowed r"
  shows "P (snd (snd (snd (pruneEmptyDirs cfg env watch base deleted b st))))"
proof -
  have coll: "set (collect_to None ds acc) \<subseteq> set acc \<union> set ds" for ds acc
    by (induction "None :: string option" ds acc rule: collect_to.induct) auto
  have "set (fold (\<lambda>f acc. collect_to None (takeWhile (\<lambda>d. d \<noteq> base) (up_chain (path_dir f))) acc) fs acc)
      \<subseteq> set acc \<union> {d. inside base d}" if "\<And>f. f \<in> set fs \<Longrightarrow> inside base f" for fs acc
    using that
  proof (induction fs arbitrary: acc)
    case (Cons f fs)
    have "set (collect_to None (takeWhile (\<lambda>d. d \<noteq> base) (up_chain (path_dir f))) acc) \<subseteq> set acc \<union> {d. inside base d}"
      using coll chain_below_base [OF _ base, of f] Cons.prems [of f] by fastforce
    with Cons.IH [of "collect_to None (takeWhile (\<lambda>d. d \<noteq> base) (up_chain (path_dir f))) acc"] Cons.prems
    show ?case by auto
  qed simp
  from this [of deleted "[]", OF del] have cand: "\<forall>d \<in> set (prune_candidates base deleted). inside base d"
    by (auto simp: prune_candidates_def)
  have "P (snd (snd (snd (removeRemoteDirs cfg env watch (prune_candidates base deleted) (Some b) st))))"
    by (rule rmdirs_keep [OF st ok]) (use cand in \<open>auto simp: inside_def\<close>)
  then show ?thesis by (auto simp: pruneEmptyDirs_def split: prod.split)
qed

lemma joined_inside:
  assumes "path_clean base = base" "base \<noteq> []" "base = ''.'' \<Longrightarrow> rels = []"
    and "\<forall>r \<in> set rels. joins_below base r" "p \<in> set (joined base rels)"
  shows "inside base p"
proof -
  obtain r where r: "r \<in> set rels" "p = (case safeJoin base r of Inl _ \<Rightarrow> [] | Inr p \<Rightarrow> p)"
    using assms(5) by (auto simp: joined_def)
  then obtain full where "safeJoin base r = Inr full" "p = full"
    using assms(4) by (auto simp: joins_below_def split: sum.splits)
  moreover have "base \<noteq> ''.''" using assms(3) r(1) by auto
  ultimately show ?thesis using safeJoin_inside [of base r full] assms(1,2) by simp
qed

lemma picked_subset: "set (picked oks rels) \<subseteq> set rels"
  by (auto simp: picked_def dest: set_zip_rightD)

end

text \<open>Lists of files with the same names have the same targets and need the same directories.\<close>

lemma same_names:
  assumes "map (\<lambda>f. (rel f, remotePath f)) fs' = map (\<lambda>f. (rel f, remotePath f)) fs"
  shows "remotePath ` set fs' = remotePath ` set fs" "dirsForFiles fs' = dirsForFiles fs"
    "rel ` set fs' = rel ` set fs"
proof -
  have m: "map remotePath fs' = map remotePath fs" "map rel fs' = map rel fs"
    using arg_cong [OF assms, of "map snd"] arg_cong [OF assms, of "map fst"] by (simp_all add: comp_def)
  show "remotePath ` set fs' = remotePath ` set fs" "rel ` set fs' = rel ` set fs"
    using m by (metis list.set_map)+
  have "map (\<lambda>f. parentDirs (remotePath f)) fs' = map (\<lambda>f. parentDirs (remotePath f)) fs"
    using arg_cong [OF m(1), of "map parentDirs"] by (simp add: comp_def)
  then show "dirsForFiles fs' = dirsForFiles fs" by (simp add: dirsForFiles_def)
qed

text \<open>What a deployment's steps share: its base, and what its plan was built to be.\<close>

definition deployable :: "config \<Rightarrow> string \<Rightarrow> bool" where
  "deployable cfg base \<longleftrightarrow> base \<noteq> [] \<and> path_clean base = base \<and> plain_name (syncManifestName cfg)"

lemma manifest_inside:
  assumes "deployable cfg base"
  shows "inside base (path_join base (syncManifestName cfg))"
  using join_name_inside [of base "[syncManifestName cfg]"] assms by (simp add: deployable_def)

context guarded_env
begin

lemma sync_collide_keeps:
  assumes P: "P (snd (snd (snd pg)))" and d: "deployable cfg base"
    and below: "\<forall>r \<in> set colliding. joins_below base r" and here: "base = ''.'' \<Longrightarrow> colliding = []"
    and ok: "\<And>r. \<not> DryRun cfg \<Longrightarrow> request_inside base r \<Longrightarrow> allowed r"
  shows "P (snd (snd (snd (snd (sync_collide pr cfg env watch base old upload colliding fs pg)))))"
proof -
  have base: "path_clean base = base" "base \<noteq> []" using d by (auto simp: deployable_def)
  obtain stats b st where pg: "pg = (stats, b, st)" by (rule prod_cases3)
  have st: "P (snd st)" using P pg by simp
  obtain oks cerr st1 where r1: "deleteRemoteFiles cfg env watch (joined base colliding) st = ((oks, cerr), st1)"
    by (metis surj_pair)
  have "P (snd (snd (deleteRemoteFiles cfg env watch (joined base colliding) st)))"
    by (rule deletes_keep [OF st ok]) (use joined_inside [OF base here below] in \<open>auto simp: inside_def\<close>)
  then have st1: "P (snd st1)" by (simp add: r1)
  obtain n derr b1 st2 where r2: "clearCollideParents cfg env watch base colliding fs b st1 = ((n, derr), b1, st2)"
    by (metis surj_pair)
  have "P (snd (snd (snd (clearCollideParents cfg env watch base colliding fs b st1))))"
    by (rule clearCollideParents_keeps [OF st1 base here ok])
  then have st2: "P (snd st2)" by (simp add: r2)
  note rec = writeRecoveryManifest_keeps [OF _ manifest_inside [OF d] ok]
  show ?thesis using st rec [OF st1] st2 rec [OF st2]
    by (simp add: sync_collide_def pg r1 r2 Let_def split: option.split)
qed

lemma sync_finish_keeps:
  assumes P: "P (snd (snd (snd pg)))" and d: "deployable cfg base"
    and below: "\<forall>r \<in> set rest. joins_below base r" and here: "base = ''.'' \<Longrightarrow> rest = []"
    and ok: "\<And>r. \<not> DryRun cfg \<Longrightarrow> request_inside base r \<Longrightarrow> allowed r"
  shows "P (snd (snd (snd (snd (sync_finish pr cfg env watch base old fs upload completed pre rest pg)))))"
proof -
  have base: "path_clean base = base" "base \<noteq> []" using d by (auto simp: deployable_def)
  obtain stats b st where pg: "pg = (stats, b, st)" by (rule prod_cases3)
  have st: "P (snd st)" using P pg by simp
  obtain oks derr st1 where r1: "deleteRemoteFiles cfg env watch (joined base rest) st = ((oks, derr), st1)"
    by (metis surj_pair)
  have "P (snd (snd (deleteRemoteFiles cfg env watch (joined base rest) st)))"
    by (rule deletes_keep [OF st ok]) (use joined_inside [OF base here below] in \<open>auto simp: inside_def\<close>)
  then have st1: "P (snd st1)" by (simp add: r1)
  obtain n b1 st2 where r2: "pruneEmptyDirs cfg env watch base (joined base (picked oks rest)) b st1 = (n, b1, st2)"
    by (rule prod_cases3)
  have pk: "\<forall>r \<in> set (picked oks rest). joins_below base r" using below picked_subset by fast
  have pe: "base = ''.'' \<Longrightarrow> picked oks rest = []" using here by (simp add: picked_def)
  have "P (snd (snd (snd (pruneEmptyDirs cfg env watch base (joined base (picked oks rest)) b st1))))"
    by (rule pruneEmptyDirs_keeps [OF st1 base(1) joined_inside [OF base pe pk] ok])
  then have st2: "P (snd st2)" by (simp add: r2)
  let ?m = "\<lparr>Version = manifestVersion, Files = local_manifest fs\<rparr>"
  obtain x st3 where r3: "session_do cfg env watch
      (writeManifest (pr_codec pr) env base (syncManifestName cfg) ?m) st2 = (x, st3)" by (meson surj_pair)
  have st3: "P (snd st3)" if "\<not> DryRun cfg"
    by (rule session_do_keeps [OF st2 _ r3]) (rule writeManifest_keeps [OF _ manifest_inside [OF d] ok [OF that]])
  note rec = writeRecoveryManifest_keeps [OF st1 manifest_inside [OF d] ok]
  show ?thesis using st1 rec st3
    by (simp add: sync_finish_def pg r1 r2 r3 Let_def split: option.split sum.split)
qed

lemma dry_upload_keeps:
  assumes dry: "DryRun cfg" and P: "P (snd (snd sst))"
  shows "P (snd (snd (snd (uploadFiles cfg env watch ch fs planned dirs sweepDirs base su sst))))"
proof -
  obtain stats st where sst: "sst = (stats, st)" by (meson surj_pair)
  have item: "P (snd (snd (snd (snd (snd (upload_item cfg env watch rq su fs k u))))))"
    if u: "P (snd (snd (snd (snd u))))" for k rq u
  proof -
    obtain completed skipped results s where us: "u = (completed, skipped, results, s)" by (metis surj_pair)
    obtain x s1 where c: "(if su then remoteSameSize cfg env watch (fs ! k) k s else (Inr False, s)) = (x, s1)"
      by (meson surj_pair)
    have "P (snd s1)"
      using c u us remoteSameSize_keeps [of s cfg watch "fs ! k" k x s1] by (auto split: if_splits)
    then show ?thesis by (simp add: upload_item_def us c dry split: sum.split)
  qed
  have "P (snd (snd (snd (snd (snd (run_uploads cfg env watch ch su fs st))))))"
    unfolding run_uploads_def Let_def steered_item_def
    by (rule runBounded_invariant [where P = "\<lambda>u. P (snd (snd (snd (snd u))))"])
      (use P sst item in simp_all)
  then show ?thesis by (auto simp: uploadFiles_def sst dry split: prod.splits)
qed

lemma uploads_keep:
  assumes P: "P (snd (snd sst))" and base: "path_clean base = base" "base \<noteq> []"
    and fs: "\<forall>f \<in> set fs. inside base (remotePath f)"
    and planned: "\<forall>f \<in> set planned. inside base (remotePath f)" "sweepDirs = dirsForFiles planned"
    and ok: "\<And>r. \<not> DryRun cfg \<Longrightarrow> request_inside base r \<Longrightarrow> allowed r"
  shows "P (snd (snd (snd (uploadFiles cfg env watch ch fs planned dirs sweepDirs base su sst))))"
proof (cases "DryRun cfg")
  case False
  have keep: "base \<notin> set (map remotePath planned)"
    using planned(1) below_not_self by (auto simp: inside_def)
  show ?thesis
  proof (rule uploadFiles_keeps [OF P])
    fix k r assume "k < length fs" "upload_request (fs ! k) k r"
    then show "allowed r" using ok [OF False] upload_request_inside fs by simp
  next
    fix dir name full
    assume dir: "dir \<in> set (sweep_dirs base sweepDirs (map remotePath planned))" "safeChild dir name = Inr full"
    have in_chain: "\<exists>p. inside base p \<and> d \<in> set (up_chain (path_dir p))" if "d \<in> set sweepDirs" for d
      using plan_dirs_chain [of d planned base] that planned by simp
    have "dir = base \<or> inside base dir" by (rule swept_dir_inside [OF base(1) keep dir(1) in_chain])
    then have "below base full"
      using below_trans [of base dir full] safeChild_strictly_below [OF dir(2)] by (auto simp: inside_def)
    then show "allowed (RemoveReq full)" using ok [OF False] by simp
  qed
qed (rule dry_upload_keeps [OF _ P])

lemma sync_transfer_keeps:
  assumes P: "P (snd (snd (snd pg)))" and d: "deployable cfg base"
    and fs: "\<forall>f \<in> set fs. inside base (remotePath f)" and dirs: "remoteDirs p = dirsForFiles fs"
    and jb: "\<forall>r \<in> set (fst dels). joins_below base r" "\<forall>r \<in> set (snd dels). joins_below base r"
    and here: "base = ''.'' \<Longrightarrow> dels = ([], [])"
    and ok: "\<And>r. \<not> DryRun cfg \<Longrightarrow> request_inside base r \<Longrightarrow> allowed r"
  shows "P (snd (snd (snd (snd (sync_transfer pr cfg env watch p base old fs dels pg)))))"
proof -
  have base: "path_clean base = base" "base \<noteq> []" using d by (auto simp: deployable_def)
  let ?up = "changed_files old fs"
  obtain e pre stats2 b2 st2 where r1: "sync_collide pr cfg env watch base old ?up (fst dels) fs pg
      = ((e, pre), (stats2, b2, st2))" by (metis surj_pair)
  have "P (snd (snd (snd (snd (sync_collide pr cfg env watch base old ?up (fst dels) fs pg)))))"
    by (rule sync_collide_keeps [OF P d jb(1) _ ok]) (simp add: here)
  then have st2: "P (snd st2)" by (simp add: r1)
  let ?dirs = "if DirMode cfg = None then dirsForFiles ?up else remoteDirs p"
  obtain completed e3 stats3 st3 where r2: "uploadFiles cfg env watch (pr_policy pr ?up False) ?up fs ?dirs
      (remoteDirs p) base False (stats2, st2) = ((completed, e3), (stats3, st3))" by (metis surj_pair)
  have "P (snd (snd (snd (uploadFiles cfg env watch (pr_policy pr ?up False) ?up fs ?dirs
      (remoteDirs p) base False (stats2, st2)))))"
    by (rule uploads_keep [OF _ base _ fs dirs ok]) (use st2 fs in \<open>auto simp: changed_files_def\<close>)
  then have st3: "P (snd st3)" unfolding r2 by simp
  have rec: "P (snd (writeRecoveryManifest pr cfg env watch base m st3))" for m
    by (rule writeRecoveryManifest_keeps [OF st3 manifest_inside [OF d] ok])
  have fin: "P (snd (snd (snd (snd (sync_finish pr cfg env watch base old fs ?up completed pre (snd dels)
      (stats3, b2, st3))))))"
    by (rule sync_finish_keeps [OF _ d jb(2) _ ok]) (simp_all add: st3 here)
  show ?thesis using st2 rec fin unfolding sync_transfer_def Let_def r1 prod.case
    by (cases e; cases e3) (simp_all only: r2 prod.case option.case snd_conv)
qed

lemma sync_apply_keeps:
  assumes P: "P (snd (snd (snd pg)))" and d: "deployable cfg base" and b: "base = NormalizeRemote (Remote (pair p))"
    and fs: "\<forall>f \<in> set fs. inside base (remotePath f)" and dirs: "remoteDirs p = dirsForFiles fs"
    and ok: "\<And>r. \<not> DryRun cfg \<Longrightarrow> request_inside base r \<Longrightarrow> allowed r"
  shows "P (snd (snd (snd (snd (sync_apply pr cfg env watch p old fs pg)))))"
proof -
  let ?del = "stale_entries old base fs"
  obtain e pg1 where a: "sync_admit p ?del pg = (e, pg1)" by (meson surj_pair)
  have pg1: "P (snd (snd (snd pg1)))"
    using a P by (auto simp: sync_admit_def split: if_splits option.splits prod.splits)
  have jb: "\<forall>r \<in> set (fst (collidingDeletes (pr_fold pr) ?del fs)). joins_below base r"
    "\<forall>r \<in> set (snd (collidingDeletes (pr_fold pr) ?del fs)). joins_below base r"
    by (auto simp: collidingDeletes_def stale_entries_def)
  have here: "collidingDeletes (pr_fold pr) ?del fs = ([], [])" if "e = None" "base = ''.''"
    using a that b by (auto simp: sync_admit_def checkRemoteRoot_def collidingDeletes_def split: if_splits)
  have go: "P (snd (snd (snd (snd (sync_transfer pr cfg env watch p base old fs
      (collidingDeletes (pr_fold pr) ?del fs) pg1)))))" if "e = None"
    by (rule sync_transfer_keeps [OF pg1 d fs dirs jb here [OF that] ok])
  then show ?thesis using pg1
    by (simp add: sync_apply_def Let_def b [symmetric] a split: option.split)
qed

lemma executeSync_keeps:
  assumes P: "P (snd (snd (snd pg)))" and d: "deployable cfg base" and b: "base = NormalizeRemote (Remote (pair p))"
    and fs: "\<forall>f \<in> set (plan_files p). inside base (remotePath f)" and dirs: "remoteDirs p = dirsForFiles (plan_files p)"
    and ok: "\<And>r. \<not> DryRun cfg \<Longrightarrow> request_inside base r \<Longrightarrow> allowed r"
  shows "P (snd (snd (snd (snd (executeSync pr cfg env watch p pg)))))"
proof -
  obtain stats b0 st where pg: "pg = (stats, b0, st)" by (rule prod_cases3)
  have st: "P (snd st)" using P pg by simp
  obtain x st1 where r1: "session_do cfg env watch (readManifest (pr_codec pr) env base (syncManifestName cfg)) st
      = (x, st1)" by (meson surj_pair)
  have st1: "P (snd st1)" by (rule session_do_keeps [OF st readManifest_keeps r1])
  have apply_step: "P (snd (snd (snd (snd (sync_apply pr cfg env watch p old fs' (stats, b0, st1))))))"
    if h: "map (\<lambda>f. (rel f, remotePath f)) fs' = map (\<lambda>f. (rel f, remotePath f)) (plan_files p)" for old fs'
  proof -
    note sf = same_names [OF h]
    have "\<forall>f \<in> set fs'. inside base (remotePath f)" "remoteDirs p = dirsForFiles fs'"
      using fs dirs sf by (simp_all flip: ball_simps(9))
    then show ?thesis by (intro sync_apply_keeps [OF _ d b _ _ ok]) (simp_all add: st1)
  qed
  show ?thesis
  proof (cases x)
    case (Inl e)
    with st1 show ?thesis by (simp add: executeSync_def Let_def pg b [symmetric] r1)
  next
    case (Inr old)
    obtain e fs' where h: "hashPlanFiles (\<lambda>q. hash_local env q (snd st1)) (ctx_err env (snd st1))
        (schedule env (max (pr_cpus pr) 1) (length (plan_files p)) (snd st1)) (plan_files p)
        (if SyncFastPath cfg then map_of (Files old) else (\<lambda>_. None)) = (e, fs')" by (meson surj_pair)
    from apply_step [OF hash_keeps_names [OF h]] st1 show ?thesis
      unfolding executeSync_def Let_def pg prod.case b [symmetric] r1 Inr sum.case h
      by (cases e) simp_all
  qed
qed

lemma clean_target_keeps:
  assumes P: "P (snd (snd (snd pg)))"
    and ok: "\<And>r. \<not> DryRun cfg \<Longrightarrow> request_inside (NormalizeRemote (Remote (pair p))) r \<Longrightarrow> allowed r"
    and run: "clean_target pr cfg env watch p pg = Some (e, pg')"
  shows "P (snd (snd (snd pg')))"
proof (cases "checkRemoteRoot (Remote (pair p))")
  case None
  let ?base = "NormalizeRemote (Remote (pair p))"
  obtain stats b st where pg: "pg = (stats, b, st)" by (rule prod_cases3)
  have st: "P (snd st)" using P pg by simp
  obtain x st1 where l: "listRemoteContents cfg env watch (pr_fuel pr) ?base st = Some (x, st1)"
    using run None pg by (auto simp: clean_target_def split: option.splits)
  have st1: "P (snd st1)" using list_levels_keeps [OF st] l by (simp add: listRemoteContents_def)
  show ?thesis
  proof (cases x)
    case (Inl er)
    with run l None pg st1 show ?thesis by (auto simp: clean_target_def)
  next
    case (Inr fd)
    obtain fs ds where fd: "fd = (fs, ds)" by (cases fd)
    have below: "below ?base q" if "q \<in> set fs \<union> set ds" for q
      by (rule list_levels_below [OF guarded_base [OF None] _ _ l [unfolded listRemoteContents_def Inr fd] that])
        simp_all
    obtain oks de st2 where r1: "deleteRemoteFiles cfg env watch fs st1 = ((oks, de), st2)" by (metis surj_pair)
    have "P (snd (snd (deleteRemoteFiles cfg env watch fs st1)))"
      by (rule deletes_keep [OF st1 ok]) (use below in simp_all)
    then have st2: "P (snd st2)" by (simp add: r1)
    obtain n b' st3 where r2: "removeRemoteDirs cfg env watch ds None st2 = (n, b', st3)" by (rule prod_cases3)
    have "P (snd (snd (snd (removeRemoteDirs cfg env watch ds None st2))))"
      by (rule rmdirs_keep [OF st2 ok]) (use below in simp_all)
    then have "P (snd st3)" by (simp add: r2)
    with run l None pg st1 st2 r1 r2 Inr fd show ?thesis
      by (auto simp: clean_target_def Let_def split: prod.splits option.splits)
  qed
qed (use run P in \<open>auto simp: clean_target_def\<close>)

lemma executePlan_keeps:
  assumes P: "P (snd (snd (snd pg)))" and d: "deployable cfg base" and b: "base = NormalizeRemote (Remote (pair p))"
    and fs: "\<forall>f \<in> set (plan_files p). inside base (remotePath f)" and dirs: "remoteDirs p = dirsForFiles (plan_files p)"
    and ok: "\<And>r. \<not> DryRun cfg \<Longrightarrow> request_inside base r \<Longrightarrow> allowed r"
    and run: "executePlan pr cfg env watch p pg = Some (e, pg')"
  shows "P (snd (snd (snd pg')))"
proof (cases "strat p = Sync")
  case True
  with run executeSync_keeps [OF P d b fs dirs ok, of pr watch] show ?thesis
    by (simp add: executePlan_def)
next
  case False
  have base: "path_clean base = base" "base \<noteq> []" using d by (auto simp: deployable_def)
  obtain e1 pg1 where c: "(if strat p = Clean then clean_target pr cfg env watch p pg else Some (None, pg)) = Some (e1, pg1)"
    using run False by (auto simp: executePlan_def executeOverlayOrClean_def split: option.splits if_splits prod.splits)
  have pg1: "P (snd (snd (snd pg1)))"
    using c P clean_target_keeps [OF P, of cfg p pr watch e1 pg1] ok b by (auto split: if_splits)
  obtain stats b1 st1 where p1: "pg1 = (stats, b1, st1)" by (rule prod_cases3)
  let ?su = "SkipUnchanged cfg \<and> strat p = Overlay"
  obtain x e2 stats2 st2 where u: "uploadFiles cfg env watch (pr_policy pr (plan_files p) ?su) (plan_files p)
      (plan_files p) (remoteDirs p) (remoteDirs p) base ?su (stats, st1) = ((x, e2), (stats2, st2))"
    by (metis surj_pair)
  have "P (snd (snd (snd (uploadFiles cfg env watch (pr_policy pr (plan_files p) ?su) (plan_files p)
      (plan_files p) (remoteDirs p) (remoteDirs p) base ?su (stats, st1)))))"
    by (rule uploads_keep [OF _ base fs fs dirs ok]) (use pg1 p1 in simp)
  then have st2: "P (snd st2)" unfolding u by simp
  show ?thesis
    using run False pg1 st2
    unfolding executePlan_def executeOverlayOrClean_def c option.case prod.case p1 Let_def b [symmetric] u
    by (cases e1) (auto simp: p1)
qed

lemma file_plan_keeps:
  assumes P: "P (snd (snd (snd pg)))" and b: "buildPlan q st opts (RootFile fi) walkRoot = Inr p"
    and pats: "compileGitignore (lines @ Ignore q) = Inr (matcher opts)" and nm: "plain_name (path_base (Local q))"
    and ok: "\<And>r. \<not> DryRun cfg \<Longrightarrow> file_request lines q r \<Longrightarrow> allowed r"
    and run: "executePlan pr cfg env watch p pg = Some (e, pg')"
  shows "P (snd (snd (snd pg')))"
proof -
  let ?base = "NormalizeRemote (Remote q)"
  have st: "st = Overlay" using b by (auto simp: buildPlan_def Let_def split: if_splits)
  have p: "strat p = Overlay" "pair p = q" using b st by (auto simp: buildPlan_def Let_def empty_plan_def split: if_splits)
  have fs: "if file_excluded lines q then plan_files p = [] \<and> remoteDirs p = []
      else map remotePath (plan_files p) = [file_target q] \<and> remoteDirs p = parentDirs (file_target q)"
    using b st by (auto simp: buildPlan_def file_target_def file_excluded_def pats Let_def empty_plan_def split: if_splits)
  obtain stats bg s where pg: "pg = (stats, bg, s)" by (metis surj_pair)
  have keep: "P (snd (snd (snd (uploadFiles cfg env watch ch (plan_files p) (plan_files p) (remoteDirs p) (remoteDirs p)
      ?base su (stats, s)))))" for ch su
  proof (cases "DryRun cfg")
    case True
    then show ?thesis by (rule dry_upload_keeps) (use P pg in simp)
  next
    case False
    show ?thesis
    proof (rule uploadFiles_keeps)
      fix k r assume k: "k < length (plan_files p)" "upload_request (plan_files p ! k) k r"
      with fs have x: "\<not> file_excluded lines q" by auto
      with fs have "map remotePath (plan_files p) = [file_target q]" by simp
      with k(1) have "k = 0" "remotePath (plan_files p ! k) = file_target q" by (auto simp: map_eq_Cons_conv)
      with k x show "allowed r" by (intro ok [OF False]) (auto simp: file_request_def)
    next
      fix dir name full
      assume d: "dir \<in> set (sweep_dirs ?base (remoteDirs p) (map remotePath (plan_files p)))"
        "isTempFileName name" "safeChild dir name = Inr full" "full \<notin> remotePath ` set (plan_files p)"
      have s: "sweep_request dir (RemoveReq full)" using d(2,3) by (auto simp: sweep_request_def)
      have "file_request lines q (RemoveReq full)"
      proof (cases "file_excluded lines q")
        case True
        with fs d(1) have "dir = ?base" by (simp add: sweep_dirs_def)
        with True s show ?thesis by (simp add: file_request_def)
      next
        case False
        with fs have m: "map remotePath (plan_files p) = [file_target q]" "remoteDirs p = parentDirs (file_target q)" by simp_all
        have "dir = path_dir (file_target q)" using swept_beside_target [OF nm] d(1) unfolding m by blast
        moreover have "full \<noteq> file_target q" using d(4) m(1) by auto
        ultimately show ?thesis using False s by (simp add: file_request_def)
      qed
      then show "allowed (RemoveReq full)" by (rule ok [OF False])
    qed (use P pg in simp)
  qed
  show ?thesis
    using run keep [of "pr_policy pr (plan_files p) (SkipUnchanged cfg)" "SkipUnchanged cfg"]
    by (auto simp: executePlan_def executeOverlayOrClean_def p(1,2) pg Let_def split: prod.splits)
qed

end

section \<open>Properties\<close>

text \<open>
  No server, manifest or listing can make a deployment of a directory step outside its
  target: whatever the mode and whatever the answers, every removal, truncation and rename the run
  asks for names paths strictly below the normalised remote directory.
\<close>

theorem deployment_stays_inside:
  assumes "buildPlan q st opts (RootTree rerr cs) walkRoot = Inr p" "names_ok (Dir rerr cs)"
    and "plain_name (syncManifestName cfg)"
    and "executePlan pr cfg (traced env) watch p (stats, b, (s, (w, []))) = Some (e, (stats', b', (s', (w', asked))))"
  shows "\<forall>r \<in> set asked. request_inside (NormalizeRemote (Remote q)) r"
proof -
  let ?base = "NormalizeRemote (Remote q)"
  have d: "deployable cfg ?base" using assms(3) by (simp add: deployable_def)
  note bp = buildPlan_planned [OF assms(1,2)]
  have fs: "\<forall>f \<in> set (plan_files p). inside ?base (remotePath f)"
    using bp(1) planned_inside norm_not_Nil by blast
  have "all_noted (request_inside ?base) (snd (snd (snd (stats', b', (s', (w', asked))))))"
    by (rule tr.executePlan_keeps [OF _ d _ fs bp(2) _ assms(4)]) (simp_all add: bp(3) all_noted_def)
  then show ?thesis by (simp add: all_noted_def)
qed

text \<open>A concrete deployment for the witnesses: a one-file tree, a policy and a trivial codec.\<close>

definition sample_params :: params where
  "sample_params =
     \<lparr>pr_codec = \<lparr>decode = \<lambda>_. None, decode_v1 = \<lambda>s. Some (1, [(s, ''h'')]), encode = \<lambda>_. ''m''\<rparr>,
      pr_fold = ascii_lower, pr_policy = \<lambda>_ _. sample_chosen, pr_cpus = 2, pr_fuel = 3\<rparr>"

definition sample_pair :: uploadPair where
  "sample_pair = \<lparr>Name = ''web'', Local = ''web'', Remote = ''/w/'', Strategy = Some Sync, Ignore = []\<rparr>"

definition sample_entries :: "(string \<times> node) list" where
  "sample_entries = [(''a'', Entry (Inr \<lparr>li_regular = True, li_size = 3, li_mtime = 7, li_mode = 420\<rparr>))]"

definition sample_options :: planOptions where
  "sample_options = \<lparr>matcher = [], pruneDirs = True, manifestName = ''.m.json''\<rparr>"

definition sample_plan :: plan where
  "sample_plan = \<lparr>pair = sample_pair, strat = Sync,
     plan_files = [\<lparr>localPath = ''web/a'', remotePath = ''/w/a'', rel = ''a'', fsize = 3, mtime = 7,
       fmode = 420, hash = []\<rparr>],
     remoteDirs = [''/w''], skippedNonRegular = 0\<rparr>"

lemma sample_plan_built:
  "buildPlan sample_pair Sync sample_options (RootTree None sample_entries) ''web'' = Inr sample_plan"
  "names_ok (Dir None sample_entries)" "plain_name (syncManifestName sample_config)"
  by code_simp+

text \<open>The server holds a manifest naming one stale file, which the run deletes.\<close>

definition sample_world :: ram where
  "sample_world = \<lparr>disk = [(''/w/.m.json'', ''old''), (''/w/old'', ''x'')], script = []\<rparr>"

theorem deployment_stays_inside_witness:
  "\<exists>e pg asked. executePlan sample_params sample_config (traced (ram_env [(''web/a'', ''abc'')] True)) False
       sample_plan (zero_stats, newDeleteBudget 5, (sample_session, (sample_world, []))) = Some (e, pg) \<and>
     asked = snd (snd (snd (snd pg))) \<and> RemoveReq ''/w/old'' \<in> set asked \<and>
     (\<forall>r \<in> set asked. request_inside (NormalizeRemote ''/w/'') r)"
proof -
  let ?run = "executePlan sample_params sample_config (traced (ram_env [(''web/a'', ''abc'')] True)) False
       sample_plan (zero_stats, newDeleteBudget 5, (sample_session, (sample_world, [])))"
  have del: "case ?run of None \<Rightarrow> False | Some (e, pg) \<Rightarrow> RemoveReq ''/w/old'' \<in> set (snd (snd (snd (snd pg))))"
    by code_simp
  then obtain e pg where r: "?run = Some (e, pg)" by (auto split: option.splits)
  obtain stats b s w asked where pg: "pg = (stats, b, (s, (w, asked)))" by (metis surj_pair)
  from deployment_stays_inside [OF sample_plan_built r [unfolded pg]] del r pg
  show ?thesis by (simp add: sample_pair_def)
qed

text \<open>
  A dry run is silent: in every mode, for every plan of a directory, it asks the server
  for no removal, no truncation and no rename.
\<close>

theorem dry_run_asks_for_nothing:
  assumes "buildPlan q st opts (RootTree rerr cs) walkRoot = Inr p" "names_ok (Dir rerr cs)"
    and "plain_name (syncManifestName cfg)" "DryRun cfg"
    and "executePlan pr cfg (traced env) watch p (stats, b, (s, (w, []))) = Some (e, (stats', b', (s', (w', asked))))"
  shows "asked = []"
proof -
  let ?base = "NormalizeRemote (Remote q)"
  have d: "deployable cfg ?base" using assms(3) by (simp add: deployable_def)
  note bp = buildPlan_planned [OF assms(1,2)]
  have fs: "\<forall>f \<in> set (plan_files p). inside ?base (remotePath f)"
    using bp(1) planned_inside norm_not_Nil by blast
  have "all_noted (\<lambda>_. False) (snd (snd (snd (stats', b', (s', (w', asked))))))"
    by (rule tr.executePlan_keeps [OF _ d _ fs bp(2) _ assms(5)]) (simp_all add: bp(3) all_noted_def assms(4))
  then show ?thesis by (simp add: all_noted_def)
qed

theorem dry_run_asks_for_nothing_witness:
  "\<exists>e pg. executePlan sample_params (sample_config\<lparr>DryRun := True\<rparr>) (traced (ram_env [(''web/a'', ''abc'')] True))
       False sample_plan (zero_stats, newDeleteBudget 5, (sample_session, (sample_world, []))) = Some (e, pg) \<and>
     FilesUploaded (fst pg) = 1 \<and> FilesDeleted (fst pg) = 1 \<and> snd (snd (snd (snd pg))) = []"
proof -
  let ?cfg = "sample_config\<lparr>DryRun := True\<rparr>"
  let ?run = "executePlan sample_params ?cfg (traced (ram_env [(''web/a'', ''abc'')] True)) False
       sample_plan (zero_stats, newDeleteBudget 5, (sample_session, (sample_world, [])))"
  have up: "case ?run of None \<Rightarrow> False | Some (e, pg) \<Rightarrow> FilesUploaded (fst pg) = 1 \<and> FilesDeleted (fst pg) = 1"
    by code_simp
  then obtain e pg where r: "?run = Some (e, pg)" by (auto split: option.splits)
  obtain stats b s w asked where pg: "pg = (stats, b, (s, (w, asked)))" by (metis surj_pair)
  have n: "plain_name (syncManifestName ?cfg)" "DryRun ?cfg" by code_simp+
  from dry_run_asks_for_nothing [OF sample_plan_built(1,2) n r [unfolded pg]] up r pg show ?thesis by simp
qed

end
