(* ===== verification/Storage.thy ===== *)
theory Storage
  imports Deploy_Guard
begin

text \<open>
  What a file server that does its job promises, and what each phase of a sync then achieves. The
  interface \<open>storage\<close> views the server as the content found at each path: a request that reports
  success took effect, an answer that a path is absent is true, a request that fails moves at most
  the paths it names, everything else leaves contents alone. That any refused \<open>Lstat\<close> other than a
  connection failure or a permission error means an absent path is what the code takes it to mean
  (\<open>remoteAbsent\<close>); the protocol does not promise it, so a server that answers otherwise is outside. Inside it two instances of the guard
  interface say what a phase leaves alone (\<open>frame\<close>) and what stays deleted (\<open>gone\<close>); on top of them
  stand the results of the single phases: a delete sweep without error empties its paths, an upload
  phase without error fills its targets, a manifest write without error leaves the manifest.
\<close>

section \<open>Which requests concern a path\<close>

text \<open>A request that names a path not at all, and one that cannot make it appear.\<close>

fun spares :: "string \<Rightarrow> request \<Rightarrow> bool" where
  "spares q (RemoveReq p) = (p \<noteq> q)"
| "spares q (RmdirReq p) = True"
| "spares q (RenameReq p p') = (p \<noteq> q \<and> p' \<noteq> q)"
| "spares q (PosixRenameReq p p') = (p \<noteq> q \<and> p' \<noteq> q)"
| "spares q (TruncReq p) = (p \<noteq> q)"

fun no_revival :: "string \<Rightarrow> request \<Rightarrow> bool" where
  "no_revival q (RemoveReq p) = True"
| "no_revival q (RmdirReq p) = True"
| "no_revival q (RenameReq p p') = (p' \<noteq> q)"
| "no_revival q (PosixRenameReq p p') = (p' \<noteq> q)"
| "no_revival q (TruncReq p) = (p \<noteq> q)"

lemma spares_no_revival: "spares q r \<Longrightarrow> no_revival q r"
  by (cases r) auto

section \<open>Names without the temporary suffix\<close>

definition no_temp :: "string \<Rightarrow> bool" where
  "no_temp p \<longleftrightarrow> last_split p tmpSuffix = None"

lemma no_temp_iff: "no_temp p \<longleftrightarrow> \<not> sublist tmpSuffix p"
proof
  show "\<not> sublist tmpSuffix p" if "no_temp p"
    using that last_split_found unfolding no_temp_def by blast
  show "no_temp p" if "\<not> sublist tmpSuffix p"
  proof (rule ccontr)
    assume "\<not> no_temp p"
    then obtain a b where "last_split p tmpSuffix = Some (a, b)" by (auto simp: no_temp_def)
    from last_split_Some [OF this] that show False by (auto simp: sublist_def)
  qed
qed

lemma temp_names_marked:
  "\<not> no_temp (uploadTempPath p i)" "\<not> no_temp (p @ bakSuffix)" "\<not> no_temp (p @ tmpSuffix)"
  "\<not> no_temp (p @ tmpSuffix @ bakSuffix)"
  by (auto simp: no_temp_iff uploadTempPath_def bakSuffix_def sublist_def intro: exI [of _ p])

lemma upload_request_spares:
  "upload_request f i r \<Longrightarrow> no_temp q \<Longrightarrow> remotePath f \<noteq> q \<Longrightarrow> spares q r"
  using temp_names_marked by (cases r) auto

text \<open>What the stale-temp sweep removes carries the suffix.\<close>

lemma temp_file_name:
  assumes "isTempFileName name"
  shows "\<exists>a b. name = a @ tmpSuffix @ b"
proof -
  obtain a b where "last_split name tmpSuffix = Some (a, b)"
    using assms by (auto simp: isTempFileName_def split: option.splits)
  from last_split_Some [OF this] show ?thesis by blast
qed

lemma swept_name:
  assumes "safeChild dir name = Inr full" "isTempFileName name" "path_clean dir \<noteq> ''.''" "dir \<noteq> []"
  shows "\<not> no_temp full"
proof -
  obtain a b where n: "name = a @ tmpSuffix @ b" using temp_file_name [OF assms(2)] by blast
  have ns: "CHR ''/'' \<notin> set name" and j: "safeJoin dir name = Inr full"
    using assms(1) by (auto simp: safeChild_def split: if_splits)
  have len: "3 \<le> length name" by (simp add: n tmpSuffix_def)
  have pl: "plain_name name"
    using ns len by (auto simp: plain_name_def)
  then have e: "path_elems name = [name]"
    using path_elems_render [of False "[name]"] by (simp add: render_path_def)
  note je = safeJoin_Inr_elems [OF assms(3,4) j]
  have "full = render_path (is_rooted full) (path_elems dir @ [name])"
    using je(1,5) e by (metis path_clean_def)
  then have "suffix name full"
    by (cases "is_rooted full") (auto simp: render_path_snoc intro: suffix_ConsI suffix_appendI split: if_splits)
  then obtain zs where "full = (zs @ a) @ tmpSuffix @ b" by (auto simp: suffix_def n)
  then show ?thesis unfolding no_temp_iff sublist_def by blast
qed

text \<open>The planned targets carry no temporary name and are pairwise different.\<close>

definition apart :: "fileItem list \<Rightarrow> bool" where
  "apart fs \<longleftrightarrow> distinct (map remotePath fs) \<and> (\<forall>f \<in> set fs. no_temp (remotePath f))"

interpretation any: quiet_env env "\<lambda>_. True" for env
  by unfold_locales simp_all

section \<open>The contract\<close>

text \<open>
  \<open>data\<close> is the content of each local file, which does not change during the run, and \<open>digest\<close> the
  content hash. The absence laws are what SFTP documents for its status codes, as \<open>remoteAbsent\<close>
  uses them.
\<close>

locale storage =
  fixes env :: "('c, 'w) remote" and content :: "'w \<Rightarrow> string \<Rightarrow> string option"
    and data :: "string \<Rightarrow> string" and digest :: "string \<Rightarrow> string"
  assumes uploads: "upload_server env content data"
    and remove_done: "fst (Remove env c p w) = None \<Longrightarrow> content (snd (Remove env c p w)) p = None"
    and remove_absent: "fst (Remove env c p w) = Some e \<Longrightarrow> err_id e = NotExist \<Longrightarrow>
      content (snd (Remove env c p w)) p = None"
    and absent_true: "fst (Lstat env c p w) = Inl e \<Longrightarrow> \<not> isConnError e \<Longrightarrow> err_id e \<noteq> Permission \<Longrightarrow>
      content w p = None"
    and write_only: "only_at p (content w) (content (snd (WriteAll env c p d w)))"
    and write_done: "fst (WriteAll env c p d w) = None \<Longrightarrow> content (snd (WriteAll env c p d w)) p = Some d"
    and read_back: "fst (ReadLimited env c p n w) = Inr d \<Longrightarrow> int (length d) < n \<Longrightarrow> content w p = Some d"
    and rmdir_keeps: "content (snd (RemoveDirectory env c p w)) = content w"
    and stat_keeps: "content (snd (Stat env c p w)) = content w"
    and readdir_keeps: "content (snd (ReadDir env c p w)) = content w"
    and mkdir_keeps: "content (snd (MkdirAll env c p w)) = content w"
    and openread_keeps: "content (snd (OpenRead env c p w)) = content w"
    and read_keeps: "content (snd (ReadLimited env c p n w)) = content w"
    and connect_keeps: "content (snd (connect env w)) = content w"
    and closing_keeps: "content (closeConn env c w) = content w"
    and sleep_keeps: "content (snd (sleepBackoff env k w)) = content w"
    and hashes: "hash_local env p w = Inr h \<Longrightarrow> h = digest (data p)"
    and schedules: "valid_schedule l m (schedule env l m w)"
begin

lemma server: "file_server env content"
  using uploads by (simp add: upload_server_def)

lemma remove_cases: "content (snd (Remove env c p w)) \<in> {content w, (content w)(p := None)}"
  using server unfolding file_server_def by blast

lemma rename_cases: "content (snd (Rename env c p q w)) = content w \<or>
    content (snd (Rename env c p q w)) = moved p q (content w)"
  using server unfolding file_server_def by blast

lemma posix_cases: "content (snd (PosixRename env c p q w)) = content w \<or>
    content (snd (PosixRename env c p q w)) = moved p q (content w)"
  using uploads unfolding upload_server_def by blast

lemma lstat_keeps: "content (snd (Lstat env c p w)) = content w"
  using server unfolding file_server_def by blast

lemma attributes_keep: "content (snd (CloseFile env c p w)) = content w"
  "content (snd (Chmod env c p m w)) = content w" "content (snd (Chtimes env c p t w)) = content w"
  using uploads by (simp_all add: upload_server_def)

lemma trunc_only: "q \<noteq> p \<Longrightarrow> content (snd (OpenTrunc env c p w)) q = content w q"
  using uploads by (simp add: upload_server_def only_at_def)

lemma stream_only: "q \<noteq> p \<Longrightarrow> content (snd (StreamFrom env c p src k w)) q = content w q"
  using uploads by (simp add: upload_server_def only_at_def)

lemma moved_other: "q \<noteq> p \<Longrightarrow> q \<noteq> p' \<Longrightarrow> moved p p' m q = m q"
  "q \<noteq> p' \<Longrightarrow> m q = None \<Longrightarrow> moved p p' m q = None"
  by (auto simp: moved_def)

lemmas leave_alone = rmdir_keeps stat_keeps readdir_keeps mkdir_keeps openread_keeps read_keeps
  connect_keeps closing_keeps sleep_keeps lstat_keeps attributes_keep

text \<open>What a phase leaves alone, and what stays deleted through it.\<close>

sublocale frame: guarded_env env "\<lambda>w. content w q = x" "spares q" for q x
proof unfold_locales
  show "content (snd (Remove env c p w)) q = x" if "content w q = x" "spares q (RemoveReq p)" for c p w
    using remove_cases [of c p w] that by auto
  show "content (snd (Rename env c p p' w)) q = x" if "content w q = x" "spares q (RenameReq p p')" for c p p' w
    using rename_cases [of c p p' w] that moved_other(1) [of q p p'] by auto
  show "content (snd (PosixRename env c p p' w)) q = x"
    if "content w q = x" "spares q (PosixRenameReq p p')" for c p p' w
    using posix_cases [of c p p' w] that moved_other(1) [of q p p'] by auto
  show "content (snd (WriteAll env c p d w)) q = x" if "content w q = x" "spares q (TruncReq p)" for c p d w
    using write_only [of p w c d] that by (auto simp: only_at_def)
qed (simp_all add: leave_alone trunc_only stream_only)

sublocale gone: guarded_env env "\<lambda>w. content w q = None" "no_revival q" for q
proof unfold_locales
  show "content (snd (Remove env c p w)) q = None" if "content w q = None" for c p w
    using remove_cases [of c p w] that by auto
  show "content (snd (Rename env c p p' w)) q = None"
    if "content w q = None" "no_revival q (RenameReq p p')" for c p p' w
    using rename_cases [of c p p' w] that moved_other(2) [of q p'] by auto
  show "content (snd (PosixRename env c p p' w)) q = None"
    if "content w q = None" "no_revival q (PosixRenameReq p p')" for c p p' w
    using posix_cases [of c p p' w] that moved_other(2) [of q p'] by auto
  show "content (snd (WriteAll env c p d w)) q = None"
    if "content w q = None" "no_revival q (TruncReq p)" for c p d w
    using write_only [of p w c d] that by (auto simp: only_at_def)
qed (simp_all add: leave_alone trunc_only stream_only)

section \<open>A delete sweep without error empties its paths\<close>

lemma delete_action_done:
  assumes "delete_action env p c w = (Inr u, w')"
  shows "content w' p = None"
proof -
  obtain e w1 where r: "Remove env c p w = (e, w1)" by (meson surj_pair)
  obtain a w2 where l: "Lstat env c p w1 = (a, w2)" by (meson surj_pair)
  have "content w2 = content w1" using lstat_keeps [of c p w1] by (simp add: l)
  with assms remove_done [of c p w] remove_absent [of c p w] absent_true [of c p w1] show ?thesis
    by (auto simp: delete_action_def remoteAbsent_def r l split: option.splits sum.splits if_splits)
qed

lemma delete_item_done:
  assumes "fst (delete_item cfg env watch paths i s) = None"
  shows "content (snd (snd (snd (delete_item cfg env watch paths i s)))) (paths ! i) = None"
proof -
  obtain d st where s: "s = (d, st)" by (cases s)
  obtain r st' where r: "session_do cfg env watch (delete_action env (paths ! i)) st = (r, st')"
    by (meson surj_pair)
  obtain u where u: "r = Inr u" using assms by (cases r) (auto simp: delete_item_def s r)
  from any.session_do_last [OF _ _ r [unfolded u]]
  obtain c w where "delete_action env (paths ! i) c w = (Inr u, snd st')" by blast
  from delete_action_done [OF this] show ?thesis by (simp add: delete_item_def s r u)
qed

lemma delete_sweep_done:
  assumes "deleteRemoteFiles cfg env watch paths st = ((oks, None), st')" "\<not> DryRun cfg" "p \<in> set paths"
  shows "content (snd st') p = None"
proof -
  obtain d where run: "runBounded (\<lambda>(_, _, w). ctx_err env w) (\<lambda>l n (_, _, w). schedule env l n w)
      (workers cfg (length paths)) (length paths) (delete_item cfg env watch paths)
      (replicate (length paths) False, st) = (None, (d, st'))"
    using assms(1,2) by (auto simp: deleteRemoteFiles_def split: prod.splits)
  have "True \<and> (\<forall>i < length paths. content (snd (snd (d, st'))) (paths ! i) = None)"
  proof (rule runBounded_all_ran [where I = "\<lambda>_. True" and Q = "\<lambda>i s. content (snd (snd s)) (paths ! i) = None",
        OF run])
    fix i j and s :: "bool list \<times> ('c, 'w) state"
    assume j: "j < length paths" and q: "content (snd (snd s)) (paths ! i) = None"
    show "content (snd (snd (snd (delete_item cfg env watch paths j s)))) (paths ! i) = None"
      by (rule gone.delete_item_keeps [OF q j]) simp
  qed (simp_all add: delete_item_done schedules split: prod.split)
  with assms(3) show ?thesis by (auto simp: in_set_conv_nth)
qed

section \<open>An upload phase without error fills its targets\<close>

lemma upload_attempt_done:
  assumes "upload_attempt cfg env watch rq f k m i again st = Finished (Inr n) st'"
  shows "content (snd st') (remotePath f) = Some (data (localPath f))"
proof -
  obtain r w1 where u: "uploadFile cfg env rq f k m (client (conn_at (fst st) i)) (snd st) = (r, w1)"
    by (meson surj_pair)
  have "r = Inr n" "st' = (fst st, w1)"
    using assms by (auto simp: upload_attempt_def u split: sum.splits if_splits prod.splits)
  with uploadFile_published [OF uploads u] show ?thesis by simp
qed

lemma upload_attempts_done:
  "upload_attempts cfg env watch rq f k m i left st = (Inr n, st') \<Longrightarrow>
     content (snd st') (remotePath f) = Some (data (localPath f))"
proof (induction left arbitrary: st)
  case 0
  show ?case
  proof (cases "upload_attempt cfg env watch rq f k m i False st")
    case (Finished r st1)
    with 0 upload_attempt_done show ?thesis by simp
  qed (use 0 in simp)
next
  case (Suc left)
  show ?case
  proof (cases "upload_attempt cfg env watch rq f k m i True st")
    case (Finished r st1)
    with Suc.prems upload_attempt_done show ?thesis by simp
  next
    case (Retry err st1)
    with Suc show ?thesis by (auto split: prod.splits option.splits)
  qed
qed

lemma upload_item_done:
  assumes "fst (upload_item cfg env watch rq False fs k u) = None" "\<not> DryRun cfg"
  shows "content (snd (snd (snd (snd (snd (upload_item cfg env watch rq False fs k u))))))
    (remotePath (fs ! k)) = Some (data (localPath (fs ! k)))"
proof -
  obtain c s n st where u: "u = (c, s, n, st)" by (metis surj_pair)
  let ?m = "case FileMode cfg of Some m \<Rightarrow> m | None \<Rightarrow> fmode (fs ! k) mod 512"
  obtain r st2 where t: "uploadFileWithRetry cfg env watch rq (fs ! k) k ?m st = (r, st2)" by (meson surj_pair)
  obtain b where r: "r = Inr b" using assms by (cases r) (auto simp: upload_item_def u t)
  have "content (snd st2) (remotePath (fs ! k)) = Some (data (localPath (fs ! k)))"
    using t upload_attempts_done unfolding r uploadFileWithRetry_def by (auto split: prod.splits)
  with assms(2) show ?thesis by (simp add: upload_item_def u t r)
qed

lemma steered_item_done:
  assumes "fst (steered_item cfg env watch ch False fs k u) = None" "\<not> DryRun cfg"
  shows "content (snd (snd (snd (snd (snd (steered_item cfg env watch ch False fs k u))))))
    (remotePath (fs ! k)) = Some (data (localPath (fs ! k)))"
  using upload_item_done assms unfolding steered_item_def by blast

lemma run_uploads_done:
  assumes "run_uploads cfg env watch ch False fs st = (None, u)" "\<not> DryRun cfg" "apart fs" "f \<in> set fs"
  shows "content (snd (snd (snd (snd u)))) (remotePath f) = Some (data (localPath f))"
proof -
  let ?Q = "\<lambda>i v. content (snd (snd (snd (snd v)))) (remotePath (fs ! i)) = Some (data (localPath (fs ! i)))"
  have "True \<and> (\<forall>i < length fs. ?Q i u)"
  proof (rule runBounded_all_ran [where I = "\<lambda>_. True" and Q = ?Q, OF assms(1) [unfolded run_uploads_def Let_def]])
    fix i j and v :: "('c, 'w) uploads"
    assume i: "i < length fs" and j: "j < length fs" and q: "?Q i v"
      and ok: "fst (steered_item cfg env watch ch False fs j v) = None"
    show "?Q i (snd (steered_item cfg env watch ch False fs j v))"
    proof (cases "i = j")
      case True
      with steered_item_done [OF ok assms(2)] show ?thesis by simp
    next
      case False
      then have "map remotePath fs ! j \<noteq> map remotePath fs ! i"
        using assms(3) i j nth_eq_iff_index_eq [of "map remotePath fs" j i] by (simp add: apart_def)
      then have "remotePath (fs ! j) \<noteq> remotePath (fs ! i)" "no_temp (remotePath (fs ! i))"
        using assms(3) i j by (simp_all add: apart_def)
      then show ?thesis using q unfolding steered_item_def
        by (intro frame.upload_item_keeps [OF _ j] upload_request_spares) simp_all
    qed
  qed (simp_all add: steered_item_done assms(2) schedules)
  with assms(4) show ?thesis by (auto simp: in_set_conv_nth)
qed

lemma uploadFiles_done:
  assumes "uploadFiles cfg env watch ch fs planned dirs sweepDirs base False (stats, st) =
      ((completed, None), (stats', st'))"
    and "\<not> DryRun cfg" "apart fs" "f \<in> set fs"
  shows "content (snd st') (remotePath f) = Some (data (localPath f))"
proof -
  obtain st1 c k r where "run_uploads cfg env watch ch False fs st1 = (None, (c, k, r, st'))"
    using assms(1) by (auto simp: uploadFiles_def split: prod.splits option.splits if_splits)
  from run_uploads_done [OF this assms(2-4)] show ?thesis by simp
qed

section \<open>The manifest\<close>

lemma renameReplace_done:
  assumes d: "distinct [tmp, final, final @ bakSuffix]" and m: "content w tmp = Some x"
    and run: "renameReplace env c tmp final w = (None, w')"
  shows "content w' final = Some x"
proof -
  obtain pe w1 where p: "PosixRename env c tmp final w = (pe, w1)" by (meson surj_pair)
  show ?thesis
  proof (cases pe)
    case None
    have "content w1 = moved tmp final (content w)"
      using uploads p None unfolding upload_server_def by (metis fst_conv snd_conv)
    with run p None m show ?thesis by (simp add: renameReplace_def moved_def)
  next
    case (Some err)
    with run p have un: "posixRenameUnsupported err (HasPosixRename env c)"
      and via: "renameReplaceViaBackup env c tmp final w1 = (None, w')"
      by (auto simp: renameReplace_def split: if_splits)
    have "content w1 = content w"
      using uploads p Some un unfolding upload_server_def by (metis fst_conv snd_conv)
    with via_backup_kept [OF server d via] m show ?thesis by simp
  qed
qed

lemma writeManifest_done:
  assumes "writeManifest cd env dir name m c w = (Inr u, w')"
  shows "content w' (path_join dir name) = Some (encode cd m)"
proof -
  let ?t = "path_join dir name" and ?tmp = "path_join dir name @ tmpSuffix"
  obtain e1 w1 where r1: "OpenTrunc env c ?tmp w = (e1, w1)" by (meson surj_pair)
  obtain e2 w2 where r2: "WriteAll env c ?tmp (encode cd m) w1 = (e2, w2)" by (meson surj_pair)
  obtain e3 w3 where r3: "CloseFile env c ?tmp w2 = (e3, w3)" by (meson surj_pair)
  obtain e4 w4 where r4: "renameReplace env c ?tmp ?t w3 = (e4, w4)" by (meson surj_pair)
  have ok: "e2 = None" "e4 = None" "w' = w4"
    using assms by (auto simp: writeManifest_def Let_def r1 r2 r3 r4 split: option.splits)
  have "content w3 ?tmp = Some (encode cd m)"
    using write_done [of c ?tmp "encode cd m" w1] attributes_keep(1) [of c ?tmp w2] by (simp add: r2 r3 ok)
  moreover have "distinct [?tmp, ?t, ?t @ bakSuffix]" by (simp add: tmpSuffix_def bakSuffix_def)
  ultimately show ?thesis using renameReplace_done r4 ok by blast
qed

text \<open>What the run reads is the stored manifest or, when it cannot be had, an empty one.\<close>

lemma readManifest_result:
  assumes "readManifest cd env dir name c w = (Inr m, w')"
  shows "m = empty_manifest \<or> (\<exists>d. content w (path_join dir name) = Some d \<and> m = parse_manifest cd dir d)"
proof -
  let ?p = "path_join dir name"
  obtain e w1 where o: "OpenRead env c ?p w = (e, w1)" by (meson surj_pair)
  obtain r w2 where rd: "ReadLimited env c ?p (maxManifestBytes + 1) w1 = (r, w2)" by (meson surj_pair)
  have "content w1 = content w" using openread_keeps [of c ?p w] by (simp add: o)
  with assms read_back [of c ?p "maxManifestBytes + 1" w1] show ?thesis
    by (auto simp: readManifest_def Let_def o rd split: option.splits sum.splits if_splits prod.splits)
qed

end

section \<open>A concrete storage\<close>

text \<open>The in-memory server with removals that do not fail; other requests still follow the script.\<close>

definition steady_env :: "(string \<times> string) list \<Rightarrow> bool \<Rightarrow> (unit, ram) remote" where
  "steady_env sources posix = (ram_env sources posix)\<lparr>Remove := \<lambda>c. ram_remove\<rparr>"

lemma steady_uploads: "upload_server (steady_env sources posix) ram_lookup (\<lambda>p. the (map_of sources p))"
proof -
  have r: "\<forall>p w. ram_lookup (snd (ram_remove p w)) \<in> {ram_lookup w, (ram_lookup w)(p := None)}"
    by (simp add: ram_remove_def ram_lookup_drop)
  show ?thesis
    using ram_upload_server [of sources posix] r
    by (simp add: upload_server_def file_server_def steady_env_def)
qed

interpretation steady: storage "steady_env sources posix" ram_lookup "\<lambda>p. the (map_of sources p)" "\<lambda>d. d"
  for sources posix
proof unfold_locales
  show "valid_schedule l m (schedule (steady_env sources posix) l m w)" for l m w
    using ram_schedule [of l m sources posix w] by (simp add: steady_env_def)
qed (auto simp: steady_uploads, auto simp: steady_env_def ram_env_def ram_remove_def ram_stat_def ram_list_def
    ram_request_def ram_lookup_drop ram_lookup_put only_at_def split: option.splits if_splits list.splits)

end
