(* ===== verification/Plan_Names.thy ===== *)
theory Plan_Names
  imports Confinement
begin

text \<open>
  The names of a plan the walk builds from a directory: every relative name is a chain of entry names
  and occurs once, the manifest is not among them, and the remote path is where \<open>safeJoin\<close> puts the
  name. These are the facts a sync's bookkeeping by name rests on.
\<close>

section \<open>A directory listing\<close>

text \<open>Entries have names, and no two entries of a directory share one.\<close>

fun tree_ok :: "node \<Rightarrow> bool" where
  "tree_ok (Entry _) = True"
| "tree_ok (Dir _ cs) = (distinct (map fst cs) \<and> list_all (\<lambda>(n, t). plain_name n \<and> tree_ok t) cs)"

lemma tree_ok_names: "tree_ok t \<Longrightarrow> names_ok t"
proof (induction t rule: names_ok.induct)
  case (2 r cs)
  then show ?case by (fastforce simp: list_all_iff)
qed simp

lemma walk_name_inject:
  assumes "list_all plain_name ms" "list_all plain_name ns" "walk_name ms = walk_name ns"
  shows "ms = ns"
proof -
  have r: "walk_name xs = render_path False xs" if "list_all plain_name xs" for xs
    by (simp add: walk_name_def render_path_def)
  show ?thesis
    using assms render_path_inject [of False ms False ns] all_plain_normal by (simp add: r)
qed

text \<open>The files below \<open>ns\<close>, and below one of the entries \<open>names\<close> of \<open>ns\<close>.\<close>

definition under :: "string list \<Rightarrow> fileItem \<Rightarrow> bool" where
  "under ns f \<longleftrightarrow> (\<exists>ms. list_all plain_name (ns @ ms) \<and> rel f = walk_name (ns @ ms))"

lemma under_parent: "under (ns @ [n]) f \<Longrightarrow> under ns f"
  unfolding under_def by (metis append.assoc)

lemma under_apart:
  assumes "under (ns @ [n]) f" "under (ns @ [n']) g" "n \<noteq> n'"
  shows "rel f \<noteq> rel g"
proof -
  obtain ms ms' where m: "list_all plain_name ((ns @ [n]) @ ms)" "rel f = walk_name ((ns @ [n]) @ ms)"
    "list_all plain_name ((ns @ [n']) @ ms')" "rel g = walk_name ((ns @ [n']) @ ms')"
    using assms(1,2) unfolding under_def by blast
  show ?thesis using walk_name_inject [OF m(1,3)] m(2,4) assms(3) by auto
qed

definition fresh :: "string \<Rightarrow> fileItem list \<Rightarrow> bool" where
  "fresh manifest new \<longleftrightarrow> distinct (map rel new) \<and> manifest \<notin> rel ` set new"

lemma walk_fresh:
  "walk_node opts base walkRoot relp n acc = Inr acc' \<Longrightarrow> tree_ok n \<Longrightarrow> relp = walk_name ns \<Longrightarrow>
     list_all plain_name ns \<Longrightarrow>
     \<exists>new. fst acc' = fst acc @ new \<and> fresh (manifestName opts) new \<and> (\<forall>f \<in> set new. under ns f)"
  "walk_children opts base walkRoot relp cs acc = Inr acc' \<Longrightarrow>
     distinct (map fst cs) \<Longrightarrow> list_all (\<lambda>(n, t). plain_name n \<and> tree_ok t) cs \<Longrightarrow> relp = walk_name ns \<Longrightarrow>
     list_all plain_name ns \<Longrightarrow>
     \<exists>new. fst acc' = fst acc @ new \<and> fresh (manifestName opts) new \<and>
       (\<forall>f \<in> set new. \<exists>n \<in> fst ` set cs. under (ns @ [n]) f)"
proof (induction opts base walkRoot relp n acc and opts base walkRoot relp cs acc arbitrary: acc' ns and acc' ns
    rule: walk_node_walk_children.induct)
  case (1 opts base walkRoot relp rerr children acc)
  show ?case
  proof (cases "pruneDirs opts \<and> relp \<noteq> ''.'' \<and> fst (matchesHow (matcher opts) relp True)")
    case True
    with 1(2) show ?thesis by (simp add: fresh_def)
  next
    case False
    with 1(2) have r: "rerr = None" "walk_children opts base walkRoot relp children acc = Inr acc'"
      by (auto split: option.splits)
    have "distinct (map fst children)" "list_all (\<lambda>(n, t). plain_name n \<and> tree_ok t) children"
      using 1(3) by auto
    from 1(1) [OF False r this 1(4,5)] under_parent show ?thesis by blast
  qed
next
  case (2 opts base walkRoot relp info acc)
  have "under ns f" if "rel f = relp" for f
    using that 2(3,4) unfolding under_def by (intro exI [of _ "[]"]) simp
  with 2(1) show ?case by (auto simp: fresh_def split: if_splits sum.splits)
next
  case (3 opts base walkRoot relp acc)
  then show ?case by (simp add: fresh_def)
next
  case (4 opts base walkRoot relp name n rest acc)
  obtain acc1 where n: "walk_node opts base walkRoot (child_rel relp name) n acc = Inr acc1"
    and rest: "walk_children opts base walkRoot relp rest acc1 = Inr acc'"
    using 4(3) by (auto split: sum.splits)
  have nm: "plain_name name" "tree_ok n" "distinct (map fst rest)" "name \<notin> fst ` set rest"
    "list_all (\<lambda>(n, t). plain_name n \<and> tree_ok t) rest"
    using 4(4,5) by auto
  have c: "child_rel relp name = walk_name (ns @ [name])" using walk_child [OF 4(7)] 4(6) by simp
  have pl: "list_all plain_name (ns @ [name])" using 4(7) nm(1) by simp
  obtain new1 where n1: "fst acc1 = fst acc @ new1" "fresh (manifestName opts) new1"
    "\<forall>f \<in> set new1. under (ns @ [name]) f"
    using 4(1) [OF n nm(2) c pl] by blast
  obtain new2 where n2: "fst acc' = fst acc1 @ new2" "fresh (manifestName opts) new2"
    "\<forall>f \<in> set new2. \<exists>n \<in> fst ` set rest. under (ns @ [n]) f"
    using 4(2) [OF n rest nm(3,5) 4(6,7)] by blast
  have "rel f \<noteq> rel g" if f: "f \<in> set new1" and g: "g \<in> set new2" for f g
  proof -
    obtain n' where n': "n' \<in> fst ` set rest" "under (ns @ [n']) g" using n2(3) g by blast
    moreover have "name \<noteq> n'" using n'(1) nm(4) by auto
    ultimately show ?thesis using under_apart n1(3) f by blast
  qed
  then have "fresh (manifestName opts) (new1 @ new2)"
    using n1(2) n2(2) by (auto simp: fresh_def)
  moreover have "\<forall>f \<in> set (new1 @ new2). \<exists>n \<in> fst ` set ((name, n) # rest). under (ns @ [n]) f"
    using n1(3) n2(3) by auto
  ultimately show ?case using n1(1) n2(1) by (intro exI [of _ "new1 @ new2"]) simp
qed

lemma buildPlan_fresh:
  assumes "buildPlan q st opts (RootTree rerr cs) walkRoot = Inr p" "tree_ok (Dir rerr cs)"
  shows "fresh (manifestName opts) (plan_files p)"
proof -
  obtain fs k where w: "walk_node opts (NormalizeRemote (Remote q)) walkRoot ''.'' (Dir rerr cs) ([], 0) = Inr (fs, k)"
    and p: "plan_files p = fs"
    using assms(1) by (auto simp: buildPlan_def Let_def simp del: walk_node.simps split: sum.splits)
  from walk_fresh(1) [OF w assms(2), of "[]"] p show ?thesis by (auto simp: walk_name_def)
qed

section \<open>Where a planned name is joined\<close>

lemma plain_joined:
  assumes "ns \<noteq> []" "list_all plain_name ns" "path_clean base \<noteq> ''.''" "base \<noteq> []"
  shows "proper_key (join_with (CHR ''/'') ns)"
    "safeJoin base (join_with (CHR ''/'') ns) = Inr (path_join base (join_with (CHR ''/'') ns))"
proof -
  let ?k = "join_with (CHR ''/'') ns"
  have n: "normal_elems False ns" by (rule all_plain_normal [OF assms(2)])
  have r: "?k = render_path False ns" using assms(1) by (simp add: render_path_def)
  have e: "path_elems ?k = ns" "\<not> is_rooted ?k" "path_clean ?k = ?k"
    using path_elems_render [OF n] is_rooted_render [OF n] path_clean_render [OF n] by (simp_all add: r)
  show "proper_key ?k"
    using e(2,3) path_stop_render [OF n] assms(1) r by (simp add: proper_key_def)
  have "hd ns \<noteq> ''..''" using assms(1,2) by (cases ns) auto
  then have "names_below ?k" using e assms(1) by (simp add: names_below_def)
  then obtain full where "safeJoin base ?k = Inr full" using safeJoin_cases(1) [OF assms(3,4)] by blast
  with safeJoin_cases(2) [OF assms(3,4) this] e(3) show "safeJoin base ?k = Inr (path_join base ?k)" by simp
qed

lemma planned_joined:
  assumes "planned_below base f" "path_clean base \<noteq> ''.''" "base \<noteq> []"
  shows "proper_key (rel f)" "safeJoin base (rel f) = Inr (remotePath f)"
  using assms plain_joined [OF _ _ assms(2,3)] by (auto simp: planned_below_def)

text \<open>Proper keys that join to the same path are the same key.\<close>

lemma proper_join_inject:
  assumes "proper_key k" "proper_key k'" "safeJoin base k = Inr full" "safeJoin base k' = Inr full"
    and "path_clean base \<noteq> ''.''" "base \<noteq> []"
  shows "k = k'"
proof -
  have "path_elems k = path_elems k'"
    using safeJoin_Inr_elems(1) [OF assms(5,6,3)] safeJoin_Inr_elems(1) [OF assms(5,6,4)] by simp
  moreover have "k = render_path False (path_elems k)" "k' = render_path False (path_elems k')"
    using assms(1,2) rel_clean [of k] rel_clean [of k'] by (simp_all add: proper_key_def)
  ultimately show ?thesis by simp
qed

end
