(* ===== verification/Mirror.thy ===== *)
theory Mirror
  imports Storage Plan_Names
begin

text \<open>
  A whole sync, end to end. On a server that keeps its promises (\<open>storage\<close>), a sync that reports no
  error turns the tree of the server into the tree the plan describes: every planned target holds
  its local content, every recorded file that left the plan is gone, and no other file changed. The
  abstract specification is \<open>mirror\<close>, a function on trees of content hashes; \<open>sync_mirrors\<close> says the
  step by step code refines it, and \<open>sync_stays_in_step\<close> that the manifest it leaves describes the
  server again, so that the next sync starts from the truth.
\<close>

section \<open>The specification\<close>

text \<open>The tree of a server, as the content hash found at each path.\<close>

definition tree :: "(string \<Rightarrow> string) \<Rightarrow> (string \<Rightarrow> string option) \<Rightarrow> string \<Rightarrow> string option" where
  "tree digest m q = map_option digest (m q)"

definition mirror ::
    "(string \<Rightarrow> string) \<Rightarrow> string list \<Rightarrow> fileItem list \<Rightarrow> (string \<Rightarrow> string option) \<Rightarrow> string \<Rightarrow> string option" where
  "mirror hashed stale fs t q =
     (case List.find (\<lambda>f. remotePath f = q) fs of
        Some f \<Rightarrow> Some (hashed (localPath f))
      | None \<Rightarrow> if q \<in> set stale then None else t q)"

text \<open>A manifest that tells the truth: each entry is a plain name whose file has the recorded hash.\<close>

definition truthful ::
    "(string \<Rightarrow> string) \<Rightarrow> string \<Rightarrow> string \<Rightarrow> (string \<Rightarrow> string option) \<Rightarrow> manifest \<Rightarrow> bool" where
  "truthful digest base manifest m mf \<longleftrightarrow>
     (\<forall>(k, e) \<in> set (Files mf). proper_key k \<and>
        (case safeJoin base k of
           Inl _ \<Rightarrow> False
         | Inr full \<Rightarrow> full \<noteq> manifest \<and> no_temp full \<and> tree digest m full = Some (Hash e)))"

text \<open>The server is in step with the manifest it stores, if it stores one.\<close>

definition in_step ::
    "codec \<Rightarrow> (string \<Rightarrow> string) \<Rightarrow> string \<Rightarrow> string \<Rightarrow> (string \<Rightarrow> string option) \<Rightarrow> bool" where
  "in_step cd digest base manifest m \<longleftrightarrow>
     (case m manifest of None \<Rightarrow> True | Some d \<Rightarrow> truthful digest base manifest m (parse_manifest cd base d))"

definition manifest_path :: "config \<Rightarrow> string \<Rightarrow> string" where
  "manifest_path cfg base = path_join base (syncManifestName cfg)"

section \<open>The quiet parts of a sync\<close>

context guarded_env
begin

lemma clearCollideParents_quiet:
  assumes "P (snd st)" "\<And>p. allowed (RmdirReq p)"
    and "clearCollideParents cfg env watch base colliding fs b st = (r, b', st')"
  shows "P (snd st')"
proof -
  have "P (snd (snd (snd (clear_dirs cfg env watch base dirs 0 b st))))" for dirs
    by (rule clear_dirs_keeps [OF assms(2,1)])
  with assms(1) have "P (snd (snd (snd (clearCollideParents cfg env watch base colliding fs b st))))"
    by (simp add: clearCollideParents_def Let_def)
  with assms(3) show ?thesis by simp
qed

lemma pruneEmptyDirs_quiet:
  assumes "P (snd st)" "\<And>p. allowed (RmdirReq p)"
    and "pruneEmptyDirs cfg env watch base deleted b st = (n, b', st')"
  shows "P (snd st')"
proof -
  have "P (snd (snd (snd (removeRemoteDirs cfg env watch (prune_candidates base deleted) (Some b) st))))"
    by (rule rmdirs_keep [OF assms(1,2)])
  with assms(3) show ?thesis by (auto simp: pruneEmptyDirs_def split: prod.splits)
qed

text \<open>A path that is no target of the upload and carries no temporary name is left alone.\<close>

lemma writeManifest_apart:
  assumes P: "P w" and ok: "\<And>r. spares q r \<Longrightarrow> allowed r" and q: "no_temp q" "path_join base name \<noteq> q"
  shows "P (snd (writeManifest cd env base name m c w))"
proof -
  let ?t = "path_join base name" and ?tmp = "path_join base name @ tmpSuffix"
  have n: "?tmp \<noteq> q" "?t @ bakSuffix \<noteq> q" using q(1) temp_names_marked(2,3) [of ?t] by auto
  obtain e1 w1 where r1: "OpenTrunc env c ?tmp w = (e1, w1)" by (meson surj_pair)
  have w1: "P w1" using guard_trunc [OF P ok, of ?tmp c] n by (simp add: r1)
  obtain e2 w2 where r2: "WriteAll env c ?tmp (encode cd m) w1 = (e2, w2)" by (meson surj_pair)
  have w2: "P w2" using guard_write [OF w1 ok, of ?tmp c "encode cd m"] n by (simp add: r2)
  obtain e3 w3 where r3: "CloseFile env c ?tmp w2 = (e3, w3)" by (meson surj_pair)
  have w3: "P w3" using keep_closefile [OF w2, of c ?tmp] by (simp add: r3)
  obtain e4 w4 where r4: "renameReplace env c ?tmp ?t w3 = (e4, w4)" by (meson surj_pair)
  have "P (snd (renameReplace env c ?tmp ?t w3))"
    by (rule renameReplace_keeps [OF w3]; rule ok) (simp_all add: n q(2))
  then have "P w4" by (simp add: r4)
  with w1 w3 show ?thesis
    by (simp add: writeManifest_def Let_def r1 r2 r3 r4 split: option.split)
qed

lemma uploadFiles_apart:
  assumes P: "P (snd st)" and ok: "\<And>r. spares q r \<Longrightarrow> allowed r"
    and q: "no_temp q" "q \<notin> remotePath ` set fs"
    and base: "path_clean base = base" "base \<noteq> ''.''" "base \<noteq> []"
    and planned: "\<forall>f \<in> set planned. inside base (remotePath f)" "sweepDirs = dirsForFiles planned"
    and run: "uploadFiles cfg env watch ch fs planned dirs sweepDirs base su (stats, st) = (r, (stats', st'))"
  shows "P (snd st')"
proof -
  have keep: "base \<notin> set (map remotePath planned)"
    using planned(1) below_not_self by (auto simp: inside_def)
  have "P (snd (snd (snd (uploadFiles cfg env watch ch fs planned dirs sweepDirs base su (stats, st)))))"
  proof (rule uploadFiles_keeps)
    fix k r assume k: "k < length fs" "upload_request (fs ! k) k r"
    have "remotePath (fs ! k) \<noteq> q" using q(2) nth_mem [OF k(1)] by auto
    then show "allowed r" using ok upload_request_spares [OF k(2) q(1)] by blast
  next
    fix dir name full
    assume dir: "dir \<in> set (sweep_dirs base sweepDirs (map remotePath planned))"
      and name: "isTempFileName name" "safeChild dir name = Inr full"
    have in_chain: "\<exists>p. inside base p \<and> d \<in> set (up_chain (path_dir p))" if "d \<in> set sweepDirs" for d
      using plan_dirs_chain [of d planned base] that planned by simp
    have "dir = base \<or> inside base dir" by (rule swept_dir_inside [OF base(1) keep dir in_chain])
    then have "path_clean dir \<noteq> ''.''" "dir \<noteq> []"
      using base below_not_dot [of base dir] by (auto simp: inside_def)
    from swept_name [OF name(2,1) this] q(1) have "full \<noteq> q" by auto
    then show "allowed (RemoveReq full)" by (intro ok) simp
  qed (use P in simp)
  with run show ?thesis by simp
qed

text \<open>The end of a sync: pruning the emptied directories and writing the manifest.\<close>

lemma prune_and_record_apart:
  assumes P: "P (snd st)" and ok: "\<And>r. spares q r \<Longrightarrow> allowed r"
    and q: "no_temp q" "manifest_path cfg base \<noteq> q"
    and prune: "pruneEmptyDirs cfg env watch base deleted b st = (n, b1, st1)"
    and rec: "session_do cfg env watch (writeManifest cd env base (syncManifestName cfg) m) st1 = (x, st')"
  shows "P (snd st')"
proof -
  have st1: "P (snd st1)" by (rule pruneEmptyDirs_quiet [OF P _ prune]) (rule ok, simp)
  show ?thesis
    by (rule session_do_keeps [OF st1 _ rec])
      (rule writeManifest_apart [OF _ ok q(1) q(2) [unfolded manifest_path_def]])
qed

end

lemma truthful_empty: "truthful digest base mp m empty_manifest"
  by (simp add: truthful_def empty_manifest_def)

section \<open>The stages of a sync without error\<close>

lemma sync_collide_ok:
  assumes "sync_collide pr cfg env watch base old up colliding fs (stats, b, st) = ((None, pre), (stats', b', st'))"
  obtains "colliding = []" "st' = st"
  | oks st1 n where "deleteRemoteFiles cfg env watch (joined base colliding) st = ((oks, None), st1)"
      "clearCollideParents cfg env watch base colliding fs b st1 = ((n, None), b', st')"
  using assms
  by (auto simp: sync_collide_def Let_def split: if_splits prod.splits option.splits)

lemma sync_finish_ok:
  assumes "sync_finish pr cfg env watch base old fs up completed pre rest (stats, b, st) = (None, (stats', b', st'))"
    and "\<not> DryRun cfg"
  obtains oks st1 n b1 st2 u where
    "deleteRemoteFiles cfg env watch (joined base rest) st = ((oks, None), st1)"
    "pruneEmptyDirs cfg env watch base (joined base (picked oks rest)) b st1 = (n, b1, st2)"
    "session_do cfg env watch (writeManifest (pr_codec pr) env base (syncManifestName cfg)
       \<lparr>Version = manifestVersion, Files = local_manifest fs\<rparr>) st2 = (Inr u, st')"
  using assms
  by (auto simp: sync_finish_def Let_def split: prod.splits option.splits sum.splits)

lemma executeSync_ok:
  assumes "executeSync pr cfg env watch p (stats, b, st) = (None, (stats', b', st'))"
    and "session_do cfg env watch (readManifest (pr_codec pr) env base (syncManifestName cfg)) st = (Inr old, st1)"
    and "base = NormalizeRemote (Remote (pair p))" "colliding = fst (collidingDeletes (pr_fold pr) (stale_entries old base fs) fs)"
    and "rest = snd (collidingDeletes (pr_fold pr) (stale_entries old base fs) fs)"
    and hash: "hashPlanFiles (\<lambda>q. hash_local env q (snd st1)) (ctx_err env (snd st1))
      (schedule env (max (pr_cpus pr) 1) (length (plan_files p)) (snd st1)) (plan_files p)
      (if SyncFastPath cfg then map_of (Files old) else (\<lambda>_. None)) = (err, fs)"
  obtains b1 pre s2 b2 st2 ch dirs completed s3 st3 where
    "err = None"
    "sync_collide pr cfg env watch base old (changed_files old fs) colliding fs (stats, b1, st1)
       = ((None, pre), (s2, b2, st2))"
    "uploadFiles cfg env watch ch (changed_files old fs) fs dirs (remoteDirs p) base False (s2, st2)
       = ((completed, None), (s3, st3))"
    "sync_finish pr cfg env watch base old fs (changed_files old fs) completed pre rest (s3, b2, st3)
       = (None, (stats', b', st'))"
proof -
  have err: "err = None"
    using assms(1) unfolding executeSync_def Let_def prod.case assms(3) [symmetric] assms(2) sum.case hash
    by (cases err) auto
  have app: "sync_apply pr cfg env watch p old fs (stats, b, st1) = (None, (stats', b', st'))"
    using assms(1) unfolding executeSync_def Let_def prod.case assms(3) [symmetric] assms(2) sum.case hash err
    by simp
  obtain e pg1 where a: "sync_admit p (stale_entries old base fs) (stats, b, st1) = (e, pg1)" by (meson surj_pair)
  have e: "e = None" using app by (cases e) (auto simp: sync_apply_def Let_def assms(3) [symmetric] a)
  obtain b1 where pg1: "pg1 = (stats, b1, st1)"
    using a e by (auto simp: sync_admit_def split: if_splits option.splits prod.splits)
  have tr: "sync_transfer pr cfg env watch p base old fs (colliding, rest) (stats, b1, st1) = (None, (stats', b', st'))"
    using app by (simp add: sync_apply_def Let_def assms(3) [symmetric] a e pg1 assms(4,5))
  obtain x pre s2 b2 st2 where c: "sync_collide pr cfg env watch base old (changed_files old fs) colliding fs
      (stats, b1, st1) = ((x, pre), (s2, b2, st2))" by (metis surj_pair)
  have x: "x = None" using tr by (cases x) (auto simp: sync_transfer_def Let_def c)
  let ?dirs = "if DirMode cfg = None then dirsForFiles (changed_files old fs) else remoteDirs p"
  let ?ch = "pr_policy pr (changed_files old fs) False"
  obtain completed y s3 st3 where u: "uploadFiles cfg env watch ?ch (changed_files old fs) fs ?dirs
      (remoteDirs p) base False (s2, st2) = ((completed, y), (s3, st3))" by (metis surj_pair)
  have fin: "y = None \<and> sync_finish pr cfg env watch base old fs (changed_files old fs) completed pre rest (s3, b2, st3)
       = (None, (stats', b', st'))"
    using tr unfolding sync_transfer_def Let_def fst_conv snd_conv c x prod.case option.case u
    by (cases y) simp_all
  show ?thesis by (rule that [OF err c [unfolded x] u [unfolded fin [THEN conjunct1]] fin [THEN conjunct2]])
qed

context guarded_env
begin

lemma sync_collide_apart:
  assumes P: "P (snd st)" and ok: "\<And>p. p \<in> set (joined base colliding) \<Longrightarrow> allowed (RemoveReq p)"
    "\<And>p. allowed (RmdirReq p)"
    and run: "sync_collide pr cfg env watch base old up colliding fs (stats, b, st) = ((None, pre), (stats', b', st'))"
  shows "P (snd st')"
  using run
proof (cases rule: sync_collide_ok)
  case (2 oks st1 n)
  have "P (snd (snd (deleteRemoteFiles cfg env watch (joined base colliding) st)))"
    by (rule deletes_keep [OF P ok(1)])
  then have "P (snd st1)" by (simp add: 2)
  then show ?thesis by (rule clearCollideParents_quiet [OF _ ok(2) 2(2)])
qed (use P in simp)

lemma sync_finish_apart:
  assumes P: "P (snd st)" and ok: "\<And>r. spares q r \<Longrightarrow> allowed r"
    "\<And>p. p \<in> set (joined base rest) \<Longrightarrow> allowed (RemoveReq p)"
    and q: "no_temp q" "manifest_path cfg base \<noteq> q"
    and run: "sync_finish pr cfg env watch base old fs up completed pre rest (stats, b, st) = (None, (stats', b', st'))"
    and dry: "\<not> DryRun cfg"
  shows "P (snd st')"
  using run dry
proof (cases rule: sync_finish_ok)
  case (1 oks st1 n b1 st2 u)
  have "P (snd (snd (deleteRemoteFiles cfg env watch (joined base rest) st)))"
    by (rule deletes_keep [OF P ok(2)])
  then have "P (snd st1)" by (simp add: 1)
  then show ?thesis by (rule prune_and_record_apart [OF _ ok(1) q 1(2,3)])
qed

end

section \<open>The names of a plan and of its manifest\<close>

text \<open>A plan whose names the bookkeeping can tell apart: as built by the walk, none a temporary name.\<close>

definition syncable :: "config \<Rightarrow> string \<Rightarrow> fileItem list \<Rightarrow> bool" where
  "syncable cfg base fs \<longleftrightarrow> deployable cfg base \<and> base \<noteq> ''.'' \<and> no_temp (manifest_path cfg base) \<and>
     fresh (syncManifestName cfg) fs \<and> (\<forall>f \<in> set fs. planned_below base f \<and> no_temp (remotePath f))"

lemma syncable_base:
  "syncable cfg base fs \<Longrightarrow> path_clean base = base \<and> base \<noteq> ''.'' \<and> base \<noteq> [] \<and> path_clean base \<noteq> ''.''"
  by (auto simp: syncable_def deployable_def)

lemma syncable_joined:
  assumes "syncable cfg base fs" "f \<in> set fs"
  shows "proper_key (rel f)" "safeJoin base (rel f) = Inr (remotePath f)" "no_temp (remotePath f)"
  using assms planned_joined [of base f] syncable_base [OF assms(1)] by (auto simp: syncable_def)

lemma syncable_manifest:
  assumes "syncable cfg base fs"
  shows "proper_key (syncManifestName cfg)" "safeJoin base (syncManifestName cfg) = Inr (manifest_path cfg base)"
  using plain_joined [of "[syncManifestName cfg]" base] syncable_base [OF assms] assms
  by (auto simp: syncable_def deployable_def manifest_path_def)

lemma syncable_apart:
  assumes "syncable cfg base fs"
  shows "apart fs" "manifest_path cfg base \<notin> remotePath ` set fs"
proof -
  note b = syncable_base [OF assms]
  have inj: "rel f = k" if "f \<in> set fs" "proper_key k" "safeJoin base k = Inr (remotePath f)" for f k
    using proper_join_inject [of "rel f" k base] syncable_joined [OF assms that(1)] that(2,3) b by blast
  have "inj_on remotePath (set fs)"
  proof (rule inj_onI)
    fix f g assume fg: "f \<in> set fs" "g \<in> set fs" "remotePath f = remotePath g"
    have "rel f = rel g" using inj [OF fg(1)] syncable_joined [OF assms fg(2)] fg(3) by simp
    moreover have "inj_on rel (set fs)" using assms by (simp add: syncable_def fresh_def distinct_map)
    ultimately show "f = g" using fg(1,2) by (auto dest: inj_onD)
  qed
  moreover have "distinct fs" using assms by (auto simp: syncable_def fresh_def distinct_map)
  ultimately show "apart fs" using syncable_joined(3) [OF assms] by (simp add: apart_def distinct_map)
  show "manifest_path cfg base \<notin> remotePath ` set fs"
  proof
    assume "manifest_path cfg base \<in> remotePath ` set fs"
    then obtain f where f: "f \<in> set fs" "manifest_path cfg base = remotePath f" by auto
    from inj [OF f(1)] syncable_manifest [OF assms] f have "rel f = syncManifestName cfg" by simp
    moreover have "syncManifestName cfg \<notin> rel ` set fs" using assms by (simp add: syncable_def fresh_def)
    ultimately show False using f(1) by (metis imageI)
  qed
qed

lemma apart_find:
  assumes "apart fs" "f \<in> set fs"
  shows "List.find (\<lambda>g. remotePath g = remotePath f) fs = Some f"
proof (cases "List.find (\<lambda>g. remotePath g = remotePath f) fs")
  case None
  with assms(2) show ?thesis by (simp add: find_None_iff) blast
next
  case (Some g)
  have "inj_on remotePath (set fs)" using assms(1) by (simp add: apart_def distinct_map)
  with find_Some_mem [OF Some] assms(2) Some show ?thesis by (metis inj_onD)
qed

text \<open>Stale entries of a truthful manifest name no planned target.\<close>

lemma stale_no_target:
  assumes s: "syncable cfg base fs" and t: "truthful digest base mp m old" and f: "f \<in> set fs"
  shows "remotePath f \<notin> set (joined base (stale_entries old base fs))"
proof
  assume "remotePath f \<in> set (joined base (stale_entries old base fs))"
  then obtain k where k: "k \<in> set (stale_entries old base fs)"
    "remotePath f = (case safeJoin base k of Inl _ \<Rightarrow> [] | Inr p \<Rightarrow> p)"
    by (auto simp: joined_def)
  then obtain e where e: "(k, e) \<in> set (Files old)" "k \<notin> rel ` set fs" by (auto simp: stale_entries_def)
  with t k(2) have "proper_key k" "safeJoin base k = Inr (remotePath f)"
    by (auto simp: truthful_def split: sum.splits)
  then have "k = rel f"
    using proper_join_inject [of k "rel f" base] syncable_joined [OF s f] syncable_base [OF s] by blast
  with e(2) f show False by simp
qed

text \<open>Hashing changes no name.\<close>

definition with_hash :: "(string \<Rightarrow> string) \<Rightarrow> fileItem \<Rightarrow> fileItem" where
  "with_hash h f = f\<lparr>hash := h (localPath f)\<rparr>"

lemma with_hash_simps [simp]:
  "rel (with_hash h f) = rel f" "remotePath (with_hash h f) = remotePath f"
  "localPath (with_hash h f) = localPath f" "hash (with_hash h f) = h (localPath f)"
  by (simp_all add: with_hash_def)

lemma syncable_hashed: "syncable cfg base fs \<Longrightarrow> syncable cfg base (map (with_hash h) fs)"
  by (auto simp: syncable_def fresh_def planned_below_def comp_def)

lemma stale_hashed: "stale_entries old base (map (with_hash h) fs) = stale_entries old base fs"
  by (simp add: stale_entries_def image_image)

lemma local_manifest_entries: "set (local_manifest fs) \<subseteq> (\<lambda>f. (rel f, entry_of f)) ` set fs"
proof -
  have "set (fold (\<lambda>f m. m_put (rel f) (entry_of f) m) fs m) \<subseteq> set m \<union> (\<lambda>f. (rel f, entry_of f)) ` set fs" for m
    by (induction fs arbitrary: m) (fastforce simp: m_put_def)+
  from this [of "[]"] show ?thesis by (simp add: local_manifest_def)
qed

section \<open>What the stages leave\<close>

context storage
begin

text \<open>The stages of a sync without error, from the manifest read to the manifest written.\<close>

lemma stages_result:
  assumes base: "path_clean base = base" "base \<noteq> ''.''" "base \<noteq> []" and dry: "\<not> DryRun cfg"
    and fs: "\<forall>f \<in> set fs. inside base (remotePath f)" "sweepDirs = dirsForFiles fs"
    and up: "apart up"
    and c: "sync_collide pr cfg env watch base old up colliding fs (stats, b, st) = ((None, pre), (s2, b2, st2))"
    and u: "uploadFiles cfg env watch ch up fs dirs sweepDirs base False (s2, st2) = ((completed, None), (s3, st3))"
    and f: "sync_finish pr cfg env watch base old fs up completed pre rest (s3, b2, st3) = (None, (stats', b', st'))"
  shows untouched: "no_temp q \<Longrightarrow> manifest_path cfg base \<noteq> q \<Longrightarrow> q \<notin> remotePath ` set up \<Longrightarrow>
      q \<notin> set (joined base (colliding @ rest)) \<Longrightarrow> content (snd st') q = content (snd st) q"
    and uploaded: "g \<in> set up \<Longrightarrow> manifest_path cfg base \<noteq> remotePath g \<Longrightarrow>
      remotePath g \<notin> set (joined base rest) \<Longrightarrow> content (snd st') (remotePath g) = Some (data (localPath g))"
    and removed: "no_temp q \<Longrightarrow> manifest_path cfg base \<noteq> q \<Longrightarrow> q \<notin> remotePath ` set up \<Longrightarrow>
      q \<in> set (joined base (colliding @ rest)) \<Longrightarrow> content (snd st') q = None"
proof -
  show "content (snd st') q = content (snd st) q"
    if q: "no_temp q" "manifest_path cfg base \<noteq> q" "q \<notin> remotePath ` set up" "q \<notin> set (joined base (colliding @ rest))"
  proof -
    have j: "q \<notin> set (joined base colliding)" "q \<notin> set (joined base rest)"
      using q(4) by (auto simp: joined_def)
    have "content (snd st2) q = content (snd st) q"
      by (rule frame.sync_collide_apart [OF refl _ _ c]) (use j in auto)
    then have "content (snd st3) q = content (snd st) q"
      by (rule frame.uploadFiles_apart [OF _ _ q(1,3) base fs u])
    then show ?thesis
      by (rule frame.sync_finish_apart [OF _ _ _ q(1,2) f dry]) (use j in auto)
  qed
  show "content (snd st') (remotePath g) = Some (data (localPath g))"
    if g: "g \<in> set up" "manifest_path cfg base \<noteq> remotePath g" "remotePath g \<notin> set (joined base rest)"
  proof -
    have "no_temp (remotePath g)" using up g(1) by (simp add: apart_def)
    then show ?thesis
      by (intro frame.sync_finish_apart [OF uploadFiles_done [OF u dry up g(1)] _ _ _ g(2) f dry]) (use g(3) in auto)
  qed
  show "content (snd st') q = None"
    if q: "no_temp q" "manifest_path cfg base \<noteq> q" "q \<notin> remotePath ` set up" "q \<in> set (joined base (colliding @ rest))"
  proof (cases "q \<in> set (joined base colliding)")
    case True
    have st2: "content (snd st2) q = None"
      using c
    proof (cases rule: sync_collide_ok)
      case 1
      with True show ?thesis by (simp add: joined_def)
    next
      case (2 oks st1 n)
      show ?thesis
        by (rule gone.clearCollideParents_quiet [OF delete_sweep_done [OF 2(1) dry True] _ 2(2)]) simp
    qed
    have "content (snd st3) q = None"
      by (rule gone.uploadFiles_apart [OF st2 spares_no_revival q(1,3) base fs u])
    then show ?thesis
      by (rule gone.sync_finish_apart [OF _ spares_no_revival _ q(1,2) f dry]) simp_all
  next
    case False
    with q(4) have r: "q \<in> set (joined base rest)" by (auto simp: joined_def)
    from f dry show ?thesis
    proof (cases rule: sync_finish_ok)
      case (1 oks st4 n b1 st5 v)
      show ?thesis
        by (rule gone.prune_and_record_apart [OF delete_sweep_done [OF 1(1) dry r] spares_no_revival q(1,2) 1(2,3)])
    qed
  qed
qed

lemma hashed_plan:
  assumes "hashPlanFiles (\<lambda>q. hash_local env q w) ctx (schedule env l (length fs) w) fs (\<lambda>_. None) = (None, fs')"
  shows "fs' = map (with_hash (\<lambda>l. digest (data l))) fs"
proof (rule nth_equalityI)
  note h = hashPlanFiles_hashes [OF assms schedules]
  show "length fs' = length (map (with_hash (\<lambda>l. digest (data l))) fs)" using h by simp
  fix i assume "i < length fs'"
  with h obtain x where "fs' ! i = (fs ! i)\<lparr>hash := x\<rparr>" "hash_local env (localPath (fs ! i)) w = Inr x" "i < length fs"
    by (auto simp: hash_of_def)
  then show "fs' ! i = map (with_hash (\<lambda>l. digest (data l))) fs ! i"
    using hashes by (simp add: with_hash_def)
qed

lemma joined_colliding:
  "set (joined base (fst (collidingDeletes fold_seg del fs) @ snd (collidingDeletes fold_seg del fs))) =
   set (joined base del)"
  by (auto simp: joined_def collidingDeletes_def)

text \<open>One planned file: uploaded because its hash changed, or recorded with the hash it has.\<close>

lemma kept_file:
  assumes t: "truthful digest base mp m old" and f: "f \<in> set fs" "f \<notin> set (changed_files old fs)"
    and j: "safeJoin base (rel f) = Inr (remotePath f)"
  shows "tree digest m (remotePath f) = Some (hash f)"
proof -
  obtain e where e: "map_of (Files old) (rel f) = Some e" "Hash e = hash f"
    using f by (auto simp: changed_files_def split: option.splits)
  with t j show ?thesis by (auto simp: truthful_def dest!: map_of_SomeD)
qed

lemma changed_subset: "set (changed_files old fs) \<subseteq> set fs"
  by (auto simp: changed_files_def)

lemma apart_changed: "apart fs \<Longrightarrow> apart (changed_files old fs)"
  by (auto simp: apart_def changed_files_def distinct_map_filter)

lemma apart_target:
  assumes "apart fs" "f \<in> set fs" "f \<notin> set up" "set up \<subseteq> set fs"
  shows "remotePath f \<notin> remotePath ` set up"
proof
  assume "remotePath f \<in> remotePath ` set up"
  then obtain h where h: "h \<in> set up" "remotePath h = remotePath f" by force
  have "inj_on remotePath (set fs)" using assms(1) by (simp add: apart_def distinct_map)
  with h assms(2-4) show False by (metis inj_onD subsetD)
qed

text \<open>The stages together do what \<open>mirror\<close> says, on a hashed plan.\<close>

lemma stages_mirror:
  assumes s: "syncable cfg base fs" and dry: "\<not> DryRun cfg" and dirs: "sweepDirs = dirsForFiles fs"
    and hashed: "\<forall>f \<in> set fs. hash f = digest (data (localPath f))"
    and t: "truthful digest base (manifest_path cfg base) (content (snd st)) old"
    and split: "(colliding, rest) = collidingDeletes fold_seg (stale_entries old base fs) fs"
    and c: "sync_collide pr cfg env watch base old (changed_files old fs) colliding fs (stats, b, st)
       = ((None, pre), (s2, b2, st2))"
    and u: "uploadFiles cfg env watch ch (changed_files old fs) fs up_dirs sweepDirs base False (s2, st2)
       = ((completed, None), (s3, st3))"
    and f: "sync_finish pr cfg env watch base old fs (changed_files old fs) completed pre rest (s3, b2, st3)
       = (None, (stats', b', st'))"
    and q: "no_temp q" "q \<noteq> manifest_path cfg base"
  shows "tree digest (content (snd st')) q =
    mirror (\<lambda>l. digest (data l)) (joined base (stale_entries old base fs)) fs (tree digest (content (snd st))) q"
proof -
  let ?up = "changed_files old fs"
  note bs = syncable_base [OF s] and ap = syncable_apart(1) [OF s]
  have ins: "\<forall>g \<in> set fs. inside base (remotePath g)"
    using s bs planned_inside by (auto simp: syncable_def)
  have J: "set (joined base (colliding @ rest)) = set (joined base (stale_entries old base fs))"
    using joined_colliding [of base fold_seg "stale_entries old base fs" fs] by (simp flip: split)
  note stages = stages_result [OF _ _ _ dry ins dirs apart_changed [OF ap] c u f]
  show ?thesis
  proof (cases "List.find (\<lambda>f. remotePath f = q) fs")
    case (Some g)
    then have g: "g \<in> set fs" "remotePath g = q" using find_Some_mem [OF Some] by auto
    note ns = stale_no_target [OF s t g(1)]
    have "tree digest (content (snd st')) q = Some (hash g)"
    proof (cases "g \<in> set ?up")
      case True
      have "content (snd st') (remotePath g) = Some (data (localPath g))"
        by (rule stages(2) [OF _ _ _ True]) (use bs q(2) g(2) ns J in \<open>auto simp: joined_def\<close>)
      then show ?thesis using hashed g by (simp add: tree_def)
    next
      case False
      have "content (snd st') q = content (snd st) q"
        by (rule stages(1)) (use bs q ns g apart_target [OF ap g(1) False changed_subset] J in auto)
      with kept_file [OF t g(1) False syncable_joined(2) [OF s g(1)]] g(2) show ?thesis
        by (simp add: tree_def)
    qed
    with Some hashed g(1) show ?thesis by (simp add: mirror_def)
  next
    case None
    then have nt: "q \<notin> remotePath ` set ?up"
      using changed_subset [of old fs] by (auto simp: find_None_iff)
    have "q \<in> set (joined base (stale_entries old base fs)) \<Longrightarrow> content (snd st') q = None"
      by (rule stages(3)) (use bs q nt J in auto)
    moreover have "q \<notin> set (joined base (stale_entries old base fs)) \<Longrightarrow> content (snd st') q = content (snd st) q"
      by (rule stages(1)) (use bs q nt J in auto)
    ultimately show ?thesis using None by (simp add: mirror_def tree_def)
  qed
qed

lemma mirror_hashed: "mirror h stale (map (with_hash k) fs) t q = mirror h stale fs t q"
proof -
  have "List.find (\<lambda>f. remotePath f = q) (map (with_hash k) fs) =
      map_option (with_hash k) (List.find (\<lambda>f. remotePath f = q) fs)"
    by (induction fs) simp_all
  then show ?thesis by (simp add: mirror_def split: option.split)
qed

lemma executeSync_result:
  assumes s: "syncable cfg base (plan_files p)" and dirs: "remoteDirs p = dirsForFiles (plan_files p)"
    and base: "base = NormalizeRemote (Remote (pair p))" and dry: "\<not> DryRun cfg" "\<not> SyncFastPath cfg"
    and t: "truthful digest base (manifest_path cfg base) (content (snd st)) old"
    and read: "session_do cfg env watch (readManifest (pr_codec pr) env base (syncManifestName cfg)) st = (Inr old, st1)"
    and run: "executeSync pr cfg env watch p (stats, b, st) = (None, (stats', b', st'))"
  shows "no_temp q \<Longrightarrow> q \<noteq> manifest_path cfg base \<Longrightarrow> tree digest (content (snd st')) q =
      mirror (\<lambda>l. digest (data l)) (joined base (stale_entries old base (plan_files p))) (plan_files p)
        (tree digest (content (snd st))) q"
    and "content (snd st') (manifest_path cfg base) = Some (encode (pr_codec pr)
      \<lparr>Version = manifestVersion, Files = local_manifest (map (with_hash (\<lambda>l. digest (data l))) (plan_files p))\<rparr>)"
proof -
  let ?H = "\<lambda>l. digest (data l)" and ?P = "plan_files p"
  let ?fs = "map (with_hash ?H) ?P" and ?mp = "manifest_path cfg base"
  have same: "content (snd st1) = content (snd st)"
  proof
    show "content (snd st1) q = content (snd st) q" for q
      by (rule frame.session_do_keeps [OF refl frame.readManifest_keeps read])
  qed
  obtain err fs where hash: "hashPlanFiles (\<lambda>q. hash_local env q (snd st1)) (ctx_err env (snd st1))
      (schedule env (max (pr_cpus pr) 1) (length ?P) (snd st1)) ?P
      (if SyncFastPath cfg then map_of (Files old) else (\<lambda>_. None)) = (err, fs)" by (meson surj_pair)
  obtain colliding rest where split: "collidingDeletes (pr_fold pr) (stale_entries old base fs) fs = (colliding, rest)"
    by (meson surj_pair)
  have cr: "colliding = fst (collidingDeletes (pr_fold pr) (stale_entries old base fs) fs)"
    "rest = snd (collidingDeletes (pr_fold pr) (stale_entries old base fs) fs)" by (simp_all add: split)
  from executeSync_ok [OF run read base cr hash] obtain b1 pre s2 b2 st2 ch up_dirs completed s3 st3 where
    ok: "err = None"
    and c: "sync_collide pr cfg env watch base old (changed_files old fs) colliding fs (stats, b1, st1)
      = ((None, pre), (s2, b2, st2))"
    and u: "uploadFiles cfg env watch ch (changed_files old fs) fs up_dirs (remoteDirs p) base False (s2, st2)
       = ((completed, None), (s3, st3))"
    and f: "sync_finish pr cfg env watch base old fs (changed_files old fs) completed pre rest (s3, b2, st3)
       = (None, (stats', b', st'))" by blast
  have fs: "fs = ?fs" by (rule hashed_plan) (use hash dry(2) ok in simp)
  have sf: "syncable cfg base fs" unfolding fs by (rule syncable_hashed [OF s])
  have dd: "remoteDirs p = dirsForFiles fs" using dirs by (simp add: fs dirsForFiles_def comp_def)
  have hf: "\<forall>f \<in> set fs. hash f = ?H (localPath f)" by (simp add: fs)
  have t1: "truthful digest base ?mp (content (snd st1)) old" using t by (simp add: same)
  show "tree digest (content (snd st')) q = mirror ?H (joined base (stale_entries old base ?P)) ?P
      (tree digest (content (snd st))) q" if "no_temp q" "q \<noteq> ?mp"
    using stages_mirror [OF sf dry(1) dd hf t1 split [symmetric] c u f that]
    by (simp add: fs stale_hashed mirror_hashed same)
  from f dry(1) show "content (snd st') ?mp =
      Some (encode (pr_codec pr) \<lparr>Version = manifestVersion, Files = local_manifest ?fs\<rparr>)"
  proof (cases rule: sync_finish_ok)
    case (1 oks st4 n b4 st5 v)
    from any.session_do_last [OF _ _ 1(3)] writeManifest_done fs show ?thesis
      unfolding manifest_path_def by blast
  qed
qed

text \<open>What the run read is truthful, and so is what it recorded.\<close>

sublocale still: quiet_env env "\<lambda>w. content w = m" for m
  by unfold_locales (simp_all add: leave_alone)

lemma readManifest_still: "content w = m \<Longrightarrow> content (snd (readManifest cd env base name c w)) = m"
  using frame.readManifest_keeps [of w _ _ cd base name c] by (auto simp: fun_eq_iff)

lemma read_truthful:
  assumes "in_step cd digest base (manifest_path cfg base) (content (snd st))"
    and "session_do cfg env watch (readManifest cd env base (syncManifestName cfg)) st = (Inr old, st1)"
  shows "truthful digest base (manifest_path cfg base) (content (snd st)) old"
proof -
  from still.session_do_last [OF refl readManifest_still assms(2)]
  obtain c w where w: "content w = content (snd st)"
    "readManifest cd env base (syncManifestName cfg) c w = (Inr old, snd st1)" by blast
  from readManifest_result [OF w(2)] assms(1) w(1) show ?thesis
    by (auto simp: in_step_def manifest_path_def truthful_empty)
qed

end

lemma parse_recorded:
  assumes "decode cd d = Some m" "Version m = manifestVersion" "truthful digest base mp t m"
  shows "parse_manifest cd base d = m"
proof -
  have "\<forall>(k, e) \<in> set (Files m). joins_below base k"
    using assms(3) by (fastforce simp: truthful_def joins_below_def split: sum.splits)
  then have "filter (\<lambda>(k, _). joins_below base k) (Files m) = Files m"
    by (auto intro: filter_True)
  with assms(1,2) show ?thesis
    by (simp add: parse_manifest_def confineManifest_def manifestVersion_def)
qed

lemma recorded_truthful:
  assumes s: "syncable cfg base fs"
    and t: "\<And>f. f \<in> set fs \<Longrightarrow> tree digest t (remotePath f) = Some (h (localPath f))"
  shows "truthful digest base (manifest_path cfg base) t
    \<lparr>Version = v, Files = local_manifest (map (with_hash h) fs)\<rparr>"
proof -
  have "proper_key k \<and> (case safeJoin base k of Inl _ \<Rightarrow> False
      | Inr full \<Rightarrow> full \<noteq> manifest_path cfg base \<and> no_temp full \<and> tree digest t full = Some (Hash e))"
    if "(k, e) \<in> set (local_manifest (map (with_hash h) fs))" for k e
  proof -
    from that local_manifest_entries obtain g where "g \<in> set (map (with_hash h) fs)" "k = rel g" "e = entry_of g"
      by blast
    then obtain f where f: "f \<in> set fs" "k = rel f" "Hash e = h (localPath f)"
      by (auto simp: entry_of_def)
    have "remotePath f \<noteq> manifest_path cfg base" using syncable_apart(2) [OF s] f(1) by (metis imageI)
    with syncable_joined [OF s f(1)] t [OF f(1)] f show ?thesis by simp
  qed
  then show ?thesis by (auto simp: truthful_def)
qed

section \<open>Properties\<close>

text \<open>
  A deployment the properties are about: a plan the walk built from a directory, for a target and a
  manifest the names of which are usable and free of the temporary suffix.
\<close>

definition sync_plan :: "config \<Rightarrow> plan \<Rightarrow> bool" where
  "sync_plan cfg p \<longleftrightarrow>
     (\<exists>q opts rerr cs walkRoot. buildPlan q Sync opts (RootTree rerr cs) walkRoot = Inr p \<and> tree_ok (Dir rerr cs) \<and>
        manifestName opts = syncManifestName cfg) \<and>
     deployable cfg (NormalizeRemote (Remote (pair p))) \<and> NormalizeRemote (Remote (pair p)) \<noteq> ''.'' \<and>
     no_temp (manifest_path cfg (NormalizeRemote (Remote (pair p)))) \<and>
     (\<forall>f \<in> set (plan_files p). no_temp (remotePath f))"

lemma sync_plan_syncable:
  assumes "sync_plan cfg p"
  shows "syncable cfg (NormalizeRemote (Remote (pair p))) (plan_files p)" "remoteDirs p = dirsForFiles (plan_files p)"
proof -
  obtain q opts rerr cs walkRoot where b: "buildPlan q Sync opts (RootTree rerr cs) walkRoot = Inr p"
    "tree_ok (Dir rerr cs)" "manifestName opts = syncManifestName cfg"
    using assms by (auto simp: sync_plan_def)
  note bp = buildPlan_planned [OF b(1) tree_ok_names [OF b(2)]]
  show "remoteDirs p = dirsForFiles (plan_files p)" by (rule bp(2))
  show "syncable cfg (NormalizeRemote (Remote (pair p))) (plan_files p)"
    using assms bp(1,3) buildPlan_fresh [OF b(1,2)] b(3) by (simp add: syncable_def sync_plan_def)
qed

lemma executeSync_read:
  assumes "executeSync pr cfg env watch p (stats, b, st) = (None, pg)"
  obtains old st1 where "session_do cfg env watch
      (readManifest (pr_codec pr) env (NormalizeRemote (Remote (pair p))) (syncManifestName cfg)) st = (Inr old, st1)"
proof -
  obtain r st1 where r: "session_do cfg env watch
      (readManifest (pr_codec pr) env (NormalizeRemote (Remote (pair p))) (syncManifestName cfg)) st = (r, st1)"
    by (meson surj_pair)
  with assms obtain old where "r = Inr old" by (cases r) (auto simp: executeSync_def Let_def)
  with r that show ?thesis by simp
qed

lemma sync_step:
  assumes env: "storage env content data digest" and plan: "sync_plan cfg p"
    and base: "base = NormalizeRemote (Remote (pair p))" and cfg: "\<not> DryRun cfg" "\<not> SyncFastPath cfg"
    and step: "in_step (pr_codec pr) digest base (manifest_path cfg base) (content (snd st))"
    and run: "executeSync pr cfg env watch p (stats, b, st) = (None, (stats', b', st'))"
    and m: "m = \<lparr>Version = manifestVersion,
      Files = local_manifest (map (with_hash (\<lambda>l. digest (data l))) (plan_files p))\<rparr>"
    and codec: "decode (pr_codec pr) (encode (pr_codec pr) m) = Some m"
  shows "in_step (pr_codec pr) digest base (manifest_path cfg base) (content (snd st')) \<and>
    content (snd st') (manifest_path cfg base) = Some (encode (pr_codec pr) m) \<and>
    truthful digest base (manifest_path cfg base) (content (snd st')) m"
proof -
  note sp = sync_plan_syncable [OF plan, folded base]
  obtain old st1 where read: "session_do cfg env watch (readManifest (pr_codec pr) env base (syncManifestName cfg)) st
      = (Inr old, st1)" using executeSync_read [OF run] base by metis
  note res = storage.executeSync_result [OF env sp base cfg storage.read_truthful [OF env step read] read run]
  have t: "truthful digest base (manifest_path cfg base) (content (snd st')) m"
    unfolding m
  proof (rule recorded_truthful [OF sp(1)])
    fix f assume f: "f \<in> set (plan_files p)"
    have "no_temp (remotePath f)" by (rule syncable_joined(3) [OF sp(1) f])
    moreover have "remotePath f \<noteq> manifest_path cfg base" using syncable_apart(2) [OF sp(1)] f by (metis imageI)
    ultimately have "tree digest (content (snd st')) (remotePath f) =
        mirror (\<lambda>l. digest (data l)) (joined base (stale_entries old base (plan_files p))) (plan_files p)
          (tree digest (content (snd st))) (remotePath f)" by (rule res(1))
    with apart_find [OF syncable_apart(1) [OF sp(1)] f]
    show "tree digest (content (snd st')) (remotePath f) = Some (digest (data (localPath f)))"
      by (simp add: mirror_def)
  qed
  have "content (snd st') (manifest_path cfg base) = Some (encode (pr_codec pr) m)" using res(2) by (simp add: m)
  moreover have "parse_manifest (pr_codec pr) base (encode (pr_codec pr) m) = m"
    by (rule parse_recorded [OF codec _ t]) (simp add: m)
  ultimately show ?thesis using t by (simp add: in_step_def)
qed

text \<open>
  Property C1. A sync that reports no error mirrors the plan, without \<open>sync.fast_path\<close> and on every
  server that keeps its promises (\<open>storage\<close>) and is in step with the manifest it stores: as a tree of
  content hashes, and apart from
  the manifest itself and temporary names, the server then holds each planned file's local content
  at its target, nothing at the target of a recorded file that left the plan, and everything else
  as it was. Workers, retries, redials, the backup publish and the order of deletions and uploads do
  not show.
\<close>

theorem sync_mirrors:
  assumes "storage env content data digest" "sync_plan cfg p"
    and "base = NormalizeRemote (Remote (pair p))" "\<not> DryRun cfg" "\<not> SyncFastPath cfg"
    and "in_step (pr_codec pr) digest base (manifest_path cfg base) (content (snd st))"
    and "session_do cfg env watch (readManifest (pr_codec pr) env base (syncManifestName cfg)) st = (Inr old, st1)"
    and "executeSync pr cfg env watch p (stats, b, st) = (None, (stats', b', st'))"
    and "no_temp q" "q \<noteq> manifest_path cfg base"
  shows "tree digest (content (snd st')) q =
    mirror (\<lambda>l. digest (data l)) (joined base (stale_entries old base (plan_files p))) (plan_files p)
      (tree digest (content (snd st))) q"
  using storage.executeSync_result(1) [OF assms(1) sync_plan_syncable [OF assms(2), folded assms(3)] assms(3-5)
      storage.read_truthful [OF assms(1,6,7)] assms(7-10)] .

text \<open>
  Property C2. A server in step stays in step, without \<open>sync.fast_path\<close>: after a sync without error the manifest stored on the
  server decodes to one entry per planned file, with the hash of the content that file's target
  holds, so that the next sync again starts from a manifest that tells the truth.
\<close>

theorem sync_stays_in_step:
  assumes "storage env content data digest" "sync_plan cfg p"
    and "base = NormalizeRemote (Remote (pair p))" "\<not> DryRun cfg" "\<not> SyncFastPath cfg"
    and "in_step (pr_codec pr) digest base (manifest_path cfg base) (content (snd st))"
    and "executeSync pr cfg env watch p (stats, b, st) = (None, (stats', b', st'))"
    and "m = \<lparr>Version = manifestVersion,
      Files = local_manifest (map (with_hash (\<lambda>l. digest (data l))) (plan_files p))\<rparr>"
    and "decode (pr_codec pr) (encode (pr_codec pr) m) = Some m"
  shows "in_step (pr_codec pr) digest base (manifest_path cfg base) (content (snd st')) \<and>
    content (snd st') (manifest_path cfg base) = Some (encode (pr_codec pr) m) \<and>
    truthful digest base (manifest_path cfg base) (content (snd st')) m"
  by (rule sync_step [OF assms])

section \<open>A concrete sync\<close>

text \<open>A server in step with a manifest of one file, which a sync of another file replaces.\<close>

definition step_codec :: codec where
  "step_codec =
     \<lparr>decode = \<lambda>s. if s = ''m0'' then Some \<lparr>Version = 3, Files = [(''old'', \<lparr>Hash = ''x'', Size = 1, MTime = 5\<rparr>)]\<rparr>
        else if s = ''m1'' then Some \<lparr>Version = 3, Files = [(''a'', \<lparr>Hash = ''abc'', Size = 3, MTime = 7\<rparr>)]\<rparr>
        else None,
      decode_v1 = \<lambda>_. None, encode = \<lambda>_. ''m1''\<rparr>"

definition step_params :: params where
  "step_params = sample_params\<lparr>pr_codec := step_codec\<rparr>"

definition step_world :: ram where
  "step_world = \<lparr>disk = [(''/w/.m.json'', ''m0''), (''/w/old'', ''x''), (''/w/mine'', ''y'')], script = []\<rparr>"

definition step_env :: "(unit, ram) remote" where
  "step_env = steady_env [(''web/a'', ''abc'')] False"

definition step_run :: "goerr option \<times> (unit, ram) progress" where
  "step_run = executeSync step_params sample_config step_env False sample_plan
     (no_stats, newDeleteBudget 5, (sample_session, step_world))"

lemma step_storage: "storage step_env ram_lookup (\<lambda>p. the (map_of [(''web/a'', ''abc'')] p)) (\<lambda>d. d)"
  unfolding step_env_def by (rule steady.storage_axioms)

lemma step_plan: "sync_plan sample_config sample_plan"
proof -
  have b: "buildPlan sample_pair Sync sample_options (RootTree None sample_entries) ''web'' = Inr sample_plan"
    by (rule sample_plan_built(1))
  have t: "tree_ok (Dir None sample_entries)" "manifestName sample_options = syncManifestName sample_config"
    "deployable sample_config (NormalizeRemote (Remote (pair sample_plan)))" "NormalizeRemote (Remote (pair sample_plan)) \<noteq> ''.''"
    "no_temp (manifest_path sample_config (NormalizeRemote (Remote (pair sample_plan))))"
    "\<forall>f \<in> set (plan_files sample_plan). no_temp (remotePath f)"
    by code_simp+
  show ?thesis unfolding sync_plan_def using b t by blast
qed

lemma step_base: "''/w'' = NormalizeRemote (Remote (pair sample_plan))"
  by code_simp

lemma step_settings: "\<not> DryRun sample_config" "\<not> SyncFastPath sample_config"
  by (simp_all add: sample_config_def)

lemma step_in_step: "in_step (pr_codec step_params) (\<lambda>d. d) ''/w'' (manifest_path sample_config ''/w'')
    (ram_lookup (snd (sample_session, step_world)))"
  by code_simp

lemma step_ok: "fst step_run = None"
  by code_simp

theorem sync_mirrors_witness:
  "tree (\<lambda>d. d) (ram_lookup (snd (snd (snd (snd step_run))))) ''/w/a'' = Some ''abc'' \<and>
   tree (\<lambda>d. d) (ram_lookup (snd (snd (snd (snd step_run))))) ''/w/mine'' = Some ''y''"
proof -
  obtain stats' b' st' where run: "step_run = (None, (stats', b', st'))"
    using step_ok by (metis prod.collapse)
  let ?read = "session_do sample_config step_env False
    (readManifest (pr_codec step_params) step_env ''/w'' (syncManifestName sample_config)) (sample_session, step_world)"
  have ok: "case fst ?read of Inl _ \<Rightarrow> False
    | Inr m \<Rightarrow> m = \<lparr>Version = 3, Files = [(''old'', \<lparr>Hash = ''x'', Size = 1, MTime = 5\<rparr>)]\<rparr>"
    by code_simp
  then obtain st1 where read: "?read = (Inr \<lparr>Version = 3, Files = [(''old'', \<lparr>Hash = ''x'', Size = 1, MTime = 5\<rparr>)]\<rparr>, st1)"
    by (cases "?read") (auto split: sum.splits)
  note mirrors = sync_mirrors [OF step_storage step_plan step_base step_settings step_in_step read run [unfolded step_run_def]]
  have q: "no_temp ''/w/a''" "''/w/a'' \<noteq> manifest_path sample_config ''/w''"
    "no_temp ''/w/mine''" "''/w/mine'' \<noteq> manifest_path sample_config ''/w''" by code_simp+
  have r: "mirror (\<lambda>l. the (map_of [(''web/a'', ''abc'')] l)) (joined ''/w''
      (stale_entries \<lparr>Version = 3, Files = [(''old'', \<lparr>Hash = ''x'', Size = 1, MTime = 5\<rparr>)]\<rparr> ''/w'' (plan_files sample_plan)))
      (plan_files sample_plan) (tree (\<lambda>d. d) (ram_lookup (snd (sample_session, step_world)))) x =
      (if x = ''/w/a'' then Some ''abc'' else Some ''y'')" if "x \<in> {''/w/a'', ''/w/mine''}" for x
    using that by (auto; code_simp)
  show ?thesis using mirrors [OF q(1,2)] mirrors [OF q(3,4)] r [of "''/w/a''"] r [of "''/w/mine''"] unfolding run by simp
qed

theorem sync_stays_in_step_witness:
  "\<exists>st'. snd (snd (snd step_run)) = st' \<and>
     in_step step_codec (\<lambda>d. d) ''/w'' ''/w/.m.json'' (ram_lookup (snd st')) \<and>
     ram_lookup (snd st') ''/w/.m.json'' = Some ''m1''"
proof -
  obtain stats' b' st' where run: "step_run = (None, (stats', b', st'))"
    using step_ok by (metis prod.collapse)
  have c: "decode (pr_codec step_params) (encode (pr_codec step_params) \<lparr>Version = manifestVersion, Files = local_manifest
      (map (with_hash (\<lambda>l. the (map_of [(''web/a'', ''abc'')] l))) (plan_files sample_plan))\<rparr>) =
      Some \<lparr>Version = manifestVersion, Files = local_manifest
      (map (with_hash (\<lambda>l. the (map_of [(''web/a'', ''abc'')] l))) (plan_files sample_plan))\<rparr>" by code_simp
  have m: "manifest_path sample_config ''/w'' = ''/w/.m.json''" "pr_codec step_params = step_codec"
    "encode step_codec x = ''m1''" for x
    by (code_simp, simp_all add: step_params_def step_codec_def)
  from sync_stays_in_step [OF step_storage step_plan step_base step_settings step_in_step run [unfolded step_run_def] refl c]
  show ?thesis unfolding run by (simp add: m)
qed

end
