(* ===== verification/Unclean_Keys.thy ===== *)
theory Unclean_Keys
  imports Mirror
begin

text \<open>
  What the mirror of \<open>Mirror\<close> depends on: a manifest whose keys are spelled as this program spells
  them. A key such as \<open>./a\<close> names the remote file of the planned \<open>a\<close>, but \<open>collidingDeletes\<close> compares
  keys as text, so it is deleted after the upload instead of before it, and the file is gone.
\<close>

section \<open>A key that names a planned file in other words\<close>

lemma split_dot_slash: "split_on (CHR ''/'') (''./'' @ p) = ''.'' # split_on (CHR ''/'') p"
  using split_on_append_sep [of "CHR ''/''" "''.''" p] by (simp add: split_on_free)

lemma dot_slash_elems:
  assumes "\<not> is_rooted p"
  shows "path_elems (''./'' @ p) = path_elems p" "\<not> is_rooted (''./'' @ p)"
proof -
  show r: "\<not> is_rooted (''./'' @ p)" by (simp add: is_rooted_def has_prefix_iff)
  with assms show "path_elems (''./'' @ p) = path_elems p"
    unfolding path_elems_def split_dot_slash by (simp add: clean_elems_def clean_step_def)
qed

lemma dot_slash_clean: "\<not> is_rooted p \<Longrightarrow> path_clean (''./'' @ p) = path_clean p"
  using dot_slash_elems [of p] by (simp add: path_clean_def)

lemma dot_slash_join:
  assumes "proper_key p" "safeJoin base p = Inr full"
  shows "safeJoin base (''./'' @ p) = Inr full" "''./'' @ p \<noteq> p"
proof -
  have p: "path_clean p = p" "p \<noteq> []" "\<not> is_rooted p" using assms(1) by (auto simp: proper_key_def path_stop_def)
  have "path_clean (''./'' @ p) = path_clean p" "\<not> has_prefix (''./'' @ p) ''/''" "\<not> has_prefix p ''/''"
    using dot_slash_clean [OF p(3)] dot_slash_elems(2) [OF p(3)] p(3) by (simp_all add: is_rooted_def)
  with assms p(2) show "safeJoin base (''./'' @ p) = Inr full" by (auto simp: safeJoin_def Let_def split: if_splits)
qed simp

lemma chain_clean:
  assumes "path_clean p = p" "d \<in> set (up_chain p)"
  shows "path_clean d = d"
proof -
  have "d \<in> set (up_chain (render_path (is_rooted p) (path_elems p)))" using assms by (simp add: path_clean_def)
  then obtain q where "prefix q (path_elems p)" "d = render_path (is_rooted p) q"
    using set_up_chain_render [OF path_elems_normal] by auto
  then show ?thesis
    using path_clean_render [of "is_rooted p" q] normal_elems_appendD [of "is_rooted p" q] path_elems_normal [of p]
    by (auto simp: prefix_def)
qed

lemma dot_slash_apart:
  assumes "proper_key p" "\<forall>f \<in> set plan. proper_key (rel f)"
    and "\<forall>f \<in> set plan. rel f \<notin> set (up_chain (path_dir (''./'' @ p)))"
    and "\<forall>f \<in> set plan. foldPath fold_seg (rel f) \<noteq> foldPath fold_seg (''./'' @ p)"
  shows "\<not> conflicts fold_seg plan (''./'' @ p)"
proof -
  have c: "path_clean (''./'' @ p) \<noteq> ''./'' @ p"
    using dot_slash_clean [of p] assms(1) by (auto simp: proper_key_def)
  have "''./'' @ p \<notin> set (up_chain (rel f))" if "f \<in> set plan" for f
    using chain_clean [of "rel f" "''./'' @ p"] assms(2) that c by (auto simp: proper_key_def)
  moreover have "foldPath fold_seg (''./'' @ p) \<notin> (\<lambda>f. foldPath fold_seg (rel f)) ` set plan" using assms(4) by force
  moreover have "d \<notin> rel ` set plan" if "d \<in> set (up_chain (path_dir (''./'' @ p)))" for d using assms(3) that by blast
  ultimately show ?thesis unfolding conflicts_def by blast
qed

lemma conflicts_names: "rel ` set fs = rel ` set fs' \<Longrightarrow> conflicts fold_seg fs k = conflicts fold_seg fs' k"
proof -
  assume e: "rel ` set fs = rel ` set fs'"
  have "conflicts fold_seg gs k \<longleftrightarrow> (\<exists>r \<in> rel ` set gs. k \<in> set (up_chain r)) \<or>
     (\<exists>d \<in> set (up_chain (path_dir k)). d \<in> rel ` set gs) \<or> foldPath fold_seg k \<in> foldPath fold_seg ` rel ` set gs" for gs
    by (auto simp: conflicts_def image_image)
  then show ?thesis using e by (simp only:)
qed

lemma recorded_names: "fst ` set (local_manifest fs) = rel ` set fs"
proof -
  have "fst ` set (fold (\<lambda>f m. m_put (rel f) (entry_of f) m) fs m) = fst ` set m \<union> rel ` set fs" for m
  proof (induction fs arbitrary: m)
    case (Cons f fs)
    have "fst ` set (m_put (rel f) (entry_of f) m) = insert (rel f) (fst ` set m)" by (force simp: m_put_def)
    with Cons.IH show ?case by simp
  qed simp
  from this [of "[]"] show ?thesis by (simp add: local_manifest_def)
qed

section \<open>What a late deletion leaves\<close>

context storage
begin

text \<open>What is deleted after the upload is gone at the end, uploaded or not.\<close>

lemma late_delete_wins:
  assumes run: "sync_finish pr cfg env watch base old fs up completed pre rest (stats, b, st) = (None, (stats', b', st'))"
    and dry: "\<not> DryRun cfg" and q: "no_temp q" "manifest_path cfg base \<noteq> q" "q \<in> set (joined base rest)"
  shows "content (snd st') q = None"
    "content (snd st') (manifest_path cfg base) =
       Some (encode (pr_codec pr) \<lparr>Version = manifestVersion, Files = local_manifest fs\<rparr>)"
proof -
  obtain oks st1 n b1 st2 v where 1: "deleteRemoteFiles cfg env watch (joined base rest) st = ((oks, None), st1)"
    "pruneEmptyDirs cfg env watch base (joined base (picked oks rest)) b st1 = (n, b1, st2)"
    "session_do cfg env watch (writeManifest (pr_codec pr) env base (syncManifestName cfg)
       \<lparr>Version = manifestVersion, Files = local_manifest fs\<rparr>) st2 = (Inr v, st')"
    using run dry by (rule sync_finish_ok)
  show "content (snd st') q = None"
    by (rule gone.prune_and_record_apart [OF delete_sweep_done [OF 1(1) dry q(3)] spares_no_revival q(1,2) 1(2,3)])
  from any.session_do_last [OF _ _ 1(3)] writeManifest_done
  show "content (snd st') (manifest_path cfg base) =
       Some (encode (pr_codec pr) \<lparr>Version = manifestVersion, Files = local_manifest fs\<rparr>)"
    unfolding manifest_path_def by blast
qed

lemma sync_loses:
  assumes s: "syncable cfg base (plan_files p)" and base: "base = NormalizeRemote (Remote (pair p))" and dry: "\<not> DryRun cfg"
    and read: "session_do cfg env watch (readManifest (pr_codec pr) env base (syncManifestName cfg)) st = (Inr old, st1)"
    and run: "executeSync pr cfg env watch p (stats, b, st) = (None, (stats', b', st'))"
    and f: "f \<in> set (plan_files p)" and key: "key \<in> fst ` set (Files old)" "safeJoin base key = Inr (remotePath f)"
      "key \<notin> rel ` set (plan_files p)" "\<not> conflicts (pr_fold pr) (plan_files p) key"
  shows "content (snd st') (remotePath f) = None"
    "\<exists>fs. content (snd st') (manifest_path cfg base) =
       Some (encode (pr_codec pr) \<lparr>Version = manifestVersion, Files = local_manifest fs\<rparr>) \<and>
       rel ` set fs = rel ` set (plan_files p)"
proof -
  obtain err fs where hash: "hashPlanFiles (\<lambda>q. hash_local env q (snd st1)) (ctx_err env (snd st1))
      (schedule env (max (pr_cpus pr) 1) (length (plan_files p)) (snd st1)) (plan_files p)
      (if SyncFastPath cfg then map_of (Files old) else (\<lambda>_. None)) = (err, fs)" by (meson surj_pair)
  have names: "rel ` set fs = rel ` set (plan_files p)" using same_names(3) [OF hash_keeps_names [OF hash]] .
  let ?rest = "snd (collidingDeletes (pr_fold pr) (stale_entries old base fs) fs)"
  have "key \<in> set (stale_entries old base fs)"
    using key names by (auto simp: stale_entries_def joins_below_def)
  then have "key \<in> set ?rest" using key(4) conflicts_names [OF names] by (simp add: collidingDeletes_def)
  then have late: "remotePath f \<in> set (joined base ?rest)" using key(2) by (force simp: joined_def)
  have q: "no_temp (remotePath f)" "manifest_path cfg base \<noteq> remotePath f"
    using syncable_joined(3) [OF s f] syncable_apart(2) [OF s] f by (auto simp: image_iff)
  from executeSync_ok [OF run read base refl refl hash] obtain b2 s3 st3 up completed pre where
    "sync_finish pr cfg env watch base old fs up completed pre ?rest (s3, b2, st3) = (None, (stats', b', st'))" by metis
  from late_delete_wins [OF this dry q late] names
  show "content (snd st') (remotePath f) = None"
    "\<exists>fs. content (snd st') (manifest_path cfg base) =
       Some (encode (pr_codec pr) \<lparr>Version = manifestVersion, Files = local_manifest fs\<rparr>) \<and>
       rel ` set fs = rel ` set (plan_files p)" by blast+
qed

end

section \<open>The file is gone\<close>

text \<open>
  Property C37. The order of deletions protects an upload only from keys spelled as this program
  spells them. On every server that keeps its promises, a sync that reports no error and read a
  manifest with the entry \<open>./p\<close> of a planned file \<open>p\<close> leaves that file missing, whether it uploaded it
  in the same run or not, and records it as deployed. (No planned file is taken for a directory above
  \<open>p\<close>, and none folds to the spelling \<open>./p\<close>; either would make the entry collide.)
\<close>

theorem unclean_key_deletes_the_upload:
  assumes "storage env content data digest" "sync_plan cfg p"
    and "base = NormalizeRemote (Remote (pair p))" "\<not> DryRun cfg"
    and "session_do cfg env watch (readManifest (pr_codec pr) env base (syncManifestName cfg)) st = (Inr old, st1)"
    and "executeSync pr cfg env watch p (stats, b, st) = (None, (stats', b', st'))"
    and "f \<in> set (plan_files p)" "''./'' @ rel f \<in> fst ` set (Files old)"
    and "\<forall>g \<in> set (plan_files p). rel g \<notin> set (up_chain (path_dir (''./'' @ rel f))) \<and> rel g \<noteq> ''./'' @ rel f \<and>
      foldPath (pr_fold pr) (rel g) \<noteq> foldPath (pr_fold pr) (''./'' @ rel f)"
  shows "content (snd st') (remotePath f) = None \<and>
    (\<exists>m. content (snd st') (manifest_path cfg base) = Some (encode (pr_codec pr) m) \<and> rel f \<in> fst ` set (Files m))"
proof -
  have s: "syncable cfg base (plan_files p)" using sync_plan_syncable(1) [OF assms(2)] assms(3) by simp
  note f = syncable_joined [OF s assms(7)]
  have "\<not> conflicts (pr_fold pr) (plan_files p) (''./'' @ rel f)"
    by (rule dot_slash_apart [OF f(1)]) (use syncable_joined(1) [OF s] assms(9) in auto)
  moreover have "''./'' @ rel f \<notin> rel ` set (plan_files p)" using assms(9) by force
  ultimately have r: "content (snd st') (remotePath f) = None"
    "\<exists>fs. content (snd st') (manifest_path cfg base) =
       Some (encode (pr_codec pr) \<lparr>Version = manifestVersion, Files = local_manifest fs\<rparr>) \<and>
       rel ` set fs = rel ` set (plan_files p)"
    using storage.sync_loses [OF assms(1) s assms(3-7) assms(8) dot_slash_join(1) [OF f(1,2)]] by blast+
  from r(2) obtain fs where "content (snd st') (manifest_path cfg base) =
      Some (encode (pr_codec pr) \<lparr>Version = manifestVersion, Files = local_manifest fs\<rparr>)"
    "rel ` set fs = rel ` set (plan_files p)" by blast
  moreover have "rel f \<in> fst ` set (local_manifest fs)" using recorded_names [of fs] calculation(2) assms(7) by simp
  ultimately show ?thesis using r(1)
    by (intro conjI exI [of _ "\<lparr>Version = manifestVersion, Files = local_manifest fs\<rparr>"]) simp_all
qed

text \<open>The steady server of \<open>Mirror\<close> with a manifest that spells the one planned file \<open>./a\<close>.\<close>

definition unclean_params :: params where
  "unclean_params = sample_params\<lparr>pr_codec :=
     \<lparr>decode = \<lambda>s. if s = ''m0'' then Some \<lparr>Version = 3, Files = [(''./a'', \<lparr>Hash = ''x'', Size = 1, MTime = 5\<rparr>)]\<rparr> else None,
      decode_v1 = \<lambda>_. None, encode = \<lambda>_. ''m1''\<rparr>\<rparr>"

definition unclean_world :: ram where
  "unclean_world = \<lparr>disk = [(''/w/.m.json'', ''m0''), (''/w/a'', ''x'')], script = []\<rparr>"

definition unclean_run :: "goerr option \<times> (unit, ram) progress" where
  "unclean_run = executeSync unclean_params sample_config step_env False sample_plan
     (no_stats, newDeleteBudget 5, (sample_session, unclean_world))"

lemma unclean_runs:
  "fst unclean_run = None" "FilesUploaded (fst (snd unclean_run)) = 1" "FilesDeleted (fst (snd unclean_run)) = 1"
  by code_simp+

lemma unclean_read:
  "session_do sample_config step_env False (readManifest (pr_codec unclean_params) step_env ''/w'' (syncManifestName sample_config))
     (sample_session, unclean_world) =
   (Inr \<lparr>Version = 3, Files = [(''./a'', \<lparr>Hash = ''x'', Size = 1, MTime = 5\<rparr>)]\<rparr>, (sample_session, unclean_world))"
  by code_simp

theorem unclean_key_deletes_the_upload_witness:
  "fst unclean_run = None \<and> FilesUploaded (fst (snd unclean_run)) = 1 \<and>
   ram_lookup (snd (snd (snd (snd unclean_run)))) ''/w/a'' = None"
proof -
  obtain stats b st where run: "unclean_run = (None, (stats, b, st))" using unclean_runs(1) by (metis prod.collapse)
  have names: "\<forall>g \<in> set (plan_files sample_plan). rel g \<notin> set (up_chain (path_dir (''./'' @ ''a''))) \<and> rel g \<noteq> ''./'' @ ''a'' \<and>
      foldPath (pr_fold unclean_params) (rel g) \<noteq> foldPath (pr_fold unclean_params) (''./'' @ ''a'')" by code_simp
  obtain f where f: "f \<in> set (plan_files sample_plan)" "rel f = ''a''" "remotePath f = ''/w/a''"
    by (simp add: sample_plan_def)
  have "\<not> DryRun sample_config" by code_simp
  from unclean_key_deletes_the_upload [OF step_storage step_plan step_base this unclean_read
      run [unfolded unclean_run_def] f(1)] names f(2,3)
  have "ram_lookup (snd st) ''/w/a'' = None" by simp
  then show ?thesis using unclean_runs(2) unfolding run by simp
qed

end
