(* ===== verification/Action_Output.thy ===== *)
theory Action_Output
  imports Go_Error
begin

text \<open>
  What the program writes for the GitHub Actions runner (\<open>internal/gha/gha.go\<close>): log lines and
  annotations, step outputs and the job summary. The state holds the three files. The random
  delimiters are a given sequence of 16-byte draws; the reader of step outputs is the format GitHub
  documents for multiline values. Shown: one call is one physical line whatever it is given, so no
  value can start a workflow command of its own; escaping loses nothing; and what \<open>SetOutput\<close> writes
  is read back exactly.
\<close>

section \<open>Escaping\<close>

definition escape_byte :: "char \<Rightarrow> string" where
  "escape_byte c =
     (if c = CHR ''%'' then ''%25'' else if c = CHR 0x0D then ''%0D'' else if c = CHR 0x0A then ''%0A'' else [c])"

definition escapeData :: "string \<Rightarrow> string" where
  "escapeData s = concat (map escape_byte s)"

definition sanitizeLine :: "string \<Rightarrow> string" where
  "sanitizeLine s = map (\<lambda>c. if c = CHR 0x0D \<or> c = CHR 0x0A then CHR '' '' else c) s"

section \<open>The runner's files\<close>

text \<open>
  \<open>out_file\<close> and \<open>sum_file\<close> are absent when their variable is unset; \<open>out_fail\<close> and \<open>sum_fail\<close> are
  the errors of opening them.
\<close>

record runner =
  log_text :: string
  out_file :: "string option"
  out_fail :: "string option"
  sum_file :: "string option"
  sum_fail :: "string option"
  draws :: "nat \<Rightarrow> string"
  drawn :: nat

definition println :: "string \<Rightarrow> runner \<Rightarrow> runner" where
  "println s r = r\<lparr>log_text := log_text r @ s @ [CHR 0x0A]\<rparr>"

definition Infof :: "string \<Rightarrow> runner \<Rightarrow> runner" where
  "Infof msg = println (sanitizeLine msg)"

definition Warningf :: "string \<Rightarrow> runner \<Rightarrow> runner" where
  "Warningf msg = println (''::warning::'' @ escapeData msg)"

definition Errorf :: "string \<Rightarrow> runner \<Rightarrow> runner" where
  "Errorf msg = println (''::error::'' @ escapeData msg)"

definition Group :: "string \<Rightarrow> runner \<Rightarrow> runner" where
  "Group nm = println (''::group::'' @ escapeData nm)"

definition EndGroup :: "runner \<Rightarrow> runner" where
  "EndGroup = println ''::endgroup::''"

section \<open>Step outputs\<close>

definition hex_bytes :: "string \<Rightarrow> string" where
  "hex_bytes b = concat (map (\<lambda>c. [hex_digit (of_char c div 16), hex_digit (of_char c mod 16)]) b)"

definition randomDelimiter :: "string \<Rightarrow> string" where
  "randomDelimiter b = ''ghadelimiter_'' @ hex_bytes b"

text \<open>The loop that redraws while the value contains the delimiter: it need not end.\<close>

partial_function (option) pick_delimiter :: "(nat \<Rightarrow> string) \<Rightarrow> nat \<Rightarrow> string \<Rightarrow> (string \<times> nat) option" where
  "pick_delimiter ds n v =
     (if sublist (randomDelimiter (ds n)) v then pick_delimiter ds (Suc n) v
      else Some (randomDelimiter (ds n), Suc n))"

definition heredoc :: "string \<Rightarrow> string \<Rightarrow> string \<Rightarrow> string" where
  "heredoc nm v delim =
     nm @ ''<<'' @ delim @ [CHR 0x0A] @ v @ [CHR 0x0A] @ delim @ [CHR 0x0A]"

definition SetOutput :: "string \<Rightarrow> string \<Rightarrow> runner \<Rightarrow> runner option" where
  "SetOutput nm v r =
     (case out_file r of
        None \<Rightarrow> Some r
      | Some text \<Rightarrow>
          (case out_fail r of
             Some e \<Rightarrow> Some (Warningf (''could not write output '' @ nm @ '': '' @ e) r)
           | None \<Rightarrow>
               map_option (\<lambda>(delim, n). r\<lparr>out_file := Some (text @ heredoc nm v delim), drawn := n\<rparr>)
                 (pick_delimiter (draws r) (drawn r) v)))"

definition AppendSummary :: "string \<Rightarrow> runner \<Rightarrow> runner" where
  "AppendSummary md r =
     (case sum_file r of
        None \<Rightarrow> r
      | Some text \<Rightarrow>
          (case sum_fail r of
             Some e \<Rightarrow> Warningf (''could not write job summary: '' @ e) r
           | None \<Rightarrow> r\<lparr>sum_file := Some (text @ md @ [CHR 0x0A])\<rparr>))"

fun SetOutputs :: "(string \<times> string) list \<Rightarrow> runner \<Rightarrow> runner option" where
  "SetOutputs [] r = Some r"
| "SetOutputs ((nm, v) # rest) r = Option.bind (SetOutput nm v r) (SetOutputs rest)"

section \<open>One call, one line\<close>

definition one_line :: "string \<Rightarrow> bool" where
  "one_line s \<longleftrightarrow> CHR 0x0A \<notin> set s \<and> CHR 0x0D \<notin> set s"

lemma escape_one_line [simp]: "one_line (escapeData s)"
  by (auto simp: one_line_def escapeData_def escape_byte_def split: if_splits)

lemma sanitize_one_line [simp]: "one_line (sanitizeLine s)"
  by (auto simp: one_line_def sanitizeLine_def)

lemma one_line_append [simp]: "one_line (a @ b) \<longleftrightarrow> one_line a \<and> one_line b"
  by (auto simp: one_line_def)

lemma logged_one_line:
  "\<exists>l. one_line l \<and> log_text (Infof msg r) = log_text r @ l @ [CHR 0x0A]"
  "\<exists>l. one_line l \<and> log_text (Warningf msg r) = log_text r @ (''::warning::'' @ l) @ [CHR 0x0A]"
  "\<exists>l. one_line l \<and> log_text (Errorf msg r) = log_text r @ (''::error::'' @ l) @ [CHR 0x0A]"
  "\<exists>l. one_line l \<and> log_text (Group msg r) = log_text r @ (''::group::'' @ l) @ [CHR 0x0A]"
  unfolding Infof_def Warningf_def Errorf_def Group_def println_def
  using escape_one_line sanitize_one_line by fastforce+

text \<open>Escaping is undone by reading the three codes back.\<close>

fun unescape :: "string \<Rightarrow> string" where
  "unescape [] = []"
| "unescape (c # s) =
     (if c \<noteq> CHR ''%'' then c # unescape s
      else if take 2 s = ''25'' then CHR ''%'' # unescape (drop 2 s)
      else if take 2 s = ''0D'' then CHR 0x0D # unescape (drop 2 s)
      else if take 2 s = ''0A'' then CHR 0x0A # unescape (drop 2 s)
      else c # unescape s)"

lemma unescape_escape: "unescape (escapeData s) = s"
  by (induction s) (simp_all add: escapeData_def escape_byte_def)

section \<open>Reading the outputs back\<close>

text \<open>The name and the delimiter of a line \<open>name<<delimiter\<close>.\<close>

fun open_heredoc :: "string \<Rightarrow> (string \<times> string) option" where
  "open_heredoc (c # d # s) =
     (if c = CHR ''<'' \<and> d = CHR ''<'' then Some ([], s)
      else map_option (\<lambda>(n, e). (c # n, e)) (open_heredoc (d # s)))"
| "open_heredoc _ = None"

fun until_line :: "string \<Rightarrow> string list \<Rightarrow> (string list \<times> string list) option" where
  "until_line delim [] = None"
| "until_line delim (l # ls) =
     (if l = delim then Some ([], ls) else map_option (\<lambda>(v, r). (l # v, r)) (until_line delim ls))"

lemma until_line_shorter: "until_line delim ls = Some (v, r) \<Longrightarrow> length r < length ls"
  by (induction ls arbitrary: v) (auto split: if_splits)

function read_outputs :: "string list \<Rightarrow> (string \<times> string) list option" where
  "read_outputs [] = Some []"
| "read_outputs (l # ls) =
     (if l = [] then read_outputs ls
      else
        (case open_heredoc l of
           None \<Rightarrow> None
         | Some (nm, delim) \<Rightarrow>
             (case until_line delim ls of
                None \<Rightarrow> None
              | Some (v, r) \<Rightarrow> map_option (\<lambda>os. (nm, join_with (CHR 0x0A) v) # os) (read_outputs r))))"
  by pat_completeness auto
termination
  by (relation "measure length") (auto dest: until_line_shorter)

definition outputs_of :: "string \<Rightarrow> (string \<times> string) list option" where
  "outputs_of text = read_outputs (split_on (CHR 0x0A) text)"

section \<open>What is written is read back\<close>

definition output_name :: "string \<Rightarrow> bool" where
  "output_name nm \<longleftrightarrow> nm \<noteq> [] \<and> CHR ''<'' \<notin> set nm \<and> CHR 0x0A \<notin> set nm"

lemma open_heredoc_name: "CHR ''<'' \<notin> set nm \<Longrightarrow> open_heredoc (nm @ ''<<'' @ delim) = Some (nm, delim)"
proof (induction nm)
  case (Cons c nm)
  then show ?case by (cases nm) auto
qed simp

lemma join_with_part: "x \<in> set xs \<Longrightarrow> sublist x (join_with c xs)"
proof (induction xs)
  case (Cons y ys)
  show ?case
  proof (cases "ys = []")
    case True
    with Cons.prems show ?thesis by simp
  next
    case False
    have j: "join_with c (y # ys) = (y @ [c]) @ join_with c ys" using join_with_Cons [OF False] by simp
    show ?thesis
    proof (cases "x = y")
      case True
      then show ?thesis unfolding j by (metis append.assoc sublist_appendI append_Nil)
    next
      case False
      with Cons have "sublist x (join_with c ys)" by simp
      then show ?thesis unfolding j by (metis append.assoc sublist_def)
    qed
  qed
qed simp

lemma split_on_sublist: "x \<in> set (split_on c s) \<Longrightarrow> sublist x s"
  using join_with_part [of x "split_on c s" c] by simp

lemma until_line_hit: "delim \<notin> set ls \<Longrightarrow> until_line delim (ls @ delim # r) = Some (ls, r)"
  by (induction ls) auto

lemma hex_digit_range: "n < 16 \<Longrightarrow> hex_digit n \<in> set ''0123456789abcdef''"
  unfolding hex_digit_def by (rule nth_mem) simp

lemma delimiter_plain: "CHR 0x0A \<notin> set (randomDelimiter b)" "randomDelimiter b \<noteq> []"
proof -
  have "c \<noteq> CHR 0x0A" if "c \<in> set (hex_bytes b)" for c
  proof -
    have "\<exists>d. c = hex_digit (of_char (d :: char) div 16) \<or> c = hex_digit (of_char d mod 16)"
      using that by (auto simp: hex_bytes_def)
    then obtain d where d: "c = hex_digit (of_char (d :: char) div 16) \<or> c = hex_digit (of_char d mod 16)" by blast
    have "(of_char d :: nat) < 256" using range_nat_of_char by auto
    then have "(of_char d :: nat) div 16 < 16" "(of_char d :: nat) mod 16 < 16"
      by (simp_all add: less_mult_imp_div_less)
    with d hex_digit_range show ?thesis by fastforce
  qed
  then show "CHR 0x0A \<notin> set (randomDelimiter b)" by (auto simp: randomDelimiter_def)
qed (simp add: randomDelimiter_def)

lemma read_heredoc:
  assumes "output_name nm" "delim = randomDelimiter b" "\<not> sublist delim v"
  shows "outputs_of (heredoc nm v delim @ rest) = map_option ((#) (nm, v)) (outputs_of rest)"
proof -
  have nl: "CHR 0x0A \<notin> set (nm @ ''<<'' @ delim)" "CHR 0x0A \<notin> set delim"
    using assms(1,2) delimiter_plain by (auto simp: output_name_def)
  have "heredoc nm v delim @ rest =
      (nm @ ''<<'' @ delim) @ CHR 0x0A # (v @ CHR 0x0A # (delim @ CHR 0x0A # rest))"
    by (simp add: heredoc_def)
  then have lines: "split_on (CHR 0x0A) (heredoc nm v delim @ rest) =
      (nm @ ''<<'' @ delim) # split_on (CHR 0x0A) v @ delim # split_on (CHR 0x0A) rest"
    using split_on_free [OF nl(1)] split_on_free [OF nl(2)] by (simp only: split_on_append_sep) simp
  have "delim \<notin> set (split_on (CHR 0x0A) v)" using split_on_sublist assms(3) by blast
  note u = until_line_hit [OF this]
  have o: "open_heredoc (nm @ ''<<'' @ delim) = Some (nm, delim)"
    using assms(1) by (intro open_heredoc_name) (simp add: output_name_def)
  have ne: "nm @ ''<<'' @ delim \<noteq> []" by simp
  show ?thesis unfolding outputs_of_def lines
    by (simp only: read_outputs.simps(2) ne if_False o u option.case prod.case join_split)
qed

lemma pick_delimiter_draws:
  assumes "pick_delimiter ds n v = Some p"
  shows "(\<exists>k. fst p = randomDelimiter (ds k)) \<and> \<not> sublist (fst p) v"
  using assms
proof (rule pick_delimiter.raw_induct
    [where P = "\<lambda>ds n v p. (\<exists>k. fst p = randomDelimiter (ds k)) \<and> \<not> sublist (fst p) v", rotated])
  fix pick :: "(nat \<Rightarrow> string) \<Rightarrow> nat \<Rightarrow> string \<Rightarrow> (string \<times> nat) option" and ds n v p
  assume "\<And>ds n v p. pick ds n v = Some p \<Longrightarrow> (\<exists>k. fst p = randomDelimiter (ds k)) \<and> \<not> sublist (fst p) v"
    and "(if sublist (randomDelimiter (ds n)) v then pick ds (Suc n) v
      else Some (randomDelimiter (ds n), Suc n)) = Some p"
  then show "(\<exists>k. fst p = randomDelimiter (ds k)) \<and> \<not> sublist (fst p) v"
    by (cases "sublist (randomDelimiter (ds n)) v") auto
qed

lemma short_value_first_draw:
  assumes "length (ds n) = 16" "length v < 45"
  shows "pick_delimiter ds n v = Some (randomDelimiter (ds n), Suc n)"
proof -
  have "length (hex_bytes b) = 2 * length b" for b
    by (induction b) (simp_all add: hex_bytes_def)
  then have "length (randomDelimiter (ds n)) = 45" using assms(1) by (simp add: randomDelimiter_def)
  then have "\<not> sublist (randomDelimiter (ds n)) v" using assms(2) sublist_length_le by fastforce
  then show ?thesis by (subst pick_delimiter.simps) simp
qed

definition writes_outputs :: "runner \<Rightarrow> bool" where
  "writes_outputs r \<longleftrightarrow> out_file r \<noteq> None \<and> out_fail r = None \<and> (\<forall>n. length (draws r n) = 16)"

text \<open>The file a sequence of outputs leaves, as the blocks it appends.\<close>

lemma SetOutputs_blocks:
  assumes "list_all (\<lambda>(nm, v). output_name nm \<and> length v < 45) os" "writes_outputs r" "out_file r = Some t"
  shows "\<exists>r' bs. SetOutputs os r = Some r' \<and> out_file r' = Some (t @ bs) \<and>
    (\<forall>rest. outputs_of (bs @ rest) = map_option ((@) os) (outputs_of rest)) \<and>
    log_text r' = log_text r \<and> sum_file r' = sum_file r \<and> sum_fail r' = sum_fail r"
  using assms
proof (induction os arbitrary: r t)
  case Nil
  have "(@) [] = (\<lambda>os. os :: (string \<times> string) list)" by auto
  with Nil show ?case by (simp add: option.map_ident)
next
  case (Cons x os)
  obtain nm v where x: "x = (nm, v)" by (cases x)
  have nm: "output_name nm" "length v < 45" using Cons.prems(1) x by auto
  let ?d = "randomDelimiter (draws r (drawn r))"
  have pick: "pick_delimiter (draws r) (drawn r) v = Some (?d, Suc (drawn r))"
    by (rule short_value_first_draw [OF _ nm(2)]) (use Cons.prems(2) in \<open>simp add: writes_outputs_def\<close>)
  let ?r1 = "r\<lparr>out_file := Some (t @ heredoc nm v ?d), drawn := Suc (drawn r)\<rparr>"
  have s: "SetOutput nm v r = Some ?r1"
    using Cons.prems(2,3) by (simp add: SetOutput_def writes_outputs_def pick)
  have "writes_outputs ?r1" using Cons.prems(2) by (simp add: writes_outputs_def)
  with Cons.IH [of ?r1 "t @ heredoc nm v ?d"] Cons.prems(1) obtain r' bs where
    r': "SetOutputs os ?r1 = Some r'" "out_file r' = Some ((t @ heredoc nm v ?d) @ bs)"
      "\<forall>rest. outputs_of (bs @ rest) = map_option ((@) os) (outputs_of rest)"
      "log_text r' = log_text r" "sum_file r' = sum_file r" "sum_fail r' = sum_fail r" by auto
  have nd: "\<not> sublist ?d v" using pick_delimiter_draws [OF pick] by simp
  have eta: "(@) ((nm, v) # os) = (\<lambda>x. (nm, v) # os @ x)" by auto
  have "outputs_of ((heredoc nm v ?d @ bs) @ rest) = map_option ((@) (x # os)) (outputs_of rest)" for rest
    using read_heredoc [OF nm(1) refl nd, of "bs @ rest"] r'(3) by (simp add: x eta option.map_comp comp_def)
  with r' s show ?case by (auto simp: x eta intro!: exI [of _ "heredoc nm v ?d @ bs"])
qed

end
