(* ===== verification/Autotune.thy ===== *)
theory Autotune
  imports Go_Float "HOL-Library.Multiset"
begin

text \<open>
  The transport policy (\<open>internal/autotune/autotune.go\<close>): what a run knows about its work and its
  link, and the connections, workers and requests per file it resolves from them. Loops that the
  wrap-around of \<open>int\<close> could keep going are partial functions, so that the policy returning at all
  is a theorem.
\<close>

section \<open>Constants\<close>

definition MaxConnections :: int where "MaxConnections = 8"
definition MaxConcurrency :: int where "MaxConcurrency = 64"
definition MinRequestConcurrency :: int where "MinRequestConcurrency = 16"
definition MaxRequestConcurrency :: int where "MaxRequestConcurrency = 64"
definition packetBytes :: int where "packetBytes = 32 * 1024"
definition maxInFlightPackets :: int where "maxInFlightPackets = 1024"
definition uploadRoundTrips :: int where "uploadRoundTrips = 4"
definition uploadsInFlightPerConnection :: int where "uploadsInFlightPerConnection = 4"
definition probesInFlightPerConnection :: int where "probesInFlightPerConnection = 16"
definition bdpSafetyFactor :: int where "bdpSafetyFactor = 4"
definition tailShare :: float64 where "tailShare = rnd (1 / 10)"
definition assumedStreamBytesPerSecond :: float64 where
  "assumedStreamBytesPerSecond = Fin (360 * 1024)"
definition Millisecond :: int where "Millisecond = 1000000"
definition Second :: int where "Second = 1000 * Millisecond"
definition fallbackRTT :: int where "fallbackRTT = 25 * Millisecond"
definition fallbackHandshake :: int where "fallbackHandshake = 300 * Millisecond"

lemmas policy_constants =
  MaxConnections_def MaxConcurrency_def MinRequestConcurrency_def MaxRequestConcurrency_def
  packetBytes_def maxInFlightPackets_def uploadRoundTrips_def uploadsInFlightPerConnection_def
  probesInFlightPerConnection_def bdpSafetyFactor_def

section \<open>The workload\<close>

record Workload =
  Uploads :: int
  UploadBytes :: int
  LargestUpload :: int
  P50Upload :: int
  P90Upload :: int
  SmallUploads :: int
  Probes :: int
  Unknown :: bool

definition no_workload :: Workload where
  "no_workload =
     \<lparr>Uploads = 0, UploadBytes = 0, LargestUpload = 0, P50Upload = 0, P90Upload = 0,
      SmallUploads = 0, Probes = 0, Unknown = False\<rparr>"

definition percentile :: "int list \<Rightarrow> float64 \<Rightarrow> int" where
  "percentile sizes q =
     (if sizes = [] then 0
      else
        let rank = to_int64 (fceil (fmul q (of_int64 (int (length sizes))))) in
        sizes ! nat (min (max rank 1) (int (length sizes)) - 1))"

text \<open>The accumulating loop of \<open>SummarizeUploads\<close>: the clamped sizes, their sum and the counts.\<close>

fun summarize :: "int list \<Rightarrow> int list \<times> Workload \<Rightarrow> int list \<times> Workload" where
  "summarize [] acc = acc"
| "summarize (n # sizes) (kept, w) =
     (let n = max n 0 in
      summarize sizes
        (kept @ [n],
         w\<lparr>Uploads := Uploads w + 1, UploadBytes := i64 (UploadBytes w + n),
           SmallUploads := (if n \<le> packetBytes then SmallUploads w + 1 else SmallUploads w)\<rparr>))"

definition SummarizeUploads :: "int list \<Rightarrow> Workload" where
  "SummarizeUploads sizes =
     (if sizes = [] then no_workload
      else
        case summarize sizes ([], no_workload) of (kept, w) \<Rightarrow>
          let asc = sort kept in
          w\<lparr>LargestUpload := asc ! (length asc - 1),
            P50Upload := percentile asc (rnd (1 / 2)),
            P90Upload := percentile asc (rnd (9 / 10))\<rparr>)"

definition Items :: "Workload \<Rightarrow> int" where
  "Items w = max (Uploads w) (Probes w)"

definition Empty :: "Workload \<Rightarrow> bool" where
  "Empty w \<longleftrightarrow> Uploads w = 0 \<and> Probes w = 0"

section \<open>The link\<close>

datatype Source = SourcePrior | SourceCached | SourceRuntime

text \<open>Evidence is ranked as declared: new evidence outranks old evidence.\<close>

fun evidence :: "Source \<Rightarrow> nat" where
  "evidence SourcePrior = 0"
| "evidence SourceCached = 1"
| "evidence SourceRuntime = 2"

instantiation Source :: linorder
begin

definition less_eq_Source :: "Source \<Rightarrow> Source \<Rightarrow> bool" where
  "less_eq_Source a b \<longleftrightarrow> evidence a \<le> evidence b"

definition less_Source :: "Source \<Rightarrow> Source \<Rightarrow> bool" where
  "less_Source a b \<longleftrightarrow> evidence a < evidence b"

instance
proof
  fix a b :: Source
  show "a \<le> b \<Longrightarrow> b \<le> a \<Longrightarrow> a = b"
    by (cases a; cases b) (simp_all add: less_eq_Source_def)
qed (auto simp: less_eq_Source_def less_Source_def)

end

record Link =
  RTT :: int
  Handshake :: int
  StreamBytesPerSecond :: float64
  ThroughputSource :: Source

definition rtt :: "Link \<Rightarrow> int" where
  "rtt l = (if RTT l > 0 then RTT l else fallbackRTT)"

definition handshake :: "Link \<Rightarrow> int" where
  "handshake l = (if Handshake l > 0 then Handshake l else fallbackHandshake)"

definition Measured :: "Link \<Rightarrow> bool" where
  "Measured l \<longleftrightarrow> fless fzero (StreamBytesPerSecond l)"

definition streamBytesPerSecond :: "Link \<Rightarrow> float64" where
  "streamBytesPerSecond l =
     (if fless fzero (StreamBytesPerSecond l) then StreamBytesPerSecond l
      else assumedStreamBytesPerSecond)"

definition link_source :: "Link \<Rightarrow> Source" where
  "link_source l =
     (if \<not> Measured l then SourcePrior
      else if ThroughputSource l = SourcePrior then SourceRuntime
      else ThroughputSource l)"

lemma link_source_evidence: "Measured l \<longleftrightarrow> SourcePrior < link_source l"
  by (cases "ThroughputSource l") (simp_all add: link_source_def less_Source_def)

definition unmeasured :: Link where
  "unmeasured =
     \<lparr>RTT = 0, Handshake = 0, StreamBytesPerSecond = Fin 0, ThroughputSource = SourcePrior\<rparr>"

text \<open>\<open>time.Duration.Seconds\<close>: the whole seconds, and the rest divided by a billion.\<close>

definition seconds :: "int \<Rightarrow> float64" where
  "seconds d = fadd (of_int64 (d sdiv Second)) (fdiv (of_int64 (d smod Second)) (Fin 1000000000))"

definition BDPBytes :: "Link \<Rightarrow> int" where
  "BDPBytes l = to_int64 (fmul (streamBytesPerSecond l) (seconds (rtt l)))"

section \<open>Pins and settings\<close>

record Fixed =
  Connections :: int
  Concurrency :: int
  RequestConcurrency :: int

text \<open>Nothing pinned, and a pinned pool: configurations the examples use.\<close>

definition unpinned :: Fixed where
  "unpinned = \<lparr>Connections = 0, Concurrency = 0, RequestConcurrency = 0\<rparr>"

definition pinned_pool :: "int \<Rightarrow> Fixed" where
  "pinned_pool n = unpinned\<lparr>Connections := n\<rparr>"

definition Any :: "Fixed \<Rightarrow> bool" where
  "Any f \<longleftrightarrow> Connections f > 0 \<or> Concurrency f > 0 \<or> RequestConcurrency f > 0"

definition All :: "Fixed \<Rightarrow> bool" where
  "All f \<longleftrightarrow> Connections f > 0 \<and> Concurrency f > 0 \<and> RequestConcurrency f > 0"

record Settings =
  Connections :: int
  Concurrency :: int
  RequestConcurrency :: int

section \<open>The plan\<close>

definition planConcurrency :: "Workload \<Rightarrow> int" where
  "planConcurrency w = (let items = Items w in if items < 1 then 1 else min items MaxConcurrency)"

definition packetsFor :: "int \<Rightarrow> int" where
  "packetsFor bytes =
     (if bytes \<le> 0 then 1
      else min (i64 (bytes + packetBytes - 1) sdiv packetBytes) MaxRequestConcurrency)"

text \<open>
  \<open>quantize\<close>: \<open>p\<close> doubles while it stays at or below \<open>n\<close>. For \<open>n\<close> from \<open>2 ^ 62\<close> on the doubling
  wraps around and never passes \<open>n\<close>.
\<close>

partial_function (option) quantize_loop :: "int \<Rightarrow> int \<Rightarrow> int option" where
  "quantize_loop n p = (if i64 (p * 2) \<le> n then quantize_loop n (i64 (p * 2)) else Some p)"

declare quantize_loop.simps [code]

definition quantize :: "int \<Rightarrow> int option" where
  "quantize n = (if n < 1 then Some 1 else quantize_loop n 1)"

definition inFlightPackets :: "Workload \<Rightarrow> int \<Rightarrow> int \<Rightarrow> int" where
  "inFlightPackets w concurrency requests =
     (let workers = of_int64 (max concurrency 1);
          tail = fmul workers tailShare;
          body = fsub workers tail;
          perFile =
            (if P90Upload w > 0 then of_int64 (min (packetsFor (P90Upload w)) requests)
             else of_int64 (min (packetsFor (LargestUpload w)) requests)) in
      to_int64 (fceil (fadd (fmul body perFile) (fmul tail (of_int64 requests)))))"

partial_function (option) shrink_requests :: "Workload \<Rightarrow> int \<Rightarrow> int \<Rightarrow> int option" where
  "shrink_requests w concurrency want =
     (if want > MinRequestConcurrency \<and> inFlightPackets w concurrency want > maxInFlightPackets
      then Option.bind (quantize (want sdiv 2)) (shrink_requests w concurrency)
      else Some want)"

declare shrink_requests.simps [code]

definition wanted_requests :: "Workload \<Rightarrow> Link \<Rightarrow> int" where
  "wanted_requests w l =
     (let file = packetsFor (LargestUpload w) in
      if Measured l then
        let bdp = min (i64 (i64 (bdpSafetyFactor * BDPBytes l) + packetBytes - 1) sdiv packetBytes)
                    MaxRequestConcurrency in
        min (max bdp MinRequestConcurrency) (max file MinRequestConcurrency)
      else max file MinRequestConcurrency)"

definition planRequestConcurrency :: "Workload \<Rightarrow> Link \<Rightarrow> int \<Rightarrow> int option" where
  "planRequestConcurrency w l concurrency =
     Option.bind (quantize (wanted_requests w l)) (\<lambda>want.
       map_option (\<lambda>want. min want MaxRequestConcurrency) (shrink_requests w concurrency want))"

definition SingleConnectionEstimate :: "Workload \<Rightarrow> Link \<Rightarrow> int \<Rightarrow> int" where
  "SingleConnectionEstimate w l concurrency =
     (let r = rtt l;
          workers = max concurrency 1;
          t1 =
            (if Uploads w > 0
             then i64 (0 + i64 (i64 (Uploads w * uploadRoundTrips) * r) sdiv
                         min workers uploadsInFlightPerConnection)
             else 0);
          t2 =
            (if Probes w > 0
             then i64 (t1 + i64 (Probes w * r) sdiv min workers probesInFlightPerConnection)
             else t1) in
      if UploadBytes w > 0
      then i64 (t2 + to_int64 (fmul (fdiv (of_int64 (UploadBytes w)) (streamBytesPerSecond l))
                                 (of_int64 Second)))
      else t2)"

definition planConnections :: "Workload \<Rightarrow> Link \<Rightarrow> int \<Rightarrow> int" where
  "planConnections w l concurrency =
     (if Uploads w \<le> 1 then 1
      else
        let work = SingleConnectionEstimate w l concurrency; hs = handshake l in
        if work \<le> 0 \<or> hs \<le> 0 then 1
        else
          let k = to_int64 (fround (fsqrt (fdiv (of_int64 work) (of_int64 hs)))) in
          min (min (min (max k 1) MaxConnections) (Uploads w)) concurrency)"

definition Plan :: "Workload \<Rightarrow> Link \<Rightarrow> Fixed \<Rightarrow> Settings option" where
  "Plan w l f =
     (let conc = (if Fixed.Concurrency f = 0 then planConcurrency w else Fixed.Concurrency f) in
      Option.bind
        (if Fixed.RequestConcurrency f = 0 then planRequestConcurrency w l conc
         else Some (Fixed.RequestConcurrency f))
        (\<lambda>req. Some
           \<lparr>Connections =
              (if Fixed.Connections f = 0 then planConnections w l conc else Fixed.Connections f),
            Concurrency = conc, RequestConcurrency = req\<rparr>))"

section \<open>Logging\<close>

definition pinned_names :: "Fixed \<Rightarrow> string list" where
  "pinned_names f =
     (if Fixed.Connections f > 0 then [''connections''] else []) @
     (if Fixed.Concurrency f > 0 then [''concurrency''] else []) @
     (if Fixed.RequestConcurrency f > 0 then [''request_concurrency''] else [])"

text \<open>
  \<open>humanBytes\<close> scales a byte count to a unit: the divisor, and the index the code looks up in
  \<open>KMGTPE\<close>. Only the formatting of the quotient is left out.
\<close>

function human_scale :: "int \<Rightarrow> int \<Rightarrow> int \<Rightarrow> int \<times> int" where
  "human_scale m dv ex =
     (if m \<ge> 1024 then human_scale (m sdiv 1024) (i64 (dv * 1024)) (ex + 1) else (dv, ex))"
  by auto
termination
proof (relation "measure (\<lambda>(m, _, _). nat m)", goal_cases)
  case (2 m dv ex)
  then have "m sdiv 1024 = m div 1024" by (simp add: signed_divide_int_def)
  with 2 show ?case by simp
qed simp

declare human_scale.simps [simp del]

datatype human = Plain int | Scaled int char

definition humanBytes :: "int \<Rightarrow> human option" where
  "humanBytes n =
     (if n < 1024 then Some (Plain n)
      else
        case human_scale (n sdiv 1024) 1024 0 of (d, e) \<Rightarrow>
          if 0 \<le> e \<and> e < int (length ''KMGTPE'') then Some (Scaled d (''KMGTPE'' ! nat e)) else None)"

section \<open>The loops end\<close>

lemma sdiv_pos: "0 \<le> a \<Longrightarrow> 0 < b \<Longrightarrow> a sdiv b = a div b" for a b :: int
  by (simp add: signed_divide_int_def sgn_if)

lemma quantize_loop_spec:
  "1 \<le> p \<Longrightarrow> p \<le> n \<Longrightarrow> n < 2 ^ 62 \<Longrightarrow>
     \<exists>k. quantize_loop n p = Some (p * 2 ^ k) \<and> p * 2 ^ k \<le> n \<and> n < 2 * (p * 2 ^ k)"
proof (induction "nat (n - p)" arbitrary: p rule: less_induct)
  case less
  have w: "i64 (p * 2) = p * 2" by (rule i64_id) (use less.prems in simp_all)
  show ?case
  proof (cases "p * 2 \<le> n")
    case True
    then obtain k where "quantize_loop n (p * 2) = Some (p * 2 * 2 ^ k)"
        "p * 2 * 2 ^ k \<le> n" "n < 2 * (p * 2 * 2 ^ k)"
      using less.hyps [of "p * 2"] less.prems by auto
    with True show ?thesis
      by (intro exI [of _ "Suc k"]) (simp add: quantize_loop.simps [of n p] w ac_simps)
  next
    case False
    with less.prems show ?thesis
      by (intro exI [of _ 0]) (simp add: quantize_loop.simps [of n p] w)
  qed
qed

lemma quantize_spec:
  assumes "1 \<le> n" "n < 2 ^ 62"
  shows "\<exists>k. quantize n = Some (2 ^ k) \<and> 2 ^ k \<le> n \<and> n < 2 * 2 ^ k"
  using quantize_loop_spec [of 1 n] assms by (simp add: quantize_def)

text \<open>Past \<open>2 ^ 62\<close> the doubling wraps to zero and the loop of \<open>quantize\<close> never ends.\<close>

lemma quantize_loop_never_zero:
  assumes "quantize_loop n p = Some y"
  shows "0 \<le> n \<longrightarrow> p \<noteq> 0"
proof (rule quantize_loop.raw_induct [where P = "\<lambda>n p y. 0 \<le> n \<longrightarrow> p \<noteq> 0", OF _ assms], goal_cases)
  case (1 rec n p y)
  then show ?case by (cases "p = 0") (auto simp: i64_def split: if_splits)
qed

lemma quantize_loop_zero: "0 \<le> n \<Longrightarrow> quantize_loop n 0 = None"
  using quantize_loop_never_zero [of n 0] by (cases "quantize_loop n 0") auto

lemma quantize_loop_diverges:
  assumes "2 ^ 62 \<le> n" "k \<le> 62"
  shows "quantize_loop n (2 ^ k) = None"
  using assms(2)
proof (induction rule: inc_induct)
  case base
  have "i64 (2 ^ 62 * 2) = MinInt64" "i64 (MinInt64 * 2) = 0" by (simp_all add: i64_def)
  then show ?case
    using assms(1) quantize_loop_zero [of n]
    by (simp add: quantize_loop.simps [of n "4611686018427387904"] quantize_loop.simps [of n MinInt64])
next
  case (step k)
  have le: "(2 :: int) ^ Suc k \<le> 2 ^ 62" using step.hyps by (intro power_increasing) simp_all
  have "0 \<le> (2 :: int) ^ Suc k" by (rule zero_le_power) simp
  then have "i64 x = x" if "0 \<le> x" "x \<le> 2 ^ 62" for x using that by (intro i64_id) simp_all
  from this [OF \<open>0 \<le> 2 ^ Suc k\<close> le] have "i64 (2 ^ Suc k) = 2 ^ Suc k" .
  then have "i64 (2 ^ k * 2) = 2 ^ Suc k" by (simp add: mult.commute)
  then show ?case using step.IH le assms(1) by (simp add: quantize_loop.simps [of n "2 ^ k"])
qed

lemma quantize_returns_iff: "quantize n \<noteq> None \<longleftrightarrow> n < 2 ^ 62"
  using quantize_loop_diverges [of n 0] quantize_spec [of n]
  by (cases "1 \<le> n"; cases "n < 2 ^ 62") (auto simp: quantize_def)

lemma quantize_depth:
  assumes "16 \<le> n" "n \<le> 64"
  obtains r where "quantize n = Some r" "r \<in> {16, 32, 64}" "r \<le> n"
proof -
  obtain k where k: "quantize n = Some (2 ^ k)" "2 ^ k \<le> n" "n < 2 * 2 ^ k"
    using quantize_spec [of n] assms by auto
  have "\<not> 7 \<le> k" "\<not> k \<le> 3"
    using power_increasing [of 7 k "2 :: int"] power_increasing [of k 3 "2 :: int"] k assms by auto
  then have "k \<in> {4, 5, 6}" by auto
  with k show thesis by (intro that [of "2 ^ k"]) auto
qed

lemma packetsFor_le: "packetsFor bytes \<le> MaxRequestConcurrency"
  by (simp add: packetsFor_def policy_constants)

lemma wanted_requests_bounds: "16 \<le> wanted_requests w l" "wanted_requests w l \<le> 64"
  using packetsFor_le [of "LargestUpload w"]
  by (auto simp: wanted_requests_def Let_def policy_constants)

lemma shrink_requests_spec:
  assumes "want \<in> {16, 32, 64}"
  shows "\<exists>r. shrink_requests w conc want = Some r \<and> r \<in> {16, 32, 64} \<and> r \<le> want \<and>
           (r = 16 \<or> inFlightPackets w conc r \<le> maxInFlightPackets)"
proof -
  note unf = shrink_requests.simps [of w conc]
  have q: "quantize 16 = Some 16" "quantize 32 = Some 32"
    by (simp_all add: quantize_def quantize_loop.simps i64_def)
  have 16: "shrink_requests w conc 16 = Some 16"
    by (simp add: unf [of 16] MinRequestConcurrency_def)
  have 32: "shrink_requests w conc 32 =
      (if inFlightPackets w conc 32 > maxInFlightPackets then Some 16 else Some 32)"
    by (simp add: unf [of 32] MinRequestConcurrency_def sdiv_pos q 16)
  have 64: "shrink_requests w conc 64 =
      (if inFlightPackets w conc 64 > maxInFlightPackets then shrink_requests w conc 32 else Some 64)"
    by (simp add: unf [of 64] MinRequestConcurrency_def sdiv_pos q)
  show ?thesis using assms by (auto simp: 16 32 64)
qed

lemma planRequestConcurrency_spec:
  "\<exists>r. planRequestConcurrency w l conc = Some r \<and> r \<in> {16, 32, 64} \<and>
      (r = 16 \<or> inFlightPackets w conc r \<le> maxInFlightPackets)"
proof -
  obtain q where q: "quantize (wanted_requests w l) = Some q" "q \<in> {16, 32, 64}"
    using quantize_depth [of "wanted_requests w l"] wanted_requests_bounds [of w l] by metis
  obtain r where r: "shrink_requests w conc q = Some r" "r \<in> {16, 32, 64}"
      "r = 16 \<or> inFlightPackets w conc r \<le> maxInFlightPackets"
    using shrink_requests_spec [OF q(2), of w conc] by auto
  have "min r MaxRequestConcurrency = r" using r(2) by (auto simp: MaxRequestConcurrency_def)
  then show ?thesis
    using r(2,3) by (intro exI [of _ r]) (simp add: planRequestConcurrency_def q(1) r(1))
qed

lemma planConcurrency_bounds:
  "1 \<le> planConcurrency w" "planConcurrency w \<le> MaxConcurrency" "planConcurrency w \<le> max 1 (Items w)"
  by (simp_all add: planConcurrency_def Let_def MaxConcurrency_def)

lemma planConnections_bounds:
  "1 \<le> conc \<Longrightarrow> 1 \<le> planConnections w l conc"
  "planConnections w l conc \<le> MaxConnections"
  "planConnections w l conc \<le> max 1 (Uploads w)"
  "1 \<le> conc \<Longrightarrow> planConnections w l conc \<le> conc"
  by (auto simp: planConnections_def Let_def MaxConnections_def min_le_iff_disj)

text \<open>What a resolved configuration promises: pins pass untouched, the rest stays in its range.\<close>

definition resolves :: "Workload \<Rightarrow> Fixed \<Rightarrow> Settings \<Rightarrow> bool" where
  "resolves w f s \<longleftrightarrow>
     (if Fixed.Concurrency f = 0
      then 1 \<le> Concurrency s \<and> Concurrency s \<le> MaxConcurrency \<and> Concurrency s \<le> max 1 (Items w)
      else Concurrency s = Fixed.Concurrency f) \<and>
     (if Fixed.RequestConcurrency f = 0 then RequestConcurrency s \<in> {16, 32, 64}
      else RequestConcurrency s = Fixed.RequestConcurrency f) \<and>
     (if Fixed.Connections f = 0
      then 1 \<le> Connections s \<and> Connections s \<le> MaxConnections \<and>
           Connections s \<le> max 1 (Uploads w) \<and> Connections s \<le> Concurrency s
      else Connections s = Fixed.Connections f)"

lemma Plan_cases:
  obtains c r k where
    "Plan w l f = Some \<lparr>Connections = k, Concurrency = c, RequestConcurrency = r\<rparr>"
    "c = (if Fixed.Concurrency f = 0 then planConcurrency w else Fixed.Concurrency f)"
    "k = (if Fixed.Connections f = 0 then planConnections w l c else Fixed.Connections f)"
    "if Fixed.RequestConcurrency f = 0
     then r \<in> {16, 32, 64} \<and> (r = 16 \<or> inFlightPackets w c r \<le> maxInFlightPackets)
     else r = Fixed.RequestConcurrency f"
proof -
  let ?c = "if Fixed.Concurrency f = 0 then planConcurrency w else Fixed.Concurrency f"
  obtain r where r: "planRequestConcurrency w l ?c = Some r" "r \<in> {16, 32, 64}"
      "r = 16 \<or> inFlightPackets w ?c r \<le> maxInFlightPackets"
    using planRequestConcurrency_spec by metis
  show thesis
    by (rule that [where c = ?c and r = "if Fixed.RequestConcurrency f = 0 then r else Fixed.RequestConcurrency f"])
      (use r in \<open>simp_all add: Plan_def Let_def\<close>)
qed

section \<open>The memory budget\<close>

text \<open>
  At the floor of 16 requests the in-flight bound of at most 64 workers is at most the budget, and
  the rounding of the floating-point sum does not push it over: below 64 workers the slack is
  sixteen packets, and at 64 the rounded sum is exactly 1024.
\<close>

lemma tailShare_value: "tailShare = Fin (3602879701896397 / 36028797018963968)"
  unfolding tailShare_def
  by (subst rnd_eqI [where e = "-56" and m = 7205759403792794]) (simp_all add: pow2_def)

lemma in_flight_core:
  assumes "rnd (16 * \<beta>) = Fin b" "rnd (16 * \<tau>) = Fin t" "rnd (b + t) = Fin s" "s \<le> 1024"
    "0 \<le> \<beta>" "\<beta> \<le> 64" "0 \<le> \<tau>" "\<tau> \<le> 64" "p \<le> 16" "- (2 ^ 50) \<le> p"
  shows "to_int64 (fceil (fadd (fmul (Fin \<beta>) (Fin (of_int p))) (fmul (Fin \<tau>) (Fin 16)))) \<le> 1024"
proof -
  have "\<beta> * of_int p \<le> \<beta> * 16" by (rule mult_left_mono) (use assms in auto)
  then have up: "\<beta> * of_int p \<le> 16 * \<beta>" by simp
  have "\<bar>\<beta> * of_int p\<bar> \<le> 64 * 2 ^ 50"
    unfolding abs_mult by (rule mult_mono) (use assms in \<open>auto simp: abs_le_iff\<close>)
  also have "\<dots> < pow2 60" by (simp add: pow2_def)
  finally obtain a where a: "rnd (\<beta> * of_int p) = Fin a" "\<bar>a\<bar> \<le> pow2 61"
    by (rule rnd_finite [of _ 60]) simp_all
  have ab: "a \<le> b" by (rule rnd_mono [OF up a(1) assms(1)])
  have "16 * \<tau> < pow2 60" "\<bar>16 * \<tau>\<bar> < pow2 60" using assms by (simp_all add: pow2_def)
  then obtain t' where "rnd (16 * \<tau>) = Fin t'" "\<bar>t'\<bar> \<le> pow2 61" using rnd_finite [of "16 * \<tau>" 60] by auto
  then have t: "\<bar>t\<bar> \<le> pow2 61" using assms(2) by simp
  have "\<bar>a + t\<bar> < pow2 63" using a(2) t by (simp add: pow2_def)
  then obtain s' where s': "rnd (a + t) = Fin s'" "\<bar>s'\<bar> \<le> pow2 64"
    by (rule rnd_finite) simp_all
  have "s' \<le> s" by (rule rnd_mono [OF _ s'(1) assms(3)]) (use ab in simp)
  with assms(4) have "\<lceil>s'\<rceil> \<le> 1024" by (simp add: ceiling_le_iff)
  then show ?thesis
    by (simp add: a(1) assms(2) s'(1) mult.commute [of \<tau>] Let_def)
qed

lemma sixty_four_workers:
   "fmul (Fin 64) tailShare = Fin (3602879701896397 / 562949953421312)"
   "rnd (64 - 3602879701896397 / 562949953421312) = Fin (8106479329266893 / 140737488355328)"
   "rnd (16 * (3602879701896397 / 562949953421312)) = Fin (3602879701896397 / 35184372088832)"
   "rnd (16 * (8106479329266893 / 140737488355328)) = Fin (8106479329266893 / 8796093022208)"
   "rnd (8106479329266893 / 8796093022208 + 3602879701896397 / 35184372088832) = Fin 1024"
  unfolding tailShare_value fmul.simps
  subgoal by (subst rnd_eqI [where e = "-50" and m = 7205759403792794]) (simp_all add: pow2_def)
  subgoal by (subst rnd_eqI [where e = "-47" and m = 8106479329266893]) (simp_all add: pow2_def)
  subgoal by (subst rnd_eqI [where e = "-46" and m = 7205759403792794]) (simp_all add: pow2_def)
  subgoal by (subst rnd_eqI [where e = "-43" and m = 8106479329266893]) (simp_all add: pow2_def)
  subgoal by (subst rnd_eqI [where e = "-42" and m = 4503599627370496]) (simp_all add: pow2_def)
  done

lemma fewer_workers:
  assumes "1 \<le> c" "c \<le> 63"
  obtains \<tau> \<beta> b t s where
    "fmul (of_int64 c) tailShare = Fin \<tau>" "fsub (of_int64 c) (Fin \<tau>) = Fin \<beta>"
    "rnd (16 * \<beta>) = Fin b" "rnd (16 * \<tau>) = Fin t" "rnd (b + t) = Fin s" "s \<le> 1024"
    "0 \<le> \<beta>" "\<beta> \<le> 64" "0 \<le> \<tau>" "\<tau> \<le> 64"
proof -
  let ?c = "rat_of_int c" and ?s = "3602879701896397 / 36028797018963968 :: rat"
  have c: "1 \<le> ?c" "?c \<le> 63" using assms by (metis of_int_1 of_int_le_iff, metis of_int_numeral of_int_le_iff)
  have f: "of_int64 c = Fin ?c" using assms by (intro of_int64_exact) simp_all
  have q3: "0 \<le> ?c * ?s" "?c * ?s < pow2 3" using c by (simp_all add: pow2_def)
  obtain \<tau> where \<tau>: "rnd (?c * ?s) = Fin \<tau>" "0 \<le> \<tau>" "\<tau> \<le> ?c * ?s + pow2 (- 51)"
    by (rule rnd_close [OF q3], simp, simp) (rule that; simp)
  have \<tau>c: "\<tau> \<le> ?c" "\<tau> \<le> 7" using \<tau>(3) c by (simp_all add: pow2_def)
  have q6: "0 \<le> ?c - \<tau>" "?c - \<tau> < pow2 6" using c \<tau> \<tau>c by (simp_all add: pow2_def)
  obtain \<beta> where \<beta>: "rnd (?c - \<tau>) = Fin \<beta>" "0 \<le> \<beta>" "\<beta> \<le> ?c - \<tau> + pow2 (- 48)"
    by (rule rnd_close [OF q6], simp, simp) (rule that; simp)
  have q10: "0 \<le> 16 * \<beta>" "16 * \<beta> < pow2 10" using c \<tau> \<beta> by (simp_all add: pow2_def)
  obtain b where b: "rnd (16 * \<beta>) = Fin b" "0 \<le> b" "b \<le> 16 * \<beta> + pow2 (- 44)"
    by (rule rnd_close [OF q10], simp, simp) (rule that; simp)
  have q7: "0 \<le> 16 * \<tau>" "16 * \<tau> < pow2 7" using \<tau> \<tau>c by (simp_all add: pow2_def)
  obtain t where t: "rnd (16 * \<tau>) = Fin t" "0 \<le> t" "t \<le> 16 * \<tau> + pow2 (- 47)"
    by (rule rnd_close [OF q7], simp, simp) (rule that; simp)
  have bt: "b + t \<le> 1009" using b(3) t(3) \<beta>(3) c by (simp add: pow2_def)
  have qs: "0 \<le> b + t" "b + t < pow2 10" using b t bt by (simp_all add: pow2_def)
  obtain s where s: "rnd (b + t) = Fin s" "0 \<le> s" "s \<le> b + t + pow2 (- 44)"
    by (rule rnd_close [OF qs], simp, simp) (rule that; simp)
  have "s \<le> 1024" using s(3) bt by (simp add: pow2_def)
  show thesis
    by (rule that [OF _ _ b(1) t(1) s(1)])
      (use f \<tau> \<tau>c \<beta> c \<open>s \<le> 1024\<close> in \<open>simp_all add: tailShare_value fsub_def pow2_def\<close>)
qed

lemma packetsFor_ge: "- (2 ^ 50) \<le> packetsFor bytes"
proof -
  have "- (2 ^ 48) \<le> x sdiv packetBytes" if "MinInt64 \<le> x" for x
  proof (cases "0 \<le> x")
    case True
    then have "0 \<le> x div packetBytes" by (simp add: packetBytes_def pos_imp_zdiv_nonneg_iff)
    then show ?thesis using True by (simp add: sdiv_pos packetBytes_def)
  next
    case False
    then have "x sdiv packetBytes = - ((- x) div packetBytes)"
      by (simp add: signed_divide_int_def packetBytes_def sgn_if)
    moreover have "(- x) div packetBytes \<le> 9223372036854775808 div packetBytes"
      by (rule zdiv_mono1) (use that in \<open>simp_all add: packetBytes_def\<close>)
    ultimately show ?thesis by (simp add: packetBytes_def)
  qed
  from this [OF i64_range(1), of "bytes + packetBytes - 1"] show ?thesis
    by (simp add: packetsFor_def MaxRequestConcurrency_def min_def)
qed

lemma floor_fits_budget:
  assumes "1 \<le> c" "c \<le> MaxConcurrency"
  shows "inFlightPackets w c 16 \<le> maxInFlightPackets"
proof -
  define p where "p = min (packetsFor (if P90Upload w > 0 then P90Upload w else LargestUpload w)) 16"
  have p: "p \<le> 16" "- (2 ^ 50) \<le> p"
    using packetsFor_ge [of "if P90Upload w > 0 then P90Upload w else LargestUpload w"]
    by (auto simp: p_def min_def)
  obtain \<tau> \<beta> b t s where tb: "fmul (of_int64 c) tailShare = Fin \<tau>"
      "fsub (of_int64 c) (Fin \<tau>) = Fin \<beta>"
    and r: "rnd (16 * \<beta>) = Fin b" "rnd (16 * \<tau>) = Fin t" "rnd (b + t) = Fin s" "s \<le> 1024"
      "0 \<le> \<beta>" "\<beta> \<le> 64" "0 \<le> \<tau>" "\<tau> \<le> 64"
  proof (cases "c = 64")
    case True
    have "of_int64 64 = Fin 64" using of_int64_exact [of 64] by simp
    then show thesis
      by (intro that [OF _ _ sixty_four_workers(4,3,5)])
        (simp_all add: True sixty_four_workers(1) fsub_def flip: sixty_four_workers(2))
  next
    case False
    with assms have "c \<le> 63" by (simp add: MaxConcurrency_def)
    with assms(1) show thesis by (rule fewer_workers) (rule that)
  qed
  have "p = min (packetsFor (P90Upload w)) 16" if "P90Upload w > 0" using that by (simp add: p_def)
  moreover have "p = min (packetsFor (LargestUpload w)) 16" if "\<not> P90Upload w > 0"
    using that by (simp add: p_def)
  moreover have "of_int64 p = Fin (of_int p)" using p by (intro of_int64_exact) simp
  ultimately show ?thesis
    using in_flight_core [OF r p] assms(1) tb of_int64_exact [of 16]
    by (auto simp: inFlightPackets_def maxInFlightPackets_def Let_def)
qed

text \<open>
  Property C20. For every workload, link and set of pins with a non-negative worker count, the
  policy returns (its power-of-two and halving loops end), passes every pinned value through
  untouched, and keeps what it chose itself in range: one to eight connections and never more than
  there are files or workers, one to sixty-four workers and never more than there is work for, and
  a request depth that is one of 16, 32 and 64.
\<close>

theorem plan_returns_in_bounds:
  assumes "0 \<le> Fixed.Concurrency f"
  shows "\<exists>s. Plan w l f = Some s \<and> resolves w f s"
proof -
  obtain c r k where s: "Plan w l f = Some \<lparr>Connections = k, Concurrency = c, RequestConcurrency = r\<rparr>"
      and c: "c = (if Fixed.Concurrency f = 0 then planConcurrency w else Fixed.Concurrency f)"
      and k: "k = (if Fixed.Connections f = 0 then planConnections w l c else Fixed.Connections f)"
      and r: "if Fixed.RequestConcurrency f = 0
        then r \<in> {16, 32, 64} \<and> (r = 16 \<or> inFlightPackets w c r \<le> maxInFlightPackets)
        else r = Fixed.RequestConcurrency f"
    by (rule Plan_cases)
  have "1 \<le> c" using assms planConcurrency_bounds(1) [of w] by (auto simp: c)
  then have "resolves w f \<lparr>Connections = k, Concurrency = c, RequestConcurrency = r\<rparr>"
    using r planConcurrency_bounds [of w] planConnections_bounds [where conc = c and w = w and l = l]
    by (auto simp: resolves_def c k)
  with s show ?thesis by blast
qed

theorem plan_returns_in_bounds_witness:
  "\<exists>s. Plan (SummarizeUploads [10, 200000]) unmeasured (pinned_pool 2) = Some s \<and>
       resolves (SummarizeUploads [10, 200000])
         (pinned_pool 2) s"
  by (rule plan_returns_in_bounds) (simp add: pinned_pool_def unpinned_def)

text \<open>
  Property C23. When the policy chooses both the workers and the request depth, the write buffers
  of the files in flight never exceed the 32 MiB budget of 1024 packets, whatever the file sizes,
  and although the bound is computed in floating point.
\<close>

theorem chosen_depth_fits_memory:
  assumes "Plan w l f = Some s" "Fixed.Concurrency f = 0" "Fixed.RequestConcurrency f = 0"
  shows "inFlightPackets w (Concurrency s) (RequestConcurrency s) \<le> maxInFlightPackets"
proof -
  have "inFlightPackets w (planConcurrency w) 16 \<le> maxInFlightPackets"
    by (rule floor_fits_budget) (rule planConcurrency_bounds)+
  then show ?thesis
    using assms by (cases rule: Plan_cases [of w l f]) auto
qed

theorem chosen_depth_fits_memory_witness:
  "\<exists>s. Plan no_workload unmeasured (pinned_pool 2) = Some s \<and>
       inFlightPackets no_workload (Concurrency s) (RequestConcurrency s) \<le> maxInFlightPackets"
proof (cases rule: Plan_cases [of no_workload "unmeasured" "pinned_pool 2"])
  case (1 c r k)
  from chosen_depth_fits_memory [OF 1(1)] 1(1) show ?thesis
    by (simp add: pinned_pool_def unpinned_def)
qed

section \<open>The summary of the sizes\<close>

lemma summarize_kept: "fst (summarize sizes (kept, w)) = kept @ map (\<lambda>n. max n 0) sizes"
  by (induction sizes arbitrary: kept w) (simp_all add: Let_def)

lemma summarize_counts:
  "snd (summarize sizes (kept, w)) =
     w\<lparr>Uploads := Uploads w + int (length sizes),
       UploadBytes := foldl (\<lambda>t n. i64 (t + max n 0)) (UploadBytes w) sizes,
       SmallUploads := SmallUploads w + int (length (filter (\<lambda>n. max n 0 \<le> packetBytes) sizes))\<rparr>"
  by (induction sizes arbitrary: kept w) (simp_all add: Let_def)

lemma i64_add: "i64 (i64 a + b) = i64 (a + b)"
  using signed_take_bit_add [of 63 "signed_take_bit 63 a" b] signed_take_bit_add [of 63 a b]
  by (simp add: i64_def)

lemma wrapped_sum: "foldl (\<lambda>t n. i64 (t + max n 0)) (i64 z) sizes = i64 (z + (\<Sum>n\<leftarrow>sizes. max n 0))"
  by (induction sizes arbitrary: z) (simp_all add: i64_add add.assoc)

lemma percentile_rank:
  assumes "xs \<noteq> []" "length xs < 2 ^ 40" "0 \<le> q" "q \<le> 1"
  obtains r where "rnd (q * of_nat (length xs)) = Fin r" "q * of_nat (length xs) \<le> r + 1 / 1000"
    "percentile xs (Fin q) = xs ! nat (min (max \<lceil>r\<rceil> 1) (int (length xs)) - 1)"
proof -
  let ?n = "length xs"
  have "int ?n < 2 ^ 40" using assms(2) by simp
  then have n: "(of_nat ?n :: rat) < 2 ^ 40" by (metis of_int_less_iff of_int_numeral of_int_of_nat_eq of_int_power)
  have "q * of_nat ?n \<le> 1 * of_nat ?n" by (rule mult_right_mono) (use assms in simp_all)
  then have b: "0 \<le> q * of_nat ?n" "q * of_nat ?n < pow2 40"
    using n assms(3) by (simp_all add: pow2_def)
  obtain r where r: "rnd (q * of_nat ?n) = Fin r" "0 \<le> r" "r \<le> q * of_nat ?n + pow2 (- 14)"
      "q * of_nat ?n \<le> r + pow2 (- 14)"
    by (rule rnd_close [OF b], simp, simp) (rule that; simp)
  have "r \<le> 2 ^ 41" using r(3) b by (simp add: pow2_def)
  then have "int64 \<lceil>r\<rceil>" using r(2) by (auto simp: int64_def ceiling_le_iff intro: order_trans [of _ 0])
  moreover have "of_int64 (int ?n) = Fin (of_nat ?n)"
    using \<open>int ?n < 2 ^ 40\<close> by (subst of_int64_exact) simp_all
  ultimately have "percentile xs (Fin q) = xs ! nat (min (max \<lceil>r\<rceil> 1) (int ?n) - 1)"
    using assms(1) r(1,2) by (simp add: percentile_def Let_def)
  with r that show thesis by (simp add: pow2_def)
qed

lemma sorted_rank:
  assumes "sorted xs" "i < length xs"
  shows "Suc i \<le> length (filter (\<lambda>x. x \<le> xs ! i) xs)"
proof -
  have "take (Suc i) xs = filter (\<lambda>x. x \<le> xs ! i) (take (Suc i) xs)"
    using assms by (auto simp: filter_id_conv in_set_conv_nth sorted_iff_nth_mono intro!: filter_True [symmetric])
  then have "Suc i = length (filter (\<lambda>x. x \<le> xs ! i) (take (Suc i) xs))" using assms(2) by simp
  moreover have "filter P xs = filter P (take (Suc i) xs) @ filter P (drop (Suc i) xs)" for P
    by (simp flip: filter_append)
  ultimately show ?thesis by (metis le_add1 length_append)
qed

lemma percentile_share:
  assumes "sorted xs" "xs \<noteq> []" "length xs < 2 ^ 40" "0 \<le> q" "q \<le> 1"
  shows "percentile xs (Fin q) \<in> set xs"
    and "q * of_nat (length xs) \<le> of_nat (length (filter (\<lambda>x. x \<le> percentile xs (Fin q)) xs)) + 1 / 1000"
proof -
  obtain r where r: "rnd (q * of_nat (length xs)) = Fin r" "q * of_nat (length xs) \<le> r + 1 / 1000"
      "percentile xs (Fin q) = xs ! nat (min (max \<lceil>r\<rceil> 1) (int (length xs)) - 1)"
    by (rule percentile_rank [OF assms(2-5)])
  define i where "i = nat (min (max \<lceil>r\<rceil> 1) (int (length xs)) - 1)"
  have i: "i < length xs" "min \<lceil>r\<rceil> (int (length xs)) \<le> int (Suc i)"
    using assms(2) by (auto simp: i_def nat_less_iff)
  show "percentile xs (Fin q) \<in> set xs" using i(1) by (simp add: r(3) flip: i_def)
  let ?c = "length (filter (\<lambda>x. x \<le> percentile xs (Fin q)) xs)"
  have c: "int (Suc i) \<le> int ?c" using sorted_rank [OF assms(1) i(1)] by (simp add: r(3) flip: i_def)
  consider "\<lceil>r\<rceil> \<le> int ?c" | "length xs \<le> ?c" using i(2) c by linarith
  then show "q * of_nat (length xs) \<le> of_nat ?c + 1 / 1000"
  proof cases
    case 1
    then have "r \<le> of_int (int ?c)" by (simp only: ceiling_le_iff)
    with r(2) show ?thesis by simp
  next
    case 2
    have "q * of_nat (length xs) \<le> 1 * of_nat (length xs)"
      by (rule mult_right_mono) (use assms in simp_all)
    also have "\<dots> \<le> of_nat ?c" using 2 by simp
    finally show ?thesis by simp
  qed
qed

lemma percentile_mono:
  assumes "sorted xs" "xs \<noteq> []" "length xs < 2 ^ 40" "0 \<le> p" "p \<le> q" "q \<le> 1"
  shows "percentile xs (Fin p) \<le> percentile xs (Fin q)"
proof -
  obtain r where r: "rnd (p * of_nat (length xs)) = Fin r"
      "percentile xs (Fin p) = xs ! nat (min (max \<lceil>r\<rceil> 1) (int (length xs)) - 1)"
    using percentile_rank [OF assms(2,3,4)] assms by (metis order_trans)
  obtain s where s: "rnd (q * of_nat (length xs)) = Fin s"
      "percentile xs (Fin q) = xs ! nat (min (max \<lceil>s\<rceil> 1) (int (length xs)) - 1)"
    using percentile_rank [OF assms(2,3) _ assms(6)] assms by (metis order_trans)
  have "r \<le> s" by (rule rnd_mono [OF _ r(1) s(1)]) (use assms in \<open>simp add: mult_right_mono\<close>)
  then have "\<lceil>r\<rceil> \<le> \<lceil>s\<rceil>" by (rule ceiling_mono)
  then show ?thesis
    using assms(1,2) unfolding r(2) s(2) by (intro sorted_nth_mono) (auto simp: nat_less_iff)
qed

lemma sorted_last:
  assumes "sorted xs" "x \<in> set xs"
  shows "x \<le> xs ! (length xs - 1)"
proof -
  obtain i where "i < length xs" "x = xs ! i" using assms(2) by (auto simp: in_set_conv_nth)
  then show ?thesis using assms(1) by (auto intro: sorted_nth_mono)
qed

lemma half_value: "rnd (1 / 2) = Fin (1 / 2)"
  by (subst rnd_eqI [where e = "-53" and m = 4503599627370496]) (simp_all add: pow2_def)

lemma nine_tenths_value: "rnd (9 / 10) = Fin (8106479329266893 / 9007199254740992)"
  by (subst rnd_eqI [where e = "-53" and m = 8106479329266893]) (simp_all add: pow2_def)

text \<open>What the summary says of the sizes, negative ones counting as empty files.\<close>

definition describes :: "int list \<Rightarrow> Workload \<Rightarrow> bool" where
  "describes xs w \<longleftrightarrow>
     Uploads w = int (length xs) \<and> UploadBytes w = i64 (sum_list xs) \<and>
     SmallUploads w = int (length (filter (\<lambda>x. x \<le> packetBytes) xs)) \<and>
     Probes w = 0 \<and> \<not> Unknown w \<and>
     LargestUpload w \<in> set xs \<and> (\<forall>x \<in> set xs. x \<le> LargestUpload w) \<and>
     P50Upload w \<in> set xs \<and> P90Upload w \<in> set xs \<and>
     P50Upload w \<le> P90Upload w \<and> P90Upload w \<le> LargestUpload w \<and>
     length xs \<le> 2 * length (filter (\<lambda>x. x \<le> P50Upload w) xs) \<and>
     9 * length xs \<le> 10 * length (filter (\<lambda>x. x \<le> P90Upload w) xs)"

lemma length_filter_sort: "length (filter P (sort xs)) = length (filter P xs)"
  by (metis mset_filter mset_sort size_mset)

text \<open>
  The summary of a list of file sizes states their number, their sum, the number that
  fits one packet, their maximum, and two of the sizes as percentiles: at least half of the sizes
  are no larger than the median and at least nine tenths no larger than the ninetieth percentile,
  although the rank is computed in floating point.
\<close>

theorem summary_describes_sizes:
  assumes "sizes \<noteq> []" "length sizes < 2 ^ 40"
  shows "describes (map (\<lambda>n. max n 0) sizes) (SummarizeUploads sizes)"
proof -
  let ?xs = "map (\<lambda>n. max n 0) sizes" and ?q = "8106479329266893 / 9007199254740992 :: rat"
  let ?s = "sort ?xs" and ?w = "snd (summarize sizes ([], no_workload))"
  have ne: "?s \<noteq> []" "length ?s < 2 ^ 40"
    using assms by (metis length_0_conv length_map length_sort, metis length_map length_sort)
  note share50 = percentile_share [OF sorted_sort ne, of "1 / 2"]
    and share90 = percentile_share [OF sorted_sort ne, of ?q]
  have S: "SummarizeUploads sizes = ?w\<lparr>LargestUpload := ?s ! (length ?s - 1),
      P50Upload := percentile ?s (Fin (1 / 2)), P90Upload := percentile ?s (Fin ?q)\<rparr>"
    using assms(1) summarize_kept [of sizes "[]" no_workload]
    by (simp add: SummarizeUploads_def half_value nine_tenths_value Let_def case_prod_beta)
  have last: "?s ! (length ?s - 1) \<in> set ?xs" "\<forall>x \<in> set ?s. x \<le> ?s ! (length ?s - 1)"
  proof -
    have "length ?s - 1 < length ?s" using ne(1) by (cases ?s) simp_all
    then show "?s ! (length ?s - 1) \<in> set ?xs" by (metis nth_mem set_sort)
    show "\<forall>x \<in> set ?s. x \<le> ?s ! (length ?s - 1)"
      using sorted_last [OF sorted_sort [of ?xs]] by blast
  qed
  have c50: "length ?xs \<le> 2 * length (filter (\<lambda>x. x \<le> percentile ?s (Fin (1 / 2))) ?xs)"
    using share50(2) unfolding length_filter_sort length_sort by linarith
  have c90: "9 * length ?xs \<le> 10 * length (filter (\<lambda>x. x \<le> percentile ?s (Fin ?q)) ?xs)"
  proof -
    let ?n = "of_nat (length ?xs) :: rat"
    have "9 / 10 * ?n \<le> ?q * ?n" by (rule mult_right_mono) simp_all
    with share90(2) show ?thesis unfolding length_filter_sort length_sort by linarith
  qed
  have "percentile ?s (Fin (1 / 2)) \<le> percentile ?s (Fin ?q)"
    by (rule percentile_mono [OF sorted_sort ne]) simp_all
  moreover have "percentile ?s (Fin (1 / 2)) \<in> set ?xs" "percentile ?s (Fin ?q) \<in> set ?xs"
    using share50(1) share90(1) by simp_all
  moreover have "percentile ?s (Fin ?q) \<le> ?s ! (length ?s - 1)"
    by (rule sorted_last [OF sorted_sort share90(1)]) simp_all
  moreover have "UploadBytes ?w = i64 (sum_list ?xs)"
    using wrapped_sum [of 0 sizes] by (simp add: summarize_counts no_workload_def i64_def)
  moreover have "Uploads ?w = int (length ?xs)" "Probes ?w = 0" "\<not> Unknown ?w"
      "SmallUploads ?w = int (length (filter (\<lambda>x. x \<le> packetBytes) ?xs))"
    by (simp_all add: summarize_counts no_workload_def filter_map o_def)
  ultimately show ?thesis
    unfolding S describes_def using last c50 c90 by simp
qed

theorem summary_describes_sizes_witness:
  "describes [10, 0, 40000] (SummarizeUploads [10, -5, 40000])"
  using summary_describes_sizes [of "[10, -5, 40000]"] by simp

section \<open>Sizes in log lines\<close>

lemma human_scale_spec:
  "1 \<le> m \<Longrightarrow> m < 1024 ^ Suc k \<Longrightarrow> k + e \<le> 5 \<Longrightarrow>
     \<exists>i \<le> k. human_scale m (1024 ^ Suc e) (int e) = (1024 ^ Suc (e + i), int (e + i)) \<and>
       1024 ^ i \<le> m \<and> m < 1024 ^ Suc i"
proof (induction k arbitrary: m e)
  case 0
  then show ?case by (simp add: human_scale.simps)
next
  case (Suc k)
  show ?case
  proof (cases "1024 \<le> m")
    case False
    with Suc.prems show ?thesis by (intro exI [of _ 0]) (simp add: human_scale.simps)
  next
    case True
    have "(1024 :: int) ^ Suc (Suc e) \<le> 1024 ^ 6" using Suc.prems(3) by (intro power_increasing) simp_all
    moreover have "(0 :: int) \<le> 1024 ^ Suc (Suc e)" by (rule zero_le_power) simp
    moreover have "i64 x = x" if "0 \<le> x" "x \<le> 1024 ^ 6" for x using that by (intro i64_id) simp_all
    ultimately have d: "i64 (1024 ^ Suc e * 1024) = 1024 ^ Suc (Suc e)" by (simp add: mult.commute)
    have m: "1 \<le> m div 1024" "m div 1024 < 1024 ^ Suc k" "m sdiv 1024 = m div 1024"
      using True Suc.prems by (simp_all add: sdiv_pos div_less_iff_less_mult less_eq_div_iff_mult_less_eq mult.commute)
    have ke: "k + Suc e \<le> 5" using Suc.prems(3) by simp
    obtain i where i: "i \<le> k" "1024 ^ i \<le> m div 1024" "m div 1024 < 1024 ^ Suc i"
        "human_scale (m div 1024) (1024 ^ Suc (Suc e)) (int (Suc e)) =
           (1024 ^ Suc (Suc e + i), int (Suc e + i))"
      using Suc.IH [OF m(1,2) ke] by blast
    have "human_scale m (1024 ^ Suc e) (int e) =
        human_scale (m div 1024) (1024 ^ Suc (Suc e)) (int (Suc e))"
      using True by (subst human_scale.simps) (simp add: m(3) d add.commute del: power_Suc)
    moreover have "1024 ^ Suc i \<le> m" "m < 1024 ^ Suc (Suc i)"
      using i(2,3) by (simp_all add: less_eq_div_iff_mult_less_eq div_less_iff_less_mult mult.commute)
    ultimately show ?thesis using i(1,4) by (intro exI [of _ "Suc i"]) simp
  qed
qed

text \<open>
  Every 64-bit size from one kibibyte up is rendered: the unit index stays inside the
  six letters \<open>KMGTPE\<close>, the divisor does not overflow, and it is the one power of 1024 that puts
  the quotient between 1 and 1024.
\<close>

theorem human_bytes_in_range:
  assumes "1024 \<le> n" "n \<le> MaxInt64"
  shows "\<exists>i < 6. humanBytes n = Some (Scaled (1024 ^ Suc i) (''KMGTPE'' ! i)) \<and>
           1024 ^ Suc i \<le> n \<and> n < 1024 ^ Suc (Suc i)"
proof -
  have "1 \<le> n div 1024" "n div 1024 < 1024 ^ Suc 5"
    using assms by (simp_all add: div_less_iff_less_mult less_eq_div_iff_mult_less_eq)
  then obtain i where i: "i \<le> 5" "1024 ^ i \<le> n div 1024" "n div 1024 < 1024 ^ Suc i"
      "human_scale (n div 1024) 1024 0 = (1024 ^ Suc i, int i)"
    using human_scale_spec [of "n div 1024" 5 0] by auto
  then have "humanBytes n = Some (Scaled (1024 ^ Suc i) (''KMGTPE'' ! i))"
    using assms(1) by (simp add: humanBytes_def sdiv_pos)
  moreover have "1024 ^ Suc i \<le> n" "n < 1024 ^ Suc (Suc i)"
    using i(2,3) by (simp_all add: less_eq_div_iff_mult_less_eq div_less_iff_less_mult mult.commute)
  ultimately show ?thesis using i(1) by (intro exI [of _ i]) simp
qed

theorem human_bytes_in_range_witness:
  "\<exists>i < 6. humanBytes MaxInt64 = Some (Scaled (1024 ^ Suc i) (''KMGTPE'' ! i)) \<and>
     1024 ^ Suc i \<le> MaxInt64 \<and> MaxInt64 < 1024 ^ Suc (Suc i)"
  by (rule human_bytes_in_range) simp_all

end
