(* ===== verification/Controller.thy ===== *)
theory Controller
  imports Autotune
begin

text \<open>
  The runtime half of the transport policy (\<open>internal/autotune/controller.go\<close>). The controller folds
  progress reports into its state and now and then moves the number of connections the queued files
  are spread over. Its stop reasons, which are log lines in the code, are constructors. The abstract
  machine \<open>phase_step\<close> says what the code's comment promises: the spread at most doubles per step, a
  step that does not pay is taken back once, and then the controller is settled for good.
\<close>

section \<open>State\<close>

definition minObservation :: int where "minObservation = 750 * Millisecond"
definition minSamples :: int where "minSamples = 4"
definition minWindowBytes :: int where "minWindowBytes = MinRequestConcurrency * packetBytes"
definition improvementBand :: float64 where "improvementBand = rnd (105 / 100)"
definition growthFactor :: int where "growthFactor = 2"

record Progress =
  Elapsed :: int
  Uploaded :: int
  Skipped :: int
  Remaining :: int
  RemainingBytes :: int
  UploadedBytes :: int
  Refused :: bool
  Failures :: int

definition no_progress :: Progress where
  "no_progress =
     \<lparr>Elapsed = 0, Uploaded = 0, Skipped = 0, Remaining = 0, RemainingBytes = 0, UploadedBytes = 0,
      Refused = False, Failures = 0\<rparr>"

datatype Reason =
    NoReason
  | PinnedConnections
  | AtMaximum
  | OneFileInFlight
  | NoQueue
  | ServerRefused
  | Retrying
  | ReachedMaximum
  | StepDidNotPay float64 float64 int

record Controller =
  fixed :: Fixed
  link :: Link
  current :: Settings
  workload :: Workload
  stopped :: bool
  reason :: Reason
  last_accepted :: Progress
  haveLast :: bool
  pendingRate :: float64
  pendingFrom :: int

record Change =
  From :: Settings
  To :: Settings
  Rate :: float64
  Before :: float64

definition Shrinks :: "Change \<Rightarrow> bool" where
  "Shrinks c \<longleftrightarrow> Connections (To c) < Connections (From c)"

section \<open>Operations\<close>

definition stop :: "Reason \<Rightarrow> Controller \<Rightarrow> Controller" where
  "stop why c = c\<lparr>stopped := True, reason := why\<rparr>"

definition NewController :: "Workload \<Rightarrow> Settings \<Rightarrow> Link \<Rightarrow> Fixed \<Rightarrow> Controller" where
  "NewController w start l f =
     (let c = \<lparr>fixed = f, link = l, current = start, workload = w, stopped = False,
               reason = NoReason, last_accepted = no_progress, haveLast = False,
               pendingRate = fzero, pendingFrom = 0\<rparr> in
      if Fixed.Connections f > 0 then stop PinnedConnections c
      else if Connections start \<ge> MaxConnections then stop AtMaximum c
      else if Concurrency start \<le> 1 then stop OneFileInFlight c
      else if Concurrency start \<ge> Items w then stop NoQueue c
      else c)"

definition queued :: "Progress \<Rightarrow> Controller \<Rightarrow> int" where
  "queued p c = max (i64 (Remaining p - Concurrency (current c))) 0"

definition eligible :: "Progress \<Rightarrow> Controller \<Rightarrow> bool" where
  "eligible p c =
     (let seen = last_accepted c;
          done_files = i64 (Uploaded p + Skipped p);
          window = (if haveLast c then i64 (Elapsed p - Elapsed seen) else Elapsed p);
          files = (if haveLast c then i64 (done_files - i64 (Uploaded seen + Skipped seen))
                   else done_files);
          bytes = (if haveLast c then i64 (UploadedBytes p - UploadedBytes seen)
                   else UploadedBytes p) in
      if window < minObservation \<or> files < minSamples then False
      else bytes = 0 \<or> bytes \<ge> minWindowBytes)"

definition reject :: "float64 \<Rightarrow> Controller \<Rightarrow> Change \<times> Controller" where
  "reject rate c =
     (let back = (current c)\<lparr>Connections := pendingFrom c\<rparr> in
      (\<lparr>From = current c, To = back, Rate = rate, Before = pendingRate c\<rparr>,
       stop (StepDidNotPay rate (pendingRate c) (pendingFrom c))
         (c\<lparr>current := back, pendingRate := fzero, pendingFrom := 0\<rparr>)))"

definition throughput :: "Progress \<Rightarrow> Controller \<Rightarrow> float64" where
  "throughput p c =
     (let seen = last_accepted c;
          bytes = (if haveLast c then i64 (UploadedBytes p - UploadedBytes seen)
                   else UploadedBytes p);
          window = (if haveLast c then i64 (Elapsed p - Elapsed seen) else Elapsed p) in
      if bytes \<le> 0 \<or> window \<le> 0 then fzero else fdiv (of_int64 bytes) (seconds window))"

definition BandwidthBound :: "Workload \<Rightarrow> bool" where
  "BandwidthBound w =
     (let bytes = P90Upload w; bytes = (if bytes = 0 then LargestUpload w else bytes) in
      bytes > packetBytes)"

definition measuredLink :: "Progress \<Rightarrow> float64 \<Rightarrow> Controller \<Rightarrow> Link" where
  "measuredLink p rate c =
     (if \<not> BandwidthBound (workload c) then link c
      else
        let streams = min (min (Connections (current c)) (Concurrency (current c)))
                        (i64 (Uploaded p + Remaining p)) in
        (link c)\<lparr>StreamBytesPerSecond := fdiv rate (of_int64 (max streams 1)),
                 ThroughputSource := SourceRuntime\<rparr>)"

definition Measure :: "Workload \<Rightarrow> int \<Rightarrow> int \<Rightarrow> int \<Rightarrow> float64 \<times> bool" where
  "Measure w bytes window streams =
     (if \<not> BandwidthBound w then (fzero, False)
      else if bytes < minWindowBytes \<or> window < minObservation \<or> streams < 1 then (fzero, False)
      else (fdiv (fdiv (of_int64 bytes) (seconds window)) (of_int64 streams), True))"

definition remaining :: "Progress \<Rightarrow> Controller \<Rightarrow> Workload" where
  "remaining p c =
     (let finished = i64 (Uploaded p + Skipped p);
          unsettled = finished > 0 \<and> Skipped p > 0;
          ratio = fdiv (of_int64 (Uploaded p)) (of_int64 finished);
          uploads = (if unsettled then to_int64 (fmul (of_int64 (Remaining p)) ratio)
                     else Remaining p);
          bytes = (if unsettled then to_int64 (fmul (of_int64 (RemainingBytes p)) ratio)
                   else RemainingBytes p);
          probes = (if unsettled then Remaining p else 0);
          largest = (if uploads > 0 then min (LargestUpload (workload c)) bytes else 0) in
      \<lparr>Uploads = uploads, UploadBytes = bytes, LargestUpload = largest,
       P50Upload = P50Upload (workload c), P90Upload = P90Upload (workload c),
       SmallUploads = 0, Probes = probes, Unknown = False\<rparr>)"

text \<open>
  The part of \<open>Observe\<close> after a window has been accepted: grow, or stay. The result of \<open>Observe\<close> is
  the change when one was made; \<open>None\<close> of the outer option would be a plan that does not return.
\<close>

definition grow :: "Progress \<Rightarrow> float64 \<Rightarrow> Controller \<Rightarrow> (Change option \<times> Controller) option" where
  "grow p rate c =
     (if queued p c \<le> Connections (current c) then Some (None, c)
      else Option.bind (Plan (remaining p c) (measuredLink p rate c) (fixed c)) (\<lambda>want.
        let grown = min (min (min (min (Connections want) (i64 (Connections (current c) * growthFactor)))
                      MaxConnections) (Concurrency (current c))) (queued p c) in
        if grown \<le> Connections (current c) then Some (None, c)
        else
          let wider = (current c)\<lparr>Connections := grown\<rparr> in
          Some (Some \<lparr>From = current c, To = wider, Rate = rate, Before = fzero\<rparr>,
                c\<lparr>pendingRate := rate, pendingFrom := Connections (current c), current := wider\<rparr>)))"

definition judge :: "Progress \<Rightarrow> float64 \<Rightarrow> Controller \<Rightarrow> (Change option \<times> Controller) option" where
  "judge p rate c =
     (if fless fzero (pendingRate c) then
        (if fless rate (fmul (pendingRate c) improvementBand) then
           (case reject rate c of (change, c') \<Rightarrow> Some (Some change, c'))
         else
           let c' = c\<lparr>pendingRate := fzero, pendingFrom := 0\<rparr> in
           if Connections (current c') \<ge> MaxConnections then Some (None, stop ReachedMaximum c')
           else grow p rate c')
      else grow p rate c)"

definition Observe :: "Progress \<Rightarrow> Controller \<Rightarrow> (Change option \<times> Controller) option" where
  "Observe p c =
     (if stopped c then Some (None, c)
      else if Refused p then Some (None, stop ServerRefused c)
      else if Failures p > 0 then Some (None, stop Retrying c)
      else if \<not> eligible p c then Some (None, c)
      else
        let rate = throughput p c; c' = c\<lparr>last_accepted := p, haveLast := True\<rparr> in
        if fle rate fzero then Some (None, c') else judge p rate c')"

text \<open>A whole phase: the changes a sequence of reports makes, in order.\<close>

fun observe_all ::
    "('p \<Rightarrow> 's \<Rightarrow> ('d option \<times> 's) option) \<Rightarrow> 'p list \<Rightarrow> 's \<Rightarrow> ('d list \<times> 's) option" where
  "observe_all observe [] c = Some ([], c)"
| "observe_all observe (p # ps) c =
     Option.bind (observe p c) (\<lambda>(change, c').
       map_option (\<lambda>(changes, c''). ((case change of None \<Rightarrow> [] | Some d \<Rightarrow> [d]) @ changes, c''))
         (observe_all observe ps c'))"

section \<open>The abstract machine\<close>

text \<open>
  Watching a spread, trying a spread grown from another, or settled on one. A step's label is the
  change it reports, as the old and the new spread.
\<close>

datatype phase = Watching int | OnTrial int int | Settled int

fun spread_of :: "phase \<Rightarrow> int" where
  "spread_of (Watching n) = n"
| "spread_of (OnTrial k n) = n"
| "spread_of (Settled n) = n"

inductive phase_step :: "phase \<Rightarrow> (int \<times> int) option \<Rightarrow> phase \<Rightarrow> bool" where
  stay: "phase_step s None s"
| try_wider: "n < m \<Longrightarrow> m \<le> 2 * n \<Longrightarrow> m \<le> MaxConnections \<Longrightarrow>
    phase_step (Watching n) (Some (n, m)) (OnTrial n m)"
| paid: "phase_step (OnTrial k n) None (Watching n)"
| paid_and_wider: "n < m \<Longrightarrow> m \<le> 2 * n \<Longrightarrow> m \<le> MaxConnections \<Longrightarrow>
    phase_step (OnTrial k n) (Some (n, m)) (OnTrial n m)"
| take_back: "phase_step (OnTrial k n) (Some (n, k)) (Settled k)"
| settle: "phase_step s None (Settled (spread_of s))"

inductive_cases phase_stepE: "phase_step s l t"
inductive_cases settled_stepE: "phase_step (Settled n) l t"

inductive phase_run :: "phase \<Rightarrow> (int \<times> int) list \<Rightarrow> phase \<Rightarrow> bool" where
  run_nil: "phase_run s [] s"
| run_quiet: "phase_step s None t \<Longrightarrow> phase_run t ls u \<Longrightarrow> phase_run s ls u"
| run_change: "phase_step s (Some l) t \<Longrightarrow> phase_run t ls u \<Longrightarrow> phase_run s (l # ls) u"

lemma settled_run:
  "phase_run s ls u \<Longrightarrow> s = Settled n \<Longrightarrow> ls = [] \<and> u = Settled n"
  by (induction rule: phase_run.induct) (auto elim: phase_stepE)

text \<open>The spread grows with every change but a last one, which returns to where the step began.\<close>

definition widening :: "int \<times> int \<Rightarrow> bool" where
  "widening l \<longleftrightarrow> fst l < snd l \<and> snd l \<le> 2 * fst l \<and> snd l \<le> MaxConnections"

fun chained :: "int \<Rightarrow> (int \<times> int) list \<Rightarrow> bool" where
  "chained n [] \<longleftrightarrow> True"
| "chained n ((k, m) # ls) \<longleftrightarrow> k = n \<and> widening (k, m) \<and> chained m ls"

definition settling :: "int \<Rightarrow> (int \<times> int) list \<Rightarrow> bool" where
  "settling n ls \<longleftrightarrow>
     chained n ls \<or> (\<exists>gs k m. ls = gs @ [(k, m), (m, k)] \<and> chained n (gs @ [(k, m)]))"

lemma settling_Cons: "widening (n, m) \<Longrightarrow> settling m ls \<Longrightarrow> settling n ((n, m) # ls)"
  unfolding settling_def by (metis append_Cons chained.simps(2))

lemma phase_run_settling:
  "phase_run s ls u \<Longrightarrow>
     settling (spread_of s) ls \<or>
     (\<exists>k n. s = OnTrial k n \<and> ls = [(n, k)])"
proof (induction rule: phase_run.induct)
  case (run_nil s)
  show ?case by (simp add: settling_def)
next
  case (run_quiet s t ls u)
  have "spread_of t = spread_of s" using run_quiet.hyps(1) by (auto elim: phase_stepE)
  moreover have "(\<exists>k n. s = OnTrial k n \<and> ls = [(n, k)])" if "t = OnTrial k n" "ls = [(n, k)]" for k n
    using run_quiet.hyps(1) that by (auto elim: phase_stepE)
  ultimately show ?case using run_quiet.IH by metis
next
  case (run_change s l t ls u)
  show ?case
  proof (cases "\<exists>k. t = Settled k")
    case True
    then obtain k where "t = Settled k" ..
    then have "ls = []" using settled_run [OF run_change.hyps(2)] by simp
    with run_change.hyps(1) \<open>t = Settled k\<close> show ?thesis by (auto elim: phase_stepE)
  next
    case False
    with run_change.hyps(1) obtain n m where l: "l = (n, m)" "t = OnTrial n m" "spread_of s = n"
        "widening (n, m)"
      by (auto simp: widening_def elim!: phase_stepE)
    have "settling n ((n, m) # ls)"
    proof (cases "settling m ls")
      case True
      with l(4) show ?thesis by (rule settling_Cons)
    next
      case False
      with run_change.IH l(2) have "ls = [(m, n)]" by auto
      then have "(n, m) # ls = [] @ [(n, m), (m, n)] \<and> chained n ([] @ [(n, m)])" using l(4) by simp
      then show ?thesis unfolding settling_def by blast
    qed
    with l show ?thesis by simp
  qed
qed

lemma chained_short: "chained n ls \<Longrightarrow> ls \<noteq> [] \<Longrightarrow> n + int (length ls) \<le> MaxConnections"
proof (induction n ls rule: chained.induct)
  case (2 n k m ls)
  then show ?case by (cases ls) (auto simp: widening_def)
qed simp

lemma settling_short: "settling n ls \<Longrightarrow> 1 \<le> n \<Longrightarrow> int (length ls) \<le> MaxConnections"
  using chained_short [of n ls] chained_short
  by (fastforce simp: settling_def MaxConnections_def)

section \<open>What a controller promises its loop\<close>

text \<open>
  The interface between a controller and the loop that drives it: it answers every valid report, by
  a step of the abstract machine. What follows for a whole phase is proved once here.
\<close>

locale phase_controller =
  fixes observe :: "'p \<Rightarrow> 's \<Rightarrow> ('d option \<times> 's) option"
    and ready :: "'s \<Rightarrow> bool"
    and phase_in :: "'s \<Rightarrow> phase"
    and label :: "'d \<Rightarrow> int \<times> int"
    and kept :: "'s \<Rightarrow> 's \<Rightarrow> bool"
    and valid :: "'p \<Rightarrow> bool"
  assumes answers: "ready c \<Longrightarrow> valid p \<Longrightarrow>
      \<exists>d c'. observe p c = Some (d, c') \<and> ready c' \<and> kept c c' \<and>
        phase_step (phase_in c) (map_option label d) (phase_in c')"
    and kept_refl: "kept c c"
    and kept_trans: "kept c c' \<Longrightarrow> kept c' c'' \<Longrightarrow> kept c c''"
begin

lemma phase_answers:
  assumes "ready c" "\<forall>p \<in> set ps. valid p"
  shows "\<exists>ds c'. observe_all observe ps c = Some (ds, c') \<and> ready c' \<and> kept c c' \<and>
           phase_run (phase_in c) (map label ds) (phase_in c')"
  using assms
proof (induction ps arbitrary: c)
  case Nil
  then show ?case by (auto intro: run_nil kept_refl)
next
  case (Cons p ps)
  obtain d c1 where o: "observe p c = Some (d, c1)" "ready c1" "kept c c1"
      "phase_step (phase_in c) (map_option label d) (phase_in c1)"
    using answers [of c p] Cons.prems by auto
  obtain ds c' where r: "observe_all observe ps c1 = Some (ds, c')" "ready c'" "kept c1 c'"
      "phase_run (phase_in c1) (map label ds) (phase_in c')"
    using Cons.IH [OF o(2)] Cons.prems(2) by auto
  show ?case
  proof (cases d)
    case None
    with o r show ?thesis by (auto intro: kept_trans run_quiet)
  next
    case (Some x)
    with o r show ?thesis by (auto intro: kept_trans run_change)
  qed
qed

lemma phase_settles:
  assumes "ready c" "\<forall>p \<in> set ps. valid p" "observe_all observe ps c = Some (ds, c')"
    and "1 \<le> spread_of (phase_in c)" "\<And>k n. phase_in c \<noteq> OnTrial k n"
  shows "settling (spread_of (phase_in c)) (map label ds)" "int (length ds) \<le> MaxConnections"
proof -
  have "phase_run (phase_in c) (map label ds) (phase_in c')"
    using phase_answers [OF assms(1,2)] assms(3) by auto
  from phase_run_settling [OF this] assms(5)
  show "settling (spread_of (phase_in c)) (map label ds)" by simp
  from settling_short [OF this assms(4)] show "int (length ds) \<le> MaxConnections" by simp
qed

end

section \<open>The controller refines it\<close>

definition phase_of :: "Controller \<Rightarrow> phase" where
  "phase_of c =
     (if stopped c then Settled (Connections (current c))
      else if fless fzero (pendingRate c) then OnTrial (pendingFrom c) (Connections (current c))
      else Watching (Connections (current c)))"

definition spreads :: "Change \<Rightarrow> int \<times> int" where
  "spreads d = (Connections (From d), Connections (To d))"

text \<open>The invariant: a controller that may still act works within the policy's maximum.\<close>

definition acting :: "Controller \<Rightarrow> bool" where
  "acting c \<longleftrightarrow>
     stopped c \<or>
     (1 \<le> Connections (current c) \<and> Connections (current c) \<le> MaxConnections \<and>
      (fless fzero (pendingRate c) \<longrightarrow> 1 \<le> pendingFrom c \<and> pendingFrom c \<le> MaxConnections))"

lemma seconds_not_NaN: "seconds d \<noteq> NaN"
proof -
  let ?r = "d smod Second"
  have r: "\<bar>?r\<bar> < 1000000000"
    using smod_int_range [of Second d] by (auto simp: Second_def Millisecond_def)
  then have "of_int64 ?r = Fin (of_int ?r)" by (intro of_int64_exact) simp
  moreover have "\<bar>rat_of_int ?r / 1000000000\<bar> < pow2 0"
    using r unfolding of_int_less_iff [where 'a = rat, symmetric] by (simp add: pow2_def divide_less_eq)
  then obtain b where "rnd (rat_of_int ?r / 1000000000) = Fin b" by (rule rnd_finite) simp_all
  ultimately show ?thesis
    by (cases "of_int64 (d sdiv Second)") (auto simp: seconds_def of_int64_def)
qed

lemma throughput_not_NaN:
  assumes "int64 (UploadedBytes p)"
  shows "throughput p c \<noteq> NaN"
proof -
  have "fdiv (of_int64 n) (seconds d) \<noteq> NaN" if n: "0 < n" "n \<le> MaxInt64" for n d
  proof -
    obtain q where "of_int64 n = Fin q" "0 < q" using n by (rule of_int64_positive)
    then show ?thesis using seconds_not_NaN by (simp add: fdiv_Fin_not_NaN)
  qed
  then show ?thesis
    using assms i64_range(2) by (auto simp: throughput_def Let_def fzero_def int64_def)
qed

text \<open>What no report moves: the workers and the request depth, and the pins.\<close>

definition same_frame :: "Controller \<Rightarrow> Controller \<Rightarrow> bool" where
  "same_frame c c' \<longleftrightarrow>
     fixed c' = fixed c \<and> Concurrency (current c') = Concurrency (current c) \<and>
     RequestConcurrency (current c') = RequestConcurrency (current c)"

lemma same_frame_trans: "same_frame c c' \<Longrightarrow> same_frame c' c'' \<Longrightarrow> same_frame c c''"
  by (simp add: same_frame_def)

definition refines_from :: "phase \<Rightarrow> Controller \<Rightarrow> (Change option \<times> Controller) option \<Rightarrow> bool" where
  "refines_from s c r \<longleftrightarrow>
     (\<exists>d c'. r = Some (d, c') \<and> acting c' \<and> same_frame c c' \<and>
        phase_step s (map_option spreads d) (phase_of c'))"

lemma grow_refines:
  assumes "acting c" "\<not> stopped c" "\<not> fless fzero (pendingRate c)" "fless fzero rate"
    and s: "s = Watching (Connections (current c)) \<or> (\<exists>k. s = OnTrial k (Connections (current c)))"
  shows "refines_from s c (grow p rate c)"
proof -
  let ?n = "Connections (current c)"
  have n: "1 \<le> ?n" "?n \<le> 8"
    using assms(1,2) by (auto simp: acting_def MaxConnections_def)
  have quiet: "refines_from s c (Some (None, c))"
    using s assms(1-3) by (auto simp: refines_from_def same_frame_def phase_of_def intro: stay paid)
  obtain want where want: "Plan (remaining p c) (measuredLink p rate c) (fixed c) = Some want"
    by (rule Plan_cases) (rule that)
  define m where "m = min (min (min (min (Connections want) (i64 (?n * growthFactor)))
                      MaxConnections) (Concurrency (current c))) (queued p c)"
  have dbl: "i64 (?n * growthFactor) = 2 * ?n" by (subst i64_id) (use n in \<open>simp_all add: growthFactor_def\<close>)
  show ?thesis
  proof (cases "queued p c \<le> ?n \<or> m \<le> ?n")
    case True
    then show ?thesis
      using quiet by (auto simp: grow_def want m_def Let_def)
  next
    case False
    let ?w = "(current c)\<lparr>Connections := m\<rparr>"
    let ?c = "c\<lparr>pendingRate := rate, pendingFrom := ?n, current := ?w\<rparr>"
    have m: "?n < m" "m \<le> 2 * ?n" "m \<le> MaxConnections"
      using False by (auto simp: m_def dbl)
    have "grow p rate c = Some (Some \<lparr>From = current c, To = ?w, Rate = rate, Before = fzero\<rparr>, ?c)"
      using False by (simp add: grow_def want Let_def flip: m_def)
    moreover have "phase_step s (Some (?n, m)) (OnTrial ?n m)"
      using s m by (auto intro: try_wider paid_and_wider)
    moreover have "acting ?c" "same_frame c ?c" "phase_of ?c = OnTrial ?n m"
      using m n assms(2,4) by (simp_all add: acting_def same_frame_def phase_of_def MaxConnections_def)
    ultimately show ?thesis by (simp add: refines_from_def spreads_def)
  qed
qed

lemma refines_from_frame:
  "same_frame c c1 \<Longrightarrow> refines_from s c1 r \<Longrightarrow> refines_from s c r"
  unfolding refines_from_def using same_frame_trans by blast

lemma judge_refines:
  assumes "acting c" "\<not> stopped c" "fless fzero rate"
  shows "refines_from (phase_of c) c (judge p rate c)"
proof (cases "fless fzero (pendingRate c)")
  case False
  then show ?thesis
    using grow_refines [OF assms(1,2) False assms(3)] assms(2) by (simp add: judge_def phase_of_def)
next
  case True
  let ?n = "Connections (current c)" and ?c = "c\<lparr>pendingRate := fzero, pendingFrom := 0\<rparr>"
  have s: "phase_of c = OnTrial (pendingFrom c) ?n" using True assms(2) by (simp add: phase_of_def)
  have z: "\<not> fless fzero fzero" by (simp add: fzero_def)
  have c: "acting ?c" "\<not> stopped ?c" "same_frame c ?c" "\<not> fless fzero (pendingRate ?c)"
    using assms z by (auto simp: acting_def same_frame_def)
  consider (worse) "fless rate (fmul (pendingRate c) improvementBand)"
    | (full) "\<not> fless rate (fmul (pendingRate c) improvementBand)" "?n \<ge> MaxConnections"
    | (on) "\<not> fless rate (fmul (pendingRate c) improvementBand)" "\<not> ?n \<ge> MaxConnections"
    by blast
  then show ?thesis
  proof cases
    case worse
    then show ?thesis
      using True unfolding s
      by (auto simp: judge_def reject_def Let_def refines_from_def acting_def same_frame_def
          phase_of_def stop_def spreads_def intro: take_back)
  next
    case full
    then have "judge p rate c = Some (None, stop ReachedMaximum ?c)"
      using True by (simp add: judge_def Let_def)
    moreover have "acting (stop ReachedMaximum ?c)" "same_frame c (stop ReachedMaximum ?c)"
        "phase_of (stop ReachedMaximum ?c) = Settled (spread_of (phase_of c))"
      using s by (simp_all add: acting_def stop_def same_frame_def phase_of_def)
    ultimately show ?thesis using settle [of "phase_of c"] by (simp add: refines_from_def)
  next
    case on
    then have "judge p rate c = grow p rate ?c" using True by (simp add: judge_def Let_def)
    with refines_from_frame [OF c(3) grow_refines [OF c(1,2,4) assms(3)]] s show ?thesis by simp
  qed
qed

lemma Observe_refines:
  assumes "acting c" "int64 (UploadedBytes p)"
  shows "refines_from (phase_of c) c (Observe p c)"
proof -
  let ?c = "c\<lparr>last_accepted := p, haveLast := True\<rparr>" and ?rate = "throughput p c"
  have stays: "refines_from (phase_of c) c (Some (None, c))"
    using assms(1) by (simp add: refines_from_def same_frame_def stay)
  have stops: "refines_from (phase_of c) c (Some (None, stop why c))" if "\<not> stopped c" for why
  proof -
    have "spread_of (phase_of c) = Connections (current c)" by (simp add: phase_of_def)
    then show ?thesis
      using settle [of "phase_of c"]
      by (simp add: refines_from_def acting_def same_frame_def stop_def phase_of_def)
  qed
  have c: "acting ?c" "same_frame c ?c" "phase_of ?c = phase_of c" "stopped ?c = stopped c"
    using assms(1) by (simp_all add: acting_def same_frame_def phase_of_def)
  have seen: "refines_from (phase_of c) c (Some (None, ?c))"
    using c stay [of "phase_of c"] by (simp add: refines_from_def)
  have judged: "refines_from (phase_of c) c (judge p ?rate ?c)"
    if "\<not> stopped c" "\<not> fle ?rate fzero"
  proof -
    have "fless fzero ?rate"
      using that(2) throughput_not_NaN [OF assms(2)] by (simp add: fless_zero_iff)
    from judge_refines [OF c(1) _ this, of p] that(1) c(3) show ?thesis
      by (intro refines_from_frame [OF c(2)]) simp
  qed
  show ?thesis
    using stays stops seen judged by (simp add: Observe_def Let_def)
qed

interpretation runtime: phase_controller Observe acting phase_of spreads same_frame
    "\<lambda>p. int64 (UploadedBytes p)"
  by unfold_locales
    (use Observe_refines in \<open>auto simp: refines_from_def intro: same_frame_trans\<close>,
     simp add: same_frame_def)

lemma NewController_acting:
  assumes "Fixed.Connections f > 0 \<or> 1 \<le> Connections start"
  shows "acting (NewController w start l f)" "current (NewController w start l f) = start"
    "spread_of (phase_of (NewController w start l f)) = Connections start"
    "\<And>k n. phase_of (NewController w start l f) \<noteq> OnTrial k n"
  using assms
  by (auto simp: acting_def NewController_def Let_def stop_def fzero_def phase_of_def)

text \<open>
  Property C21. The controller refines the abstract machine: from any configuration the policy may
  start with, every sequence of progress reports is answered (the planning inside never diverges),
  and the changes it reports are, in order, the labels of a run of the machine that starts and ends
  in the phases the controller's state denotes; the workers and the request depth do not move.
\<close>

theorem controller_refines_machine:
  assumes "Fixed.Connections f > 0 \<or> 1 \<le> Connections start"
    and "\<forall>p \<in> set ps. int64 (UploadedBytes p)"
  shows "\<exists>ds c'. observe_all Observe ps (NewController w start l f) = Some (ds, c') \<and>
           phase_run (phase_of (NewController w start l f)) (map spreads ds) (phase_of c') \<and>
           same_frame (NewController w start l f) c'"
  using runtime.phase_answers [OF NewController_acting(1) [OF assms(1)] assms(2)] by blast

theorem controller_refines_machine_witness:
  "\<exists>ds c'. observe_all Observe [no_progress, no_progress\<lparr>Refused := True\<rparr>]
       (NewController (no_workload\<lparr>Uploads := 100\<rparr>)
         \<lparr>Connections = 2, Concurrency = 64, RequestConcurrency = 16\<rparr> unmeasured unpinned) = Some (ds, c') \<and>
     phase_run (phase_of (NewController (no_workload\<lparr>Uploads := 100\<rparr>)
         \<lparr>Connections = 2, Concurrency = 64, RequestConcurrency = 16\<rparr> unmeasured unpinned))
       (map spreads ds) (phase_of c') \<and>
     same_frame (NewController (no_workload\<lparr>Uploads := 100\<rparr>)
         \<lparr>Connections = 2, Concurrency = 64, RequestConcurrency = 16\<rparr> unmeasured unpinned) c'"
  by (rule controller_refines_machine) (simp_all add: no_progress_def int64_def)

text \<open>
  Property C22. A controller settles: however long a phase reports, it makes at most eight changes.
  Each one but the last widens the spread, at most to double and never past the policy's maximum,
  starting from where the previous one left it; only the last may narrow it, and then exactly back
  to where the step before it began.
\<close>

theorem controller_settles:
  assumes "1 \<le> Connections start"
    and "\<forall>p \<in> set ps. int64 (UploadedBytes p)"
    and "observe_all Observe ps (NewController w start l f) = Some (ds, c')"
  shows "settling (Connections start) (map spreads ds) \<and> int (length ds) \<le> MaxConnections"
proof -
  let ?c = "NewController w start l f"
  have s: "acting ?c" "spread_of (phase_of ?c) = Connections start" "\<And>k n. phase_of ?c \<noteq> OnTrial k n"
    using NewController_acting [of f start w l] assms(1) by simp_all
  show ?thesis
    using runtime.phase_settles [OF s(1) assms(2,3) _ s(3)] assms(1) s(2) by simp
qed

text \<open>
  A phase of a hundred small files: the first window argues for a second connection, the second
  window is no faster, so the step is taken back and the controller is settled.
\<close>

definition sample_controller :: Controller where
  "sample_controller =
     NewController (no_workload\<lparr>Uploads := 100, LargestUpload := 20000\<rparr>)
       \<lparr>Connections = 1, Concurrency = 8, RequestConcurrency = 16\<rparr>
       (unmeasured\<lparr>RTT := 40 * Millisecond, Handshake := 100 * Millisecond\<rparr>) unpinned"

definition sample_reports :: "Progress list" where
  "sample_reports =
     [no_progress\<lparr>Elapsed := Second, Uploaded := 50, Remaining := 50, UploadedBytes := 1048576\<rparr>,
      no_progress\<lparr>Elapsed := 2 * Second, Uploaded := 70, Remaining := 30, UploadedBytes := 2097152\<rparr>]"

lemma sample_run:
  "map_option (\<lambda>(ds, c). (map spreads ds, stopped c)) (observe_all Observe sample_reports sample_controller) =
     Some ([(1, 2), (2, 1)], True)"
  by code_simp

theorem controller_settles_witness:
  "settling 1 [(1, 2), (2, 1)] \<and> int (length [(1, 2), (2 :: int, 1 :: int)]) \<le> MaxConnections"
proof -
  obtain ds c' where r: "observe_all Observe sample_reports sample_controller = Some (ds, c')"
      "map spreads ds = [(1, 2), (2, 1)]"
    using sample_run by auto
  have ok: "\<forall>p \<in> set sample_reports. int64 (UploadedBytes p)"
    by (simp add: sample_reports_def no_progress_def int64_def)
  have "settling 1 (map spreads ds) \<and> int (length ds) \<le> MaxConnections"
    using controller_settles [OF _ ok r(1) [unfolded sample_controller_def]] by simp
  moreover have "length ds = length [(1, 2), (2 :: int, 1 :: int)]" using r(2) by (metis length_map)
  ultimately show ?thesis using r(2) by simp
qed

end
