(* ===== verification/Autocache.thy ===== *)
theory Autocache
  imports Controller Prelude
begin

text \<open>
  The measurement cache (\<open>internal/autocache\<close>): the document, the lookup gates, the validation
  against today's round-trip time and the write-back. A \<open>time.Time\<close> is its instant in nanoseconds
  and \<open>Sub\<close> saturates at the bounds of a duration. The sentences of a decision are constructors. The
  digest behind the fingerprint is a parameter; reading and writing the file (\<open>store.go\<close>) are
  modelled over the value the JSON decoder returns.
\<close>

section \<open>The document\<close>

definition PolicyVersion :: int where "PolicyVersion = 2"
definition FormatVersion :: int where "FormatVersion = 1"
definition MaxRecords :: nat where "MaxRecords = 8"
definition Hour :: int where "Hour = 3600 * Second"
definition MaxAge :: int where "MaxAge = 30 * 24 * Hour"
definition MaxReuse :: int where "MaxReuse = 32"
definition MaxCeilingCarry :: int where "MaxCeilingCarry = 16"
definition countBand :: float64 where "countBand = Fin 2"
definition sizeBand :: float64 where "sizeBand = Fin 4"
definition smallShareBand :: float64 where "smallShareBand = Fin (1 / 4)"
definition rttBand :: float64 where "rttBand = Fin 2"

record CacheWorkload =
  Files :: int
  Bytes :: int
  P50 :: int
  P90 :: int
  Largest :: int
  SmallFiles :: int

record CacheLink =
  RTTMillis :: float64
  HandshakeMillis :: float64
  StreamBytesPerSecond :: float64

record CacheSettings =
  Connections :: int
  Concurrency :: int
  RequestConcurrency :: int

record Record =
  Target :: string
  RecPolicyVersion :: int
  MeasuredAt :: int
  LastUsed :: int
  Reused :: int
  RecWorkload :: CacheWorkload
  RecLink :: CacheLink
  RecSettings :: CacheSettings
  ConnectionCeiling :: int
  CeilingCarried :: int

record Store =
  Version :: int
  Records :: "Record list"

definition WorkloadOf :: "Workload \<Rightarrow> CacheWorkload" where
  "WorkloadOf w =
     \<lparr>Files = Uploads w, Bytes = UploadBytes w, P50 = P50Upload w, P90 = P90Upload w,
      Largest = LargestUpload w, SmallFiles = SmallUploads w\<rparr>"

definition millis :: "int \<Rightarrow> float64" where
  "millis d = (if d \<le> 0 then fzero else fdiv (of_int64 d) (of_int64 Millisecond))"

definition LinkOf :: "Link \<Rightarrow> CacheLink" where
  "LinkOf l =
     \<lparr>RTTMillis = millis (RTT l), HandshakeMillis = millis (Handshake l),
      StreamBytesPerSecond = Link.StreamBytesPerSecond l\<rparr>"

definition SettingsOf :: "Settings \<Rightarrow> CacheSettings" where
  "SettingsOf s =
     \<lparr>Connections = Settings.Connections s, Concurrency = Settings.Concurrency s,
      RequestConcurrency = Settings.RequestConcurrency s\<rparr>"

definition hex_digit :: "nat \<Rightarrow> char" where
  "hex_digit n = ''0123456789abcdef'' ! n"

definition hex_string :: "nat list \<Rightarrow> string" where
  "hex_string bytes = concat (map (\<lambda>b. [hex_digit (b div 16), hex_digit (b mod 16)]) bytes)"

definition Fingerprint :: "(string \<Rightarrow> nat list) \<Rightarrow> string \<Rightarrow> string" where
  "Fingerprint sha256 identity = ''sha256:'' @ hex_string (take 8 (sha256 identity))"

section \<open>Similarity\<close>

definition feq :: "float64 \<Rightarrow> float64 \<Rightarrow> bool" where
  "feq a b \<longleftrightarrow> a = b \<and> a \<noteq> NaN"

fun fabs :: "float64 \<Rightarrow> float64" where
  "fabs (Fin q) = Fin \<bar>q\<bar>"
| "fabs MInf = PInf"
| "fabs x = x"

definition bandwidthBound :: "CacheWorkload \<Rightarrow> bool" where
  "bandwidthBound w =
     BandwidthBound (no_workload\<lparr>Uploads := Files w, LargestUpload := Largest w, P90Upload := P90 w\<rparr>)"

definition smallShare :: "CacheWorkload \<Rightarrow> float64" where
  "smallShare w =
     (if Files w \<le> 0 then fzero else fdiv (of_int64 (SmallFiles w)) (of_int64 (Files w)))"

definition withinBand :: "float64 \<Rightarrow> float64 \<Rightarrow> float64 \<Rightarrow> bool" where
  "withinBand a b band =
     (if feq a b then True
      else if fle a fzero \<or> fle b fzero then False
      else
        let ratio = fdiv a b in fle ratio band \<and> fle (fdiv (Fin 1) band) ratio)"

datatype feature = SmallOrNot | FileCount | TotalBytes | MedianSize | NinetiethSize | SmallShare

text \<open>\<open>similar\<close> names the first feature that disagrees, or none.\<close>

fun first_outside :: "(feature \<times> float64 \<times> float64 \<times> float64) list \<Rightarrow> feature option" where
  "first_outside [] = None"
| "first_outside ((f, was, is_now, band) # fs) =
     (if \<not> withinBand is_now was band then Some f else first_outside fs)"

definition similar :: "CacheWorkload \<Rightarrow> CacheWorkload \<Rightarrow> feature option" where
  "similar anchor now =
     (if bandwidthBound anchor \<noteq> bandwidthBound now then Some SmallOrNot
      else
        case first_outside
            [(FileCount, of_int64 (Files anchor), of_int64 (Files now), countBand),
             (TotalBytes, of_int64 (Bytes anchor), of_int64 (Bytes now), countBand),
             (MedianSize, of_int64 (P50 anchor), of_int64 (P50 now), sizeBand),
             (NinetiethSize, of_int64 (P90 anchor), of_int64 (P90 now), sizeBand)] of
          Some f \<Rightarrow> Some f
        | None \<Rightarrow>
            if fless smallShareBand (fabs (fsub (smallShare anchor) (smallShare now)))
            then Some SmallShare else None)"

section \<open>Lookup and validation\<close>

datatype reason =
    Unset
  | NoCacheFile
  | UnknownServer
  | OtherPolicy int
  | TooOld int
  | ReusedTooOften int
  | NoLongerSimilar feature
  | NoUsableRecord
  | Unmeasurable
  | LinkMoved float64 float64
  | LinkAgrees float64 float64

type_synonym Candidate = "Record option"

record Decision =
  Hit :: bool
  Why :: reason
  DecStream :: float64
  DecCeiling :: int
  DecReused :: int

definition no_decision :: "reason \<Rightarrow> Decision" where
  "no_decision why =
     \<lparr>Hit = False, Why = why, DecStream = fzero, DecCeiling = 0, DecReused = 0\<rparr>"

definition Restores :: "Decision \<Rightarrow> bool" where
  "Restores d \<longleftrightarrow>
     Hit d \<and> (fless fzero (DecStream d) \<or> DecCeiling d > 0)"

text \<open>\<open>Time.Sub\<close> saturates.\<close>

definition time_sub :: "int \<Rightarrow> int \<Rightarrow> int" where
  "time_sub t u = max MinInt64 (min MaxInt64 (t - u))"

definition find_record :: "string \<Rightarrow> Record list \<Rightarrow> Record option" where
  "find_record target rs = find (\<lambda>r. Target r = target) rs"

definition Lookup :: "Store option \<Rightarrow> string \<Rightarrow> CacheWorkload \<Rightarrow> int \<Rightarrow> Candidate \<times> Decision" where
  "Lookup s target now clock =
     (case s of
        None \<Rightarrow> (None, no_decision NoCacheFile)
      | Some st \<Rightarrow>
          (case find_record target (Records st) of
             None \<Rightarrow> (None, no_decision UnknownServer)
           | Some rec \<Rightarrow>
               if RecPolicyVersion rec \<noteq> PolicyVersion
               then (None, no_decision (OtherPolicy (RecPolicyVersion rec)))
               else if time_sub clock (MeasuredAt rec) > MaxAge
               then (None, no_decision (TooOld (time_sub clock (MeasuredAt rec))))
               else if Reused rec \<ge> MaxReuse
               then (None, no_decision (ReusedTooOften (Reused rec)))
               else
                 (case similar (RecWorkload rec) now of
                    Some f \<Rightarrow> (None, no_decision (NoLongerSimilar f))
                  | None \<Rightarrow> (Some rec, no_decision Unset))))"

definition Validate :: "Candidate \<Rightarrow> int \<Rightarrow> Decision" where
  "Validate c measured =
     (case c of
        None \<Rightarrow> no_decision NoUsableRecord
      | Some rec \<Rightarrow>
          let stored = RTTMillis (RecLink rec); now = millis measured in
          if measured \<le> 0 \<or> fle stored fzero then no_decision Unmeasurable
          else if \<not> withinBand now stored rttBand then no_decision (LinkMoved now stored)
          else
            \<lparr>Hit = True, Why = LinkAgrees now stored,
             DecStream = StreamBytesPerSecond (RecLink rec),
             DecCeiling = ConnectionCeiling rec, DecReused = Reused rec\<rparr>)"

section \<open>Write-back\<close>

record Observation =
  ObsTarget :: string
  ObsWorkload :: CacheWorkload
  ObsLink :: CacheLink
  ObsSettings :: CacheSettings
  ObsMeasured :: bool
  ObsReused :: bool
  ObsCeiling :: int
  CeilingUntested :: bool

definition stillTrusted :: "Record \<Rightarrow> int \<Rightarrow> bool" where
  "stillTrusted r clock \<longleftrightarrow>
     RecPolicyVersion r = PolicyVersion \<and> time_sub clock (MeasuredAt r) \<le> MaxAge \<and>
     Reused r < MaxReuse"

text \<open>
  Go's \<open>==\<close> on two records compares the floats of their links, so a NaN there makes a record differ
  from itself.
\<close>

definition link_equal :: "CacheLink \<Rightarrow> CacheLink \<Rightarrow> bool" where
  "link_equal a b \<longleftrightarrow>
     feq (RTTMillis a) (RTTMillis b) \<and> feq (HandshakeMillis a) (HandshakeMillis b) \<and>
     feq (StreamBytesPerSecond a) (StreamBytesPerSecond b)"

definition record_equal :: "Record \<Rightarrow> Record \<Rightarrow> bool" where
  "record_equal r other \<longleftrightarrow>
     r\<lparr>LastUsed := 0, RecLink := RecLink other\<rparr> = other\<lparr>LastUsed := 0\<rparr> \<and>
     link_equal (RecLink r) (RecLink other)"

definition put_record :: "Record \<Rightarrow> Record list \<Rightarrow> Record list" where
  "put_record rec rs = take MaxRecords (rec # filter (\<lambda>r. Target r \<noteq> Target rec) rs)"

text \<open>The record a finished run writes: its anchor, and its ceiling.\<close>

definition next_anchor :: "Record option \<Rightarrow> Observation \<Rightarrow> int \<Rightarrow> Record" where
  "next_anchor old obs clock =
     (let rec =
        \<lparr>Target = ObsTarget obs, RecPolicyVersion = PolicyVersion, MeasuredAt = clock, LastUsed = clock,
         Reused = 0, RecWorkload = ObsWorkload obs, RecLink = ObsLink obs,
         RecSettings = ObsSettings obs, ConnectionCeiling = 0, CeilingCarried = 0\<rparr> in
      case old of
        None \<Rightarrow> rec
      | Some o1 \<Rightarrow>
          if \<not> ObsMeasured obs \<and> stillTrusted o1 clock
          then rec\<lparr>MeasuredAt := MeasuredAt o1, RecWorkload := RecWorkload o1, RecLink := RecLink o1,
                   Reused := (if ObsReused obs then Reused o1 + 1 else Reused o1)\<rparr>
          else rec)"

definition next_ceiling :: "Record option \<Rightarrow> Observation \<Rightarrow> Record \<Rightarrow> Record" where
  "next_ceiling old obs rec =
     (if ObsCeiling obs > 0 then rec\<lparr>ConnectionCeiling := ObsCeiling obs\<rparr>
      else
        case old of
          None \<Rightarrow> rec
        | Some o1 \<Rightarrow>
            if CeilingUntested obs \<and> ConnectionCeiling o1 > 0 \<and>
               CeilingCarried o1 < MaxCeilingCarry
            then rec\<lparr>ConnectionCeiling := ConnectionCeiling o1,
                     CeilingCarried := CeilingCarried o1 + 1\<rparr>
            else rec)"

definition Update :: "Observation \<Rightarrow> int \<Rightarrow> Store \<Rightarrow> bool \<times> Store" where
  "Update obs clock s =
     (if ObsTarget obs = [] then (False, s)
      else
        let s = s\<lparr>Version := FormatVersion\<rparr>;
            old = find_record (ObsTarget obs) (Records s);
            rec = next_ceiling old obs (next_anchor old obs clock) in
        if (case old of None \<Rightarrow> False | Some o1 \<Rightarrow> record_equal rec o1) then (False, s)
        else (True, s\<lparr>Records := put_record rec (Records s)\<rparr>))"

section \<open>The store stays a small map, most recently written first\<close>

lemma find_record_Some: "find_record t rs = Some r \<Longrightarrow> r \<in> set rs \<and> Target r = t"
  by (auto simp: find_record_def find_Some_iff in_set_conv_nth)

lemma find_record_None: "find_record t rs = None \<longleftrightarrow> t \<notin> Target ` set rs"
  by (auto simp: find_record_def find_None_iff)

lemma find_record_distinct:
  "distinct (map Target rs) \<Longrightarrow> r \<in> set rs \<Longrightarrow> find_record (Target r) rs = Some r"
  by (induction rs) (auto simp: find_record_def rev_image_eqI)

lemma put_record_find [simp]: "find_record (Target rec) (put_record rec rs) = Some rec"
  by (simp add: put_record_def find_record_def MaxRecords_def take_Suc_conv_app_nth numeral_eq_Suc)

lemma put_record_set: "r \<in> set (put_record rec rs) \<Longrightarrow> r = rec \<or> (r \<in> set rs \<and> Target r \<noteq> Target rec)"
  by (auto simp: put_record_def dest!: in_set_takeD)

lemma put_record_distinct:
  assumes "distinct (map Target rs)"
  shows "distinct (map Target (put_record rec rs))" "length (put_record rec rs) \<le> MaxRecords"
proof -
  have "distinct (map Target (rec # filter (\<lambda>r. Target r \<noteq> Target rec) rs))"
    using assms by (auto simp: distinct_map_filter)
  then show "distinct (map Target (put_record rec rs))"
    by (simp only: put_record_def take_map [symmetric] distinct_take)
qed (simp add: put_record_def)

definition store_ok :: "Store \<Rightarrow> bool" where
  "store_ok s \<longleftrightarrow> distinct (map Target (Records s)) \<and> length (Records s) \<le> MaxRecords"

lemma Update_ok: "store_ok s \<Longrightarrow> store_ok (snd (Update obs t s))"
  using put_record_distinct by (auto simp: Update_def Let_def store_ok_def)

section \<open>Anchors\<close>

text \<open>The record a write-back stands for, whether or not it had to be written.\<close>

definition written :: "Observation \<Rightarrow> int \<Rightarrow> Store \<Rightarrow> Record" where
  "written obs t s =
     (let old = find_record (ObsTarget obs) (Records s) in next_ceiling old obs (next_anchor old obs t))"

lemma written_Target [simp]: "Target (written obs t s) = ObsTarget obs"
  by (simp add: written_def next_ceiling_def next_anchor_def Let_def split: option.split)

text \<open>Two records that agree on all but the time of their last use.\<close>

definition same_record :: "Record \<Rightarrow> Record \<Rightarrow> bool" where
  "same_record r r' \<longleftrightarrow> r\<lparr>LastUsed := 0\<rparr> = r'\<lparr>LastUsed := 0\<rparr>"

lemma record_equal_same: "record_equal r r' \<Longrightarrow> same_record r r'"
  by (cases r; cases r'; cases "RecLink r"; cases "RecLink r'")
    (auto simp: record_equal_def same_record_def link_equal_def feq_def)

lemma same_record_fields:
  assumes "same_record r r'"
  shows "Target r = Target r'" "MeasuredAt r = MeasuredAt r'" "RecWorkload r = RecWorkload r'"
    "RecLink r = RecLink r'" "Reused r = Reused r'" "ConnectionCeiling r = ConnectionCeiling r'"
    "CeilingCarried r = CeilingCarried r'"
  using assms by (cases r; cases r'; simp add: same_record_def)+

lemma Update_alt:
  "Update obs t s =
     (if ObsTarget obs = [] then (False, s)
      else if (case find_record (ObsTarget obs) (Records s) of
                 None \<Rightarrow> False | Some o1 \<Rightarrow> record_equal (written obs t s) o1)
      then (False, s\<lparr>Version := FormatVersion\<rparr>)
      else (True, s\<lparr>Version := FormatVersion, Records := put_record (written obs t s) (Records s)\<rparr>))"
  by (cases "find_record (ObsTarget obs) (Records s)") (simp_all add: Update_def written_def Let_def)

lemma Update_records:
  assumes "store_ok s" "r \<in> set (Records (snd (Update obs t s)))"
  shows "(Target r = ObsTarget obs \<and> ObsTarget obs \<noteq> [] \<and> same_record (written obs t s) r) \<or>
         (r \<in> set (Records s) \<and> (ObsTarget obs = [] \<or> Target r \<noteq> ObsTarget obs))"
proof (cases "ObsTarget obs \<noteq> [] \<and> (case find_record (ObsTarget obs) (Records s) of
                 None \<Rightarrow> False | Some o1 \<Rightarrow> record_equal (written obs t s) o1)")
  case True
  then obtain o1 where o1: "find_record (ObsTarget obs) (Records s) = Some o1"
      "record_equal (written obs t s) o1"
    by (auto split: option.splits)
  have "r = o1" if "r \<in> set (Records s)" "Target r = ObsTarget obs"
    using that assms(1) o1(1) find_record_distinct [of "Records s" r] by (simp add: store_ok_def)
  then show ?thesis
    using assms(2) True record_equal_same [OF o1(2)] o1 by (auto simp: Update_alt)
next
  case False
  then show ?thesis
    using assms(2) put_record_set [of r "written obs t s" "Records s"]
    by (auto simp: Update_alt same_record_def split: if_splits option.splits)
qed

type_synonym history = "(Observation \<times> int) list"

definition about :: "Record \<Rightarrow> history \<Rightarrow> history" where
  "about r h = filter (\<lambda>(obs, t). ObsTarget obs = Target r) h"

text \<open>
  A record's anchor is one run's own observation, no later run of its target measured the link, and
  the record has been leaned on exactly as often as it says.
\<close>

definition anchored :: "history \<Rightarrow> Record \<Rightarrow> bool" where
  "anchored h r \<longleftrightarrow>
     (\<exists>pre obs t post. h = pre @ (obs, t) # post \<and>
        ObsTarget obs = Target r \<and> MeasuredAt r = t \<and> RecWorkload r = ObsWorkload obs \<and>
        RecLink r = ObsLink obs \<and>
        (\<forall>(o2, t2) \<in> set (about r post). \<not> ObsMeasured o2 \<and> time_sub t2 t \<le> MaxAge) \<and>
        Reused r = int (length (filter (\<lambda>(o2, t2). ObsReused o2) (about r post))))"

text \<open>
  A ceiling was one run's own finding, and every run of the target since then only inherited it.
\<close>

definition ceiling_found :: "history \<Rightarrow> Record \<Rightarrow> bool" where
  "ceiling_found h r \<longleftrightarrow>
     (ConnectionCeiling r \<noteq> 0 \<longrightarrow>
       (\<exists>pre obs t post. h = pre @ (obs, t) # post \<and>
          ObsTarget obs = Target r \<and> ObsCeiling obs = ConnectionCeiling r \<and> 0 < ObsCeiling obs \<and>
          (\<forall>(o2, t2) \<in> set (about r post). CeilingUntested o2) \<and>
          CeilingCarried r = int (length (about r post))))"

lemma about_append [simp]: "about r (h @ g) = about r h @ about r g"
  by (simp add: about_def)

lemma about_Target: "Target r = Target r' \<Longrightarrow> about r h = about r' h"
  by (simp add: about_def)

lemma anchored_same: "same_record r r' \<Longrightarrow> anchored h r \<Longrightarrow> anchored h r'"
  using about_Target [OF same_record_fields(1) [of r r']]
  by (simp add: anchored_def same_record_fields [of r r'])

lemma ceiling_found_same: "same_record r r' \<Longrightarrow> ceiling_found h r \<Longrightarrow> ceiling_found h r'"
  using about_Target [OF same_record_fields(1) [of r r']]
  by (simp add: ceiling_found_def same_record_fields [of r r'])

lemma anchored_other:
  assumes "anchored h r" "ObsTarget obs \<noteq> Target r"
  shows "anchored (h @ [(obs, t)]) r"
proof -
  have "about r [(obs, t)] = []" using assms(2) by (simp add: about_def)
  moreover obtain pre o1 t1 post where "h = pre @ (o1, t1) # post" "ObsTarget o1 = Target r"
      "MeasuredAt r = t1" "RecWorkload r = ObsWorkload o1" "RecLink r = ObsLink o1"
      "\<forall>(o2, t2) \<in> set (about r post). \<not> ObsMeasured o2 \<and> time_sub t2 t1 \<le> MaxAge"
      "Reused r = int (length (filter (\<lambda>(o2, t2). ObsReused o2) (about r post)))"
    using assms(1) unfolding anchored_def by blast
  ultimately show ?thesis
    unfolding anchored_def
    by (intro exI [of _ pre] exI [of _ o1] exI [of _ t1] exI [of _ "post @ [(obs, t)]"]) simp
qed

lemma ceiling_found_other:
  assumes "ceiling_found h r" "ObsTarget obs \<noteq> Target r"
  shows "ceiling_found (h @ [(obs, t)]) r"
proof (cases "ConnectionCeiling r = 0")
  case False
  have "about r [(obs, t)] = []" using assms(2) by (simp add: about_def)
  moreover obtain pre o1 t1 post where "h = pre @ (o1, t1) # post" "ObsTarget o1 = Target r"
      "ObsCeiling o1 = ConnectionCeiling r" "0 < ObsCeiling o1"
      "\<forall>(o2, t2) \<in> set (about r post). CeilingUntested o2"
      "CeilingCarried r = int (length (about r post))"
    using assms(1) False unfolding ceiling_found_def by blast
  ultimately show ?thesis
    unfolding ceiling_found_def
    by (intro impI exI [of _ pre] exI [of _ o1] exI [of _ t1] exI [of _ "post @ [(obs, t)]"]) simp
qed (simp add: ceiling_found_def)

lemma anchored_leaned_on:
  assumes "anchored h o1" "ObsTarget obs = Target o1" "\<not> ObsMeasured obs"
    and "time_sub t (MeasuredAt o1) \<le> MaxAge"
    and r: "Target r = Target o1" "MeasuredAt r = MeasuredAt o1" "RecWorkload r = RecWorkload o1"
      "RecLink r = RecLink o1" "Reused r = (if ObsReused obs then Reused o1 + 1 else Reused o1)"
  shows "anchored (h @ [(obs, t)]) r"
proof -
  have "about r [(obs, t)] = [(obs, t)]" using assms(2) r(1) by (simp add: about_def)
  moreover obtain pre ob t1 post where "h = pre @ (ob, t1) # post" "ObsTarget ob = Target o1"
      "MeasuredAt o1 = t1" "RecWorkload o1 = ObsWorkload ob" "RecLink o1 = ObsLink ob"
      "\<forall>(o2, t2) \<in> set (about r post). \<not> ObsMeasured o2 \<and> time_sub t2 t1 \<le> MaxAge"
      "Reused o1 = int (length (filter (\<lambda>(o2, t2). ObsReused o2) (about r post)))"
    using assms(1) unfolding anchored_def about_Target [OF r(1)] by blast
  ultimately show ?thesis
    unfolding anchored_def using assms(3,4) r
    by (intro exI [of _ pre] exI [of _ ob] exI [of _ t1] exI [of _ "post @ [(obs, t)]"]) auto
qed

lemma ceiling_found_carried:
  assumes "ceiling_found h o1" "ObsTarget obs = Target o1" "CeilingUntested obs"
    and r: "Target r = Target o1" "ConnectionCeiling r = ConnectionCeiling o1"
      "CeilingCarried r = CeilingCarried o1 + 1"
  shows "ceiling_found (h @ [(obs, t)]) r"
proof (cases "ConnectionCeiling r = 0")
  case False
  have "about r [(obs, t)] = [(obs, t)]" using assms(2) r(1) by (simp add: about_def)
  moreover obtain pre ob t1 post where "h = pre @ (ob, t1) # post" "ObsTarget ob = Target o1"
      "ObsCeiling ob = ConnectionCeiling o1" "0 < ObsCeiling ob"
      "\<forall>(o2, t2) \<in> set (about r post). CeilingUntested o2"
      "CeilingCarried o1 = int (length (about r post))"
    using assms(1) False r(2) unfolding ceiling_found_def about_Target [OF r(1)] by auto
  ultimately show ?thesis
    unfolding ceiling_found_def using assms(3) r
    by (intro impI exI [of _ pre] exI [of _ ob] exI [of _ t1] exI [of _ "post @ [(obs, t)]"]) auto
qed (simp add: ceiling_found_def)

lemma anchored_fresh:
  assumes "Target r = ObsTarget obs" "MeasuredAt r = t" "RecWorkload r = ObsWorkload obs"
    "RecLink r = ObsLink obs" "Reused r = 0"
  shows "anchored (h @ [(obs, t)]) r"
  unfolding anchored_def using assms
  by (intro exI [of _ h] exI [of _ obs] exI [of _ t] exI [of _ "[]"]) (simp add: about_def)

lemma ceiling_found_fresh:
  assumes "Target r = ObsTarget obs" "ConnectionCeiling r = ObsCeiling obs" "0 < ObsCeiling obs"
    "CeilingCarried r = 0"
  shows "ceiling_found (h @ [(obs, t)]) r"
  unfolding ceiling_found_def using assms
  by (intro impI exI [of _ h] exI [of _ obs] exI [of _ t] exI [of _ "[]"]) (simp add: about_def)

text \<open>What holds of every record of a store after a history of runs.\<close>

definition sound :: "history \<Rightarrow> Record \<Rightarrow> bool" where
  "sound h r \<longleftrightarrow>
     Target r \<noteq> [] \<and> anchored h r \<and> ceiling_found h r \<and> Reused r \<le> MaxReuse \<and>
     0 \<le> ConnectionCeiling r \<and> CeilingCarried r \<le> MaxCeilingCarry"

lemma next_ceiling_anchor [simp]:
  "Target (next_ceiling old obs rec) = Target rec" "MeasuredAt (next_ceiling old obs rec) = MeasuredAt rec"
  "RecWorkload (next_ceiling old obs rec) = RecWorkload rec" "RecLink (next_ceiling old obs rec) = RecLink rec"
  "Reused (next_ceiling old obs rec) = Reused rec"
  by (simp_all add: next_ceiling_def split: option.split)

lemma next_anchor_sound:
  assumes old: "\<And>o1. old = Some o1 \<Longrightarrow> sound h o1 \<and> Target o1 = ObsTarget obs"
    and r: "Target r = ObsTarget obs" "MeasuredAt r = MeasuredAt (next_anchor old obs t)"
      "RecWorkload r = RecWorkload (next_anchor old obs t)" "RecLink r = RecLink (next_anchor old obs t)"
      "Reused r = Reused (next_anchor old obs t)"
  shows "anchored (h @ [(obs, t)]) r \<and> Reused r \<le> MaxReuse"
proof (cases "\<exists>o1. old = Some o1 \<and> \<not> ObsMeasured obs \<and> stillTrusted o1 t")
  case True
  then obtain o1 where o1: "old = Some o1" "\<not> ObsMeasured obs" "stillTrusted o1 t" by blast
  have "anchored h o1" "Target o1 = ObsTarget obs" using old [OF o1(1)] by (simp_all add: sound_def)
  with o1 r show ?thesis
    using anchored_leaned_on [of h o1 obs t r]
    by (auto simp: next_anchor_def Let_def stillTrusted_def)
next
  case False
  then have "next_anchor old obs t = next_anchor None obs t"
    by (auto simp: next_anchor_def Let_def split: option.split)
  then show ?thesis
    using r anchored_fresh [of r obs t h] by (simp add: next_anchor_def Let_def MaxReuse_def)
qed

lemma next_ceiling_sound:
  assumes old: "\<And>o1. old = Some o1 \<Longrightarrow> sound h o1 \<and> Target o1 = ObsTarget obs"
    and rec: "Target rec = ObsTarget obs" "ConnectionCeiling rec = 0" "CeilingCarried rec = 0"
    and r: "r = next_ceiling old obs rec"
  shows "ceiling_found (h @ [(obs, t)]) r \<and> 0 \<le> ConnectionCeiling r \<and> CeilingCarried r \<le> MaxCeilingCarry"
proof -
  consider (own) "ObsCeiling obs > 0"
    | (carried) o1 where "\<not> ObsCeiling obs > 0" "old = Some o1" "CeilingUntested obs"
        "ConnectionCeiling o1 > 0" "CeilingCarried o1 < MaxCeilingCarry"
    | (free) "\<not> ObsCeiling obs > 0" "\<And>o1. old = Some o1 \<Longrightarrow>
        \<not> (CeilingUntested obs \<and> ConnectionCeiling o1 > 0 \<and> CeilingCarried o1 < MaxCeilingCarry)"
    by blast
  then show ?thesis
  proof cases
    case own
    then have "r = rec\<lparr>ConnectionCeiling := ObsCeiling obs\<rparr>" by (simp add: r next_ceiling_def)
    with own ceiling_found_fresh [of r obs h t] rec show ?thesis by (simp add: MaxCeilingCarry_def)
  next
    case carried
    then have "r = rec\<lparr>ConnectionCeiling := ConnectionCeiling o1, CeilingCarried := CeilingCarried o1 + 1\<rparr>"
      by (simp add: r next_ceiling_def)
    moreover have "ceiling_found h o1" "Target o1 = ObsTarget obs"
      using old [OF carried(2)] by (simp_all add: sound_def)
    ultimately show ?thesis
      using carried ceiling_found_carried [of h o1 obs r t] rec by simp
  next
    case free
    then have "r = rec" by (auto simp: r next_ceiling_def split: option.split)
    with rec show ?thesis by (simp add: ceiling_found_def MaxCeilingCarry_def)
  qed
qed

lemma written_sound:
  assumes "ObsTarget obs \<noteq> []"
    and old: "\<And>o1. find_record (ObsTarget obs) (Records s) = Some o1 \<Longrightarrow> sound h o1"
  shows "sound (h @ [(obs, t)]) (written obs t s)"
proof -
  let ?old = "find_record (ObsTarget obs) (Records s)"
  let ?rec = "next_anchor ?old obs t"
  have w: "written obs t s = next_ceiling ?old obs ?rec" by (simp add: written_def Let_def)
  have so: "sound h o1 \<and> Target o1 = ObsTarget obs" if "?old = Some o1" for o1
    using old [OF that] find_record_Some [OF that] by simp
  have rec: "Target ?rec = ObsTarget obs" "ConnectionCeiling ?rec = 0" "CeilingCarried ?rec = 0"
    by (simp_all add: next_anchor_def Let_def split: option.split)
  show ?thesis
    using next_anchor_sound [where r = "written obs t s" and t = t, OF so] next_ceiling_sound [OF so rec w] assms(1) rec(1)
    by (simp add: sound_def w)
qed

lemma sound_same: "same_record r r' \<Longrightarrow> sound h r \<Longrightarrow> sound h r'"
  using anchored_same [of r r' h] ceiling_found_same [of r r' h] same_record_fields [of r r']
  by (simp add: sound_def)

lemma sound_other: "sound h r \<Longrightarrow> ObsTarget obs \<noteq> Target r \<Longrightarrow> sound (h @ [(obs, t)]) r"
  by (simp add: sound_def anchored_other ceiling_found_other)

definition store_sound :: "history \<Rightarrow> Store \<Rightarrow> bool" where
  "store_sound h s \<longleftrightarrow> store_ok s \<and> (\<forall>r \<in> set (Records s). sound h r)"

lemma Update_sound:
  assumes "store_sound h s"
  shows "store_sound (h @ [(obs, t)]) (snd (Update obs t s))"
proof -
  have ok: "store_ok s" and snd: "\<And>r. r \<in> set (Records s) \<Longrightarrow> sound h r"
    using assms by (auto simp: store_sound_def)
  have "sound (h @ [(obs, t)]) r" if "r \<in> set (Records (snd (Update obs t s)))" for r
    using Update_records [OF ok that]
  proof (elim disjE conjE)
    assume r: "ObsTarget obs \<noteq> []" "same_record (written obs t s) r"
    have "sound (h @ [(obs, t)]) (written obs t s)"
      by (rule written_sound [OF r(1)]) (use find_record_Some snd in blast)
    with r(2) show ?thesis by (rule sound_same)
  next
    assume "r \<in> set (Records s)" "ObsTarget obs = []"
    moreover from this snd have "Target r \<noteq> []" by (simp add: sound_def)
    ultimately show ?thesis using snd by (intro sound_other) auto
  next
    assume "r \<in> set (Records s)" "Target r \<noteq> ObsTarget obs"
    with snd show ?thesis by (intro sound_other) auto
  qed
  then show ?thesis using Update_ok [OF ok] by (simp add: store_sound_def)
qed

text \<open>A store through a history of runs, from an empty one.\<close>

fun run_updates :: "history \<Rightarrow> Store \<Rightarrow> Store" where
  "run_updates [] s = s"
| "run_updates ((obs, t) # h) s = run_updates h (snd (Update obs t s))"

definition empty_store :: Store where
  "empty_store = \<lparr>Version = FormatVersion, Records = []\<rparr>"

lemma run_updates_sound: "store_sound g s \<Longrightarrow> store_sound (g @ h) (run_updates h s)"
proof (induction h arbitrary: g s)
  case (Cons x h)
  obtain obs t where x: "x = (obs, t)" by (cases x)
  show ?case using Cons.IH [OF Update_sound [OF Cons.prems, of obs t]] by (simp add: x)
qed simp

text \<open>
  Property C13. The cache does not drift. After any history of runs the store keeps at most eight
  records, one per target; the measurement a record holds is the observation of one of those runs,
  taken when the record says; no later run of that target measured anything, none leaned on it
  past the age limit, and it has been reused exactly as often as it counts, at most 32 times. Its
  ceiling was found by one run and inherited untested by every run since, at most 16 times.
\<close>

theorem cache_does_not_drift:
  assumes "r \<in> set (Records (run_updates h empty_store))"
  shows "store_ok (run_updates h empty_store) \<and> anchored h r \<and> Reused r \<le> MaxReuse \<and>
           ceiling_found h r \<and> CeilingCarried r \<le> MaxCeilingCarry"
  using run_updates_sound [of "[]" empty_store h] assms
  by (auto simp: store_sound_def store_ok_def empty_store_def sound_def)

text \<open>Three runs against one server: a measurement, a run that only leans on it, and a refusal.\<close>

definition sample_observation :: Observation where
  "sample_observation =
     \<lparr>ObsTarget = ''sha256:00'', ObsWorkload = WorkloadOf no_workload,
      ObsLink = \<lparr>RTTMillis = Fin 13, HandshakeMillis = Fin 400, StreamBytesPerSecond = Fin 360000\<rparr>,
      ObsSettings = \<lparr>Connections = 2, Concurrency = 8, RequestConcurrency = 16\<rparr>,
      ObsMeasured = True, ObsReused = False, ObsCeiling = 0, CeilingUntested = False\<rparr>"

definition sample_history :: history where
  "sample_history =
     [(sample_observation, 1000),
      (sample_observation\<lparr>ObsMeasured := False, ObsReused := True\<rparr>, 2000),
      (sample_observation\<lparr>ObsMeasured := False, ObsCeiling := 3\<rparr>, 3000)]"

lemma sample_store:
  "map (\<lambda>r. (MeasuredAt r, Reused r, ConnectionCeiling r)) (Records (run_updates sample_history empty_store)) =
     [(1000, 1, 3)]"
  by code_simp

theorem cache_does_not_drift_witness:
  "\<exists>r. Records (run_updates sample_history empty_store) = [r] \<and> anchored sample_history r \<and>
       MeasuredAt r = 1000 \<and> Reused r = 1"
proof -
  obtain r where r: "Records (run_updates sample_history empty_store) = [r]"
      "MeasuredAt r = 1000" "Reused r = 1"
    using sample_store by (auto simp: map_eq_Cons_conv)
  with cache_does_not_drift [of r sample_history] show ?thesis by auto
qed

section \<open>The file\<close>

text \<open>
  The bytes on disk are a list, \<open>encode\<close> and \<open>decode\<close> the JSON codec, and what reading, locking and
  saving report are values the definitions take. \<open>Save\<close> replaces the file by a rename, so a failed
  save leaves the old bytes.
\<close>

datatype 'b file_read = ReadMissing | ReadFails | ReadData "'b list"

datatype load_error = ErrEmpty | ReadError | ParseError | OtherVersion int

definition Load :: "('b list \<Rightarrow> Store option) \<Rightarrow> string \<Rightarrow> 'b file_read \<Rightarrow> Store \<times> load_error option" where
  "Load decode path disk =
     (if path = [] then (empty_store, Some ErrEmpty)
      else
        case disk of
          ReadMissing \<Rightarrow> (empty_store, Some ErrEmpty)
        | ReadFails \<Rightarrow> (empty_store, Some ReadError)
        | ReadData data \<Rightarrow>
            if data = [] then (empty_store, Some ErrEmpty)
            else
              case decode data of
                None \<Rightarrow> (empty_store, Some ParseError)
              | Some s \<Rightarrow>
                  if Version s \<noteq> FormatVersion then (empty_store, Some (OtherVersion (Version s)))
                  else (s\<lparr>Version := FormatVersion\<rparr>, None))"

datatype save_error = LockFailed | WriteFailed

definition saveUnlocked ::
    "(Store \<Rightarrow> 'b list) \<Rightarrow> bool \<Rightarrow> Store \<Rightarrow> 'b file_read \<Rightarrow> save_error option \<times> 'b file_read" where
  "saveUnlocked encode write_ok s disk =
     (if write_ok then (None, ReadData (encode (s\<lparr>Version := FormatVersion\<rparr>)))
      else (Some WriteFailed, disk))"

definition UpdateFile ::
    "('b list \<Rightarrow> Store option) \<Rightarrow> (Store \<Rightarrow> 'b list) \<Rightarrow> bool \<Rightarrow> bool \<Rightarrow> string \<Rightarrow> Observation \<Rightarrow> int \<Rightarrow>
       'b file_read \<Rightarrow> (bool \<times> save_error option) \<times> 'b file_read" where
  "UpdateFile decode encode lock_ok write_ok path obs t disk =
     (if path = [] then ((False, None), disk)
      else if \<not> lock_ok then ((False, Some LockFailed), disk)
      else
        case Load decode path disk of (store, e) \<Rightarrow>
          let store = (if e \<noteq> None \<and> e \<noteq> Some ErrEmpty then empty_store else store) in
          case Update obs t store of (changed, store') \<Rightarrow>
            if \<not> changed then ((False, None), disk)
            else
              case saveUnlocked encode write_ok store' disk of (err, disk') \<Rightarrow> ((True, err), disk'))"

lemma Load_empty: "snd (Load decode path disk) \<noteq> None \<Longrightarrow> fst (Load decode path disk) = empty_store"
  by (auto simp: Load_def split: file_read.splits option.splits)

lemma in_take_or_last: "r \<in> set rs \<Longrightarrow> r \<in> set (take (length rs - 1) rs) \<or> r = last rs"
  by (induction rs rule: rev_induct) auto

lemma put_record_keeps:
  assumes "r \<in> set rs" "Target r \<noteq> Target rec" "length rs \<le> MaxRecords"
  shows "r \<in> set (put_record rec rs) \<or> (length rs = MaxRecords \<and> r = last rs)"
proof (cases "length (filter (\<lambda>r. Target r \<noteq> Target rec) rs) < MaxRecords")
  case True
  then have "put_record rec rs = rec # filter (\<lambda>r. Target r \<noteq> Target rec) rs"
    by (simp add: put_record_def)
  with assms show ?thesis by simp
next
  case False
  then have len: "length rs = MaxRecords" "length (filter (\<lambda>r. Target r \<noteq> Target rec) rs) = length rs"
    using length_filter_le [of "\<lambda>r. Target r \<noteq> Target rec" rs] assms(3) by linarith+
  then have "filter (\<lambda>r. Target r \<noteq> Target rec) rs = rs"
    by (metis length_filter_less filter_True less_irrefl)
  then have "put_record rec rs = rec # take (length rs - 1) rs"
    using len(1) by (simp add: put_record_def MaxRecords_def take_Cons')
  with in_take_or_last [OF assms(1)] len(1) show ?thesis by auto
qed

lemma UpdateFile_saved:
  assumes "UpdateFile decode encode True True path obs t disk = ((True, None), disk')"
  shows "path \<noteq> []"
    "\<exists>s'. Update obs t (fst (Load decode path disk)) = (True, s') \<and>
       disk' = ReadData (encode (s'\<lparr>Version := FormatVersion\<rparr>))"
proof -
  obtain s e where l: "Load decode path disk = (s, e)" by fastforce
  have s: "(if e \<noteq> None \<and> e \<noteq> Some ErrEmpty then empty_store else s) = s"
    using Load_empty [of decode path disk] by (auto simp: l)
  obtain c s' where u: "Update obs t s = (c, s')" by fastforce
  show "path \<noteq> []" using assms by (auto simp: UpdateFile_def)
  with assms show "\<exists>s'. Update obs t (fst (Load decode path disk)) = (True, s') \<and>
       disk' = ReadData (encode (s'\<lparr>Version := FormatVersion\<rparr>))"
    unfolding UpdateFile_def l prod.case Let_def s u fst_conv
    by (auto simp: saveUnlocked_def split: if_splits)
qed

text \<open>
  Property C24. What a run writes is what the next run reads. When the lock is taken, the file can
  be written and the codec reads back what it wrote, an update that reports a change leaves a file
  whose store, loaded without error, has the run's record under its target, and every other target
  keeps its record unless it was the least recently written one of a full store.
\<close>

theorem cache_file_roundtrip:
  assumes codec: "\<And>s. decode (encode s) = Some s" "\<And>s. encode s \<noteq> []"
    and run: "UpdateFile decode encode True True path obs t disk = ((True, None), disk')"
    and ok: "store_ok (fst (Load decode path disk))"
  shows "\<exists>s'. Load decode path disk' = (s', None) \<and>
           find_record (ObsTarget obs) (Records s') =
             Some (written obs t (fst (Load decode path disk))) \<and>
           (\<forall>r. r \<in> set (Records (fst (Load decode path disk))) \<and> Target r \<noteq> ObsTarget obs \<longrightarrow>
              r \<in> set (Records s') \<or>
              (length (Records (fst (Load decode path disk))) = MaxRecords \<and>
               r = last (Records (fst (Load decode path disk)))))"
proof -
  let ?s = "fst (Load decode path disk)"
  obtain s' where u: "Update obs t ?s = (True, s')"
      and d: "disk' = ReadData (encode (s'\<lparr>Version := FormatVersion\<rparr>))"
    using UpdateFile_saved(2) [OF run] by blast
  have s': "s' = ?s\<lparr>Version := FormatVersion, Records := put_record (written obs t ?s) (Records ?s)\<rparr>"
    using u by (auto simp: Update_alt split: if_splits)
  have "Load decode path disk' = (s', None)"
    using UpdateFile_saved(1) [OF run] codec by (simp add: Load_def d s')
  moreover have "find_record (ObsTarget obs) (Records s') = Some (written obs t ?s)"
    using put_record_find [of "written obs t ?s"] by (simp add: s')
  moreover have "\<forall>r. r \<in> set (Records ?s) \<and> Target r \<noteq> ObsTarget obs \<longrightarrow>
      r \<in> set (Records s') \<or> (length (Records ?s) = MaxRecords \<and> r = last (Records ?s))"
    using put_record_keeps [of _ "Records ?s" "written obs t ?s"] ok by (simp add: s' store_ok_def)
  ultimately show ?thesis by blast
qed

theorem cache_file_roundtrip_witness:
  "\<exists>s'. Load (\<lambda>d. Some (hd d)) ''cache'' (ReadData [run_updates [(sample_observation, 7)] empty_store]) = (s', None) \<and>
     find_record ''sha256:00'' (Records s') = Some (written sample_observation 7 empty_store)"
proof -
  let ?d = "ReadMissing :: Store file_read"
  have l: "Load (\<lambda>d. Some (hd d)) ''cache'' ?d = (empty_store, Some ErrEmpty)"
    by (simp add: Load_def)
  have u: "Update sample_observation 7 empty_store = (True, run_updates [(sample_observation, 7)] empty_store)"
    by (simp add: Update_alt empty_store_def find_record_def sample_observation_def)
  have v: "Version (run_updates [(sample_observation, 7)] empty_store) = FormatVersion"
    by (simp add: Update_alt empty_store_def find_record_def sample_observation_def)
  have "UpdateFile (\<lambda>d. Some (hd d)) (\<lambda>s. [s]) True True ''cache'' sample_observation 7 ?d =
      ((True, None), ReadData [run_updates [(sample_observation, 7)] empty_store])"
    using v by (simp add: UpdateFile_def l u saveUnlocked_def del: run_updates.simps)
  from cache_file_roundtrip [OF _ _ this] show ?thesis
    by (auto simp: l store_ok_def empty_store_def sample_observation_def)
qed

end
