(* ===== verification/Tuning.thy ===== *)
theory Tuning
  imports Autocache Planner Session
begin

text \<open>
  The run's side of the transport policy (\<open>internal/uploader/tuning.go\<close>) and of its cache
  (\<open>internal/uploader/autocache.go\<close>): what the configuration pinned, what the link probe measured,
  the decisions taken and their bookkeeping, and one turn of the runtime controller's loop. The
  mutex is left out: one method is one step. Log lines and metrics are left out.
\<close>

section \<open>State\<close>

text \<open>The fields of \<open>config.Config\<close> that the policy reads.\<close>

record transport_config =
  AutoConnections :: bool
  AutoConcurrency :: bool
  AutoRequestConcurrency :: bool
  CfgConnections :: int
  CfgConcurrency :: int
  SftpRequestConcurrency :: int

record tuning =
  pins :: Fixed
  tlink :: Link
  requests :: int
  probe :: bool
  initial :: Settings
  seen :: Workload
  haveInitial :: bool
  effective :: Settings
  changes :: int
  spreadUp :: int
  spreadDown :: int
  finalSpread :: int
  ceiling :: int
  observed :: float64
  observedBytes :: int

definition newTuning :: "transport_config \<Rightarrow> tuning" where
  "newTuning cfg =
     (let f = Fixed.make
          (if AutoConnections cfg then 0 else max (CfgConnections cfg) 1)
          (if AutoConcurrency cfg then 0 else max (CfgConcurrency cfg) 1)
          (if AutoRequestConcurrency cfg then 0 else max (SftpRequestConcurrency cfg) 1);
        r = Fixed.RequestConcurrency f in
      \<lparr>pins = f, tlink = unmeasured, requests = r, probe = False, initial = Settings.make 0 0 0,
       seen = no_workload, haveInitial = False, effective = Settings.make 1 1 (max r 1),
       changes = 0, spreadUp = 0, spreadDown = 0, finalSpread = 0, ceiling = 0,
       observed = fzero, observedBytes = 0\<rparr>)"

definition adaptive :: "tuning \<Rightarrow> bool" where
  "adaptive t \<longleftrightarrow> \<not> All (pins t)"

definition autoConnections :: "tuning \<Rightarrow> bool" where
  "autoConnections t \<longleftrightarrow> Fixed.Connections (pins t) = 0"

definition needsLink :: "Workload \<Rightarrow> Fixed \<Rightarrow> bool" where
  "needsLink w f \<longleftrightarrow> Fixed.Connections f = 0 \<and> Uploads w > 1"

section \<open>Decisions\<close>

definition resolveRunWide :: "Workload \<Rightarrow> tuning \<Rightarrow> (Settings \<times> tuning) option" where
  "resolveRunWide w t =
     map_option (\<lambda>s. (s, t\<lparr>requests := Settings.RequestConcurrency s, probe := needsLink w (pins t),
                         effective := Settings.make 1 1 (Settings.RequestConcurrency s)\<rparr>))
       (Plan w (tlink t) (pins t))"

definition requestConcurrency :: "tuning \<Rightarrow> int" where
  "requestConcurrency t = (if requests t < 1 then 1 else requests t)"

definition setLink :: "Link \<Rightarrow> tuning \<Rightarrow> tuning" where
  "setLink l t = t\<lparr>tlink := l\<rparr>"

definition applyCache :: "Decision \<Rightarrow> tuning \<Rightarrow> tuning" where
  "applyCache d t =
     (if \<not> Restores d then t
      else
        let l = tlink t;
            l = (if fless fzero (DecStream d)
                 then l\<lparr>Link.StreamBytesPerSecond := DecStream d, ThroughputSource := SourceCached\<rparr>
                 else l) in
        t\<lparr>tlink := l, ceiling := DecCeiling d\<rparr>)"

definition clampConnections :: "tuning \<Rightarrow> int \<Rightarrow> int" where
  "clampConnections t n =
     (if Fixed.Connections (pins t) > 0 \<or> ceiling t \<le> 0 \<or> n \<le> ceiling t then n else ceiling t)"

definition observe :: "Workload \<Rightarrow> int \<Rightarrow> int \<Rightarrow> int \<Rightarrow> tuning \<Rightarrow> tuning" where
  "observe w bytes window streams t =
     (case Measure w bytes window streams of
        (rate, ok) \<Rightarrow>
          if \<not> ok then t
          else if bytes \<le> observedBytes t then t
          else t\<lparr>observed := rate, observedBytes := bytes\<rparr>)"

definition cacheObservation :: "Workload \<Rightarrow> int \<Rightarrow> bool \<Rightarrow> tuning \<Rightarrow> Observation" where
  "cacheObservation runWork granted_n was_refused t =
     (let obs =
        \<lparr>ObsTarget = [], ObsWorkload = WorkloadOf runWork,
         ObsLink = LinkOf ((tlink t)\<lparr>Link.StreamBytesPerSecond := observed t\<rparr>),
         ObsSettings = SettingsOf (effective t), ObsMeasured = fless fzero (observed t),
         ObsReused = False, ObsCeiling = 0, CeilingUntested = False\<rparr> in
      if was_refused then obs\<lparr>ObsCeiling := max granted_n 1\<rparr>
      else if spreadDown t > 0 then obs\<lparr>ObsCeiling := max (finalSpread t) 1\<rparr>
      else if ceiling t > 0 then obs\<lparr>CeilingUntested := True\<rparr>
      else obs)"

definition record_effective :: "Settings \<Rightarrow> tuning \<Rightarrow> tuning" where
  "record_effective s t =
     t\<lparr>effective := Settings.make
         (max (Settings.Connections (effective t)) (Settings.Connections s))
         (max (Settings.Concurrency (effective t)) (Settings.Concurrency s))
         (max (Settings.RequestConcurrency (effective t)) (Settings.RequestConcurrency s))\<rparr>"

definition planFor :: "Workload \<Rightarrow> tuning \<Rightarrow> (Settings \<times> tuning) option" where
  "planFor w t =
     map_option (\<lambda>p.
       let s = Settings.make (clampConnections t (Settings.Connections p)) (Settings.Concurrency p)
                 (requests t);
           t = (if haveInitial t then t else t\<lparr>initial := s, seen := w, haveInitial := True\<rparr>) in
       (s, record_effective s (t\<lparr>finalSpread := Settings.Connections s\<rparr>)))
       (Plan w (tlink t) (pins t))"

definition applied :: "Settings \<Rightarrow> bool \<Rightarrow> tuning \<Rightarrow> tuning" where
  "applied s shrink t =
     (let t = t\<lparr>changes := changes t + 1\<rparr>;
          t = (if shrink then t\<lparr>spreadDown := spreadDown t + 1\<rparr> else t\<lparr>spreadUp := spreadUp t + 1\<rparr>) in
      record_effective s (t\<lparr>finalSpread := Settings.Connections s\<rparr>))"

definition poolCeiling :: "tuning \<Rightarrow> int" where
  "poolCeiling t = (if Fixed.Connections (pins t) > 0 then Fixed.Connections (pins t) else MaxConnections)"

section \<open>Workloads of a run\<close>

definition uploadSizes :: "fileItem list \<Rightarrow> int list" where
  "uploadSizes files = map fsize files"

definition planWorkload :: "fileItem list \<Rightarrow> int \<Rightarrow> bool \<Rightarrow> Workload" where
  "planWorkload files probes unknown =
     (SummarizeUploads (uploadSizes files))\<lparr>Probes := probes, Unknown := unknown\<rparr>"

definition runWorkload :: "plan list \<Rightarrow> Workload" where
  "runWorkload plans = SummarizeUploads (concat (map (\<lambda>p. uploadSizes (plan_files p)) plans))"

definition uploadWorkload :: "fileItem list \<Rightarrow> bool \<Rightarrow> Workload" where
  "uploadWorkload files skipUnchanged =
     (if skipUnchanged then
        let shape = SummarizeUploads (uploadSizes files) in
        no_workload\<lparr>Probes := int (length files), Unknown := True, LargestUpload := LargestUpload shape,
          P50Upload := P50Upload shape, P90Upload := P90Upload shape, SmallUploads := SmallUploads shape\<rparr>
      else planWorkload files 0 False)"

section \<open>The link probe\<close>

definition linkProbeSamples :: nat where "linkProbeSamples = 3"
definition linkProbeMaxSamples :: nat where "linkProbeMaxSamples = 32"

definition medianDuration :: "int list \<Rightarrow> int" where
  "medianDuration samples = sort samples ! (length samples div 2)"

text \<open>
  The round trips the loop takes, out of what the server answers: \<open>None\<close> is a refused request, a
  number the time it took. At most \<open>linkProbeMaxSamples\<close> answers are read.
\<close>

fun probe_loop :: "int option list \<Rightarrow> int list \<Rightarrow> int list option" where
  "probe_loop [] samples = Some samples"
| "probe_loop (a # answers) samples =
     (if length samples \<ge> linkProbeMaxSamples then Some samples
      else
        case a of
          None \<Rightarrow> None
        | Some d \<Rightarrow>
            let samples = samples @ [d] in
            if length samples \<ge> linkProbeSamples \<and> medianDuration samples > 0 then Some samples
            else probe_loop answers samples)"

definition probeLink :: "int option list \<Rightarrow> int \<Rightarrow> int \<Rightarrow> Link" where
  "probeLink answers batch hs =
     (case probe_loop answers [] of
        None \<Rightarrow> unmeasured\<lparr>Handshake := hs\<rparr>
      | Some samples \<Rightarrow>
          let r = medianDuration samples;
              r = (if r = 0 then batch sdiv int (length samples) else r) in
          unmeasured\<lparr>RTT := r, Handshake := hs\<rparr>)"

section \<open>Progress and the controller's loop\<close>

record uploadProgress =
  totalFiles :: int
  totalBytes :: int
  uploaded :: int
  skipped :: int
  bytesSent :: int
  bytesDone :: int
  failures :: int

definition newUploadProgress :: "fileItem list \<Rightarrow> uploadProgress" where
  "newUploadProgress files =
     \<lparr>totalFiles = int (length files), totalBytes = foldl (\<lambda>b f. i64 (b + fsize f)) 0 files,
      uploaded = 0, skipped = 0, bytesSent = 0, bytesDone = 0, failures = 0\<rparr>"

definition upload :: "int \<Rightarrow> int \<Rightarrow> uploadProgress \<Rightarrow> uploadProgress" where
  "upload sent planned p =
     p\<lparr>uploaded := uploaded p + 1, bytesSent := i64 (bytesSent p + sent),
       bytesDone := i64 (bytesDone p + planned)\<rparr>"

definition skip :: "int \<Rightarrow> uploadProgress \<Rightarrow> uploadProgress" where
  "skip planned p = p\<lparr>skipped := skipped p + 1, bytesDone := i64 (bytesDone p + planned)\<rparr>"

definition failed :: "uploadProgress \<Rightarrow> uploadProgress" where
  "failed p = p\<lparr>failures := failures p + 1\<rparr>"

definition snapshot :: "int \<Rightarrow> bool \<Rightarrow> uploadProgress \<Rightarrow> Progress" where
  "snapshot elapsed was_refused p =
     \<lparr>Elapsed = elapsed, Uploaded = uploaded p, Skipped = skipped p,
      Remaining = max (totalFiles p - uploaded p - skipped p) 0,
      RemainingBytes = max (i64 (totalBytes p - bytesDone p)) 0,
      UploadedBytes = bytesSent p, Refused = was_refused, Failures = failures p\<rparr>"

text \<open>
  One tick of the goroutine: observe, move the spread through the session, note it. \<open>setSpread\<close>
  clamps to what the pool and an inherited ceiling allow, and the controller is not told.
\<close>

definition spread_clamp :: "tuning \<Rightarrow> nat \<Rightarrow> nat" where
  "spread_clamp t n = nat (clampConnections t (int n))"

definition controller_tick ::
    "Progress \<Rightarrow> Controller \<times> tuning \<times> 'c session \<Rightarrow> (Controller \<times> tuning \<times> 'c session) option" where
  "controller_tick p st =
     (case st of (c, t, sess) \<Rightarrow>
        if stopped c then Some st
        else
          map_option (\<lambda>(d, c').
            case d of
              None \<Rightarrow> (c', t, sess)
            | Some ch \<Rightarrow>
                (case setSpread (spread_clamp t) (nat (Settings.Connections (To ch))) sess of
                   (n, sess') \<Rightarrow>
                     (c', applied ((To ch)\<lparr>Settings.Connections := int n\<rparr>) (Shrinks ch) t, sess')))
            (Observe p c))"

fun controller_loop ::
    "Progress list \<Rightarrow> Controller \<times> tuning \<times> 'c session \<Rightarrow> (Controller \<times> tuning \<times> 'c session) option" where
  "controller_loop [] st = Some st"
| "controller_loop (p # ps) st = Option.bind (controller_tick p st) (controller_loop ps)"

text \<open>
  How \<open>uploadFiles\<close> steers one transfer: the plan for its workload, the spread moved to it, and the
  controller's loop beside the uploads, over the progress it is shown.
\<close>

definition tuned_transfer ::
    "Workload \<Rightarrow> Progress list \<Rightarrow> tuning \<Rightarrow> 'c session \<Rightarrow> (Settings \<times> Controller \<times> tuning \<times> 'c session) option" where
  "tuned_transfer w ps t sess =
     Option.bind (planFor w t) (\<lambda>(start, t1).
       case setSpread (spread_clamp t1) (nat (Settings.Connections start)) sess of
         (n, sess1) \<Rightarrow>
           map_option (Pair start) (controller_loop ps (NewController w start (tlink t1) (pins t1), t1, sess1)))"

section \<open>The run's cache\<close>

record proxy_config =
  ProxyServer :: string
  ProxyPort :: string
  ProxyUsername :: string

definition targetIdentity :: "string \<Rightarrow> string \<Rightarrow> string \<Rightarrow> proxy_config option \<Rightarrow> string" where
  "targetIdentity server port username proxy =
     server @ '':'' @ port @ '':'' @ username @
     (case proxy of
        None \<Rightarrow> []
      | Some p \<Rightarrow> '' via '' @ ProxyServer p @ '':'' @ ProxyPort p @ '':'' @ ProxyUsername p)"

record autoCache =
  cache_path :: string
  cache_store :: "Store option"
  cache_target :: string
  candidate :: Candidate
  decision :: Decision

definition enabled :: "autoCache \<Rightarrow> bool" where
  "enabled c \<longleftrightarrow> cache_path c \<noteq> []"

definition openAutoCache ::
    "('b list \<Rightarrow> Store option) \<Rightarrow> (string \<Rightarrow> nat list) \<Rightarrow> string \<Rightarrow> string \<Rightarrow> 'b file_read \<Rightarrow> autoCache" where
  "openAutoCache decode sha256 path identity file =
     (if path = []
      then \<lparr>cache_path = [], cache_store = None, cache_target = [], candidate = None,
            decision = no_decision Unset\<rparr>
      else \<lparr>cache_path = path, cache_store = Some (fst (Load decode path file)),
            cache_target = Fingerprint sha256 identity, candidate = None,
            decision = no_decision Unset\<rparr>)"

definition cache_lookup :: "CacheWorkload \<Rightarrow> int \<Rightarrow> autoCache \<Rightarrow> autoCache" where
  "cache_lookup w instant c =
     (if \<not> enabled c then c
      else
        case Lookup (cache_store c) (cache_target c) w instant of
          (cand, d) \<Rightarrow> c\<lparr>candidate := cand, decision := d\<rparr>)"

definition confirm :: "int \<Rightarrow> autoCache \<Rightarrow> Decision \<times> autoCache" where
  "confirm measured c =
     (if \<not> enabled c then (decision c, c)
      else
        let c = (if Why (decision c) = Unset then c\<lparr>decision := Validate (candidate c) measured\<rparr> else c) in
        (decision c, c))"

definition cache_save ::
    "('b list \<Rightarrow> Store option) \<Rightarrow> (Store \<Rightarrow> 'b list) \<Rightarrow> bool \<Rightarrow> bool \<Rightarrow> Observation \<Rightarrow> int \<Rightarrow> autoCache \<Rightarrow>
       'b file_read \<Rightarrow> 'b file_read" where
  "cache_save decode encode lock_ok write_ok obs instant c file =
     (if \<not> enabled c then file
      else
        snd (UpdateFile decode encode lock_ok write_ok (cache_path c)
               (obs\<lparr>ObsTarget := cache_target c, ObsReused := Hit (decision c)\<rparr>) instant file))"

section \<open>What the loop keeps\<close>

text \<open>The spread a session is left with: within its pool and, unless pinned, an inherited ceiling.\<close>

definition spread_ok :: "tuning \<Rightarrow> 'c session \<Rightarrow> bool" where
  "spread_ok t sess \<longleftrightarrow>
     spread sess \<le> max 1 (length (slots sess)) \<and>
     (Fixed.Connections (pins t) \<le> 0 \<and> ceiling t > 0 \<longrightarrow> int (spread sess) \<le> max 1 (ceiling t))"

lemma setSpread_allowed:
  assumes "spread_ok t sess" "setSpread (spread_clamp t) n sess = (m, sess')"
  shows "spread_ok t sess'" "slots sess' = slots sess" "m = spread sess'"
  using assms
  by (auto simp: setSpread_def spread_ok_def spread_clamp_def clampConnections_def Let_def split: if_splits)

lemma applied_fields [simp]:
  "pins (applied s shrink t) = pins t" "ceiling (applied s shrink t) = ceiling t"
  "changes (applied s shrink t) = changes t + 1"
  "finalSpread (applied s shrink t) = Settings.Connections s"
  "spreadDown (applied s shrink t) = (if shrink then spreadDown t + 1 else spreadDown t)"
  by (simp_all add: applied_def record_effective_def Let_def)

lemma spread_ok_cong:
  "pins t' = pins t \<Longrightarrow> ceiling t' = ceiling t \<Longrightarrow> spread_ok t' sess = spread_ok t sess"
  by (simp add: spread_ok_def)

text \<open>The tick's observable effect: the controller's own answer, and the session moved within bounds.\<close>

lemma controller_tick_effect:
  assumes "Observe p c = Some (d, c')" "spread_ok t sess"
  shows "\<exists>t' sess'. controller_tick p (c, t, sess) = Some (c', t', sess') \<and> spread_ok t' sess' \<and>
           pins t' = pins t \<and> ceiling t' = ceiling t \<and> slots sess' = slots sess \<and>
           changes t' = changes t + (case d of None \<Rightarrow> 0 | Some x \<Rightarrow> 1)"
proof (cases "stopped c")
  case True
  then show ?thesis using assms by (auto simp: controller_tick_def Observe_def)
next
  case False
  show ?thesis
  proof (cases d)
    case None
    with False assms show ?thesis by (simp add: controller_tick_def)
  next
    case (Some ch)
    obtain n sess' where s: "setSpread (spread_clamp t) (nat (Settings.Connections (To ch))) sess = (n, sess')"
      by fastforce
    from setSpread_allowed [OF assms(2) s] Some False assms(1) s show ?thesis
      by (auto simp: controller_tick_def spread_ok_cong [of "applied _ _ t" t])
  qed
qed

lemma controller_loop_effect:
  assumes "acting c" "\<forall>p \<in> set ps. int64 (UploadedBytes p)" "spread_ok t sess"
  shows "\<exists>ds c' t' sess'. observe_all Observe ps c = Some (ds, c') \<and>
           controller_loop ps (c, t, sess) = Some (c', t', sess') \<and> spread_ok t' sess' \<and>
           pins t' = pins t \<and> ceiling t' = ceiling t \<and> slots sess' = slots sess \<and>
           changes t' = changes t + int (length ds)"
  using assms
proof (induction ps arbitrary: c t sess)
  case Nil
  then show ?case by simp
next
  case (Cons p ps)
  obtain d c1 where o: "Observe p c = Some (d, c1)" "acting c1"
    using Observe_refines [of c p] Cons.prems by (auto simp: refines_from_def)
  obtain t1 sess1 where k: "controller_tick p (c, t, sess) = Some (c1, t1, sess1)" "spread_ok t1 sess1"
      "pins t1 = pins t" "ceiling t1 = ceiling t" "slots sess1 = slots sess"
      "changes t1 = changes t + (case d of None \<Rightarrow> 0 | Some x \<Rightarrow> 1)"
    using controller_tick_effect [OF o(1) Cons.prems(3)] by blast
  obtain ds c' t' sess' where r: "observe_all Observe ps c1 = Some (ds, c')"
      "controller_loop ps (c1, t1, sess1) = Some (c', t', sess')" "spread_ok t' sess'"
      "pins t' = pins t1" "ceiling t' = ceiling t1" "slots sess' = slots sess1"
      "changes t' = changes t1 + int (length ds)"
    using Cons.IH [OF o(2) _ k(2)] Cons.prems(2) by auto
  show ?case using o k r by (cases d) auto
qed

lemma controller_loop_allowed:
  assumes "1 \<le> Settings.Connections start" "\<forall>p \<in> set ps. int64 (UploadedBytes p)" "spread_ok t sess"
  shows "\<exists>c' t' sess'. controller_loop ps (NewController w start l f, t, sess) = Some (c', t', sess') \<and>
           spread_ok t' sess' \<and> pins t' = pins t \<and> ceiling t' = ceiling t \<and>
           slots sess' = slots sess \<and> changes t' \<le> changes t + MaxConnections"
proof -
  let ?c = "NewController w start l f"
  have c: "acting ?c" "spread_of (phase_of ?c) = Settings.Connections start" "\<And>k n. phase_of ?c \<noteq> OnTrial k n"
    using NewController_acting [of f start w l] assms(1) by simp_all
  obtain ds c' t' sess' where r: "observe_all Observe ps ?c = Some (ds, c')"
      "controller_loop ps (?c, t, sess) = Some (c', t', sess')" "spread_ok t' sess'"
      "pins t' = pins t" "ceiling t' = ceiling t" "slots sess' = slots sess"
      "changes t' = changes t + int (length ds)"
    using controller_loop_effect [OF c(1) assms(2,3)] by blast
  have "int (length ds) \<le> MaxConnections"
    using runtime.phase_settles(2) [OF c(1) assms(2) r(1) _ c(3)] assms(1) c(2) by simp
  with r show ?thesis by auto
qed

lemma stopped_loop: "stopped c \<Longrightarrow> controller_loop ps (c, t, sess) = Some (c, t, sess)"
  by (induction ps) (simp_all add: controller_tick_def)

text \<open>The count a plan starts from, and what planning leaves alone.\<close>

lemma newTuning_pins: "0 \<le> Fixed.Connections (pins (newTuning cfg))" "0 \<le> Fixed.Concurrency (pins (newTuning cfg))"
  by (simp_all add: newTuning_def Fixed.make_def Let_def max_def)

lemma planFor_count:
  assumes "0 \<le> Fixed.Concurrency (pins t)"
  obtains start t1 k where "planFor w t = Some (start, t1)" "Settings.Connections start = clampConnections t k"
    "if Fixed.Connections (pins t) = 0 then 1 \<le> k else k = Fixed.Connections (pins t)"
    "pins t1 = pins t" "ceiling t1 = ceiling t" "tlink t1 = tlink t" "changes t1 = changes t"
proof (cases rule: Plan_cases [of w "tlink t" "pins t"])
  case (1 c r k)
  have "1 \<le> c" using assms planConcurrency_bounds(1) [of w] 1(2) by auto
  then have "1 \<le> k" if "Fixed.Connections (pins t) = 0"
    using planConnections_bounds [where conc = c and w = w and l = "tlink t"] that 1(3) by simp
  with 1(1,3) that show ?thesis
    by (simp add: planFor_def Let_def record_effective_def Settings.make_def)
qed

text \<open>Moving the spread to a count from the plan: the count the clamp lets through, up to the pool.\<close>

lemma setSpread_reaches:
  assumes "slots sess \<noteq> []" "setSpread (spread_clamp t) n sess = (m, sess')"
  shows "slots sess' = slots sess" "spread_ok t sess'"
    "Fixed.Connections (pins t) > 0 \<Longrightarrow> spread sess' =
       (if refused sess then min (spread sess) (min (max n 1) (length (slots sess))) else min (max n 1) (length (slots sess)))"
  using assms
  by (auto simp: setSpread_def spread_ok_def spread_clamp_def clampConnections_def Let_def split: if_splits)

text \<open>
  Property C14. Whatever the controller is told while a transfer runs, the number of connections the
  session hands files to stays within the pool, and where the policy chooses it, within the ceiling
  an earlier run left; the controller changes its mind at most eight times. A count the configuration
  pinned is left alone: no ceiling holds it back, the controller never moves it, and the session uses
  exactly that many connections, up to its pool and to what a refusing server granted.
\<close>

theorem spread_stays_allowed:
  assumes "pins t = pins (newTuning cfg)" "\<forall>p \<in> set ps. int64 (UploadedBytes p)" "slots sess \<noteq> []"
  shows "\<exists>start c' t' sess'. tuned_transfer w ps t sess = Some (start, c', t', sess') \<and>
    slots sess' = slots sess \<and> spread sess' \<le> length (slots sess) \<and> changes t' \<le> changes t + MaxConnections \<and>
    (let pin = Fixed.Connections (pins t); k = min (nat pin) (length (slots sess)) in
     if pin > 0 then
       Settings.Connections start = pin \<and> changes t' = changes t \<and>
       spread sess' = (if refused sess then min (spread sess) k else k)
     else ceiling t > 0 \<longrightarrow> int (spread sess') \<le> ceiling t)"
proof -
  have con: "0 \<le> Fixed.Concurrency (pins t)" using assms(1) newTuning_pins(2) by simp
  obtain start t1 k where p: "planFor w t = Some (start, t1)" "Settings.Connections start = clampConnections t k"
      "if Fixed.Connections (pins t) = 0 then 1 \<le> k else k = Fixed.Connections (pins t)"
      "pins t1 = pins t" "ceiling t1 = ceiling t" "tlink t1 = tlink t" "changes t1 = changes t"
    by (rule planFor_count [where t = t and w = w, OF con])
  obtain m sess1 where s: "setSpread (spread_clamp t1) (nat (Settings.Connections start)) sess = (m, sess1)" by fastforce
  note reach = setSpread_reaches [OF assms(3) s]
  have len: "1 \<le> length (slots sess)" using assms(3) by (cases "slots sess") simp_all
  let ?c = "NewController w start (tlink t1) (pins t1)"
  have tt: "tuned_transfer w ps t sess = map_option (Pair start) (controller_loop ps (?c, t1, sess1))"
    by (simp add: tuned_transfer_def p(1) s)
  show ?thesis
  proof (cases "Fixed.Connections (pins t) > 0")
    case True
    then have c: "Settings.Connections start = Fixed.Connections (pins t)" using p(2,3) by (simp add: clampConnections_def)
    have "stopped ?c" using True p(4) by (simp add: NewController_def stop_def Let_def)
    then have loop: "controller_loop ps (?c, t1, sess1) = Some (?c, t1, sess1)" by (rule stopped_loop)
    have "max (nat (Fixed.Connections (pins t))) 1 = nat (Fixed.Connections (pins t))" using True by simp
    with reach(3) True c p(4) have "spread sess1 = (if refused sess
        then min (spread sess) (min (nat (Fixed.Connections (pins t))) (length (slots sess)))
        else min (nat (Fixed.Connections (pins t))) (length (slots sess)))" by simp
    with tt loop reach(1) c p(7) True show ?thesis by (auto simp: MaxConnections_def)
  next
    case False
    with assms(1) newTuning_pins(1) [of cfg] have z: "Fixed.Connections (pins t) = 0" by simp
    with p(2,3) have "1 \<le> Settings.Connections start" by (simp add: clampConnections_def)
    from controller_loop_allowed [OF this assms(2) reach(2), of w "tlink t1" "pins t1"]
    obtain c' t' sess' where l: "controller_loop ps (?c, t1, sess1) = Some (c', t', sess')" "spread_ok t' sess'"
      "pins t' = pins t" "ceiling t' = ceiling t" "slots sess' = slots sess" "changes t' \<le> changes t + MaxConnections"
      using p(4,5,7) reach(1) by auto
    with tt z len show ?thesis by (auto simp: spread_ok_def Let_def)
  qed
qed

section \<open>A ceiling nobody tested\<close>

text \<open>
  A run that inherits a ceiling of two against a server that would reward more, with a hundred files
  to send: the plan, the controller's two windows, and what the run then reports to the cache.
\<close>

definition held_start :: tuning where
  "held_start =
     applyCache \<lparr>Hit = True, Why = Unset, DecStream = fzero, DecCeiling = 2, DecReused = 1\<rparr>
       (setLink (unmeasured\<lparr>RTT := 40 * Millisecond, Handshake := 100 * Millisecond\<rparr>)
         (newTuning \<lparr>AutoConnections = True, AutoConcurrency = False, AutoRequestConcurrency = False,
                     CfgConnections = 0, CfgConcurrency = 8, SftpRequestConcurrency = 16\<rparr>))"

definition held_work :: Workload where
  "held_work = no_workload\<lparr>Uploads := 100, UploadBytes := 20000000, LargestUpload := 200000,
     P50Upload := 200000, P90Upload := 200000\<rparr>"

definition held_session :: "unit session" where
  "held_session =
     \<lparr>heap = [\<lparr>client = (), gen = 0\<rparr>], slots = Some 0 # replicate 7 None, spread = 1,
      refused = False, reconnects = 0\<rparr>"

definition held_reports :: "Progress list" where
  "held_reports =
     [no_progress\<lparr>Elapsed := Second, Uploaded := 5, Remaining := 95, RemainingBytes := 19000000,
                   UploadedBytes := 1000000\<rparr>,
      no_progress\<lparr>Elapsed := 2 * Second, Uploaded := 10, Remaining := 90, RemainingBytes := 18000000,
                   UploadedBytes := 2000000\<rparr>]"

definition held_run :: "(Settings \<times> tuning \<times> unit session) option" where
  "held_run =
     Option.bind (planFor held_work held_start) (\<lambda>(start, t).
       case setSpread (spread_clamp t) (nat (Settings.Connections start)) held_session of
         (n, sess) \<Rightarrow>
           map_option (\<lambda>(c, t', sess'). (start, t', sess'))
             (controller_loop held_reports (NewController held_work start (tlink t) (pins t), t, sess)))"

text \<open>
  The two cases on a concrete run: held at an inherited ceiling of two, and with three connections
  pinned under that same ceiling.
\<close>

definition held_config :: "int \<Rightarrow> transport_config" where
  "held_config n = \<lparr>AutoConnections = (n = 0), AutoConcurrency = False, AutoRequestConcurrency = False,
     CfgConnections = n, CfgConcurrency = 8, SftpRequestConcurrency = 16\<rparr>"

theorem spread_stays_allowed_witness:
  "(\<exists>start c' t' sess'. tuned_transfer held_work held_reports held_start held_session = Some (start, c', t', sess') \<and>
      spread sess' \<le> 2) \<and>
   (\<exists>start c' t' sess'. tuned_transfer held_work held_reports (held_start\<lparr>pins := pins (newTuning (held_config 3))\<rparr>)
      held_session = Some (start, c', t', sess') \<and> Settings.Connections start = 3 \<and> spread sess' = 3)"
proof -
  let ?t = "held_start\<lparr>pins := pins (newTuning (held_config 3))\<rparr>"
  have r: "\<forall>p \<in> set held_reports. int64 (UploadedBytes p)" "slots held_session \<noteq> []" "\<not> refused held_session"
    "length (slots held_session) = 8"
    by (simp_all add: held_reports_def no_progress_def int64_def held_session_def)
  have h: "pins held_start = pins (newTuning (held_config 0))" "Fixed.Connections (pins held_start) = 0"
    "ceiling held_start = 2" "Fixed.Connections (pins ?t) = 3" by code_simp+
  from spread_stays_allowed [OF h(1) r(1,2), of held_work] h(2,3)
  have "\<exists>start c' t' sess'. tuned_transfer held_work held_reports held_start held_session = Some (start, c', t', sess') \<and>
      spread sess' \<le> 2" by auto
  moreover have "pins ?t = pins (newTuning (held_config 3))" by simp
  from spread_stays_allowed [OF this r(1,2), of held_work] h(4) r(3,4)
  have "\<exists>start c' t' sess'. tuned_transfer held_work held_reports ?t held_session =
      Some (start, c', t', sess') \<and> Settings.Connections start = 3 \<and> spread sess' = 3"
    unfolding Let_def by (elim exE conjE) (intro exI conjI, assumption, simp_all)
  ultimately show ?thesis by blast
qed

lemma held_run_outcome:
  "map_option (\<lambda>(start, t, sess).
      (Settings.Connections start, spread sess, refused sess, ceiling t, spreadUp t, spreadDown t,
       finalSpread t)) held_run = Some (2, 2, False, 2, 1, 1, 2)"
  by code_simp

text \<open>The record that run would write back over one that carried its ceiling fifteen times.\<close>

definition carried_record :: Record where
  "carried_record =
     \<lparr>Target = ''sha256:00'', RecPolicyVersion = PolicyVersion, MeasuredAt = 0, LastUsed = 0, Reused = 1,
      RecWorkload = WorkloadOf held_work,
      RecLink = \<lparr>RTTMillis = Fin 40, HandshakeMillis = Fin 100, StreamBytesPerSecond = fzero\<rparr>,
      RecSettings = \<lparr>Connections = 2, Concurrency = 8, RequestConcurrency = 16\<rparr>,
      ConnectionCeiling = 2, CeilingCarried = 15\<rparr>"


end
