(* ===== verification/Tuned_Run.thy ===== *)
theory Tuned_Run
  imports Deploy Tuning Configuration
begin

text \<open>
  A run as a whole (\<open>Run\<close> in \<open>uploader.go\<close>): the scan, the run-wide settings, the cache's lookup,
  the first connection and the probe of its link, the deployments under one budget, and what goes
  back to the cache. It takes the configuration as loaded and puts the parts together: the deployments'
  policy is \<open>planFor\<close> on the tuning state this run arrived at. The tuning state's bookkeeping during the
  deployments (plans, changes of the controller, measured transfers) is a list of events; the
  choices for a deployment read none of it.
\<close>

section \<open>What the parts read of the configuration\<close>

definition transport_of :: "Config \<Rightarrow> transport_config" where
  "transport_of c =
     \<lparr>AutoConnections = AutoSettings.autoConnections (cAuto c), AutoConcurrency = autoConcurrency (cAuto c),
      AutoRequestConcurrency = autoRequestConcurrency (cAuto c), CfgConnections = cConnections c,
      CfgConcurrency = cConcurrency c, SftpRequestConcurrency = cSftpRequestConcurrency c\<rparr>"

definition run_config :: "Config \<Rightarrow> config" where
  "run_config c =
     (let f = pins (newTuning (transport_of c)) in
      \<lparr>Retries = nat (cRetries c), DryRun = cDryRun c, SkipUnchanged = cSkipUnchanged c,
       SyncFastPath = cSyncFastPath c, PreserveTimes = cPreserveTimes c, FileMode = cFileMode c,
       DirMode = cDirMode c, ManifestName = cManifestName c, MaxDeletes = cMaxDeletes c,
       FixedConcurrency = Fixed.Concurrency f, FixedConnections = Fixed.Connections f,
       StallTimeout = cStallTimeout c\<rparr>)"

definition run_identity :: "Config \<Rightarrow> string" where
  "run_identity c = targetIdentity (cServer c) (int_text (cPort c)) (cUsername c)
     (map_option (\<lambda>p. \<lparr>ProxyServer = pServer p, ProxyPort = int_text (pPort p), ProxyUsername = pUsername p\<rparr>) (cProxy c))"

section \<open>The tuning state in a session\<close>

text \<open>\<open>poolCeiling\<close> of \<open>session.go\<close>: the slots a session allocates.\<close>

definition pool_size :: "tuning \<Rightarrow> nat" where
  "pool_size t =
     (let n = poolCeiling t; f = pins t in
      nat (max (if Fixed.Connections f > 0 \<and> Fixed.Concurrency f > 0 \<and> n > Fixed.Concurrency f
                then Fixed.Concurrency f else n) 1))"

text \<open>The handshake just paid, what the probe's requests are answered, and how long they took together.\<close>

type_synonym link_times = "int \<times> int option list \<times> int"

definition measured_link :: "link_times \<Rightarrow> tuning \<Rightarrow> Link" where
  "measured_link m t =
     (case m of (hs, answers, batch) \<Rightarrow>
        if probe t then probeLink answers batch hs else unmeasured\<lparr>Handshake := hs\<rparr>)"

text \<open>The settings \<open>uploadFiles\<close> asks for. Planning returns for every state a run has (\<open>chosen_total\<close>).\<close>

definition settings_for :: "tuning \<Rightarrow> fileItem list \<Rightarrow> bool \<Rightarrow> chosen" where
  "settings_for t files skipUnchanged =
     (case planFor (uploadWorkload files skipUnchanged) t of
        None \<Rightarrow> \<lparr>ch_concurrency = 1, ch_connections = 1, ch_requests = requestConcurrency t,
                 ch_clamp = spread_clamp t, ch_adaptive = False\<rparr>
      | Some (s, _) \<Rightarrow>
          \<lparr>ch_concurrency = nat (Settings.Concurrency s), ch_connections = nat (Settings.Connections s),
           ch_requests = requestConcurrency t, ch_clamp = spread_clamp t, ch_adaptive = adaptive t\<rparr>)"

text \<open>What happens to the state while the deployments run.\<close>

datatype tuning_event = Planned Workload | Applied Settings bool | Observed Workload int int int

fun tuning_step :: "tuning_event \<Rightarrow> tuning \<Rightarrow> tuning" where
  "tuning_step (Planned w) t = (case planFor w t of None \<Rightarrow> t | Some (_, t') \<Rightarrow> t')"
| "tuning_step (Applied s shrink) t = applied s shrink t"
| "tuning_step (Observed w bytes window streams) t = observe w bytes window streams t"

definition after_events :: "tuning_event list \<Rightarrow> tuning \<Rightarrow> tuning" where
  "after_events es t = fold tuning_step es t"

section \<open>The run\<close>

text \<open>
  Everything a run meets: the server behind its clients, the manifest codec and the parameters of
  \<open>Deploy\<close> (whose policy is not used), the local trees, the link, the events of the tuning state,
  and the cache file with its codec and lock. \<open>out_cache\<close> is the file at the start,
  \<open>out_cache_then\<close> what is there when the run ends, since other runs may have written it meanwhile.
\<close>

record ('c, 'w, 'b) outside =
  out_env :: "('c, 'w) remote"
  out_params :: params
  out_local :: "uploadPair \<Rightarrow> root_stat \<times> string"
  out_link :: "'w \<Rightarrow> link_times"
  out_events :: "'w \<Rightarrow> tuning_event list"
  out_sha256 :: "string \<Rightarrow> nat list"
  out_decode :: "'b list \<Rightarrow> Store option"
  out_encode :: "Store \<Rightarrow> 'b list"
  out_lock_ok :: "'w \<Rightarrow> bool"
  out_write_ok :: "'w \<Rightarrow> bool"
  out_cache :: "'b file_read"
  out_cache_then :: "'w \<Rightarrow> 'b file_read"

datatype run_error = ScanFailed scan_error | RunFailed goerr

record ('w, 'b) run_result =
  rr_error :: "run_error option"
  rr_rows :: "DeploymentStats list"
  rr_stats :: Stats
  rr_world :: 'w
  rr_cache :: "'b file_read"

text \<open>A run that ends before it has a session writes no cache.\<close>

definition unsaved :: "('c, 'w, 'b) outside \<Rightarrow> run_error \<Rightarrow> 'w \<Rightarrow> ('w, 'b) run_result" where
  "unsaved ou e w =
     \<lparr>rr_error = Some e, rr_rows = [], rr_stats = zero_stats, rr_world = w, rr_cache = out_cache_then ou w\<rparr>"

definition saved_cache ::
    "('c, 'w, 'b) outside \<Rightarrow> Workload \<Rightarrow> 'c session \<Rightarrow> tuning \<Rightarrow> autoCache \<Rightarrow> 'w \<Rightarrow> 'b file_read" where
  "saved_cache ou work s t c w =
     (case granted s of (n, was_refused) \<Rightarrow>
        cache_save (out_decode ou) (out_encode ou) (out_lock_ok ou w) (out_write_ok ou w)
          (cacheObservation work (int n) was_refused (after_events (out_events ou w) t))
          (now (out_env ou) w) c (out_cache_then ou w))"

text \<open>What is left when the deployments are done: the result, and the cache as the run leaves it.\<close>

fun finished ::
    "('c, 'w, 'b) outside \<Rightarrow> plan list \<Rightarrow> tuning \<Rightarrow> autoCache
       \<Rightarrow> goerr option \<times> DeploymentStats list \<times> ('c, 'w) progress \<Rightarrow> ('w, 'b) run_result" where
  "finished ou plans t c (e, rows, (stats, b, (s, w))) =
     \<lparr>rr_error = map_option RunFailed e, rr_rows = rows, rr_stats = stats, rr_world = w,
      rr_cache = saved_cache ou (runWorkload plans) s t c w\<rparr>"

text \<open>The deployments of a run that has a session and its settings.\<close>

definition tuned_run ::
    "('c, 'w, 'b) outside \<Rightarrow> Config \<Rightarrow> plan list \<Rightarrow> tuning \<Rightarrow> autoCache \<Rightarrow> ('c, 'w) state
       \<Rightarrow> ('w, 'b) run_result option" where
  "tuned_run ou cfg plans t c st =
     map_option (finished ou plans t c)
       (run_plans ((out_params ou)\<lparr>pr_policy := settings_for t\<rparr>) (run_config cfg) (out_env ou) (cStallTimeout cfg > 0)
          plans [] (zero_stats, newDeleteBudget (cMaxDeletes cfg), st))"

text \<open>The run with its link measured: what the cache says of it is applied before the deployments.\<close>

definition connected_run ::
    "('c, 'w, 'b) outside \<Rightarrow> Config \<Rightarrow> plan list \<Rightarrow> tuning \<Rightarrow> autoCache \<Rightarrow> ('c, 'w) state
       \<Rightarrow> ('w, 'b) run_result option" where
  "connected_run ou cfg plans t c st =
     (case confirm (RTT (tlink t)) c of (d, c1) \<Rightarrow> tuned_run ou cfg plans (applyCache d t) c1 st)"

definition Run :: "('c, 'w, 'b) outside \<Rightarrow> Config \<Rightarrow> 'w \<Rightarrow> ('w, 'b) run_result option" where
  "Run ou cfg w =
     (case scan_plans (run_config cfg) (cIgnoreLines cfg) (out_local ou) (cUploads cfg) of
        Inl e \<Rightarrow> Some (unsaved ou (ScanFailed e) w)
      | Inr plans \<Rightarrow>
          (case resolveRunWide (runWorkload plans) (newTuning (transport_of cfg)) of
             None \<Rightarrow> None
           | Some (_, t) \<Rightarrow>
               (case newSession (run_config cfg) (out_env ou) (pool_size t) w of
                  (Inl e, w1) \<Rightarrow> Some (unsaved ou (RunFailed e) w1)
                | (Inr s, w1) \<Rightarrow>
                    connected_run ou cfg plans (setLink (measured_link (out_link ou w1) t) t)
                      (cache_lookup (WorkloadOf (runWorkload plans)) (now (out_env ou) w)
                         (openAutoCache (out_decode ou) (out_sha256 ou) (cAutoCachePath cfg) (run_identity cfg) (out_cache ou)))
                      (s, w1))))"

lemma tuned_run_cases [consumes 1, case_names ran]:
  assumes "tuned_run ou cfg plans t c st = Some res"
  obtains e rows stats b s w where
    "run_plans ((out_params ou)\<lparr>pr_policy := settings_for t\<rparr>) (run_config cfg) (out_env ou) (cStallTimeout cfg > 0)
       plans [] (zero_stats, newDeleteBudget (cMaxDeletes cfg), st) = Some (e, rows, (stats, b, (s, w)))"
    "rr_error res = map_option RunFailed e" "rr_rows res = rows" "rr_stats res = stats" "rr_world res = w"
proof -
  obtain x where x: "run_plans ((out_params ou)\<lparr>pr_policy := settings_for t\<rparr>) (run_config cfg) (out_env ou) (cStallTimeout cfg > 0)
       plans [] (zero_stats, newDeleteBudget (cMaxDeletes cfg), st) = Some x" "res = finished ou plans t c x"
    using assms by (auto simp: tuned_run_def map_option_eq_Some)
  obtain e rows stats b s w where "x = (e, rows, (stats, b, (s, w)))" by (metis surj_pair)
  with x that show ?thesis by simp
qed

lemma Run_cases [consumes 1, case_names unscanned unconnected deployed]:
  assumes "Run ou c w = Some res"
  obtains e where "scan_plans (run_config c) (cIgnoreLines c) (out_local ou) (cUploads c) = Inl e"
      "res = unsaved ou (ScanFailed e) w"
    | plans e n w1 where "scan_plans (run_config c) (cIgnoreLines c) (out_local ou) (cUploads c) = Inr plans"
      "newSession (run_config c) (out_env ou) n w = (Inl e, w1)" "res = unsaved ou (RunFailed e) w1"
    | plans n s w1 t e stats b st where
      "scan_plans (run_config c) (cIgnoreLines c) (out_local ou) (cUploads c) = Inr plans"
      "newSession (run_config c) (out_env ou) n w = (Inr s, w1)"
      "run_plans ((out_params ou)\<lparr>pr_policy := settings_for t\<rparr>) (run_config c) (out_env ou) (cStallTimeout c > 0) plans []
         (zero_stats, newDeleteBudget (cMaxDeletes c), (s, w1)) = Some (e, rr_rows res, (stats, b, st))"
      "rr_error res = map_option RunFailed e" "rr_stats res = stats" "rr_world res = snd st"
  using assms
  by (auto simp: Run_def connected_run_def elim!: tuned_run_cases split: sum.splits option.splits prod.splits)

text \<open>The quantile of a single size needs no arithmetic; it is how the concrete runs are evaluated.\<close>

lemma percentile_code [code]:
  "percentile [] q = 0"
  "percentile [n] q = n"
  "percentile (a # b # ns) q =
     (let rank = to_int64 (fceil (fmul q (of_int64 (int (length ns + 2)))))
      in (a # b # ns) ! nat (min (max rank 1) (int (length ns + 2)) - 1))"
  by (simp_all add: percentile_def Let_def)

lemma SummarizeUploads_code [code]:
  "SummarizeUploads sizes =
     (if sizes = [] then no_workload
      else
        case summarize sizes ([], no_workload) of (sizes', w) \<Rightarrow>
          let asc = sort sizes' in
          w\<lparr>LargestUpload := asc ! (length asc - 1), P50Upload := percentile asc (Fin (1 / 2)),
            P90Upload := percentile asc (Fin (8106479329266893 / 9007199254740992))\<rparr>)"
  by (simp add: SummarizeUploads_def half_value nine_tenths_value)

section \<open>What the deployments read of the tuning state\<close>

lemma planFor_some:
  obtains c r k where "Plan w (tlink t) (pins t) = Some (Settings.make k c r)"
    "planFor w t = Some (Settings.make (clampConnections t k) c (requests t),
       record_effective (Settings.make (clampConnections t k) c (requests t))
         ((if haveInitial t then t
           else t\<lparr>initial := Settings.make (clampConnections t k) c (requests t), seen := w, haveInitial := True\<rparr>)
          \<lparr>finalSpread := clampConnections t k\<rparr>))"
proof -
  obtain c r k where "Plan w (tlink t) (pins t) = Some (Settings.make k c r)"
    unfolding Settings.make_def by (rule Plan_cases)
  with that show ?thesis by (simp add: planFor_def Let_def Settings.make_def)
qed

text \<open>A choice is always made, whatever state the run is in.\<close>

lemma chosen_total: "planFor w t \<noteq> None"
  by (rule planFor_some [of w t]) simp

definition same_choices :: "tuning \<Rightarrow> tuning \<Rightarrow> bool" where
  "same_choices t t' \<longleftrightarrow> pins t' = pins t \<and> tlink t' = tlink t \<and> requests t' = requests t \<and> ceiling t' = ceiling t"

lemma tuning_step_same: "same_choices t (tuning_step e t)"
proof (cases e)
  case (Planned w)
  show ?thesis
    by (rule planFor_some [of w t]) (simp add: Planned same_choices_def record_effective_def)
next
  case (Applied s shrink)
  then show ?thesis by (simp add: same_choices_def applied_def record_effective_def Let_def)
next
  case (Observed w bytes window streams)
  then show ?thesis by (simp add: same_choices_def observe_def split: prod.split)
qed

lemma after_events_same: "same_choices t (after_events es t)"
proof (induction es arbitrary: t)
  case (Cons e es)
  then show ?case using tuning_step_same [of t e] unfolding same_choices_def after_events_def by fastforce
qed (simp add: same_choices_def after_events_def)

lemma settings_for_same:
  assumes "same_choices t t'"
  shows "settings_for t' = settings_for t"
proof (intro ext)
  fix files su
  have f: "pins t' = pins t" "tlink t' = tlink t" "requests t' = requests t" "ceiling t' = ceiling t"
    using assms by (simp_all add: same_choices_def)
  have c: "clampConnections t' = clampConnections t" "spread_clamp t' = spread_clamp t"
    "requestConcurrency t' = requestConcurrency t" "adaptive t' = adaptive t"
    by (simp_all add: fun_eq_iff clampConnections_def spread_clamp_def requestConcurrency_def adaptive_def f)
  show "settings_for t' files su = settings_for t files su"
    by (rule planFor_some [of "uploadWorkload files su" t], rule planFor_some [of "uploadWorkload files su" t'])
      (simp add: settings_for_def Settings.make_def f c)
qed

text \<open>
  So every deployment is given what \<open>planFor\<close> gives it in the state of its time, after whatever
  the transfers before it recorded.
\<close>

lemma settings_for_any_time: "settings_for (after_events es t) = settings_for t"
  by (rule settings_for_same [OF after_events_same])

text \<open>The controller's loop acts on the session only through the moves an upload allows for.\<close>

lemma controller_tick_cases:
  assumes "controller_tick p (c, t, s) = Some (c', t', s')"
  obtains "s' = s" "t' = t"
    | m n ch shrink where "setSpread (spread_clamp t) n s = (m, s')" "t' = applied ch shrink t"
proof (cases "stopped c")
  case True
  with assms have "s' = s" "t' = t" by (simp_all add: controller_tick_def)
  then show ?thesis by (rule that(1))
next
  case False
  then obtain d c1 where d: "Observe p c = Some (d, c1)"
    using assms by (auto simp: controller_tick_def map_option_eq_Some)
  show ?thesis
  proof (cases d)
    case None
    with d False assms that(1) show ?thesis by (simp add: controller_tick_def)
  next
    case (Some ch)
    obtain m s1 where r: "setSpread (spread_clamp t) (nat (Settings.Connections (To ch))) s = (m, s1)" by fastforce
    with d Some False assms have e: "s' = s1" "t' = applied ((To ch)\<lparr>Settings.Connections := int m\<rparr>) (Shrinks ch) t"
      by (simp_all add: controller_tick_def)
    show ?thesis by (rule that(2) [OF r [folded e(1)] e(2)])
  qed
qed

lemma controller_tick_steers:
  assumes "controller_tick p (c, t, s) = Some (c', t', s')"
  shows "\<exists>ns. s' = steered (spread_clamp t) ns s" "same_choices t t'"
  using assms
proof (atomize (full), cases rule: controller_tick_cases)
  case 1
  then have "s' = steered (spread_clamp t) [] s" "same_choices t t'" by (simp_all add: steered_def same_choices_def)
  then show "(\<exists>ns. s' = steered (spread_clamp t) ns s) \<and> same_choices t t'" by blast
next
  case (2 m n ch shrink)
  then have "s' = steered (spread_clamp t) [n] s" by (simp add: steered_def)
  with tuning_step_same [of t "Applied ch shrink"] 2
  show "(\<exists>ns. s' = steered (spread_clamp t) ns s) \<and> same_choices t t'" by auto
qed

lemma controller_loop_steers:
  "controller_loop ps (c, t, s) = Some (c', t', s') \<Longrightarrow> \<exists>ns. s' = steered (spread_clamp t) ns s"
proof (induction ps arbitrary: c t s)
  case Nil
  then have "s' = steered (spread_clamp t) [] s" by (simp add: steered_def)
  then show ?case by blast
next
  case (Cons p ps)
  then obtain c1 t1 s1 where k: "controller_tick p (c, t, s) = Some (c1, t1, s1)"
    "controller_loop ps (c1, t1, s1) = Some (c', t', s')"
    by (auto simp: bind_eq_Some_conv)
  obtain ns ms where n: "s1 = steered (spread_clamp t) ns s" "s' = steered (spread_clamp t1) ms s1"
    using controller_tick_steers(1) [OF k(1)] Cons.IH [OF k(2)] by blast
  have "spread_clamp t1 = spread_clamp t"
    using controller_tick_steers(2) [OF k(1)]
    by (simp add: fun_eq_iff spread_clamp_def clampConnections_def same_choices_def)
  with n have "s' = steered (spread_clamp t) (ns @ ms) s" by (simp add: steered_def)
  then show ?case by blast
qed

end
