(* ===== verification/Deploy_Budget.thy ===== *)
theory Deploy_Budget
  imports Deploy_Guard
begin

text \<open>
  The run-wide bound on deletions: through every deployment of a run, in every mode and whatever
  fails, the files and directories reported as removed are covered by what the one budget was
  charged, so they stay within \<open>safety.max_deletes\<close>.
\<close>

text \<open>What is charged covers what was removed and \<open>k\<close> removals reserved for later.\<close>

definition accounted :: "int \<Rightarrow> nat \<Rightarrow> Stats \<Rightarrow> deleteBudget \<Rightarrow> bool" where
  "accounted L k stats b \<longleftrightarrow> limit b = L \<and> within_limit b \<and>
     int (FilesDeleted stats + DirsDeleted stats + k) \<le> spent b"

lemma accounted_reserve:
  assumes "accounted L k stats b" "reserve (int n) b = (e, b')"
  shows "accounted L (if e = None then k + n else k) stats b'"
  using assms by (auto simp: accounted_def reserve_def within_limit_def split: if_splits)

lemma accounted_less: "accounted L k stats b \<Longrightarrow> k' \<le> k \<Longrightarrow> accounted L k' stats b"
  by (auto simp: accounted_def)

lemma accounted_files:
  "accounted L (k + n) stats b \<Longrightarrow> m \<le> n \<Longrightarrow> accounted L k (more_files_deleted m stats) b"
  by (auto simp: accounted_def more_files_deleted_def)

lemma accounted_dirs:
  "accounted L (k + n) stats b \<Longrightarrow> m \<le> n \<Longrightarrow> accounted L k (more_dirs_deleted m stats) b"
  by (auto simp: accounted_def more_dirs_deleted_def)

lemma accounted_charged:
  "accounted L k stats b \<Longrightarrow> limit b' = L \<Longrightarrow> within_limit b' \<Longrightarrow> spent b + int m \<le> spent b' \<Longrightarrow>
     accounted L k (more_dirs_deleted m stats) b'"
  by (auto simp: accounted_def more_dirs_deleted_def)

lemma accounted_skipped [simp]:
  "accounted L k (stats\<lparr>FilesSkipped := n\<rparr>) b = accounted L k stats b"
  by (simp add: accounted_def)

lemma tally_deletes:
  "FilesDeleted (tally cs ks ns stats) = FilesDeleted stats \<and> DirsDeleted (tally cs ks ns stats) = DirsDeleted stats"
  by (induction cs ks ns stats rule: tally.induct) auto

lemma upload_deletes:
  assumes "uploadFiles cfg env watch ch fs planned dirs sweepDirs base su (stats, st) = (r, (stats', st'))"
  shows "accounted L k stats' b = accounted L k stats b"
  using assms tally_deletes by (auto simp: uploadFiles_def accounted_def split: prod.splits option.splits)

section \<open>Counts of the phases\<close>

lemma deleted_length:
  assumes "deleteRemoteFiles cfg env watch paths st = ((oks, e), st')"
  shows "length oks = length paths"
proof (cases "DryRun cfg")
  case False
  have "length (fst (snd (runBounded (\<lambda>(_, _, w). ctx_err env w) (\<lambda>l n (_, _, w). schedule env l n w)
      (workers cfg (length paths)) (length paths) (delete_item cfg env watch paths)
      (replicate (length paths) False, st)))) = length paths"
    by (rule runBounded_invariant [where P = "\<lambda>s. length (fst s) = length paths"])
      (auto simp: delete_item_def split: prod.splits sum.splits)
  with assms False show ?thesis by (auto simp: deleteRemoteFiles_def split: prod.splits)
qed (use assms in \<open>auto simp: deleteRemoteFiles_def\<close>)

lemma picked_length: "length (picked oks rels) \<le> length rels"
  unfolding picked_def by (metis length_filter_le length_map length_zip min.cobounded2 order_trans)

lemma countDeleted_le: "countDeleted oks \<le> length oks"
  by (simp add: countDeleted_def)

lemma joined_length [simp]: "length (joined base rels) = length rels"
  by (simp add: joined_def)

lemma clear_dirs_charges:
  assumes "limit b = L" "within_limit b"
  shows "clear_dirs cfg env watch base dirs removed b st = ((n, e), b', st') \<Longrightarrow>
    limit b' = L \<and> within_limit b' \<and> spent b + int n \<le> spent b' + int removed"
  using assms
proof (induction dirs arbitrary: removed b st)
  case (Cons dir rest)
  show ?case
  proof (cases "safeJoin base dir")
    case (Inl je)
    with Cons.prems show ?thesis by simp
  next
    case (Inr full)
    obtain ok b1 where t: "take_one b = (ok, b1)" by (meson surj_pair)
    show ?thesis
    proof (cases ok)
      case False
      with Cons.prems Inr t budget.one_refused [of b b1] show ?thesis by simp
    next
      case True
      have b1: "limit b1 = L" "within_limit b1" "spent b1 = spent b + 1"
        using budget.one_granted [of b b1] t True Cons.prems(2,3) budget.ceiling_fixed(2) [of b] by auto
      have rb: "limit (refund b1) = L" "within_limit (refund b1)" "spent (refund b1) = spent b"
        using b1 budget.given_back [of b1] Cons.prems(3) by (auto simp: refund_def within_limit_def)
      obtain x st1 where s1: "session_do cfg env watch (rmdir_probe env full) st = (x, st1)" by (meson surj_pair)
      obtain y st2 where s2: "session_do cfg env watch (leftover_action env full) st1 = (y, st2)" by (meson surj_pair)
      have granted: "take_one b = (True, b1)" using t True by simp
      note run = Cons.prems(1) [unfolded clear_dirs.simps Inr sum.case granted prod.case bool.case s1 s2]
      show ?thesis
      proof (cases x)
        case (Inl er)
        with run b1 show ?thesis by auto
      next
        case x: (Inr re)
        show ?thesis
        proof (cases re)
          case None
          with run x have "clear_dirs cfg env watch base rest (Suc removed) b1 st1 = ((n, e), b', st')" by simp
          from Cons.IH [OF this b1(1,2)] b1(3) show ?thesis by simp
        next
          case (Some rmErr)
          show ?thesis
          proof (cases "err_id rmErr = NotExist")
            case True
            with run x Some have "clear_dirs cfg env watch base rest removed (refund b1) st1 = ((n, e), b', st')"
              by simp
            from Cons.IH [OF this rb(1,2)] rb(3) show ?thesis by simp
          next
            case False
            with run x Some b1 show ?thesis by (auto split: sum.splits list.splits)
          qed
        qed
      qed
    qed
  qed
qed simp

lemma collide_charges:
  assumes "\<not> DryRun cfg" "limit b = L" "within_limit b"
    and "clearCollideParents cfg env watch base colliding fs b st = ((n, e), b', st')"
  shows "limit b' = L \<and> within_limit b' \<and> spent b + int n \<le> spent b'"
proof (cases "collide_dirs colliding fs = []")
  case False
  with assms(1,4) have "clear_dirs cfg env watch base (rev (sort (collide_dirs colliding fs))) 0 b st = ((n, e), b', st')"
    by (simp add: clearCollideParents_def)
  from clear_dirs_charges [OF assms(2,3) this] show ?thesis by simp
qed (use assms in \<open>simp add: clearCollideParents_def\<close>)

definition charged :: "int \<Rightarrow> int \<Rightarrow> ('c, 'w) pruning \<Rightarrow> bool" where
  "charged L c s \<longleftrightarrow> (\<exists>n b st. s = (n, Some b, st) \<and> limit b = L \<and> within_limit b \<and> c + int n \<le> spent b)"

lemma rmdir_item_charged:
  assumes "charged L c s"
  shows "charged L c (snd (rmdir_item cfg env watch level i s))"
proof -
  obtain n b st where s: "s = (n, Some b, st)" and b: "limit b = L" "within_limit b" "c + int n \<le> spent b"
    using assms by (auto simp: charged_def)
  obtain ok b1 where t: "take_one b = (ok, b1)" by (meson surj_pair)
  obtain x st1 where r: "session_do cfg env watch (rmdir_action env (level ! i)) st = (x, st1)" by (meson surj_pair)
  show ?thesis
  proof (cases ok)
    case False
    with t budget.one_refused [of b b1] b show ?thesis by (simp add: rmdir_item_def s charged_def)
  next
    case True
    have b1: "limit b1 = L" "within_limit b1" "spent b1 = spent b + 1"
      using budget.one_granted [of b b1] t True b budget.ceiling_fixed(2) [of b] by auto
    have rb: "limit (refund b1) = L" "within_limit (refund b1)" "spent (refund b1) = spent b"
      using b1 b by (auto simp: refund_def within_limit_def)
    with t True b b1 r show ?thesis by (auto simp: rmdir_item_def s charged_def split: sum.split)
  qed
qed

lemma prune_charges:
  assumes "\<not> DryRun cfg" "limit b = L" "within_limit b"
    and "pruneEmptyDirs cfg env watch base deleted b st = (n, b', st')"
  shows "limit b' = L \<and> within_limit b' \<and> spent b + int n \<le> spent b'"
proof -
  let ?c = "prune_candidates base deleted"
  have levels: "charged L (spent b) (remove_levels cfg env watch ls s)" if "charged L (spent b) s" for ls s
    using that
  proof (induction ls arbitrary: s)
    case (Cons l ls)
    have "charged L (spent b) (snd (runBounded (\<lambda>(_, _, _, w). ctx_err env w) (\<lambda>l n (_, _, _, w). schedule env l n w)
        (workers cfg (length l)) (length l) (rmdir_item cfg env watch l) s))"
      by (rule runBounded_invariant [where P = "charged L (spent b)", OF Cons.prems]) (rule rmdir_item_charged)
    with Cons.IH show ?case by simp
  qed simp
  have "charged L (spent b) (0, Some b, st)" using assms(2,3) by (simp add: charged_def)
  then have "charged L (spent b) (removeRemoteDirs cfg env watch ?c (Some b) st)"
    using levels assms(1) by (simp add: removeRemoteDirs_def)
  with assms(4) show ?thesis by (auto simp: pruneEmptyDirs_def charged_def split: prod.splits)
qed

section \<open>A clean sweep\<close>

lemma sum_by_key:
  "distinct ks \<Longrightarrow> key ` set xs \<subseteq> set ks \<Longrightarrow> (\<Sum>k \<leftarrow> ks. length (filter (\<lambda>x. key x = k) xs)) = length xs"
proof (induction xs)
  case (Cons x xs)
  have one: "(\<Sum>k \<leftarrow> ks. if key x = k then 1 else 0) = (1 :: nat)"
    using Cons.prems by (simp add: sum_list_distinct_conv_sum_set)
  have "(\<Sum>k \<leftarrow> ks. length (filter (\<lambda>y. key y = k) (x # xs))) =
      (\<Sum>k \<leftarrow> ks. (if key x = k then 1 else 0) + length (filter (\<lambda>y. key y = k) xs))"
    by (rule arg_cong [where f = sum_list]) simp
  with Cons one show ?case by (simp add: sum_list_addf)
qed simp

lemma rmdir_counts:
  assumes sched: "\<And>l n w. valid_schedule l n (schedule env l n w)" and run: "\<not> DryRun cfg"
    and res: "removeRemoteDirs cfg env watch dirs None st = (n, b, st')"
  shows "n \<le> length dirs"
proof -
  have item: "int (fst (snd (rmdir_item cfg env watch level i s))) \<le> int (fst s) + 1" for level i s
    by (auto simp: rmdir_item_def split: prod.splits sum.splits bool.splits option.splits)
  have levels: "int (fst (remove_levels cfg env watch ls s)) \<le> int (fst s) + int (sum_list (map length ls))" for ls s
  proof (induction ls arbitrary: s)
    case (Cons l ls)
    have "int (fst (snd (runBounded (\<lambda>(_, _, _, w). ctx_err env w) (\<lambda>l n (_, _, _, w). schedule env l n w)
        (workers cfg (length l)) (length l) (rmdir_item cfg env watch l) s))) \<le> int (fst s) + int (length l)"
      by (rule runBounded_measure [where m = "\<lambda>s. int (fst s)"]) (simp_all add: item sched split: prod.split)
    with Cons.IH [of "snd (runBounded (\<lambda>(_, _, _, w). ctx_err env w) (\<lambda>l n (_, _, _, w). schedule env l n w)
        (workers cfg (length l)) (length l) (rmdir_item cfg env watch l) s)"]
    show ?case by simp
  qed simp
  have "sum_list (map length (levels_of dirs)) = length dirs"
    using sum_by_key [of "rev (sort (remdups (map depth_of dirs)))" depth_of dirs]
    by (simp add: levels_of_def comp_def)
  with levels [of "levels_of dirs" "(0, None, st)"] res run show ?thesis
    by (auto simp: removeRemoteDirs_def split: if_splits)
qed

lemma clean_accounted:
  assumes sched: "\<And>l n w. valid_schedule l n (schedule env l n w)" and real: "\<not> DryRun cfg"
    and a: "accounted L 0 (fst pg) (fst (snd pg))"
    and run: "clean_target pr cfg env watch p pg = Some (e, pg')"
  shows "accounted L 0 (fst pg') (fst (snd pg'))"
proof (cases "checkRemoteRoot (Remote (pair p))")
  case None
  obtain stats b st where pg: "pg = (stats, b, st)" by (rule prod_cases3)
  obtain x st1 where l: "listRemoteContents cfg env watch (pr_fuel pr) (NormalizeRemote (Remote (pair p))) st = Some (x, st1)"
    using run None pg by (auto simp: clean_target_def split: option.splits)
  show ?thesis
  proof (cases x)
    case (Inl er)
    with run l None pg a show ?thesis by (auto simp: clean_target_def)
  next
    case (Inr fd)
    obtain fs ds where fd: "fd = (fs, ds)" by (cases fd)
    obtain be b1 where rv: "reserve (int (length fs + length ds)) b = (be, b1)" by (meson surj_pair)
    obtain oks de st2 where r1: "deleteRemoteFiles cfg env watch fs st1 = ((oks, de), st2)" by (metis surj_pair)
    obtain n b' st3 where r2: "removeRemoteDirs cfg env watch ds None st2 = (n, b', st3)" by (rule prod_cases3)
    have cap: "accounted L (if be = None then length fs + length ds else 0) stats b1"
      using accounted_reserve [OF _ rv, of L 0 stats] a pg by (auto split: if_splits)
    have files: "countDeleted oks \<le> length fs" using countDeleted_le [of oks] deleted_length [OF r1] by simp
    have dirs: "n \<le> length ds" by (rule rmdir_counts [OF sched real r2])
    have f: "accounted L (length ds) (more_files_deleted (countDeleted oks) stats) b1" if "be = None"
      using accounted_files [of L "length ds" "length fs" stats b1 "countDeleted oks"] cap that files
      by (simp add: add.commute)
    have d: "accounted L 0 (more_dirs_deleted n (more_files_deleted (countDeleted oks) stats)) b1" if "be = None"
      using accounted_dirs [of L 0 "length ds" _ b1 n] f [OF that] dirs by simp
    show ?thesis
      using run cap f [THEN accounted_less] d
      unfolding clean_target_def None option.case pg prod.case l Inr fd sum.case rv r1 r2 Let_def
      by (cases be; cases de) auto
  qed
qed (use run a in \<open>auto simp: clean_target_def\<close>)

section \<open>A sync\<close>

lemma admit_accounted:
  assumes "accounted L 0 (fst pg) (fst (snd pg))" "sync_admit p toDelete pg = (e, pg')"
  shows "accounted L (if e = None then length toDelete else 0) (fst pg') (fst (snd pg'))"
proof (cases "toDelete = [] \<or> checkRemoteRoot (Remote (pair p)) \<noteq> None")
  case True
  with assms show ?thesis by (auto simp: sync_admit_def split: if_splits)
next
  case False
  obtain stats b st where pg: "pg = (stats, b, st)" by (rule prod_cases3)
  obtain be b1 where rv: "reserve (int (length toDelete)) b = (be, b1)" by (meson surj_pair)
  from accounted_reserve [OF _ rv, of L 0 stats] assms False pg rv show ?thesis
    by (auto simp: sync_admit_def)
qed

lemma collide_accounted:
  assumes real: "\<not> DryRun cfg" and a: "accounted L (k + length colliding) (fst pg) (fst (snd pg))"
    and run: "sync_collide pr cfg env watch base old upload colliding fs pg = ((e, pre), pg')"
  shows "accounted L k (fst pg') (fst (snd pg'))"
proof -
  obtain stats b st where pg: "pg = (stats, b, st)" by (rule prod_cases3)
  obtain oks cerr st1 where r1: "deleteRemoteFiles cfg env watch (joined base colliding) st = ((oks, cerr), st1)"
    by (metis surj_pair)
  obtain n derr b1 st2 where r2: "clearCollideParents cfg env watch base colliding fs b st1 = ((n, derr), b1, st2)"
    by (metis surj_pair)
  let ?s1 = "more_files_deleted (length (picked oks colliding)) stats"
  have s1: "accounted L k ?s1 b"
    using accounted_files [of L k "length colliding" stats b] a pg picked_length by simp
  then have lb: "limit b = L" "within_limit b" by (simp_all add: accounted_def)
  from collide_charges [OF real lb r2] accounted_charged [OF s1]
  have s2: "accounted L k (more_dirs_deleted n ?s1) b1" by blast
  have whole: "accounted L k stats b" using accounted_less [of L "k + length colliding" stats b k] a pg by simp
  show ?thesis
    using run s1 s2 whole
    unfolding sync_collide_def pg prod.case r1 Let_def r2
    by (cases "colliding = []"; cases cerr; cases derr) auto
qed

lemma finish_accounted:
  assumes real: "\<not> DryRun cfg" and a: "accounted L (length rest) (fst pg) (fst (snd pg))"
    and run: "sync_finish pr cfg env watch base old fs upload completed pre rest pg = (e, pg')"
  shows "accounted L 0 (fst pg') (fst (snd pg'))"
proof -
  obtain stats b st where pg: "pg = (stats, b, st)" by (rule prod_cases3)
  obtain oks derr st1 where r1: "deleteRemoteFiles cfg env watch (joined base rest) st = ((oks, derr), st1)"
    by (metis surj_pair)
  obtain n b1 st2 where r2: "pruneEmptyDirs cfg env watch base (joined base (picked oks rest)) b st1 = (n, b1, st2)"
    by (rule prod_cases3)
  obtain x st3 where r3: "session_do cfg env watch (writeManifest (pr_codec pr) env base (syncManifestName cfg)
      \<lparr>Version = manifestVersion, Files = local_manifest fs\<rparr>) st2 = (x, st3)" by (meson surj_pair)
  let ?s1 = "more_files_deleted (length (picked oks rest)) stats"
  have s1: "accounted L 0 ?s1 b"
    using accounted_files [of L 0 "length rest" stats b] a pg picked_length by simp
  then have lb: "limit b = L" "within_limit b" by (simp_all add: accounted_def)
  let ?s2 = "?s1\<lparr>FilesSkipped := FilesSkipped ?s1 + (length fs - length upload)\<rparr>"
  have "accounted L 0 ?s2 b" using s1 by simp
  from prune_charges [OF real lb r2] accounted_charged [OF this]
  have s3: "accounted L 0 (more_dirs_deleted n ?s2) b1" by blast
  show ?thesis
    using run s1 s3 real
    unfolding sync_finish_def pg prod.case r1 Let_def r2 r3
    by (cases derr; cases x) auto
qed

lemma sync_accounted:
  assumes real: "\<not> DryRun cfg" and a: "accounted L 0 (fst pg) (fst (snd pg))"
    and run: "sync_apply pr cfg env watch p old fs pg = (e, pg')"
  shows "accounted L 0 (fst pg') (fst (snd pg'))"
proof -
  let ?base = "NormalizeRemote (Remote (pair p))"
  let ?del = "stale_entries old ?base fs" and ?up = "changed_files old fs"
  obtain ae pg1 where ad: "sync_admit p ?del pg = (ae, pg1)" by (meson surj_pair)
  note a1 = admit_accounted [OF a ad]
  show ?thesis
  proof (cases ae)
    case (Some er)
    with run ad a1 show ?thesis by (auto simp: sync_apply_def Let_def)
  next
    case None
    obtain c r where cd: "collidingDeletes (pr_fold pr) ?del fs = (c, r)" by (meson surj_pair)
    have len: "length ?del = length r + length c"
      using cd sum_length_filter_compl [of "conflicts (pr_fold pr) fs" ?del] by (auto simp: collidingDeletes_def)
    obtain ce pre pg2 where sc: "sync_collide pr cfg env watch ?base old ?up c fs pg1 = ((ce, pre), pg2)"
      by (metis surj_pair)
    have a2: "accounted L (length r) (fst pg2) (fst (snd pg2))"
      by (rule collide_accounted [OF real _ sc]) (use a1 None len in simp)
    obtain stats2 b2 st2 where pg2: "pg2 = (stats2, b2, st2)" by (rule prod_cases3)
    let ?dirs = "if DirMode cfg = None then dirsForFiles ?up else remoteDirs p"
    obtain completed ue stats3 st3 where up: "uploadFiles cfg env watch (pr_policy pr ?up False) ?up fs ?dirs
        (remoteDirs p) ?base False (stats2, st2) = ((completed, ue), (stats3, st3))" by (metis surj_pair)
    have a3: "accounted L (length r) stats3 b2" using upload_deletes [OF up] a2 pg2 by simp
    have fin: "accounted L 0 (fst q) (fst (snd q))"
      if "sync_finish pr cfg env watch ?base old fs ?up completed pre r (stats3, b2, st3) = (e', q)" for e' q
      by (rule finish_accounted [OF real _ that]) (simp add: a3)
    have t: "sync_transfer pr cfg env watch p ?base old fs (c, r) pg1 = (e, pg')"
      using run ad None cd by (simp add: sync_apply_def Let_def)
    show ?thesis
      using t a2 [THEN accounted_less] a3 [THEN accounted_less] fin
      unfolding sync_transfer_def Let_def fst_conv snd_conv sc prod.case pg2
      by (cases ce; cases ue) (auto simp only: up prod.case option.case prod.inject fst_conv snd_conv)
  qed
qed

section \<open>The whole run\<close>

lemma plan_accounted:
  assumes sched: "\<And>l n w. valid_schedule l n (schedule env l n w)" and real: "\<not> DryRun cfg"
    and a: "accounted L 0 (fst pg) (fst (snd pg))"
    and run: "executePlan pr cfg env watch p pg = Some (e, pg')"
  shows "accounted L 0 (fst pg') (fst (snd pg'))"
proof (cases "strat p = Sync")
  case True
  obtain stats b st where pg: "pg = (stats, b, st)" by (rule prod_cases3)
  obtain x st1 where r1: "session_do cfg env watch (readManifest (pr_codec pr) env (NormalizeRemote (Remote (pair p)))
      (syncManifestName cfg)) st = (x, st1)" by (meson surj_pair)
  have es: "executeSync pr cfg env watch p (stats, b, st) = (e, pg')"
    using run True pg by (simp add: executePlan_def)
  show ?thesis
  proof (cases x)
    case (Inl er)
    with es r1 a pg show ?thesis by (auto simp: executeSync_def Let_def)
  next
    case (Inr old)
    obtain he fs' where h: "hashPlanFiles (\<lambda>q. hash_local env q (snd st1)) (ctx_err env (snd st1))
        (schedule env (max (pr_cpus pr) 1) (length (plan_files p)) (snd st1)) (plan_files p)
        (if SyncFastPath cfg then map_of (Files old) else (\<lambda>_. None)) = (he, fs')" by (meson surj_pair)
    note es' = es [unfolded executeSync_def Let_def prod.case r1 Inr sum.case h]
    show ?thesis
    proof (cases he)
      case None
      with es' have "sync_apply pr cfg env watch p old fs' (stats, b, st1) = (e, pg')" by simp
      from sync_accounted [OF real _ this] a pg show ?thesis by simp
    qed (use es' a pg in auto)
  qed
next
  case False
  obtain e1 pg1 where c: "(if strat p = Clean then clean_target pr cfg env watch p pg else Some (None, pg)) = Some (e1, pg1)"
    using run False by (auto simp: executePlan_def executeOverlayOrClean_def split: option.splits if_splits prod.splits)
  have a1: "accounted L 0 (fst pg1) (fst (snd pg1))"
    using c a clean_accounted [OF sched real a] by (auto split: if_splits)
  obtain stats b1 st1 where p1: "pg1 = (stats, b1, st1)" by (rule prod_cases3)
  let ?su = "SkipUnchanged cfg \<and> strat p = Overlay"
  obtain x e2 stats2 st2 where u: "uploadFiles cfg env watch (pr_policy pr (plan_files p) ?su) (plan_files p)
      (plan_files p) (remoteDirs p) (remoteDirs p) (NormalizeRemote (Remote (pair p))) ?su (stats, st1)
      = ((x, e2), (stats2, st2))" by (metis surj_pair)
  have a2: "accounted L 0 stats2 b1" using upload_deletes [OF u] a1 p1 by simp
  show ?thesis
    using run False a1 a2 p1
    unfolding executePlan_def executeOverlayOrClean_def c option.case prod.case p1 Let_def u
    by (cases e1) auto
qed

lemma run_accounted:
  assumes sched: "\<And>l n w. valid_schedule l n (schedule env l n w)" and real: "\<not> DryRun cfg"
  shows "accounted L 0 (fst pg) (fst (snd pg)) \<Longrightarrow> run_plans pr cfg env watch ps rows pg = Some (e, rows', pg') \<Longrightarrow>
    accounted L 0 (fst pg') (fst (snd pg'))"
  by (rule run_plans_invariant [where I = "\<lambda>pg. accounted L 0 (fst pg) (fst (snd pg))" and qs = UNIV])
    (auto intro: plan_accounted [OF sched real])

text \<open>
  \<open>safety.max_deletes\<close> holds for the whole run: over all deployments, in every mode and
  whether the run succeeds or fails half-way, the files and directories it reports as removed number
  at most the positive limit, whatever the server answers.
\<close>

theorem run_within_max_deletes:
  assumes "\<And>l n w. valid_schedule l n (schedule env l n w)"
    and "\<not> DryRun cfg" "0 < MaxDeletes cfg"
    and "run_plans pr cfg env watch plans [] (zero_stats, newDeleteBudget (MaxDeletes cfg), st) =
      Some (e, rows, (stats, b, st'))"
  shows "int (FilesDeleted stats + DirsDeleted stats) \<le> MaxDeletes cfg"
proof -
  have "accounted (MaxDeletes cfg) 0 zero_stats (newDeleteBudget (MaxDeletes cfg))"
    using assms(3) by (simp add: accounted_def zero_stats_def newDeleteBudget_def within_limit_def)
  with run_accounted [OF assms(1,2) _ assms(4)] have "accounted (MaxDeletes cfg) 0 stats b" by simp
  with assms(3) show ?thesis by (auto simp: accounted_def within_limit_def)
qed

theorem run_within_max_deletes_witness:
  "\<exists>e rows stats b st'. run_plans sample_params sample_config (ram_env [(''web/a'', ''abc'')] True) False [sample_plan] []
       (zero_stats, newDeleteBudget (MaxDeletes sample_config), (sample_session, sample_world)) =
       Some (e, rows, (stats, b, st')) \<and> FilesDeleted stats = 1 \<and> int (FilesDeleted stats + DirsDeleted stats) \<le> 5"
proof -
  let ?run = "run_plans sample_params sample_config (ram_env [(''web/a'', ''abc'')] True) False [sample_plan] []
       (zero_stats, newDeleteBudget (MaxDeletes sample_config), (sample_session, sample_world))"
  have del: "case ?run of None \<Rightarrow> False | Some (e, rows, (stats, b, st')) \<Rightarrow> FilesDeleted stats = 1"
    by code_simp
  then obtain e rows stats b st' where r: "?run = Some (e, rows, (stats, b, st'))"
    by (auto split: option.splits prod.splits)
  have c: "\<not> DryRun sample_config" "0 < MaxDeletes sample_config" by code_simp+
  from run_within_max_deletes [OF ram_schedule c r] del r show ?thesis
    by (simp add: sample_config_def)
qed

end
