(* ===== verification/Report.thy ===== *)
theory Report
  imports Action_Output Tuned_Run Deploy_Budget Go_Duration
begin

text \<open>
  The command around a run (\<open>cmd/easysftp/main.go\<close>) and the texts it reports with
  (\<open>HumanSize\<close>, \<open>logDeploymentSummary\<close> in \<open>uploader.go\<close>): the build line, the step outputs, the job
  summary with its table of deployments, the exit status. The configuration loader and the run are
  arguments, with their errors as texts. Shown: the rows of the table add up to the totals of the
  run, whatever failed; the outputs are read back as the numbers of the run; and the numbers lose
  nothing in their formatting.
\<close>

section \<open>Numbers\<close>

text \<open>\<open>%.1f\<close> on a finite value: the nearest tenth, halves to even.\<close>

fun fixed1 :: "float64 \<Rightarrow> string" where
  "fixed1 (Fin q) =
     (let t = nat (round_half_even (10 * \<bar>q\<bar>))
      in (if q < 0 then ''-'' else []) @ decimal (t div 10) @ ''.'' @ decimal (t mod 10))"
| "fixed1 PInf = ''+Inf''"
| "fixed1 MInf = ''-Inf''"
| "fixed1 NaN = ''NaN''"

text \<open>The unit's index stays in range for every 64-bit size (\<open>HumanSize_unit\<close>).\<close>

definition HumanSize :: "int \<Rightarrow> string" where
  "HumanSize n =
     (if n < 1024 then int_text n @ '' B''
      else
        case human_scale (n sdiv 1024) 1024 0 of (d, e) \<Rightarrow>
          fixed1 (fdiv (of_int64 n) (of_int64 d)) @ '' '' @ [''KMGTPE'' ! nat e] @ ''iB'')"

definition group_at :: "string \<Rightarrow> nat \<Rightarrow> string" where
  "group_at s i =
     (if i > 0 \<and> (length s - i) mod 3 = 0 \<and> s ! (i - 1) \<noteq> CHR ''-'' then '','' else []) @ [s ! i]"

definition groupDigits :: "int \<Rightarrow> string" where
  "groupDigits n = (let s = int_text n in concat (map (group_at s) [0..<length s]))"

definition humanBytes_exact :: "int \<Rightarrow> string" where
  "humanBytes_exact n =
     (if n < 1024 then HumanSize n else HumanSize n @ '' ('' @ groupDigits n @ '' bytes)'')"

section \<open>The line of a deployment\<close>

definition logDeploymentSummary :: "bool \<Rightarrow> uploadPair \<Rightarrow> DeploymentStats \<Rightarrow> int \<Rightarrow> string" where
  "logDeploymentSummary dry p ds d =
     (let head = ''deployment '' @ Label p @ '': '' in
      if dry then
        head @ decimal (ds_FilesUploaded ds) @ '' file(s) to upload ('' @ HumanSize (ds_BytesUploaded ds) @ ''), '' @
        decimal (ds_FilesDeleted ds) @ '' to delete, '' @ decimal (ds_FilesSkipped ds) @ '' unchanged (dry-run)''
      else
        head @ ''uploaded '' @ decimal (ds_FilesUploaded ds) @ '' file(s) ('' @ HumanSize (ds_BytesUploaded ds) @
        ''), deleted '' @ decimal (ds_FilesDeleted ds) @
        (if ds_DirsDeleted ds > 0 then '', removed '' @ decimal (ds_DirsDeleted ds) @ '' director(y/ies)'' else []) @
        '', skipped '' @ decimal (ds_FilesSkipped ds) @ '' unchanged, took '' @ took d)"

section \<open>Cells of the summary\<close>

definition escape_pipe :: "string \<Rightarrow> string" where
  "escape_pipe s = concat (map (\<lambda>c. if c = CHR ''|'' then [CHR 0x5C, CHR ''|''] else [c]) s)"

definition mdTextCell :: "string \<Rightarrow> string" where
  "mdTextCell s = escape_pipe s"

fun longest_run :: "string \<Rightarrow> nat \<Rightarrow> nat \<Rightarrow> nat" where
  "longest_run [] run longest = longest"
| "longest_run (c # s) run longest =
     (if c \<noteq> CHR 0x60 then longest_run s 0 longest
      else longest_run s (Suc run) (if Suc run > longest then Suc run else longest))"

definition mdCodeCell :: "string \<Rightarrow> string" where
  "mdCodeCell s =
     (let esc = escape_pipe s;
          delim = replicate (longest_run esc 0 0 + 1) (CHR 0x60) in
      if has_prefix esc [CHR 0x60] \<or> has_suffix esc [CHR 0x60] then delim @ '' '' @ esc @ '' '' @ delim
      else delim @ esc @ delim)"

section \<open>The table of deployments\<close>

definition nl :: string where
  "nl = [CHR 0x0A]"

fun strategy_text :: "strategy \<Rightarrow> string" where
  "strategy_text Overlay = ''overlay''"
| "strategy_text Clean = ''clean''"
| "strategy_text Sync = ''sync''"

definition deployment_row :: "DeploymentStats \<times> int \<Rightarrow> string" where
  "deployment_row r =
     (case r of (d, time) \<Rightarrow>
        ''| '' @ mdTextCell (if ds_Name d = [] then ''(inline)'' else ds_Name d) @ '' | '' @ mdCodeCell (ds_Local d) @
        '' | '' @ mdCodeCell (ds_Remote d) @ '' | '' @ strategy_text (ds_Strategy d) @ '' | '' @
        decimal (ds_FilesUploaded d) @ '' | '' @ decimal (ds_FilesDeleted d) @ '' | '' @ decimal (ds_DirsDeleted d) @ '' | '' @
        decimal (ds_FilesSkipped d) @ '' | '' @ HumanSize (ds_BytesUploaded d) @ '' | '' @ took time @ '' |'' @ nl)"

text \<open>The five running sums of the loop over the rows.\<close>

definition add_row :: "Stats \<Rightarrow> DeploymentStats \<Rightarrow> Stats" where
  "add_row t d =
     \<lparr>FilesUploaded = FilesUploaded t + ds_FilesUploaded d, FilesDeleted = FilesDeleted t + ds_FilesDeleted d,
      DirsDeleted = DirsDeleted t + ds_DirsDeleted d, FilesSkipped = FilesSkipped t + ds_FilesSkipped d,
      BytesUploaded = BytesUploaded t + ds_BytesUploaded d\<rparr>"

definition row_totals :: "DeploymentStats list \<Rightarrow> Stats" where
  "row_totals ds = foldl add_row zero_stats ds"

definition table_head :: string where
  "table_head = nl @ ''#### Deployments'' @ nl @ nl @
     ''| Deployment | Source | Target | Mode | Uploaded | Deleted | Dirs removed | Skipped | Size | Duration |'' @ nl @
     ''|---|---|---|---|---|---|---|---|---|---|'' @ nl"

definition total_row :: "Stats \<Rightarrow> string" where
  "total_row t =
     ''| **Total** | | | | **'' @ decimal (FilesUploaded t) @ ''** | **'' @ decimal (FilesDeleted t) @ ''** | **'' @
     decimal (DirsDeleted t) @ ''** | **'' @ decimal (FilesSkipped t) @ ''** | **'' @ HumanSize (BytesUploaded t) @
     ''** | |'' @ nl"

definition deploymentBreakdown :: "(DeploymentStats \<times> int) list \<Rightarrow> string" where
  "deploymentBreakdown rows =
     (if length rows < 2 \<and> (rows = [] \<or> ds_Name (fst (hd rows)) = []) then []
      else
        table_head @ concat (map deployment_row rows) @
        (if length rows > 1 then total_row (row_totals (map fst rows)) else []))"

section \<open>The summary\<close>

text \<open>The UTF-8 bytes of the marks in the summary.\<close>

definition yes_mark :: string where
  "yes_mark = [CHR 0xE2, CHR 0x9C, CHR 0x85]"

definition no_mark :: string where
  "no_mark = [CHR 0xE2, CHR 0x9D, CHR 0x8C]"

definition warn_mark :: string where
  "warn_mark = [CHR 0xE2, CHR 0x9A, CHR 0xA0, CHR 0xEF, CHR 0xB8, CHR 0x8F]"

definition hostKeyStatus :: "Config \<Rightarrow> string" where
  "hostKeyStatus cfg =
     (if HostKeyPinned cfg then yes_mark @ '' pinned'' else no_mark @ '' NOT verified (allow-any-host-key)'') @
     (case cProxy cfg of
        None \<Rightarrow> []
      | Some p \<Rightarrow>
          '', proxy: '' @
          (if pHostKeyFingerprints p \<noteq> [] \<or> pKnownHosts p \<noteq> [] then yes_mark @ '' pinned''
           else no_mark @ '' NOT verified (allow_any_host_key)''))"

definition join_text :: "string \<Rightarrow> string list \<Rightarrow> string" where
  "join_text sep xs = (case xs of [] \<Rightarrow> [] | x # rest \<Rightarrow> x @ concat (map (\<lambda>y. sep @ y) rest))"

definition algorithmStatus :: "Config \<Rightarrow> string" where
  "algorithmStatus cfg =
     (let a = cAlgorithms cfg; q = [CHR 0x60] in
      if Insecure a \<noteq> [] then
        warn_mark @ '' insecure additions allowed: '' @ q @ join_text (q @ '', '' @ q) (Insecure a) @ q
      else if algorithms_configured a then ''explicit supported additions'' else ''library defaults'')"

text \<open>What a run hands back: its counters, its duration and a row with its duration per deployment.\<close>

record run_totals =
  rt_stats :: Stats
  rt_duration :: int
  rt_rows :: "(DeploymentStats \<times> int) list"

definition run_outputs :: "run_totals \<Rightarrow> (string \<times> string) list" where
  "run_outputs t =
     (let s = rt_stats t in
      [(''files-uploaded'', decimal (FilesUploaded s)), (''files-deleted'', decimal (FilesDeleted s)),
       (''dirs-deleted'', decimal (DirsDeleted s)), (''files-skipped'', decimal (FilesSkipped s)),
       (''bytes-uploaded'', int_text (BytesUploaded s)),
       (''duration-ms'', int_text (rt_duration t sdiv millisecond_ns))])"

definition summary_row :: "string \<Rightarrow> string \<Rightarrow> string" where
  "summary_row nm v = ''| '' @ nm @ '' | '' @ v @ '' |'' @ nl"

definition run_summary :: "Config \<Rightarrow> run_totals \<Rightarrow> string \<Rightarrow> bool \<Rightarrow> string" where
  "run_summary cfg t mode bad =
     (let s = rt_stats t; q = [CHR 0x60] in
      ''### easySFTP'' @ nl @ nl @ summary_row ''Metric'' ''Value'' @ ''|---|---|'' @ nl @
      summary_row ''Status''
        (if bad then no_mark @ '' Failed after '' @ decimal (FilesUploaded s) @ '' file(s), '' @
           humanBytes_exact (BytesUploaded s)
         else yes_mark @ '' Succeeded'') @
      summary_row ''Host key'' (hostKeyStatus cfg) @
      summary_row ''SSH algorithms'' (algorithmStatus cfg) @
      summary_row ''Configuration''
        (if cConfigPath cfg = [] then ''inline inputs'' else q @ cConfigPath cfg @ q @ '' (version 3)'') @
      summary_row (''Files '' @ mode) (decimal (FilesUploaded s)) @
      summary_row ''Files deleted'' (decimal (FilesDeleted s)) @
      summary_row ''Directories removed'' (decimal (DirsDeleted s)) @
      summary_row ''Files skipped (unchanged)'' (decimal (FilesSkipped s)) @
      summary_row ''Bytes transferred'' (humanBytes_exact (BytesUploaded s)) @
      summary_row ''Duration'' (took (rt_duration t)) @
      deploymentBreakdown (rt_rows t))"

definition reportStats :: "Config \<Rightarrow> run_totals \<Rightarrow> string \<Rightarrow> bool \<Rightarrow> runner \<Rightarrow> runner option" where
  "reportStats cfg t mode bad r =
     map_option (AppendSummary (run_summary cfg t mode bad)) (SetOutputs (run_outputs t) r)"

section \<open>The command\<close>

text \<open>\<open>bi_settings\<close> are the build settings in order, \<open>bi_version\<close> the main module's version.\<close>

record build_info =
  bi_settings :: "(string \<times> string) list"
  bi_version :: string

definition buildInfoLine :: "build_info option \<Rightarrow> string \<Rightarrow> string" where
  "buildInfoLine info version =
     (case info of
        None \<Rightarrow> []
      | Some i \<Rightarrow>
          (case List.find (\<lambda>(k, v). k = ''vcs.revision'' \<and> v \<noteq> []) (bi_settings i) of
             None \<Rightarrow> []
           | Some (_, revision) \<Rightarrow>
               let v1 = (if version = [] then bi_version i else version);
                   v2 = (if v1 = [] then ''(devel)'' else v1) in
               ''easySFTP '' @ v2 @ '' ('' @ take 12 revision @ '')''))"

definition logBuildInfo :: "build_info option \<Rightarrow> string \<Rightarrow> runner \<Rightarrow> runner" where
  "logBuildInfo info version r =
     (let line = buildInfoLine info version in if line = [] then r else Infof line r)"

definition done_line :: "string \<Rightarrow> run_totals \<Rightarrow> string" where
  "done_line mode t =
     (let s = rt_stats t in
      ''done: '' @ mode @ '' '' @ decimal (FilesUploaded s) @ '' file(s), '' @ humanBytes_exact (BytesUploaded s) @
      '', deleted '' @ decimal (FilesDeleted s) @ '' file(s) and '' @ decimal (DirsDeleted s) @
      '' director(y/ies), skipped '' @ decimal (FilesSkipped s) @ '' unchanged, took '' @ took (rt_duration t))"

text \<open>
  \<open>load\<close> is the configuration or the text of its error; \<open>deploy\<close> the run, which logs as it goes and
  acts on the world beside the runner's files.
\<close>

definition run_command ::
    "build_info option \<Rightarrow> string \<Rightarrow> (string, Config) result
       \<Rightarrow> (Config \<Rightarrow> runner \<Rightarrow> 'x \<Rightarrow> ((run_totals \<times> string option) \<times> runner \<times> 'x) option) \<Rightarrow> runner \<Rightarrow> 'x
       \<Rightarrow> (string option \<times> runner \<times> 'x) option" where
  "run_command info version load deploy r x =
     (let r0 = logBuildInfo info version r in
      case load of
        Inl e \<Rightarrow> Some (Some e, r0, x)
      | Inr cfg \<Rightarrow>
          (case deploy cfg r0 x of
             None \<Rightarrow> None
           | Some ((t, err), r1, x1) \<Rightarrow>
               let mode = (if cDryRun cfg then ''would upload (dry-run)'' else ''uploaded'');
                   r2 = (if err = None then Infof (done_line mode t) r1 else r1) in
               map_option (\<lambda>r3. (err, r3, x1)) (reportStats cfg t mode (err \<noteq> None) r2)))"

definition helpRequested :: "string list \<Rightarrow> bool" where
  "helpRequested args \<longleftrightarrow> length args = 1 \<and> (hd args = ''--help'' \<or> hd args = ''-h'')"

definition help_text :: string where
  "help_text = ''easySFTP uploads files to an SFTP server using EASYSFTP_* environment variables.'' @ nl @ nl @
     ''Usage:'' @ nl @ ''  easysftp'' @ nl @ ''  easysftp --help'' @ nl"

text \<open>The exit status with the runner's files and the world.\<close>

definition main_command ::
    "string list \<Rightarrow> build_info option \<Rightarrow> string \<Rightarrow> (string, Config) result
       \<Rightarrow> (Config \<Rightarrow> runner \<Rightarrow> 'x \<Rightarrow> ((run_totals \<times> string option) \<times> runner \<times> 'x) option) \<Rightarrow> runner \<Rightarrow> 'x
       \<Rightarrow> (int \<times> runner \<times> 'x) option" where
  "main_command args info version load deploy r x =
     (if helpRequested args then Some (0, r\<lparr>log_text := log_text r @ help_text\<rparr>, x)
      else
        (case run_command info version load deploy r x of
           None \<Rightarrow> None
         | Some (None, r1, x1) \<Rightarrow> Some (0, r1, x1)
         | Some (Some e, r1, x1) \<Rightarrow> Some (1, Errorf e r1, x1)))"

section \<open>The rows add up\<close>

text \<open>A deployment only ever adds to the counters.\<close>

definition grows :: "Stats \<Rightarrow> Stats \<Rightarrow> bool" where
  "grows s s' \<longleftrightarrow> FilesUploaded s \<le> FilesUploaded s' \<and> FilesDeleted s \<le> FilesDeleted s' \<and>
     DirsDeleted s \<le> DirsDeleted s' \<and> FilesSkipped s \<le> FilesSkipped s'"

lemma grows_refl [simp]: "grows s s"
  by (simp add: grows_def)

lemma grows_trans [trans]: "grows a b \<Longrightarrow> grows b c \<Longrightarrow> grows a c"
  by (auto simp: grows_def)

lemma grows_more [simp]:
  "grows s s' \<Longrightarrow> grows s (more_files_deleted n s')" "grows s s' \<Longrightarrow> grows s (more_dirs_deleted n s')"
  "grows s s' \<Longrightarrow> grows s (s'\<lparr>FilesSkipped := FilesSkipped s' + n\<rparr>)"
  by (auto simp: grows_def more_files_deleted_def more_dirs_deleted_def)

lemma tally_grows: "grows stats (tally cs ks ns stats)"
proof (induction cs ks ns stats rule: tally.induct)
  case (1 c cs k ks n ns stats)
  show ?case by (rule grows_trans [OF _ 1 [unfolded tally.simps(1) [symmetric]]]) (simp add: grows_def)
qed simp_all

lemma uploadFiles_grows:
  assumes "uploadFiles cfg env watch ch fs planned dirs sweepDirs base su (stats, st) = (r, (stats', st'))"
  shows "grows stats stats'"
  using assms tally_grows by (auto simp: uploadFiles_def split: prod.splits option.splits)

lemma sync_collide_grows:
  "sync_collide pr cfg env watch base old up colliding fs (stats, b, st) = (x, (stats', b', st')) \<Longrightarrow> grows stats stats'"
  by (auto simp: sync_collide_def Let_def split: if_splits prod.splits option.splits)

lemma sync_finish_grows:
  "sync_finish pr cfg env watch base old fs up completed pre rest (stats, b, st) = (x, (stats', b', st')) \<Longrightarrow>
     grows stats stats'"
  by (auto simp: sync_finish_def Let_def split: if_splits prod.splits option.splits sum.splits)

lemma sync_transfer_grows:
  assumes "sync_transfer pr cfg env watch p base old fs dels (stats, b, st) = (x, (stats', b', st'))"
  shows "grows stats stats'"
proof -
  let ?up = "changed_files old fs" and ?dirs = "if DirMode cfg = None then dirsForFiles (changed_files old fs) else remoteDirs p"
  obtain e pre s2 b2 st2 where c: "sync_collide pr cfg env watch base old ?up (fst dels) fs (stats, b, st) =
      ((e, pre), (s2, b2, st2))" by (metis surj_pair)
  obtain completed y s3 st3 where u: "uploadFiles cfg env watch (pr_policy pr ?up False) ?up fs ?dirs (remoteDirs p)
      base False (s2, st2) = ((completed, y), (s3, st3))" by (metis surj_pair)
  have g: "grows stats s2" "grows stats s3"
    using sync_collide_grows [OF c] uploadFiles_grows [OF u] grows_trans by blast+
  have fin: "grows stats s4" if "sync_finish pr cfg env watch base old fs ?up completed pre (snd dels) (s3, b2, st3) = (z, (s4, b4, st4))"
    for z s4 b4 st4 using sync_finish_grows [OF that] g(2) grows_trans by blast
  show ?thesis
    using assms g fin unfolding sync_transfer_def Let_def c prod.case
    by (cases e; cases y) (auto simp only: u prod.case option.case prod.inject)
qed

lemma executeSync_grows:
  assumes "executeSync pr cfg env watch p (stats, b, st) = (x, (stats', b', st'))"
  shows "grows stats stats'"
proof -
  have admit: "fst pg = stats" if "sync_admit p del (stats, b, st1) = (e, pg)" for del st1 e pg
    using that by (auto simp: sync_admit_def split: if_splits option.splits prod.splits)
  have app: "grows stats s4"
    if a: "sync_apply pr cfg env watch p old fs (stats, b, st1) = (z, (s4, b4, st4))" for old fs st1 z s4 b4 st4
  proof -
    obtain e s2 b2 st2 where ad: "sync_admit p (stale_entries old (NormalizeRemote (Remote (pair p))) fs) (stats, b, st1)
        = (e, (s2, b2, st2))" by (metis surj_pair)
    have s2: "s2 = stats" using admit [OF ad] by simp
    show ?thesis
    proof (cases e)
      case None
      with a ad s2 show ?thesis by (intro sync_transfer_grows [where stats = stats]) (simp add: sync_apply_def Let_def)
    qed (use a ad s2 in \<open>simp add: sync_apply_def Let_def\<close>)
  qed
  show ?thesis
    using assms by (auto simp: executeSync_def Let_def dest: app split: prod.splits option.splits sum.splits)
qed

lemma clean_target_grows:
  "clean_target pr cfg env watch p (stats, b, st) = Some (x, (stats', b', st')) \<Longrightarrow> grows stats stats'"
  by (auto simp: clean_target_def Let_def split: if_splits prod.splits option.splits sum.splits)

lemma executePlan_grows:
  assumes "executePlan pr cfg env watch p (stats, b, st) = Some (x, (stats', b', st'))"
  shows "grows stats stats'"
proof (cases "strat p = Sync")
  case True
  with assms executeSync_grows show ?thesis by (simp add: executePlan_def)
next
  case False
  obtain e s1 b1 st1 where c: "(if strat p = Clean then clean_target pr cfg env watch p (stats, b, st)
      else Some (None, (stats, b, st))) = Some (e, (s1, b1, st1))"
    using assms False by (auto simp: executePlan_def executeOverlayOrClean_def split: option.splits if_splits)
  have g: "grows stats s1" using c clean_target_grows [of pr cfg env watch p stats b st e s1 b1 st1] by (auto split: if_splits)
  let ?su = "SkipUnchanged cfg \<and> strat p = Overlay"
  obtain a y s2 st2 where u: "uploadFiles cfg env watch (pr_policy pr (plan_files p) ?su) (plan_files p) (plan_files p)
      (remoteDirs p) (remoteDirs p) (NormalizeRemote (Remote (pair p))) ?su (s1, st1) = ((a, y), (s2, st2))"
    by (metis surj_pair)
  have "grows stats s2" by (rule grows_trans [OF g uploadFiles_grows [OF u]])
  with assms False g show ?thesis
    unfolding executePlan_def executeOverlayOrClean_def c Let_def option.case prod.case
    by (cases e) (auto simp: u)
qed

lemma add_row_delta:
  assumes "row_totals rows = s" "grows s s'"
  shows "row_totals (rows @ [deployment_stats p s s']) = s'"
  using assms by (cases s') (auto simp: row_totals_def add_row_def deployment_stats_def grows_def)

lemma run_plans_totals:
  "run_plans pr cfg env watch ps rows pg = Some (e, rows', pg') \<Longrightarrow> row_totals rows = fst pg \<Longrightarrow>
     row_totals rows' = fst pg'"
proof (induction ps arbitrary: rows pg)
  case (Cons p ps)
  show ?case
  proof (cases "ctx_err env (snd (snd (snd pg)))")
    case (Some c)
    with Cons.prems show ?thesis by simp
  next
    case None
    obtain err pg1 where x: "executePlan pr cfg env watch p pg = Some (err, pg1)"
      using Cons.prems(1) None by (auto split: option.splits)
    have "grows (fst pg) (fst pg1)"
      using x executePlan_grows by (cases pg; cases pg1) auto
    then have t: "row_totals (rows @ [deployment_stats p (fst pg) (fst pg1)]) = fst pg1"
      using add_row_delta Cons.prems(2) by blast
    show ?thesis
    proof (cases err)
      case None
      with Cons.IH [OF _ t] Cons.prems(1) \<open>ctx_err env (snd (snd (snd pg))) = None\<close> x show ?thesis by simp
    next
      case (Some c)
      with t Cons.prems(1) None x show ?thesis by auto
    qed
  qed
qed simp

lemma Run_totals:
  assumes "Run ou cfg w = Some r"
  shows "row_totals (rr_rows r) = rr_stats r"
  using assms
proof (cases rule: Run_cases)
  case deployed
  from run_plans_totals [OF this(3)] deployed(5) show ?thesis by (simp add: row_totals_def)
qed (simp_all add: row_totals_def unsaved_def)

section \<open>The numbers lose nothing\<close>

lemma HumanSize_unit:
  assumes "1024 \<le> n" "n \<le> MaxInt64"
  shows "\<exists>i < 6. HumanSize n = fixed1 (fdiv (of_int64 n) (of_int64 (1024 ^ Suc i))) @ '' '' @ [''KMGTPE'' ! i] @ ''iB''"
proof -
  have "1 \<le> n div 1024" "n div 1024 < 1024 ^ Suc 5"
    using assms by (simp_all add: div_less_iff_less_mult less_eq_div_iff_mult_less_eq)
  then obtain i where "i \<le> 5" "human_scale (n div 1024) 1024 0 = (1024 ^ Suc i, int i)"
    using human_scale_spec [of "n div 1024" 5 0] by auto
  then show ?thesis using assms(1) by (intro exI [of _ i]) (simp add: HumanSize_def sdiv_pos)
qed

text \<open>Without its commas a grouped number is the number.\<close>

lemma int_text_no_comma: "CHR '','' \<notin> set (int_text n)"
proof -
  have "CHR '','' \<notin> set (decimal k)" for k
    using decimal_digits [of k] by (auto simp: list_all_iff)
  then show ?thesis by (simp add: int_text_def)
qed

lemma groupDigits_keeps: "filter (\<lambda>c. c \<noteq> CHR '','') (groupDigits n) = int_text n"
proof -
  let ?s = "int_text n"
  have "filter (\<lambda>c. c \<noteq> CHR '','') (group_at ?s i) = [?s ! i]" if "i < length ?s" for i
  proof -
    have "?s ! i \<noteq> CHR '',''" using int_text_no_comma [of n] nth_mem [OF that] by metis
    then show ?thesis by (simp add: group_at_def)
  qed
  then have "filter (\<lambda>c. c \<noteq> CHR '','') (concat (map (group_at ?s) is)) = map ((!) ?s) is"
    if "set is \<subseteq> {..<length ?s}" for "is"
    using that by (induction "is") simp_all
  moreover have "set [0..<length ?s] \<subseteq> {..<length ?s}" by auto
  ultimately have "filter (\<lambda>c. c \<noteq> CHR '','') (concat (map (group_at ?s) [0..<length ?s])) = map ((!) ?s) [0..<length ?s]"
    by blast
  then show ?thesis by (simp add: groupDigits_def Let_def map_nth)
qed

text \<open>The delimiter of a code cell is longer than every run of backticks inside it.\<close>

lemma longest_run_ge: "longest \<le> longest_run s run longest"
proof (induction s arbitrary: run longest)
  case (Cons c s)
  have "longest \<le> longest_run s (Suc run) (Suc run)" if "longest < Suc run"
    using Cons.IH [of "Suc run" "Suc run"] that by linarith
  with Cons.IH show ?case by auto
qed simp

lemma longest_run_at:
  "run \<le> longest \<Longrightarrow> s = replicate k (CHR 0x60) @ rest \<Longrightarrow> run + k \<le> longest_run s run longest"
proof (induction k arbitrary: s run longest)
  case 0
  then show ?case using longest_run_ge [of longest s run] by simp
next
  case (Suc k)
  have "Suc run + k \<le> longest_run (replicate k (CHR 0x60) @ rest) (Suc run) (if Suc run > longest then Suc run else longest)"
    by (rule Suc.IH) auto
  with Suc.prems(2) show ?case by simp
qed

lemma longest_run_bounds:
  "run \<le> longest \<Longrightarrow> sublist (replicate k (CHR 0x60)) s \<Longrightarrow> k \<le> longest_run s run longest"
proof (induction s arbitrary: run longest)
  case (Cons c s)
  show ?case
  proof (cases "prefix (replicate k (CHR 0x60)) (c # s)")
    case True
    then obtain rest where "c # s = replicate k (CHR 0x60) @ rest" by (auto simp: prefix_def)
    from longest_run_at [OF Cons.prems(1) this] show ?thesis by simp
  next
    case False
    with Cons.prems(2) have "sublist (replicate k (CHR 0x60)) s" by (auto simp: sublist_Cons_right)
    with Cons.IH show ?thesis by auto
  qed
qed simp

lemma code_cell_closed:
  "\<not> sublist (replicate (longest_run (escape_pipe s) 0 0 + 1) (CHR 0x60)) (escape_pipe s)"
  using longest_run_bounds [of 0 0 "longest_run (escape_pipe s) 0 0 + 1" "escape_pipe s"] by auto

text \<open>Counters of 64 bits have short texts.\<close>

lemma decimal_length: "n < 10 ^ Suc k \<Longrightarrow> length (decimal n) \<le> Suc k"
proof (induction k arbitrary: n)
  case 0
  then show ?case by (subst decimal.simps) simp
next
  case (Suc k)
  show ?case
  proof (cases "n < 10")
    case False
    have "n div 10 < 10 ^ Suc k" using Suc.prems by (simp add: div_less_iff_less_mult mult.commute)
    with Suc.IH False show ?thesis by (subst decimal.simps) simp
  qed (subst decimal.simps, simp)
qed

lemma int_text_length:
  assumes "int64 n"
  shows "length (int_text n) < 45"
proof -
  have "\<bar>n\<bar> \<le> 9223372036854775808" using assms by (auto simp: int64_def)
  then have "nat \<bar>n\<bar> < 10 ^ Suc 42" by (simp add: nat_less_iff)
  from decimal_length [OF this] show ?thesis
    by (auto simp: int_text_def abs_if split: if_splits)
qed

lemma decimal_int_text: "decimal n = int_text (int n)"
  by (simp add: int_text_def)

definition counters64 :: "run_totals \<Rightarrow> bool" where
  "counters64 t \<longleftrightarrow>
     int64 (int (FilesUploaded (rt_stats t))) \<and> int64 (int (FilesDeleted (rt_stats t))) \<and>
     int64 (int (DirsDeleted (rt_stats t))) \<and> int64 (int (FilesSkipped (rt_stats t))) \<and>
     int64 (BytesUploaded (rt_stats t)) \<and> int64 (rt_duration t)"

lemma milliseconds64: "int64 d \<Longrightarrow> int64 (d sdiv millisecond_ns)"
proof -
  assume d: "int64 d"
  have "\<bar>d\<bar> div 1000000 \<le> \<bar>d\<bar>" "0 \<le> \<bar>d\<bar> div 1000000"
    using zdiv_mono2 [of "\<bar>d\<bar>" 1 1000000] by (simp_all add: pos_imp_zdiv_nonneg_iff)
  then show ?thesis using d
    by (auto simp: int64_def signed_divide_int_def millisecond_ns_def sgn_if abs_if split: if_splits)
qed

section \<open>Properties\<close>

text \<open>
  Property C33. The rows of the deployment table add up: whatever the deployments did, and also when
  the run failed in one of them, the five totals the table sums over its rows are the counters the
  run itself reports.
\<close>

theorem rows_add_up:
  assumes "Run ou cfg w = Some r"
  shows "row_totals (rr_rows r) = rr_stats r"
  by (rule Run_totals [OF assms])

text \<open>Two deployments, the second of which fails: its target holds more than may be deleted.\<close>

definition two_pairs :: "uploadPair list" where
  "two_pairs =
     [sample_pair,
      \<lparr>Name = ''docs'', Local = ''docs'', Remote = ''/d/'', Strategy = Some Clean, Ignore = []\<rparr>]"

definition two_local :: "uploadPair \<Rightarrow> root_stat \<times> string" where
  "two_local p = (RootTree None (if Name p = ''docs'' then [] else sample_entries), Local p)"

definition two_world :: ram where
  "two_world = sample_world\<lparr>disk := disk sample_world @
     [(''/d/a'', []), (''/d/b'', []), (''/d/c'', []), (''/d/d'', []), (''/d/e'', [])]\<rparr>"

definition two_config :: Config where
  "two_config = Defaults\<lparr>cUploads := two_pairs, cMaxDeletes := 5, cManifestName := ''.m.json'',
     cAuto := \<lparr>autoConnections = False, autoConcurrency = False, autoRequestConcurrency = False\<rparr>\<rparr>"

definition two_outside :: "(unit, ram, unit) outside" where
  "two_outside =
     \<lparr>out_env = ram_env [(''web/a'', ''abc'')] True, out_params = sample_params, out_local = two_local,
      out_link = (\<lambda>_. (5, [], 0)), out_events = (\<lambda>_. []), out_sha256 = (\<lambda>_. []), out_decode = (\<lambda>_. None),
      out_encode = (\<lambda>_. []), out_lock_ok = (\<lambda>_. True), out_write_ok = (\<lambda>_. True), out_cache = ReadMissing,
      out_cache_then = (\<lambda>_. ReadMissing)\<rparr>"

definition two_run :: "(ram, unit) run_result option" where
  "two_run = Run two_outside two_config two_world"

theorem rows_add_up_witness:
  "\<exists>r. two_run = Some r \<and> rr_error r \<noteq> None \<and> length (rr_rows r) = 2 \<and>
     FilesUploaded (rr_stats r) = 1 \<and> FilesDeleted (rr_stats r) = 1 \<and> row_totals (rr_rows r) = rr_stats r"
proof -
  have "case two_run of None \<Rightarrow> False | Some r \<Rightarrow> rr_error r \<noteq> None \<and> length (rr_rows r) = 2 \<and>
      FilesUploaded (rr_stats r) = 1 \<and> FilesDeleted (rr_stats r) = 1" by code_simp
  then obtain r where r: "two_run = Some r" "rr_error r \<noteq> None" "length (rr_rows r) = 2"
    "FilesUploaded (rr_stats r) = 1" "FilesDeleted (rr_stats r) = 1" by (auto split: option.splits)
  from rows_add_up [OF r(1) [unfolded two_run_def]] r show ?thesis by blast
qed

text \<open>
  The step outputs are read back as what the run counted: for counters of 64 bits the
  writing always succeeds, with the first delimiter drawn for each value, and the runner's reader
  finds exactly the six names with the texts of their numbers, whatever was drawn.
\<close>

theorem outputs_read_back:
  assumes "writes_outputs r" "out_file r = Some []" "counters64 t"
  shows "\<exists>r' text. reportStats cfg t mode bad r = Some r' \<and> out_file r' = Some text \<and>
    outputs_of text = Some (run_outputs t)"
proof -
  have "list_all (\<lambda>(nm, v). output_name nm \<and> length v < 45) (run_outputs t)"
    using assms(3) int_text_length milliseconds64
    by (auto simp: run_outputs_def Let_def counters64_def output_name_def decimal_int_text)
  from SetOutputs_blocks [OF this assms(1,2)] obtain r' bs where r': "SetOutputs (run_outputs t) r = Some r'"
    "out_file r' = Some bs" "\<forall>rest. outputs_of (bs @ rest) = map_option ((@) (run_outputs t)) (outputs_of rest)"
    by auto
  have "outputs_of [] = Some []" by (simp add: outputs_of_def)
  with r'(3) [rule_format, of "[]"] have "outputs_of bs = Some (run_outputs t)" by simp
  with r' show ?thesis
    by (auto simp: reportStats_def AppendSummary_def Warningf_def println_def split: option.split)
qed

definition sample_runner :: runner where
  "sample_runner = \<lparr>log_text = [], out_file = Some [], out_fail = None, sum_file = Some [], sum_fail = None,
     draws = (\<lambda>n. replicate 16 CHR ''z''), drawn = 0\<rparr>"

definition sample_totals :: run_totals where
  "sample_totals = \<lparr>rt_stats = \<lparr>FilesUploaded = 12, FilesDeleted = 1, DirsDeleted = 0, FilesSkipped = 30,
     BytesUploaded = 73400320\<rparr>, rt_duration = 4500000000, rt_rows = []\<rparr>"

theorem outputs_read_back_witness:
  "\<exists>r' text. reportStats Defaults sample_totals ''uploaded'' False sample_runner = Some r' \<and>
     out_file r' = Some text \<and> outputs_of text = Some
       [(''files-uploaded'', ''12''), (''files-deleted'', ''1''), (''dirs-deleted'', ''0''), (''files-skipped'', ''30''),
        (''bytes-uploaded'', ''73400320''), (''duration-ms'', ''4500'')]"
proof -
  have "writes_outputs sample_runner" "out_file sample_runner = Some []" "counters64 sample_totals"
    by (simp_all add: writes_outputs_def sample_runner_def counters64_def sample_totals_def int64_def)
  moreover have "run_outputs sample_totals =
      [(''files-uploaded'', ''12''), (''files-deleted'', ''1''), (''dirs-deleted'', ''0''), (''files-skipped'', ''30''),
       (''bytes-uploaded'', ''73400320''), (''duration-ms'', ''4500'')]"
    by (simp add: run_outputs_def sample_totals_def decimal.simps int_text_def Go_Error.hex_digit_def millisecond_ns_def sdiv_pos)
  ultimately show ?thesis using outputs_read_back [of sample_runner sample_totals] by metis
qed

end
