(* ===== verification/Config_File.thy ===== *)
theory Config_File
  imports Configuration
begin

text \<open>
  The v3 config file (\<open>internal/config/configfile.go\<close>): the typed sections, \<open>applyYAML\<close> onto the
  configuration, the SSH algorithm lists, and \<open>loadConfigFile\<close> with the key check of
  \<open>Yaml_Keys\<close>. The YAML decoder (yaml.v3), the file system and the algorithm lists of
  x/crypto/ssh are not part of the repository: they are the fields of the record \<open>file_env\<close>.
\<close>

section \<open>The typed file\<close>

record autoInt =
  ai_set :: bool
  ai_v :: int

definition ai_or :: "autoInt \<Rightarrow> int \<Rightarrow> int" where
  "ai_or a def = (if ai_set a then ai_v a else def)"

definition ai_auto :: "autoInt \<Rightarrow> bool" where
  "ai_auto a \<longleftrightarrow> \<not> ai_set a"

text \<open>\<open>UnmarshalYAML\<close> of the two types with their own decoding; \<open>node.Decode\<close> is a parameter.\<close>

datatype unmarshal_error = NotNumberOrAuto string | NotFingerprints

definition autoInt_unmarshal :: "(ynode \<Rightarrow> (goerr, int) result) \<Rightarrow> ynode \<Rightarrow> autoInt \<Rightarrow> (unmarshal_error, autoInt) result" where
  "autoInt_unmarshal decode node a =
     (if NValue node = ''auto'' then Inr a
      else if NTag node \<noteq> ''!!int'' then Inl (NotNumberOrAuto (NValue node))
      else case decode node of
             Inl _ \<Rightarrow> Inl (NotNumberOrAuto (NValue node))
           | Inr v \<Rightarrow> Inr (a\<lparr>ai_v := v, ai_set := True\<rparr>))"

definition fingerprints_unmarshal :: "(ynode \<Rightarrow> (goerr, string list) result) \<Rightarrow> ynode \<Rightarrow> (unmarshal_error, string) result" where
  "fingerprints_unmarshal decode node =
     (case Kind node of
        ScalarNode \<Rightarrow> Inr (NValue node)
      | SequenceNode \<Rightarrow>
          (case decode node of Inl _ \<Rightarrow> Inl NotFingerprints | Inr ls \<Rightarrow> Inr (join_with (CHR 0x0A) ls))
      | _ \<Rightarrow> Inl NotFingerprints)"

record yamlAlgorithms =
  y_key_exchanges :: "string list"
  y_ciphers :: "string list"
  y_macs :: "string list"
  y_host_key_algorithms :: "string list"

record yamlProxy =
  yp_host :: string
  yp_port :: int
  yp_username :: string
  yp_host_key :: string
  yp_known_hosts :: string
  yp_allow_any_host_key :: bool

record yamlConnection =
  yc_host :: string
  yc_port :: int
  yc_username :: string
  yc_host_key :: string
  yc_known_hosts :: string
  yc_allow_any_host_key :: bool
  yc_algorithms :: yamlAlgorithms
  yc_proxy :: "yamlProxy option"

record yamlDefaults =
  yd_mode :: string
  yd_exclude :: "string list"

record yamlDeployment =
  dp_source :: string
  dp_target :: string
  dp_mode :: string
  dp_exclude :: "string list"

record yamlAdvanced =
  ya_retries :: "int option"
  ya_timeout :: "int option"
  ya_stall_timeout :: "int option"
  ya_concurrency :: autoInt
  ya_request_concurrency :: autoInt
  ya_connections :: autoInt
  ya_skip_unchanged :: bool
  ya_auto_cache :: string

text \<open>\<open>deployments\<close> stays a raw node; the one-field sections are their field.\<close>

record yamlConfig =
  y_version :: int
  y_connection :: yamlConnection
  y_defaults :: yamlDefaults
  y_deployments :: ynode
  y_max_deletes :: int
  y_advanced :: yamlAdvanced
  y_files :: string
  y_directories :: string
  y_preserve_times :: bool
  y_fast_path :: bool
  y_manifest :: string

section \<open>What comes from outside\<close>

text \<open>A decoded document is its graph of nodes and its root; \<open>decode_docs\<close> lists what successive
  calls of the decoder report before \<open>io.EOF\<close>.\<close>

type_synonym ydoc = "ygraph \<times> nat"

record file_env =
  read_file :: "string \<Rightarrow> (goerr, string) result"
  decode_docs :: "string \<Rightarrow> (goerr, ydoc) result list"
  decode_config :: "ydoc \<Rightarrow> (goerr, yamlConfig) result"
  decode_deployment :: "ygraph \<Rightarrow> nat \<Rightarrow> (goerr, yamlDeployment) result"
  ssh_supported :: SSHAlgorithms
  ssh_insecure :: SSHAlgorithms

section \<open>SSH algorithms\<close>

text \<open>One category's loop: the names accepted so far, the names seen and the insecure names of all
  categories.\<close>

fun algorithm_loop ::
  "string \<Rightarrow> string list \<Rightarrow> string list \<Rightarrow> string list \<Rightarrow> string list \<Rightarrow> string list \<Rightarrow>
   (config_error, string list \<times> string list) result" where
  "algorithm_loop path supp insec [] acc bad = Inr (acc, bad)"
| "algorithm_loop path supp insec (raw # rest) acc bad =
     (let name = TrimSpace raw in
      if name = [] then Inl (EmptyAlgorithm path)
      else if \<not> List.member supp name \<and> \<not> List.member insec name then Inl (UnsupportedAlgorithm path name)
      else if List.member acc name then algorithm_loop path supp insec rest acc bad
      else algorithm_loop path supp insec rest (acc @ [name])
             (if List.member insec name \<and> \<not> List.member bad name then bad @ [name] else bad))"

definition parseSSHAlgorithms :: "file_env \<Rightarrow> yamlAlgorithms \<Rightarrow> (config_error, SSHAlgorithms) result" where
  "parseSSHAlgorithms fe y =
     (let s = ssh_supported fe; i = ssh_insecure fe in
      bind_result (algorithm_loop ''connection.algorithms.key_exchanges'' (KeyExchanges s) (KeyExchanges i) (y_key_exchanges y) [] []) (\<lambda>(kex, bad1).
      bind_result (algorithm_loop ''connection.algorithms.ciphers'' (Ciphers s) (Ciphers i) (y_ciphers y) [] bad1) (\<lambda>(ciphers, bad2).
      bind_result (algorithm_loop ''connection.algorithms.macs'' (MACs s) (MACs i) (y_macs y) [] bad2) (\<lambda>(macs, bad3).
      bind_result (algorithm_loop ''connection.algorithms.host_key_algorithms'' (HostKeyAlgorithms s) (HostKeyAlgorithms i)
                     (y_host_key_algorithms y) [] bad3) (\<lambda>(hostKeys, bad4).
      Inr \<lparr>KeyExchanges = kex, Ciphers = ciphers, MACs = macs, HostKeyAlgorithms = hostKeys, Insecure = bad4\<rparr>)))))"

section \<open>applyYAML\<close>

definition maxConfiguredSeconds :: int where
  "maxConfiguredSeconds = 24 * 60 * 60"

definition apply_proxy :: "yamlProxy \<Rightarrow> (config_error, Proxy) result" where
  "apply_proxy p =
     (if TrimSpace (yp_host p) = [] then Inl NoProxyHost
      else Inr \<lparr>pServer = TrimSpace (yp_host p), pPort = (if yp_port p \<noteq> 0 then yp_port p else 22),
             pUsername = TrimSpace (yp_username p), pPassword = [], pPrivateKey = [], pPassphrase = [],
             pHostKeyFingerprints = splitLines (yp_host_key p), pKnownHosts = TrimSpace (yp_known_hosts p),
             pAllowAnyHostKey = yp_allow_any_host_key p\<rparr>)"

definition apply_connection :: "file_env \<Rightarrow> Config \<Rightarrow> yamlConnection \<Rightarrow> (config_error, Config) result" where
  "apply_connection fe cfg y =
     bind_result (parseSSHAlgorithms fe (yc_algorithms y)) (\<lambda>algs.
     bind_result (case yc_proxy y of None \<Rightarrow> Inr (cProxy cfg)
                  | Some p \<Rightarrow> bind_result (apply_proxy p) (\<lambda>q. Inr (Some q))) (\<lambda>proxy.
     Inr (cfg\<lparr>cServer := TrimSpace (yc_host y), cUsername := TrimSpace (yc_username y),
            cPort := (if yc_port y \<noteq> 0 then yc_port y else 22),
            cHostKeyFingerprints := splitLines (yc_host_key y), cKnownHosts := TrimSpace (yc_known_hosts y),
            cAllowAnyHostKey := yc_allow_any_host_key y, cAlgorithms := algs, cProxy := proxy\<rparr>)))"

definition mode_or :: "strategy \<Rightarrow> string \<Rightarrow> string \<Rightarrow> (config_error, strategy) result" where
  "mode_or def place s =
     (if s = [] then Inr def
      else case parse_strategy s of None \<Rightarrow> Inl (BadMode place s) | Some m \<Rightarrow> Inr m)"

text \<open>The loop over the \<open>deployments\<close> mapping with its set of names seen.\<close>

fun deployments_loop ::
  "file_env \<Rightarrow> ygraph \<Rightarrow> strategy \<Rightarrow> (nat \<times> nat) list \<Rightarrow> string list \<Rightarrow> uploadPair list \<Rightarrow>
   (config_error, uploadPair list) result" where
  "deployments_loop fe g def [] seen ups = Inr ups"
| "deployments_loop fe g def ((k, v) # rest) seen ups =
     (let name = NValue (nd g k) in
      if TrimSpace name = [] then Inl BlankDeploymentName
      else if List.member seen name then Inl (DuplicateDeployment name)
      else case decode_deployment fe g v of
             Inl e \<Rightarrow> Inl (InDeployment name e)
           | Inr d \<Rightarrow>
               if dp_source d = [] \<or> dp_target d = [] then Inl (DeploymentIncomplete name)
               else bind_result (mode_or def name (dp_mode d)) (\<lambda>mode.
                 deployments_loop fe g def rest (name # seen)
                   (ups @ [\<lparr>Name = name, Local = dp_source d, Remote = dp_target d, Strategy = Some mode,
                            Ignore = dp_exclude d\<rparr>])))"

definition apply_deployments :: "file_env \<Rightarrow> ygraph \<Rightarrow> Config \<Rightarrow> yamlConfig \<Rightarrow> (config_error, Config) result" where
  "apply_deployments fe g cfg y =
     bind_result (mode_or Overlay ''defaults.mode'' (yd_mode (y_defaults y))) (\<lambda>def.
     let deps = y_deployments y in
     if Kind deps = NoKind \<or> Content deps = [] then Inl NoDeployments
     else if Kind deps \<noteq> MappingNode then Inl DeploymentsNotMap
     else bind_result (deployments_loop fe g def (entries (Content deps)) [] (cUploads cfg)) (\<lambda>ups.
       Inr (cfg\<lparr>cIgnoreLines := cIgnoreLines cfg @ yd_exclude (y_defaults y), cUploads := ups\<rparr>)))"

text \<open>Seconds become nanoseconds in 64 bits.\<close>

definition of_seconds :: "string \<Rightarrow> int option \<Rightarrow> int \<Rightarrow> (config_error, int) result" where
  "of_seconds name v def =
     (case v of
        None \<Rightarrow> Inr def
      | Some n \<Rightarrow> if n > maxConfiguredSeconds then Inl (TooManySeconds name n) else Inr (i64 (n * second_ns)))"

definition apply_advanced :: "Config \<Rightarrow> yamlAdvanced \<Rightarrow> (config_error, Config) result" where
  "apply_advanced cfg y =
     bind_result (of_seconds ''advanced.timeout'' (ya_timeout y) (cTimeout cfg)) (\<lambda>timeout.
     bind_result (of_seconds ''advanced.stall_timeout'' (ya_stall_timeout y) (cStallTimeout cfg)) (\<lambda>stall.
     Inr (cfg\<lparr>cRetries := (case ya_retries y of None \<Rightarrow> cRetries cfg | Some n \<Rightarrow> n),
            cTimeout := timeout, cStallTimeout := stall,
            cConcurrency := ai_or (ya_concurrency y) defaultConcurrency,
            cSftpRequestConcurrency := ai_or (ya_request_concurrency y) defaultRequestConcurrency,
            cConnections := ai_or (ya_connections y) defaultConnections,
            cAuto := \<lparr>autoConnections = ai_auto (ya_connections y), autoConcurrency = ai_auto (ya_concurrency y),
                      autoRequestConcurrency = ai_auto (ya_request_concurrency y)\<rparr>,
            cSkipUnchanged := ya_skip_unchanged y, cAutoCachePath := TrimSpace (ya_auto_cache y)\<rparr>)))"

definition applyYAML :: "file_env \<Rightarrow> ygraph \<Rightarrow> Config \<Rightarrow> yamlConfig \<Rightarrow> (config_error, Config) result" where
  "applyYAML fe g cfg y =
     (if y_version y \<noteq> 3 then Inl (BadVersion (y_version y))
      else
        bind_result (apply_connection fe cfg (y_connection y)) (\<lambda>c1.
        bind_result (apply_deployments fe g c1 y) (\<lambda>c2.
        bind_result (apply_advanced (c2\<lparr>cMaxDeletes := y_max_deletes y\<rparr>) (y_advanced y)) (\<lambda>c3.
        bind_result (parseMode (y_files y) ''permissions.files'') (\<lambda>files.
        bind_result (parseMode (y_directories y) ''permissions.directories'') (\<lambda>dirs.
        bind_result (parseManifestName (y_manifest y)) (\<lambda>manifest.
        Inr (c3\<lparr>cFileMode := files, cDirMode := dirs, cPreserveTimes := y_preserve_times y,
               cSyncFastPath := y_fast_path y, cManifestName := manifest\<rparr>))))))))"

section \<open>loadConfigFile\<close>

definition isEmptySecondDocument :: "ydoc \<Rightarrow> bool" where
  "isEmptySecondDocument d =
     (let root = nd (fst d) (snd d) in
      if length (Content root) \<noteq> 1 then False
      else
        let doc = nd (fst d) (hd (Content root)) in
        if Kind doc \<noteq> ScalarNode \<or> NTag doc \<noteq> ''!!null'' then False else NValue doc = [])"

text \<open>The loop that reads to the end of the file; \<open>docNo\<close> counts from 2.\<close>

fun rest_docs :: "nat \<Rightarrow> (goerr, ydoc) result list \<Rightarrow> config_error option" where
  "rest_docs docNo [] = None"
| "rest_docs docNo (Inl e # ds) = Some (DecoderError e)"
| "rest_docs docNo (Inr d # ds) =
     (if \<not> isEmptySecondDocument d
      then Some (SecondDocument docNo
             (case Content (nd (fst d) (snd d)) of [] \<Rightarrow> 0 | c # _ \<Rightarrow> NLine (nd (fst d) c)))
      else rest_docs (Suc docNo) ds)"

definition first_doc :: "(goerr, ydoc) result list \<Rightarrow> (config_error, ydoc \<times> (goerr, ydoc) result list) result" where
  "first_doc ds =
     (case ds of
        [] \<Rightarrow> Inr (([], 0), [])
      | Inl e # _ \<Rightarrow> Inl (DecoderError e)
      | Inr d # rest \<Rightarrow> Inr (d, rest))"

text \<open>The key check on the document's content. A walk out of depth cannot happen
  (\<open>checkKeys_decides\<close>); it would be a refusal.\<close>

definition check_doc :: "ydoc \<Rightarrow> key_error option" where
  "check_doc d =
     (case Content (nd (fst d) (snd d)) of
        [] \<Rightarrow> None
      | c # _ \<Rightarrow> (case checkKeys (fst d) c [] [] of None \<Rightarrow> Some (CyclicMerge []) | Some e \<Rightarrow> e))"

definition parse_config :: "file_env \<Rightarrow> Config \<Rightarrow> string \<Rightarrow> (config_error, Config) result" where
  "parse_config fe cfg data =
     bind_result (first_doc (decode_docs fe data)) (\<lambda>(root, rest).
     case rest_docs 2 rest of
       Some e \<Rightarrow> Inl e
     | None \<Rightarrow>
         (case check_doc root of
            Some e \<Rightarrow> Inl (BadOption e)
          | None \<Rightarrow>
              (case decode_config fe root of
                 Inl e \<Rightarrow> Inl (DecoderError e)
               | Inr y \<Rightarrow> applyYAML fe (fst root) cfg y)))"

definition loadConfigFile :: "file_env \<Rightarrow> Config \<Rightarrow> string \<Rightarrow> (config_error, Config) result" where
  "loadConfigFile fe cfg path =
     (case read_file fe path of
        Inl e \<Rightarrow> Inl (UnreadableConfig path e)
      | Inr data \<Rightarrow>
          (case parse_config fe cfg data of
             Inl e \<Rightarrow> Inl (InConfigFile path e)
           | Inr c \<Rightarrow> Inr c))"

definition Load_config :: "file_env \<Rightarrow> environment \<Rightarrow> (config_error, Config) result" where
  "Load_config fe env = load_with (loadConfigFile fe) env"

section \<open>What a file contributes\<close>

lemma deployments_loop_ok:
  "deployments_loop fe g def es seen ups = Inr r \<Longrightarrow>
   \<exists>new. r = ups @ new \<and> list_all (\<lambda>p. Local p \<noteq> [] \<and> Remote p \<noteq> [] \<and> Strategy p \<noteq> None) new \<and>
     list_all (\<lambda>p. \<not> blank (Name p)) new \<and> distinct (map Name new) \<and> set (map Name new) \<inter> set seen = {}"
proof (induction es arbitrary: seen ups)
  case (Cons e es)
  obtain k v where e: "e = (k, v)" by (cases e)
  define name where "name = NValue (nd g k)"
  from Cons.prems obtain d mode where d: "TrimSpace name \<noteq> []" "name \<notin> set seen" "decode_deployment fe g v = Inr d"
    "dp_source d \<noteq> []" "dp_target d \<noteq> []"
    "deployments_loop fe g def es (name # seen)
       (ups @ [\<lparr>Name = name, Local = dp_source d, Remote = dp_target d, Strategy = Some mode, Ignore = dp_exclude d\<rparr>]) = Inr r"
    unfolding e by (auto simp: name_def Let_def split: if_splits sum.splits)
  from Cons.IH [OF d(6)] obtain new where n: "r = (ups @ [\<lparr>Name = name, Local = dp_source d, Remote = dp_target d,
       Strategy = Some mode, Ignore = dp_exclude d\<rparr>]) @ new"
    "list_all (\<lambda>p. Local p \<noteq> [] \<and> Remote p \<noteq> [] \<and> Strategy p \<noteq> None) new" "list_all (\<lambda>p. \<not> blank (Name p)) new"
    "distinct (map Name new)" "set (map Name new) \<inter> set (name # seen) = {}" by blast
  show ?case
    by (rule exI [of _ "\<lparr>Name = name, Local = dp_source d, Remote = dp_target d, Strategy = Some mode,
          Ignore = dp_exclude d\<rparr> # new"]) (use n d in \<open>auto simp: blank_def\<close>)
qed simp

lemma apply_connection_ok:
  assumes "apply_connection fe cfg y = Inr c" "cProxy cfg = None"
  obtains s u p k h a al proxy where
    "c = cfg\<lparr>cServer := s, cUsername := u, cPort := p, cHostKeyFingerprints := k, cKnownHosts := h,
       cAllowAnyHostKey := a, cAlgorithms := al, cProxy := proxy\<rparr>" "pred_option (\<lambda>p. pServer p \<noteq> []) proxy"
proof -
  from assms obtain algs proxy where a:
    "(case yc_proxy y of None \<Rightarrow> Inr (cProxy cfg) | Some p \<Rightarrow> bind_result (apply_proxy p) (\<lambda>q. Inr (Some q))) = Inr proxy"
    "c = cfg\<lparr>cServer := TrimSpace (yc_host y), cUsername := TrimSpace (yc_username y),
            cPort := (if yc_port y \<noteq> 0 then yc_port y else 22),
            cHostKeyFingerprints := splitLines (yc_host_key y), cKnownHosts := TrimSpace (yc_known_hosts y),
            cAllowAnyHostKey := yc_allow_any_host_key y, cAlgorithms := algs, cProxy := proxy\<rparr>"
    unfolding apply_connection_def by auto
  have "pred_option (\<lambda>p. pServer p \<noteq> []) proxy"
    using a(1) assms(2) by (auto simp: apply_proxy_def split: option.splits if_splits)
  with a(2) show ?thesis by (rule that)
qed

lemma apply_deployments_ok:
  assumes "apply_deployments fe g cfg y = Inr c" "cUploads cfg = []"
  obtains ig ups where "c = cfg\<lparr>cIgnoreLines := ig, cUploads := ups\<rparr>"
    "list_all (\<lambda>p. Local p \<noteq> [] \<and> Remote p \<noteq> [] \<and> Strategy p \<noteq> None) ups"
    "list_all (\<lambda>p. \<not> blank (Name p)) ups" "distinct (map Name ups)"
proof -
  from assms obtain def ups where u: "deployments_loop fe g def (entries (Content (y_deployments y))) [] [] = Inr ups"
    "c = cfg\<lparr>cIgnoreLines := cIgnoreLines cfg @ yd_exclude (y_defaults y), cUploads := ups\<rparr>"
    unfolding apply_deployments_def by (auto simp: Let_def split: if_splits)
  from deployments_loop_ok [OF u(1)] u(2) show ?thesis by (auto intro: that)
qed

lemma apply_advanced_ok:
  assumes "apply_advanced cfg y = Inr c"
  obtains r t s sk ca where
    "c = cfg\<lparr>cRetries := r, cTimeout := t, cStallTimeout := s,
       cConcurrency := ai_or (ya_concurrency y) defaultConcurrency,
       cSftpRequestConcurrency := ai_or (ya_request_concurrency y) defaultRequestConcurrency,
       cConnections := ai_or (ya_connections y) defaultConnections,
       cAuto := \<lparr>autoConnections = ai_auto (ya_connections y), autoConcurrency = ai_auto (ya_concurrency y),
                 autoRequestConcurrency = ai_auto (ya_request_concurrency y)\<rparr>,
       cSkipUnchanged := sk, cAutoCachePath := ca\<rparr>"
  using assms unfolding apply_advanced_def by (auto intro: that)

text \<open>The credentials and switches the file has no say in.\<close>

definition from_inputs :: "Config \<Rightarrow> string \<times> string \<times> string \<times> bool \<times> log_level" where
  "from_inputs c = (cPassword c, cPrivateKey c, cPassphrase c, cDryRun c, cLogLevel c)"

lemma applyYAML_ok:
  assumes "applyYAML fe g cfg y = Inr c" "cProxy cfg = None" "cUploads cfg = []"
  shows "list_all (\<lambda>p. Local p \<noteq> [] \<and> Remote p \<noteq> [] \<and> Strategy p \<noteq> None) (cUploads c)"
    "list_all (\<lambda>p. \<not> blank (Name p)) (cUploads c)" "distinct (map Name (cUploads c))"
    "permissions_octal c" "auto_carries_defaults c" "manifest_bare c"
    "pred_option (\<lambda>p. pServer p \<noteq> []) (cProxy c)" "from_inputs c = from_inputs cfg"
proof -
  from assms(1) obtain c1 c2 c3 files dirs manifest where
    c1: "apply_connection fe cfg (y_connection y) = Inr c1" and c2: "apply_deployments fe g c1 y = Inr c2"
    and c3: "apply_advanced (c2\<lparr>cMaxDeletes := y_max_deletes y\<rparr>) (y_advanced y) = Inr c3"
    and m: "parseMode (y_files y) ''permissions.files'' = Inr files"
      "parseMode (y_directories y) ''permissions.directories'' = Inr dirs" "parseManifestName (y_manifest y) = Inr manifest"
    and c: "c = c3\<lparr>cFileMode := files, cDirMode := dirs, cPreserveTimes := y_preserve_times y,
               cSyncFastPath := y_fast_path y, cManifestName := manifest\<rparr>"
    unfolding applyYAML_def by (auto split: if_splits)
  obtain s u p k h a al proxy where e1: "c1 = cfg\<lparr>cServer := s, cUsername := u, cPort := p, cHostKeyFingerprints := k,
      cKnownHosts := h, cAllowAnyHostKey := a, cAlgorithms := al, cProxy := proxy\<rparr>"
    and px: "pred_option (\<lambda>p. pServer p \<noteq> []) proxy"
    by (rule apply_connection_ok [OF c1 assms(2)])
  have "cUploads c1 = []" using e1 assms(3) by simp
  then obtain ig ups where e2: "c2 = c1\<lparr>cIgnoreLines := ig, cUploads := ups\<rparr>" and up:
    "list_all (\<lambda>p. Local p \<noteq> [] \<and> Remote p \<noteq> [] \<and> Strategy p \<noteq> None) ups"
    "list_all (\<lambda>p. \<not> blank (Name p)) ups" "distinct (map Name ups)"
    by (rule apply_deployments_ok [OF c2])
  obtain r t st sk ca where e3: "c3 = c2\<lparr>cMaxDeletes := y_max_deletes y, cRetries := r, cTimeout := t, cStallTimeout := st,
       cConcurrency := ai_or (ya_concurrency (y_advanced y)) defaultConcurrency,
       cSftpRequestConcurrency := ai_or (ya_request_concurrency (y_advanced y)) defaultRequestConcurrency,
       cConnections := ai_or (ya_connections (y_advanced y)) defaultConnections,
       cAuto := \<lparr>autoConnections = ai_auto (ya_connections (y_advanced y)), autoConcurrency = ai_auto (ya_concurrency (y_advanced y)),
                 autoRequestConcurrency = ai_auto (ya_request_concurrency (y_advanced y))\<rparr>,
       cSkipUnchanged := sk, cAutoCachePath := ca\<rparr>"
    by (rule apply_advanced_ok [OF c3])
  have ups: "cUploads c = ups" and px': "cProxy c = proxy" using c e3 e2 e1 by simp_all
  show "list_all (\<lambda>p. Local p \<noteq> [] \<and> Remote p \<noteq> [] \<and> Strategy p \<noteq> None) (cUploads c)"
    "list_all (\<lambda>p. \<not> blank (Name p)) (cUploads c)" "distinct (map Name (cUploads c))"
    unfolding ups by (fact up)+
  show "pred_option (\<lambda>p. pServer p \<noteq> []) (cProxy c)" unfolding px' by (fact px)
  show "permissions_octal c" using m(1,2) by (simp add: c permissions_octal_def pred_option_mode)
  show "manifest_bare c" using parseManifestName_bare [OF m(3)] by (simp add: c manifest_bare_def)
  show "auto_carries_defaults c" by (simp add: c e3 auto_carries_defaults_def ai_or_def ai_auto_def)
  show "from_inputs c = from_inputs cfg" by (simp add: c e3 e2 e1 from_inputs_def)
qed

lemma loadConfigFile_ok:
  assumes "loadConfigFile fe cfg path = Inr c"
  obtains data doc rest y where "read_file fe path = Inr data" "first_doc (decode_docs fe data) = Inr (doc, rest)"
    "rest_docs 2 rest = None" "check_doc doc = None" "decode_config fe doc = Inr y"
    "applyYAML fe (fst doc) cfg y = Inr c"
proof -
  from assms obtain data where rd: "read_file fe path = Inr data" and d: "parse_config fe cfg data = Inr c"
    unfolding loadConfigFile_def by (auto split: sum.splits)
  then obtain root rest where f: "first_doc (decode_docs fe data) = Inr (root, rest)"
    and r: "(case rest_docs 2 rest of Some e \<Rightarrow> Inl e
      | None \<Rightarrow> (case check_doc root of Some e \<Rightarrow> Inl (BadOption e)
          | None \<Rightarrow> (case decode_config fe root of Inl e \<Rightarrow> Inl (DecoderError e)
               | Inr y \<Rightarrow> applyYAML fe (fst root) cfg y))) = Inr c"
    unfolding parse_config_def by (cases "first_doc (decode_docs fe data)") auto
  from r have docs: "rest_docs 2 rest = None" by (auto split: option.splits)
  with r have keys: "check_doc root = None" by (auto split: option.splits)
  with r docs obtain y where y: "decode_config fe root = Inr y" "applyYAML fe (fst root) cfg y = Inr c"
    by (auto split: sum.splits)
  show ?thesis by (rule that [OF rd f docs keys y])
qed

text \<open>The inputs that may be combined with a file.\<close>

definition with_inputs :: "environment \<Rightarrow> bool \<Rightarrow> log_level \<Rightarrow> Config \<Rightarrow> Config" where
  "with_inputs env dry level c =
     c\<lparr>cPassword := getenv env ''PASSWORD'', cPrivateKey := getenv env ''PRIVATE_KEY'',
       cPassphrase := getenv env ''PASSPHRASE'', cDryRun := dry, cLogLevel := level\<rparr>"

lemma Load_cases:
  assumes "Load_config fe env = Inr c"
  obtains (inline) dry level where "trimmed_env env ''CONFIG'' = []" "\<not> haveProxyCreds env"
    "loadInline (with_inputs env dry level Defaults) env = Inr c" "validate c = None"
  | (in_file) dry level f where "trimmed_env env ''CONFIG'' \<noteq> []" "inline_set env = []"
    "loadConfigFile fe (with_inputs env dry level Defaults) (trimmed_env env ''CONFIG'') = Inr f"
    "c = f\<lparr>cConfigPath := trimmed_env env ''CONFIG'', cProxy := map_option (with_proxy_credentials env) (cProxy f)\<rparr>"
    "cProxy f = None \<longrightarrow> \<not> haveProxyCreds env" "validate c = None"
proof -
  from assms obtain dry level c' where r: "checkRemovedInputs env = None"
    "(if trimmed_env env ''CONFIG'' \<noteq> []
      then load_config_mode (loadConfigFile fe) env (with_inputs env dry level Defaults) (trimmed_env env ''CONFIG'')
      else if haveProxyCreds env then Inl ProxyNeedsConfigFile
      else loadInline (with_inputs env dry level Defaults) env) = Inr c'"
    "(case validate c' of Some e \<Rightarrow> Inl e | None \<Rightarrow> Inr c') = Inr c"
    unfolding Load_config_def load_with_def Let_def with_inputs_def
    by (cases "checkRemovedInputs env") auto
  then have c': "c' = c" "validate c = None" by (auto split: option.splits)
  show ?thesis
  proof (cases "trimmed_env env ''CONFIG'' = []")
    case True
    with r(2) c' have "\<not> haveProxyCreds env" "loadInline (with_inputs env dry level Defaults) env = Inr c"
      by (auto split: if_splits)
    with True c'(2) show ?thesis by (intro inline)
  next
    case False
    with r(2) c' have m: "load_config_mode (loadConfigFile fe) env (with_inputs env dry level Defaults) (trimmed_env env ''CONFIG'') = Inr c"
      by simp
    then obtain f where f: "inline_set env = []"
      "loadConfigFile fe (with_inputs env dry level Defaults) (trimmed_env env ''CONFIG'') = Inr f"
      "(case cProxy f of Some p \<Rightarrow> Inr (f\<lparr>cConfigPath := trimmed_env env ''CONFIG'', cProxy := Some (with_proxy_credentials env p)\<rparr>)
        | None \<Rightarrow> if haveProxyCreds env then Inl UnusedProxyCredentials else Inr (f\<lparr>cConfigPath := trimmed_env env ''CONFIG''\<rparr>)) = Inr c"
      unfolding load_config_mode_def Let_def by (auto split: if_splits)
    have "c = f\<lparr>cConfigPath := trimmed_env env ''CONFIG'', cProxy := map_option (with_proxy_credentials env) (cProxy f)\<rparr>"
      "cProxy f = None \<longrightarrow> \<not> haveProxyCreds env"
      using f(3) by (auto split: option.splits if_splits)
    with False f(1,2) c'(2) show ?thesis by (intro in_file)
  qed
qed

lemma Defaults_file_part:
  "cProxy (with_inputs env dry level Defaults) = None" "cUploads (with_inputs env dry level Defaults) = []"
  "cConfigPath (with_inputs env dry level Defaults) = []"
  by (simp_all add: with_inputs_def Defaults_def)

lemma inline_loaded:
  assumes "loadInline (with_inputs env dry level Defaults) env = Inr c"
  shows "uploads_named c" "permissions_octal c" "auto_carries_defaults c" "manifest_bare c" "proxy_from_file c"
    "cConfigPath c = []"
proof -
  obtain port anyKey files dirs times mode where l:
    "parseMode (trimmed_env env ''FILE_MODE'') ''input file-mode'' = Inr files"
    "parseMode (trimmed_env env ''DIR_MODE'') ''input dir-mode'' = Inr dirs"
    "trimmed_env env ''SOURCE'' \<noteq> []" "trimmed_env env ''TARGET'' \<noteq> []"
    and c: "c = (with_inputs env dry level Defaults)\<lparr>cServer := trimmed_env env ''HOST'', cUsername := trimmed_env env ''USERNAME'',
            cHostKeyFingerprints := splitLines (getenv env ''HOST_KEY''),
            cKnownHosts := trimmed_env env ''KNOWN_HOSTS'', cPort := port, cAllowAnyHostKey := anyKey,
            cFileMode := files, cDirMode := dirs, cPreserveTimes := times,
            cUploads := [\<lparr>Name = [], Local = trimmed_env env ''SOURCE'', Remote = trimmed_env env ''TARGET'',
              Strategy = Some mode, Ignore = []\<rparr>],
            cIgnoreLines := splitLines (getenv env ''EXCLUDE'')\<rparr>"
    by (rule loadInline_ok [OF assms])
  show "uploads_named c" "auto_carries_defaults c" "manifest_bare c" "proxy_from_file c" "cConfigPath c = []"
    using l(3,4) default_manifest_bare by (simp_all add: c loaded_defs with_inputs_def Defaults_def)
  show "permissions_octal c"
    using pred_option_mode [OF l(1)] pred_option_mode [OF l(2)] by (simp add: c permissions_octal_def)
qed

lemma file_loaded:
  assumes "loadConfigFile fe (with_inputs env dry level Defaults) path = Inr f" "path \<noteq> []"
    "c = f\<lparr>cConfigPath := path, cProxy := map_option (with_proxy_credentials env) (cProxy f)\<rparr>"
  shows "uploads_named c" "permissions_octal c" "auto_carries_defaults c" "manifest_bare c" "proxy_from_file c"
proof -
  from loadConfigFile_ok [OF assms(1)] obtain g y where
    y: "applyYAML fe g (with_inputs env dry level Defaults) y = Inr f" by metis
  note a = applyYAML_ok [OF y Defaults_file_part(1,2)]
  show "uploads_named c" using a(1-3) assms(2) by (simp add: assms(3) uploads_named_def)
  show "permissions_octal c" "auto_carries_defaults c" "manifest_bare c"
    using a(4-6) by (simp_all add: assms(3) loaded_defs)
  show "proxy_from_file c" using a(7) assms(2)
    by (cases "cProxy f") (simp_all add: assms(3) proxy_from_file_def with_proxy_credentials_def)
qed

lemma distinct_filtered_nth:
  assumes "distinct (map h (filter P xs))" "i < j" "j < length xs" "P (xs ! i)" "P (xs ! j)"
  shows "h (xs ! i) \<noteq> h (xs ! j)"
  using assms
proof (induction xs arbitrary: i j)
  case (Cons x xs)
  then obtain j' where j: "j = Suc j'" by (cases j) auto
  show ?case
  proof (cases i)
    case 0
    with Cons.prems j have "xs ! j' \<in> set (filter P xs)" by simp
    with Cons.prems 0 j show ?thesis by (auto simp: image_iff)
  next
    case (Suc i')
    with Cons j show ?thesis by (auto split: if_splits)
  qed
qed simp

lemma loaded_well_formed:
  assumes "Load_config fe env = Inr c"
  shows "well_formed c"
  using assms
proof (cases rule: Load_cases)
  case (inline dry level)
  then show ?thesis using inline_loaded [OF inline(3)] by (simp add: well_formed_def validate_None)
next
  case (in_file dry level f)
  then show ?thesis using file_loaded [OF in_file(3,1,4)] by (simp add: well_formed_def validate_None)
qed

text \<open>Property C9. Every configuration that loads, from inputs or from a file, is well formed: host,
  user and credentials are there, port and limits are in range, durations are not negative, every
  deployment has a source, a target and a mode and its own name, permissions are octal, the
  manifest is a bare file name, settings left to the program carry the defaults, a proxy comes only
  from a file, and no two sync deployments share a target.\<close>

theorem load_well_formed:
  assumes "Load_config fe env = Inr c"
  shows "well_formed c"
  by (rule loaded_well_formed [OF assms])

section \<open>The two modes\<close>

lemma with_inputs_fields [simp]:
  "cProxy (with_inputs env dry level c) = cProxy c" "cUploads (with_inputs env dry level c) = cUploads c"
  "cIgnoreLines (with_inputs env dry level c) = cIgnoreLines c" "cTimeout (with_inputs env dry level c) = cTimeout c"
  "cStallTimeout (with_inputs env dry level c) = cStallTimeout c" "cRetries (with_inputs env dry level c) = cRetries c"
  by (simp_all add: with_inputs_def)

text \<open>Applying a file does not look at the inputs: it commutes with setting them.\<close>

abbreviation (input) then_inputs where
  "then_inputs env dry level r \<equiv> bind_result r (\<lambda>c. Inr (with_inputs env dry level c))"

lemma apply_connection_inputs:
  "apply_connection fe (with_inputs env dry level cfg) y = then_inputs env dry level (apply_connection fe cfg y)"
proof (cases "parseSSHAlgorithms fe (yc_algorithms y)")
  case (Inr algs)
  show ?thesis
  proof (cases "yc_proxy y")
    case None
    with Inr show ?thesis by (simp add: apply_connection_def with_inputs_def)
  next
    case (Some p)
    with Inr show ?thesis by (cases "apply_proxy p") (simp_all add: apply_connection_def with_inputs_def)
  qed
qed (simp add: apply_connection_def)

lemma apply_deployments_inputs:
  "apply_deployments fe g (with_inputs env dry level cfg) y = then_inputs env dry level (apply_deployments fe g cfg y)"
proof (cases "mode_or Overlay ''defaults.mode'' (yd_mode (y_defaults y))")
  case (Inr def)
  then show ?thesis
    by (cases "deployments_loop fe g def (entries (Content (y_deployments y))) [] (cUploads cfg)")
      (simp_all add: apply_deployments_def Let_def with_inputs_def)
qed (simp add: apply_deployments_def)

lemma apply_advanced_inputs:
  "apply_advanced (with_inputs env dry level cfg) y = then_inputs env dry level (apply_advanced cfg y)"
  by (cases "of_seconds ''advanced.timeout'' (ya_timeout y) (cTimeout cfg)";
      cases "of_seconds ''advanced.stall_timeout'' (ya_stall_timeout y) (cStallTimeout cfg)"; cases "ya_retries y")
    (simp_all add: apply_advanced_def with_inputs_def)

lemma with_inputs_max_deletes:
  "(with_inputs env dry level c)\<lparr>cMaxDeletes := m\<rparr> = with_inputs env dry level (c\<lparr>cMaxDeletes := m\<rparr>)"
  by (simp add: with_inputs_def)

lemma applyYAML_inputs:
  "applyYAML fe g (with_inputs env dry level cfg) y = then_inputs env dry level (applyYAML fe g cfg y)"
proof (cases "y_version y = 3")
  case True
  show ?thesis
  proof (cases "apply_connection fe cfg (y_connection y)")
    case (Inr c1)
    note c1 = this
    show ?thesis
    proof (cases "apply_deployments fe g c1 y")
      case (Inr c2)
      note c2 = this
      show ?thesis
      proof (cases "apply_advanced (c2\<lparr>cMaxDeletes := y_max_deletes y\<rparr>) (y_advanced y)")
        case (Inr c3)
        with True c1 c2 show ?thesis
          by (cases "parseMode (y_files y) ''permissions.files''"; cases "parseMode (y_directories y) ''permissions.directories''";
              cases "parseManifestName (y_manifest y)")
            (simp_all add: applyYAML_def apply_connection_inputs apply_deployments_inputs with_inputs_max_deletes
               apply_advanced_inputs, simp_all add: with_inputs_def)
      qed (use True c1 c2 in \<open>simp add: applyYAML_def apply_connection_inputs apply_deployments_inputs
          with_inputs_max_deletes apply_advanced_inputs\<close>)
    qed (use True c1 in \<open>simp add: applyYAML_def apply_connection_inputs apply_deployments_inputs\<close>)
  qed (use True in \<open>simp add: applyYAML_def apply_connection_inputs\<close>)
qed (simp add: applyYAML_def)

lemma parse_config_inputs:
  "parse_config fe (with_inputs env dry level cfg) data = then_inputs env dry level (parse_config fe cfg data)"
proof (cases "first_doc (decode_docs fe data)")
  case (Inr p)
  obtain root rest where "p = (root, rest)" by (cases p)
  with Inr show ?thesis
    by (auto simp: parse_config_def applyYAML_inputs split: option.splits sum.splits)
qed (simp add: parse_config_def)

lemma loadConfigFile_inputs:
  "loadConfigFile fe (with_inputs env dry level cfg) path = then_inputs env dry level (loadConfigFile fe cfg path)"
  by (auto simp: loadConfigFile_def parse_config_inputs split: sum.splits)

text \<open>The settings no input of the action reaches.\<close>

definition file_only :: "Config \<Rightarrow> Proxy option \<times> SSHAlgorithms \<times> int \<times> (int \<times> int \<times> int \<times> AutoSettings \<times> string) \<times>
    (int \<times> int \<times> int) \<times> bool \<times> bool \<times> string" where
  "file_only c = (cProxy c, cAlgorithms c, cMaxDeletes c,
     (cConcurrency c, cSftpRequestConcurrency c, cConnections c, cAuto c, cAutoCachePath c),
     (cRetries c, cTimeout c, cStallTimeout c), cSyncFastPath c, cSkipUnchanged c, cManifestName c)"

text \<open>What a configuration file at a path means: its one document, its options known, applied to the
  defaults.\<close>

definition file_means :: "file_env \<Rightarrow> string \<Rightarrow> Config \<Rightarrow> bool" where
  "file_means fe path f \<longleftrightarrow>
     (\<exists>data doc rest y. read_file fe path = Inr data \<and> first_doc (decode_docs fe data) = Inr (doc, rest) \<and>
        rest_docs 2 rest = None \<and> decode_config fe doc = Inr y \<and>
        (\<forall>c cs. Content (nd (fst doc) (snd doc)) = c # cs \<longrightarrow> clean_keys (fst doc) (c, [])) \<and>
        applyYAML fe (fst doc) Defaults y = Inr f)"

lemma check_doc_clean:
  "check_doc doc = None \<Longrightarrow> Content (nd (fst doc) (snd doc)) = c # cs \<Longrightarrow> clean_keys (fst doc) (c, [])"
  using checkKeys_returns [of "fst doc" c] by (auto simp: check_doc_def split: option.splits)

lemma loadConfigFile_means:
  assumes "loadConfigFile fe (with_inputs env dry level Defaults) path = Inr c"
  shows "\<exists>f. file_means fe path f \<and> c = with_inputs env dry level f"
proof -
  from loadConfigFile_ok [OF assms] obtain data doc rest y where l: "read_file fe path = Inr data"
    "first_doc (decode_docs fe data) = Inr (doc, rest)" "rest_docs 2 rest = None" "check_doc doc = None"
    "decode_config fe doc = Inr y" "applyYAML fe (fst doc) (with_inputs env dry level Defaults) y = Inr c" by metis
  from l(6) obtain f where f: "applyYAML fe (fst doc) Defaults y = Inr f" "c = with_inputs env dry level f"
    unfolding applyYAML_inputs by auto
  have "file_means fe path f"
    unfolding file_means_def using l(1-3,5) f(1) check_doc_clean [OF l(4)] by blast
  with f(2) show ?thesis by blast
qed

text \<open>Property C15. The two modes never mix. Without a config file, no setting that belongs to the file
  differs from the defaults and no proxy credentials are set; with one, every inline input is blank
  and the configuration is what the file means, its options all known, plus exactly the credentials,
  the dry-run switch, the log level and the proxy credentials.\<close>

theorem modes_never_mix:
  assumes "Load_config fe env = Inr c"
  shows "if cConfigPath c = [] then file_only c = file_only Defaults \<and> \<not> haveProxyCreds env
    else inline_set env = [] \<and> cConfigPath c = trimmed_env env ''CONFIG'' \<and>
      (\<exists>f. file_means fe (cConfigPath c) f \<and>
         c = (with_inputs env (cDryRun c) (cLogLevel c) f)\<lparr>cConfigPath := cConfigPath c,
               cProxy := map_option (with_proxy_credentials env) (cProxy f)\<rparr>)"
  using assms
proof (cases rule: Load_cases)
  case (inline dry level)
  have "file_only c = file_only Defaults"
    by (rule loadInline_ok [OF inline(3)]) (simp add: file_only_def with_inputs_def)
  then show ?thesis unfolding inline_loaded(6) [OF inline(3)] using inline(2) by simp
next
  case (in_file dry level f0)
  from loadConfigFile_means [OF in_file(3)] obtain f where
    f: "file_means fe (trimmed_env env ''CONFIG'') f" "f0 = with_inputs env dry level f" by blast
  have p: "cConfigPath c = trimmed_env env ''CONFIG''" "cDryRun c = dry" "cLogLevel c = level"
    by (simp_all add: in_file(4) f(2) with_inputs_def)
  have "c = (with_inputs env (cDryRun c) (cLogLevel c) f)\<lparr>cConfigPath := cConfigPath c,
               cProxy := map_option (with_proxy_credentials env) (cProxy f)\<rparr>"
    unfolding p by (simp add: in_file(4) f(2))
  with f(1) have "\<exists>f. file_means fe (cConfigPath c) f \<and>
         c = (with_inputs env (cDryRun c) (cLogLevel c) f)\<lparr>cConfigPath := cConfigPath c,
               cProxy := map_option (with_proxy_credentials env) (cProxy f)\<rparr>"
    unfolding p(1) by (intro exI conjI)
  with in_file(1,2) p(1) show ?thesis by (simp only: if_False simp_thms)
qed

section \<open>Sync manifests\<close>

lemma path_join_name:
  assumes "path_clean base = base" "base \<noteq> ''/''" "base \<noteq> ''.''" "plain_name m"
  shows "path_join base m = base @ CHR ''/'' # m"
proof -
  have b: "base = render_path (is_rooted base) (path_elems base)" using assms(1) by (simp add: path_clean_def)
  then have ne: "base \<noteq> []" "path_elems base \<noteq> []"
    using assms(1-3) path_clean_not_Nil [of base] by (auto simp: render_path_def split: if_splits)
  from path_elems_join_plain [OF ne(1), of "[m]"] assms(4)
  have e: "path_elems (path_join base m) = path_elems base @ [m]" "is_rooted (path_join base m) = is_rooted base" by simp_all
  have "path_join base m = render_path (is_rooted base) (path_elems base @ [m])"
    using path_join_clean [OF ne(1), of m] e by (simp add: path_clean_def)
  also have "\<dots> = base @ CHR ''/'' # m" using b ne(2) by (simp add: render_path_snoc)
  finally show ?thesis .
qed

lemma fold_drive_append:
  assumes "base \<noteq> ''/''" "base \<noteq> []"
  shows "foldDriveSpelling (base @ CHR ''/'' # m) = foldDriveSpelling base @ CHR ''/'' # m"
proof -
  consider a where "base = [a]" "a \<noteq> CHR ''/''" | a b where "base = [a, b]" | a b c r where "base = a # b # c # r"
    using assms by (metis list.exhaust)
  then show ?thesis by cases (cases m; simp)+
qed

text \<open>Where a sync deployment keeps its manifest, one spelling per drive path.\<close>

definition manifest_at :: "Config \<Rightarrow> uploadPair \<Rightarrow> string" where
  "manifest_at c p = foldDriveSpelling (path_join (NormalizeRemote (Remote p)) (SyncManifestName c))"

lemma manifest_at_target:
  assumes "manifest_bare c" "checkRemoteRoot (Remote p) = None"
  shows "manifest_at c p = sync_target p @ CHR ''/'' # cManifestName c"
proof -
  have m: "SyncManifestName c = cManifestName c" "plain_name (cManifestName c)"
    using assms(1) by (auto simp: SyncManifestName_def manifest_bare_def)
  have b: "NormalizeRemote (Remote p) \<noteq> ''/''" "NormalizeRemote (Remote p) \<noteq> ''.''"
    using assms(2) by (auto simp: checkRemoteRoot_def Let_def split: if_splits)
  show ?thesis
    unfolding manifest_at_def sync_target_def m(1) path_join_name [OF norm_clean b m(2)]
    by (rule fold_drive_append [OF b(1)]) simp
qed

text \<open>Property C17. In a configuration that loaded, two sync deployments whose targets the destructive
  guard lets through never keep their manifests at the same path, not even under the two spellings of
  a drive.\<close>

theorem sync_manifests_never_shared:
  assumes "Load_config fe env = Inr c" "i < j" "j < length (cUploads c)"
    "effectiveStrategy (cUploads c ! i) = Sync" "effectiveStrategy (cUploads c ! j) = Sync"
    "checkRemoteRoot (Remote (cUploads c ! i)) = None" "checkRemoteRoot (Remote (cUploads c ! j)) = None"
  shows "manifest_at c (cUploads c ! i) \<noteq> manifest_at c (cUploads c ! j)"
proof -
  have w: "well_formed c"
    using assms(1)
  proof (cases rule: Load_cases)
    case (inline dry level)
    then show ?thesis using inline_loaded [OF inline(3)] by (simp add: well_formed_def validate_None)
  next
    case (in_file dry level f)
    then show ?thesis using file_loaded [OF in_file(3,1,4)] by (simp add: well_formed_def validate_None)
  qed
  then have bare: "manifest_bare c" and d: "distinct (sync_targets c)"
    by (simp_all add: well_formed_def settings_valid_def)
  have "sync_target (cUploads c ! i) \<noteq> sync_target (cUploads c ! j)"
    using distinct_filtered_nth [OF d [unfolded sync_targets_def] assms(2,3)] assms(4,5) by simp
  then show ?thesis
    unfolding manifest_at_target [OF bare assms(6)] manifest_at_target [OF bare assms(7)] by simp
qed

end
