(* ===== verification/Config_Sample.thy ===== *)
theory Config_Sample
  imports Config_File
begin

text \<open>
  A configuration file read to the end: two sync deployments, one SSH setting, a pinned request
  concurrency and a chosen timeout. It shows that the properties of \<open>Config_File\<close> apply to a
  loaded configuration, and what a timeout far below zero turns into.
\<close>

section \<open>The file\<close>

definition no_auto :: autoInt where "no_auto = \<lparr>ai_set = False, ai_v = 0\<rparr>"

definition sample_yaml :: "int \<Rightarrow> yamlConfig" where
  "sample_yaml t =
     \<lparr>y_version = 3,
      y_connection = \<lparr>yc_host = '' example.org'', yc_port = 0, yc_username = ''deploy'', yc_host_key = [], yc_known_hosts = [],
        yc_allow_any_host_key = True, yc_algorithms = \<lparr>y_key_exchanges = [], y_ciphers = [], y_macs = [], y_host_key_algorithms = []\<rparr>,
        yc_proxy = None\<rparr>,
      y_defaults = \<lparr>yd_mode = ''sync'', yd_exclude = []\<rparr>,
      y_deployments = mapping [4, 5, 6, 7], y_max_deletes = 5,
      y_advanced = \<lparr>ya_retries = None, ya_timeout = Some t, ya_stall_timeout = None, ya_concurrency = no_auto,
        ya_request_concurrency = \<lparr>ai_set = True, ai_v = 8\<rparr>, ya_connections = no_auto, ya_skip_unchanged = False, ya_auto_cache = []\<rparr>,
      y_files = ''644'', y_directories = [], y_preserve_times = False, y_fast_path = True, y_manifest = []\<rparr>"

definition sample_graph :: ygraph where
  "sample_graph = [zero_node\<lparr>Kind := DocumentNode, Content := [1]\<rparr>, mapping [2, 3], scalar ''deployments'',
     mapping [4, 5, 6, 7], scalar ''site'', mapping [], scalar ''docs'', mapping []]"

definition sample_file :: "int \<Rightarrow> file_env" where
  "sample_file t =
     \<lparr>read_file = (\<lambda>_. Inr []), decode_docs = (\<lambda>_. [Inr (sample_graph, 0)]), decode_config = (\<lambda>_. Inr (sample_yaml t)),
      decode_deployment = (\<lambda>g n. Inr \<lparr>dp_source = ''dist'', dp_target = (if n = 5 then ''/var/www'' else ''/var/docs''), dp_mode = [], dp_exclude = []\<rparr>),
      ssh_supported = no_algorithms, ssh_insecure = no_algorithms\<rparr>"

definition sample_inputs :: "bool \<Rightarrow> environment" where
  "sample_inputs dry n =
     (if n = ''EASYSFTP_CONFIG'' then ''easysftp.yml'' else if n = ''EASYSFTP_PASSWORD'' then ''secret''
      else if n = ''EASYSFTP_DRY_RUN'' \<and> dry then ''true'' else [])"

abbreviation sample_env :: environment where
  "sample_env \<equiv> sample_inputs False"

section \<open>Loading it\<close>

lemma trim_samples: "TrimSpace [] = []" "TrimSpace '' example.org'' = ''example.org''" "TrimSpace ''deploy'' = ''deploy''"
  "TrimSpace ''easysftp.yml'' = ''easysftp.yml''" "TrimSpace ''site'' = ''site''" "TrimSpace ''docs'' = ''docs''"
  "splitLines [] = []" "TrimSpace ''true'' = ''true''" "parseBool ''true'' False = Inr True"
  by code_simp+

lemma sample_env_inputs:
  "checkRemovedInputs (sample_inputs d) = None" "inline_set (sample_inputs d) = []" "haveProxyCreds (sample_inputs d) = False"
  "trimmed_env (sample_inputs d) ''DRY_RUN'' = (if d then ''true'' else [])" "trimmed_env (sample_inputs d) ''LOG_LEVEL'' = []"
  "trimmed_env (sample_inputs d) ''CONFIG'' = ''easysftp.yml''" "getenv (sample_inputs d) ''PASSWORD'' = ''secret''"
  "getenv (sample_inputs d) ''PRIVATE_KEY'' = []" "getenv (sample_inputs d) ''PASSPHRASE'' = []"
  by (simp_all add: checkRemovedInputs_def removedInputs_def inline_set_def inlineOnlyInputs_def haveProxyCreds_def
      trimmed_env_def getenv_def envPrefix_def sample_inputs_def trim_samples)

definition sample_connected :: Config where
  "sample_connected = Defaults\<lparr>cServer := ''example.org'', cUsername := ''deploy'', cPort := 22, cAllowAnyHostKey := True\<rparr>"

definition sample_uploads :: "uploadPair list" where
  "sample_uploads =
     [\<lparr>Name = ''site'', Local = ''dist'', Remote = ''/var/www'', Strategy = Some Sync, Ignore = []\<rparr>,
      \<lparr>Name = ''docs'', Local = ''dist'', Remote = ''/var/docs'', Strategy = Some Sync, Ignore = []\<rparr>]"

definition sample_result :: "int \<Rightarrow> Config" where
  "sample_result t = sample_connected\<lparr>cUploads := sample_uploads, cTimeout := i64 (t * second_ns), cSftpRequestConcurrency := 8,
     cAuto := \<lparr>autoConnections = True, autoConcurrency = True, autoRequestConcurrency = False\<rparr>,
     cFileMode := Some 420, cSyncFastPath := True, cMaxDeletes := 5\<rparr>"

lemma sample_connection:
  "apply_connection (sample_file t) Defaults (y_connection (sample_yaml t)) = Inr sample_connected"
  by (simp add: apply_connection_def parseSSHAlgorithms_def sample_yaml_def sample_file_def no_algorithms_def Defaults_def
      sample_connected_def trim_samples)

lemma sample_deployments:
  "apply_deployments (sample_file t) sample_graph sample_connected (sample_yaml t) = Inr (sample_connected\<lparr>cUploads := sample_uploads\<rparr>)"
  by (simp add: apply_deployments_def mode_or_def parse_strategy_def sample_yaml_def sample_file_def sample_graph_def mapping_def
      zero_node_def scalar_def nd_def Let_def trim_samples sample_uploads_def sample_connected_def Defaults_def)

lemma sample_advanced:
  assumes "t \<le> 86400"
  shows "apply_advanced ((sample_connected\<lparr>cUploads := sample_uploads\<rparr>)\<lparr>cMaxDeletes := 5\<rparr>) (y_advanced (sample_yaml t)) =
    Inr (sample_connected\<lparr>cUploads := sample_uploads, cMaxDeletes := 5, cTimeout := i64 (t * second_ns), cSftpRequestConcurrency := 8,
      cAuto := \<lparr>autoConnections = True, autoConcurrency = True, autoRequestConcurrency = False\<rparr>\<rparr>)"
  using assms
  by (simp add: apply_advanced_def of_seconds_def maxConfiguredSeconds_def sample_yaml_def no_auto_def ai_or_def ai_auto_def
      trim_samples sample_connected_def Defaults_def)

lemma sample_modes: "parseMode ''644'' name = Inr (Some 420)" "parseMode [] name = Inr None"
  "parseManifestName [] = Inr DefaultManifestName"
  by (simp_all add: parseMode_def ParseUint_def digit_val_def less_eq_char_def parseManifestName_def)

lemma sample_applies:
  assumes "t \<le> 86400"
  shows "applyYAML (sample_file t) sample_graph Defaults (sample_yaml t) = Inr (sample_result t)"
proof -
  have y: "y_version (sample_yaml t) = 3" "y_max_deletes (sample_yaml t) = 5" "y_files (sample_yaml t) = ''644''"
    "y_directories (sample_yaml t) = []" "y_manifest (sample_yaml t) = []" "y_fast_path (sample_yaml t)"
    "\<not> y_preserve_times (sample_yaml t)"
    by (simp_all add: sample_yaml_def)
  show ?thesis
    unfolding applyYAML_def y sample_connection bind_result.simps sample_deployments sample_advanced [OF assms] sample_modes
    by (simp add: y sample_result_def sample_connected_def Defaults_def)
qed

lemma sample_checked: "check_doc (sample_graph, 0) = None"
  by code_simp

lemma sample_file_loads:
  assumes "t \<le> 86400"
  shows "loadConfigFile (sample_file t) Defaults path = Inr (sample_result t)"
proof -
  have "read_file (sample_file t) path = Inr []" "decode_docs (sample_file t) [] = [Inr (sample_graph, 0)]"
    "decode_config (sample_file t) (sample_graph, 0) = Inr (sample_yaml t)"
    by (simp_all add: sample_file_def)
  then show ?thesis
    using sample_applies [OF assms]
    by (simp add: loadConfigFile_def parse_config_def first_doc_def sample_checked)
qed

lemma sample_with_inputs: "with_inputs (sample_inputs d) dry LogNormal c = c\<lparr>cPassword := ''secret'', cPrivateKey := [], cPassphrase := [],
    cDryRun := dry, cLogLevel := LogNormal\<rparr>"
  by (simp add: with_inputs_def sample_env_inputs)

text \<open>The configuration with \<open>dry-run\<close> as given, and the plain one.\<close>

definition sample_cfg_in :: "bool \<Rightarrow> int \<Rightarrow> Config" where
  "sample_cfg_in d t = (with_inputs (sample_inputs d) d LogNormal (sample_result t))\<lparr>cConfigPath := ''easysftp.yml''\<rparr>"

abbreviation sample_cfg :: "int \<Rightarrow> Config" where
  "sample_cfg \<equiv> sample_cfg_in False"

lemma sample_uploads_kept: "cUploads (sample_cfg_in d t) = sample_uploads" "cProxy (sample_result t) = None"
  by (simp_all add: sample_cfg_in_def sample_with_inputs sample_result_def sample_connected_def Defaults_def)

lemma sample_targets: "sync_targets (sample_cfg_in d t) = [''/var/www'', ''/var/docs'']"
proof -
  have "sync_target \<lparr>Name = ''site'', Local = ''dist'', Remote = ''/var/www'', Strategy = Some Sync, Ignore = []\<rparr> = ''/var/www''"
    "sync_target \<lparr>Name = ''docs'', Local = ''dist'', Remote = ''/var/docs'', Strategy = Some Sync, Ignore = []\<rparr> = ''/var/docs''"
    by code_simp+
  then show ?thesis
    by (simp add: sync_targets_def sample_uploads_kept sample_uploads_def effectiveStrategy_def)
qed

lemma sample_valid: "validate (sample_cfg_in d t) =
    (if i64 (t * second_ns) < 0 then Some (NegativeValue ''advanced.timeout'' (i64 (t * second_ns))) else None)"
  using sample_targets [of d t]
  by (simp add: validate_def checkSyncTargets_None sample_cfg_in_def sample_with_inputs sample_result_def sample_connected_def
      sample_uploads_def Defaults_def defaultConcurrency_def defaultConnections_def defaultRetries_def)

lemma sample_blank: "parseBool [] False = Inr False"
  by code_simp

lemma sample_load:
  assumes "t \<le> 86400"
  shows "Load_config (sample_file t) (sample_inputs d) =
    (if i64 (t * second_ns) < 0 then Inl (NegativeValue ''advanced.timeout'' (i64 (t * second_ns))) else Inr (sample_cfg_in d t))"
proof -
  have f: "loadConfigFile (sample_file t) (with_inputs (sample_inputs d) d LogNormal Defaults) ''easysftp.yml'' =
      Inr (with_inputs (sample_inputs d) d LogNormal (sample_result t))"
    using sample_file_loads [OF assms] by (simp add: loadConfigFile_inputs)
  have "load_config_mode (loadConfigFile (sample_file t)) (sample_inputs d) (with_inputs (sample_inputs d) d LogNormal Defaults) ''easysftp.yml'' =
      Inr (sample_cfg_in d t)"
    by (simp add: load_config_mode_def sample_env_inputs f Let_def sample_uploads_kept sample_cfg_in_def)
  then show ?thesis
    using sample_valid [of d t]
    by (cases d)
      (simp_all add: Load_config_def load_with_def sample_env_inputs trim_samples resolveLogLevel_def input_result_def Let_def
        sample_with_inputs sample_blank)
qed


section \<open>The properties of loading at this file\<close>

lemma sample_60: "Load_config (sample_file 60) (sample_inputs d) = Inr (sample_cfg_in d 60)"
proof -
  have "i64 (60 * second_ns) = 60000000000" by (simp add: i64_def second_ns_def signed_take_bit_int_eq_self_iff)
  then show ?thesis using sample_load [of 60] by simp
qed

lemma load_well_formed_witness: "well_formed (sample_cfg 60)"
  by (rule load_well_formed [OF sample_60 [of False]])

lemma modes_never_mix_witness:
  "inline_set sample_env = [] \<and> (\<exists>f. file_means (sample_file 60) ''easysftp.yml'' f \<and>
     cUploads f = cUploads (sample_cfg 60))"
proof -
  have p: "cConfigPath (sample_cfg 60) = ''easysftp.yml''" by (simp add: sample_cfg_in_def)
  have "''easysftp.yml'' \<noteq> ([] :: string)" by simp
  from modes_never_mix [OF sample_60 [of False], unfolded p if_not_P [OF this]]
  show ?thesis
  proof (elim conjE exE)
    fix f
    assume "inline_set sample_env = []" "file_means (sample_file 60) ''easysftp.yml'' f"
      and c: "sample_cfg 60 = (with_inputs sample_env (cDryRun (sample_cfg 60)) (cLogLevel (sample_cfg 60)) f)
       \<lparr>cConfigPath := ''easysftp.yml'', cProxy := map_option (with_proxy_credentials sample_env) (cProxy f)\<rparr>"
    moreover have "cUploads f = cUploads (sample_cfg 60)"
      using arg_cong [OF c, of cUploads] by simp
    ultimately show ?thesis by blast
  qed
qed

lemma sync_manifests_never_shared_witness:
  "manifest_at (sample_cfg 60) (sample_uploads ! 0) \<noteq> manifest_at (sample_cfg 60) (sample_uploads ! 1)"
proof -
  have g: "checkRemoteRoot ''/var/www'' = None" "checkRemoteRoot ''/var/docs'' = None" by code_simp+
  show ?thesis
    using sync_manifests_never_shared [OF sample_60 [of False], of 0 1, unfolded sample_uploads_kept] g
    by (simp add: sample_uploads_def effectiveStrategy_def)
qed

end
