(* ===== verification/Program.thy ===== *)
theory Program
  imports Report Config_Sample
begin

text \<open>
  The program from its environment to its exit status: \<open>main\<close> with the loaded configuration, the run
  and the report put together. The properties hold of the whole command, their hypotheses about the
  configuration discharged by what loading establishes: where its destructive requests go, what a dry
  run leaves alone, how much it may delete, and that it comes back with outputs that say what it did.
\<close>

section \<open>The command with its run\<close>

text \<open>The texts of errors the model keeps as values, the lines a run logs, and the times it took.\<close>

record ('w, 'b) reporting =
  say_load :: "config_error \<Rightarrow> string"
  say_scan :: "scan_error \<Rightarrow> string"
  run_log :: "('w, 'b) run_result \<Rightarrow> string"
  run_time :: "('w, 'b) run_result \<Rightarrow> int"
  row_time :: "('w, 'b) run_result \<Rightarrow> nat \<Rightarrow> int"

definition run_error_text :: "('w, 'b) reporting \<Rightarrow> run_error \<Rightarrow> string" where
  "run_error_text rp e = (case e of ScanFailed s \<Rightarrow> say_scan rp s | RunFailed g \<Rightarrow> err_text g)"

definition totals_of :: "('w, 'b) reporting \<Rightarrow> ('w, 'b) run_result \<Rightarrow> run_totals" where
  "totals_of rp res =
     \<lparr>rt_stats = rr_stats res, rt_duration = run_time rp res,
      rt_rows = map (\<lambda>i. (rr_rows res ! i, row_time rp res i)) [0..<length (rr_rows res)]\<rparr>"

definition deploy_step ::
    "('c, 'w, 'b) outside \<Rightarrow> ('w, 'b) reporting \<Rightarrow> Config \<Rightarrow> runner \<Rightarrow> 'w \<times> 'b file_read
       \<Rightarrow> ((run_totals \<times> string option) \<times> runner \<times> 'w \<times> 'b file_read) option" where
  "deploy_step ou rp cfg r x =
     map_option (\<lambda>res. ((totals_of rp res, map_option (run_error_text rp) (rr_error res)),
         r\<lparr>log_text := log_text r @ run_log rp res\<rparr>, (rr_world res, rr_cache res)))
       (Run ou cfg (fst x))"

definition program ::
    "('c, 'w, 'b) outside \<Rightarrow> ('w, 'b) reporting \<Rightarrow> file_env \<Rightarrow> environment \<Rightarrow> string list
       \<Rightarrow> build_info option \<Rightarrow> string \<Rightarrow> runner \<Rightarrow> 'w \<Rightarrow> (int \<times> runner \<times> 'w \<times> 'b file_read) option" where
  "program ou rp fe env args info version r w =
     main_command args info version
       (case Load_config fe env of Inl e \<Rightarrow> Inl (say_load rp e) | Inr c \<Rightarrow> Inr c)
       (deploy_step ou rp) r (w, out_cache ou)"

section \<open>How it ends\<close>

lemma program_cases [consumes 1, case_names helped unloaded ran]:
  assumes "program ou rp fe env args info version r w = Some (code, r', w', f)"
  obtains "helpRequested args" "code = 0" "w' = w"
    | e where "\<not> helpRequested args" "Load_config fe env = Inl e" "code = 1" "w' = w"
    | c res r1 r2 where "\<not> helpRequested args" "Load_config fe env = Inr c" "Run ou c w = Some res"
      "w' = rr_world res" "f = rr_cache res" "code = (if rr_error res = None then 0 else 1)"
      "reportStats c (totals_of rp res) (if cDryRun c then ''would upload (dry-run)'' else ''uploaded'')
         (rr_error res \<noteq> None) r1 = Some r2"
      "r' = (case rr_error res of None \<Rightarrow> r2 | Some e \<Rightarrow> Errorf (run_error_text rp e) r2)"
      "out_file r1 = out_file r" "out_fail r1 = out_fail r" "draws r1 = draws r"
proof (cases "helpRequested args")
  case True
  with assms that(1) show ?thesis by (simp add: program_def main_command_def)
next
  case False
  show ?thesis
  proof (cases "Load_config fe env")
    case (Inl e)
    with assms False that(2) show ?thesis
      by (simp add: program_def main_command_def run_command_def Let_def)
  next
    case (Inr c)
    obtain res where res: "Run ou c w = Some res"
      using assms False Inr
      by (cases "Run ou c w") (simp_all add: program_def main_command_def run_command_def deploy_step_def Let_def)
    let ?mode = "if cDryRun c then ''would upload (dry-run)'' else ''uploaded''"
    let ?r0 = "(logBuildInfo info version r)\<lparr>log_text := log_text (logBuildInfo info version r) @ run_log rp res\<rparr>"
    define r1 where "r1 = (if rr_error res = None then Infof (done_line ?mode (totals_of rp res)) ?r0 else ?r0)"
    obtain r2 where r2: "reportStats c (totals_of rp res) ?mode (rr_error res \<noteq> None) r1 = Some r2"
      "r' = (case rr_error res of None \<Rightarrow> r2 | Some e \<Rightarrow> Errorf (run_error_text rp e) r2)"
      "w' = rr_world res" "f = rr_cache res" "code = (if rr_error res = None then 0 else 1)"
      using assms False Inr res
      by (cases "rr_error res")
        (auto simp: program_def main_command_def run_command_def deploy_step_def Let_def r1_def map_option_eq_Some
          split: option.splits)
    have "out_file r1 = out_file r" "out_fail r1 = out_fail r" "draws r1 = draws r"
      by (simp_all add: r1_def logBuildInfo_def Infof_def println_def Let_def)
    with that(3) [OF False Inr res r2(3-5,1,2)] show ?thesis by blast
  qed
qed

section \<open>The parts of a run\<close>

lemma scanned_plan:
  "scan_plans cfg lines local ps = Inr plans \<Longrightarrow> p \<in> set plans \<Longrightarrow>
     \<exists>q opts. q \<in> set ps \<and> compileGitignore (lines @ Ignore q) = Inr (matcher opts) \<and>
       buildPlan q (effectiveStrategy q) opts (fst (local q)) (snd (local q)) = Inr p"
proof (induction ps arbitrary: plans)
  case (Cons q qs)
  obtain pats pl pls where c: "compileGitignore (lines @ Ignore q) = Inr pats"
    "buildPlan q (effectiveStrategy q) (plan_options cfg (lines @ Ignore q) pats) (fst (local q)) (snd (local q)) = Inr pl"
    "scan_plans cfg lines local qs = Inr pls" "plans = pl # pls"
    using Cons.prems(1) by (auto simp: Let_def split: sum.splits)
  have "matcher (plan_options cfg (lines @ Ignore q) pats) = pats" by (simp add: plan_options_def)
  with c Cons.IH [OF c(3)] Cons.prems(2) show ?case by (metis list.set_intros set_ConsD)
qed simp

text \<open>What one deployment may ask for, by what its local path is.\<close>

fun deployment_request :: "string list \<Rightarrow> root_stat \<Rightarrow> uploadPair \<Rightarrow> request \<Rightarrow> bool" where
  "deployment_request lines (RootError e) q r = False"
| "deployment_request lines (RootFile fi) q r = file_request lines q r"
| "deployment_request lines (RootTree rerr cs) q r = request_inside (NormalizeRemote (Remote q)) r"

text \<open>
  Local names as a file system gives them: no name in a tree is empty, a dot name or has a slash, and
  what is a single file is named by its path.
\<close>

fun local_named :: "root_stat \<Rightarrow> uploadPair \<Rightarrow> bool" where
  "local_named (RootError e) q = True"
| "local_named (RootFile fi) q = plain_name (path_base (Local q))"
| "local_named (RootTree rerr cs) q = names_ok (Dir rerr cs)"

lemma loaded_manifest: "well_formed c \<Longrightarrow> plain_name (syncManifestName (run_config c))"
  using default_manifest_bare
  by (auto simp: well_formed_def manifest_bare_def syncManifestName_def run_config_def Let_def DefaultManifestName_def)

context guarded_env
begin

lemma Run_keeps:
  assumes "Run ou c w = Some res" "out_env ou = env" "P w" "well_formed c"
    and "\<forall>q \<in> set (cUploads c). local_named (fst (out_local ou q)) q"
    and ok: "\<And>q r. \<not> cDryRun c \<Longrightarrow> q \<in> set (cUploads c) \<Longrightarrow>
      deployment_request (cIgnoreLines c) (fst (out_local ou q)) q r \<Longrightarrow> allowed r"
  shows "P (rr_world res)"
  using assms(1)
proof (cases rule: Run_cases)
  case (unscanned e)
  with assms(3) show ?thesis by (simp add: unsaved_def)
next
  case (unconnected plans e n w1)
  with newSession_keeps [OF assms(3)] assms(2) show ?thesis by (simp add: unsaved_def)
next
  case (deployed plans n s w1 t e stats b st)
  have w1: "P w1" using newSession_keeps [OF assms(3)] deployed(2) assms(2) by simp
  have dry: "DryRun (run_config c) = cDryRun c" by (simp add: run_config_def Let_def)
  have "P (snd (snd (snd (stats, b, st))))"
  proof (rule run_plans_invariant [where I = "\<lambda>pg. P (snd (snd (snd pg)))" and qs = "set plans",
        OF _ _ deployed(3) [unfolded assms(2)]])
    fix p pg e pg'
    assume p: "p \<in> set plans" "P (snd (snd (snd pg)))"
      and x: "executePlan ((out_params ou)\<lparr>pr_policy := settings_for t\<rparr>) (run_config c) env (cStallTimeout c > 0) p pg = Some (e, pg')"
    obtain q opts where q: "q \<in> set (cUploads c)" "compileGitignore (cIgnoreLines c @ Ignore q) = Inr (matcher opts)"
      "buildPlan q (effectiveStrategy q) opts (fst (out_local ou q)) (snd (out_local ou q)) = Inr p"
      using scanned_plan [OF deployed(1) p(1)] by blast
    have named: "local_named (fst (out_local ou q)) q" using assms(5) q(1) by blast
    show "P (snd (snd (snd pg')))"
    proof (cases "fst (out_local ou q)")
      case (RootError er)
      with q(3) show ?thesis by (simp add: buildPlan_def Let_def)
    next
      case (RootFile fi)
      show ?thesis
        by (rule file_plan_keeps [OF p(2) q(3) [unfolded RootFile] q(2) _ _ x], use named RootFile in simp, rule ok [OF _ q(1)])
          (simp_all add: RootFile dry)
    next
      case (RootTree rerr cs)
      note bp = buildPlan_planned [OF q(3) [unfolded RootTree] named [unfolded RootTree local_named.simps]]
      have d: "deployable (run_config c) (NormalizeRemote (Remote q))"
        using loaded_manifest [OF assms(4)] by (simp add: deployable_def)
      have fs: "\<forall>f \<in> set (plan_files p). inside (NormalizeRemote (Remote q)) (remotePath f)"
        using bp(1) planned_inside norm_not_Nil by blast
      show ?thesis
        by (rule executePlan_keeps [OF p(2) d _ fs bp(2) _ x], simp add: bp(3), rule ok [OF _ q(1)])
          (simp_all add: RootTree dry)
    qed
  qed (use w1 in simp_all)
  with deployed(6) show ?thesis by simp
qed

end

section \<open>What the whole program guarantees\<close>

text \<open>
  Property C3. Whatever the inputs and the file say, the working directory as a target included, and
  whatever the server, its listings and its manifests answer: every removal, truncation and rename the
  program asks for belongs to one of the configured deployments. For a directory it names paths
  strictly below that deployment's target; for a single file it is one of the names of its upload or a
  temporary of this program, other than the target, in the target's own directory (for a file the
  ignore patterns exclude, a temporary right below the configured path). Local names are as a file
  system gives them: no empty or dot names and no slashes in a name.
\<close>

theorem program_stays_inside:
  assumes "program ou rp fe env args info version r (w, []) = Some (code, r', (w', asked), f)"
    and "out_env ou = traced server" "Load_config fe env = Inr c" "\<forall>q \<in> set (cUploads c). local_named (fst (out_local ou q)) q"
  shows "\<forall>x \<in> set asked. \<exists>q \<in> set (cUploads c). deployment_request (cIgnoreLines c) (fst (out_local ou q)) q x"
  using assms(1)
proof (cases rule: program_cases)
  case (ran c' res r1 r2)
  then have c: "c' = c" using assms(3) by simp
  have "all_noted (\<lambda>x. \<exists>q \<in> set (cUploads c). deployment_request (cIgnoreLines c) (fst (out_local ou q)) q x) (rr_world res)"
    by (rule tr.Run_keeps [OF ran(3) [unfolded c] assms(2) _ loaded_well_formed [OF assms(3)] assms(4)])
      (auto simp: all_noted_def)
  moreover have "snd (rr_world res) = asked" using ran(4) by (metis snd_conv)
  ultimately show ?thesis by (simp add: all_noted_def)
qed (use assms(3) in simp_all)

text \<open>
  Property C5. With \<open>dry-run\<close> set in the loaded configuration the whole program asks the server for no
  removal, truncation or rename, in whatever mode the deployments are, whatever their targets and
  whatever happens. Local names are as a file system gives them.
\<close>

theorem program_dry_run_is_silent:
  assumes "program ou rp fe env args info version r (w, []) = Some (code, r', (w', asked), f)"
    and "out_env ou = traced server" "Load_config fe env = Inr c" "\<forall>q \<in> set (cUploads c). local_named (fst (out_local ou q)) q"
    and "cDryRun c"
  shows "asked = []"
  using assms(1)
proof (cases rule: program_cases)
  case (ran c' res r1 r2)
  then have c: "c' = c" using assms(3) by simp
  have "all_noted (\<lambda>x. False) (rr_world res)"
    by (rule tr.Run_keeps [OF ran(3) [unfolded c] assms(2) _ loaded_well_formed [OF assms(3)] assms(4)])
      (use assms(5) in \<open>auto simp: all_noted_def\<close>)
  moreover have "snd (rr_world res) = asked" using ran(4) by (metis snd_conv)
  ultimately show ?thesis by (simp add: all_noted_def)
qed (use assms(3) in simp_all)

lemma run_within_limit:
  assumes "\<And>l n w. valid_schedule l n (schedule (out_env ou) l n w)" "Run ou c w = Some res"
    and "\<not> cDryRun c" "0 < cMaxDeletes c"
  shows "int (FilesDeleted (rr_stats res) + DirsDeleted (rr_stats res)) \<le> cMaxDeletes c"
  using assms(2)
proof (cases rule: Run_cases)
  case (deployed plans n s w1 t e stats b st)
  have d: "MaxDeletes (run_config c) = cMaxDeletes c" "DryRun (run_config c) = cDryRun c"
    by (simp_all add: run_config_def Let_def)
  with run_within_max_deletes [OF assms(1), where cfg = "run_config c"] deployed(3,5) assms(3,4) show ?thesis by simp
qed (use assms(4) in \<open>simp_all add: unsaved_def zero_stats_def\<close>)

text \<open>
  Property C4. \<open>safety.max_deletes\<close> holds for the whole program when it is not a dry run: whatever the
  deployments are and however the run ends, the files and directories it reports as removed number at
  most the positive limit that was loaded. (A dry run removes nothing, and the directories it says it
  would clear are not charged to the limit.)
\<close>

theorem program_within_max_deletes:
  assumes "\<And>l n w. valid_schedule l n (schedule (out_env ou) l n w)"
    and "program ou rp fe env args info version r w = Some (code, r', w', f)"
    and "\<not> helpRequested args" "Load_config fe env = Inr c" "\<not> cDryRun c" "0 < cMaxDeletes c"
  shows "\<exists>res. Run ou c w = Some res \<and> w' = rr_world res \<and>
    int (FilesDeleted (rr_stats res) + DirsDeleted (rr_stats res)) \<le> cMaxDeletes c"
  using assms(2)
proof (cases rule: program_cases)
  case (ran c' res r1 r2)
  then have c: "c' = c" using assms(4) by simp
  from run_within_limit [OF assms(1) ran(3) [unfolded c] assms(5,6)] ran(3,4) c show ?thesis by blast
qed (use assms(3,4) in simp_all)

section \<open>It comes back and says what it did\<close>

lemma executePlan_returns: "executePlan pr cfg env watch p pg = None \<Longrightarrow> strat p = Clean"
  by (auto simp: executePlan_def executeOverlayOrClean_def Let_def split: prod.splits if_splits)

lemma run_plans_returns:
  "run_plans pr cfg env watch ps rows pg = None \<Longrightarrow> \<exists>p \<in> set ps. strat p = Clean"
proof (induction ps arbitrary: rows pg)
  case (Cons p ps)
  show ?case
  proof (cases "executePlan pr cfg env watch p pg")
    case None
    with executePlan_returns [OF None] show ?thesis by simp
  next
    case (Some x)
    obtain e pg1 where "x = (e, pg1)" by (cases x)
    with Some Cons.prems Cons.IH [of "rows @ [deployment_stats p (fst pg) (fst pg1)]" pg1] show ?thesis
      by (auto simp: Let_def split: option.splits)
  qed
qed simp

lemma buildPlan_strat: "buildPlan q st opts rt wr = Inr p \<Longrightarrow> strat p = st"
  by (auto simp: buildPlan_def Let_def empty_plan_def split: root_stat.splits if_splits sum.splits prod.splits)

lemma resolveRunWide_returns: "resolveRunWide w t \<noteq> None"
  by (rule Plan_cases [of w "tlink t" "pins t"]) (simp add: resolveRunWide_def)

lemma Run_returns:
  assumes "\<forall>q \<in> set (cUploads c). effectiveStrategy q \<noteq> Clean"
  shows "Run ou c w \<noteq> None"
proof (cases "scan_plans (run_config c) (cIgnoreLines c) (out_local ou) (cUploads c)")
  case (Inr plans)
  have "\<forall>p \<in> set plans. strat p \<noteq> Clean"
    using scanned_plan [OF Inr] buildPlan_strat assms by metis
  then have returns: "run_plans pr' cfg' (out_env ou) watch plans rows pg \<noteq> None" for pr' cfg' watch rows pg
    using run_plans_returns by blast
  obtain s t where "resolveRunWide (runWorkload plans) (newTuning (transport_of c)) = Some (s, t)"
    using resolveRunWide_returns by fast
  moreover have "connected_run ou c plans t' k st \<noteq> None" for t' k st
    using returns by (simp add: connected_run_def tuned_run_def del: not_None_eq split: prod.split)
  ultimately show ?thesis
    using Inr by (simp add: Run_def Let_def del: not_None_eq split: prod.split sum.split)
qed (simp add: Run_def)

lemma program_reports:
  assumes "\<not> helpRequested args" "Load_config fe env = Inr c" "Run ou c w = Some res"
    and "writes_outputs r" "out_file r = Some []" "counters64 (totals_of rp res)"
  shows "\<exists>code r' out. program ou rp fe env args info version r w = Some (code, r', rr_world res, rr_cache res) \<and>
    out_file r' = Some out \<and> outputs_of out = Some (run_outputs (totals_of rp res)) \<and>
    (code = 0 \<longleftrightarrow> rr_error res = None)"
proof -
  let ?mode = "if cDryRun c then ''would upload (dry-run)'' else ''uploaded''"
  let ?r0 = "(logBuildInfo info version r)\<lparr>log_text := log_text (logBuildInfo info version r) @ run_log rp res\<rparr>"
  define r1 where "r1 = (if rr_error res = None then Infof (done_line ?mode (totals_of rp res)) ?r0 else ?r0)"
  have r1: "writes_outputs r1" "out_file r1 = Some []"
    using assms(4,5) by (simp_all add: r1_def logBuildInfo_def Infof_def println_def Let_def writes_outputs_def)
  obtain r2 out where r2: "reportStats c (totals_of rp res) ?mode (rr_error res \<noteq> None) r1 = Some r2"
    "out_file r2 = Some out" "outputs_of out = Some (run_outputs (totals_of rp res))"
    using outputs_read_back [OF r1 assms(6)] by blast
  show ?thesis
  proof (cases "rr_error res")
    case None
    have "program ou rp fe env args info version r w = Some (0, r2, rr_world res, rr_cache res)"
      using r2(1) assms(1-3) None
      by (simp add: program_def main_command_def run_command_def deploy_step_def Let_def r1_def)
    with r2 None show ?thesis by blast
  next
    case (Some e)
    have "program ou rp fe env args info version r w =
        Some (1, Errorf (run_error_text rp e) r2, rr_world res, rr_cache res)"
      using r2(1) assms(1-3) Some
      by (simp add: program_def main_command_def run_command_def deploy_step_def Let_def r1_def)
    with r2 Some show ?thesis by (fastforce simp: Errorf_def println_def)
  qed
qed

text \<open>
  Property C34. A program that is not asked for help and whose deployments do not clean always comes
  back, and when its counters are 64-bit integers the step outputs then read back as exactly the
  numbers of its run, whatever was drawn for their delimiters; the exit status is zero just when the
  run had no error.
\<close>

theorem program_comes_back:
  assumes "\<not> helpRequested args" "Load_config fe env = Inr c" "\<forall>q \<in> set (cUploads c). effectiveStrategy q \<noteq> Clean"
    and "writes_outputs r" "out_file r = Some []"
  shows "\<exists>res. Run ou c w = Some res \<and>
    (counters64 (totals_of rp res) \<longrightarrow>
      (\<exists>code r' out. program ou rp fe env args info version r w = Some (code, r', rr_world res, rr_cache res) \<and>
         out_file r' = Some out \<and> outputs_of out = Some (run_outputs (totals_of rp res)) \<and>
         (code = 0 \<longleftrightarrow> rr_error res = None)))"
proof -
  obtain res where res: "Run ou c w = Some res" using Run_returns [OF assms(3)] by fast
  with program_reports [OF assms(1,2) res assms(4,5)] show ?thesis by blast
qed

end
