(* ===== verification/Program_Sample.thy ===== *)
theory Program_Sample
  imports Program
begin

text \<open>
  The whole program on a concrete project: the configuration file of \<open>Config_Sample\<close>, a local tree of
  one file, and a server whose manifest names a file the project no longer has. One run deploys it,
  one is dry; the properties of \<open>Program\<close> are applied to both.
\<close>

section \<open>The project and its server\<close>

text \<open>The first deployment uploads one file and removes a stale one; the second has nothing to upload.\<close>

definition site_local :: "uploadPair \<Rightarrow> root_stat \<times> string" where
  "site_local p = (RootTree None (if Name p = ''docs'' then [] else sample_entries), Local p)"

definition site_server :: "(unit, ram) remote" where
  "site_server = ram_env [(''dist/a'', ''abc'')] True"

definition site_outside :: "(unit, ram \<times> request list, unit) outside" where
  "site_outside =
     \<lparr>out_env = traced site_server, out_params = sample_params, out_local = site_local,
      out_link = (\<lambda>_. (5, [], 0)), out_events = (\<lambda>_. []), out_sha256 = (\<lambda>_. []), out_decode = (\<lambda>_. None),
      out_encode = (\<lambda>_. []), out_lock_ok = (\<lambda>_. True), out_write_ok = (\<lambda>_. True), out_cache = ReadMissing,
      out_cache_then = (\<lambda>_. ReadMissing)\<rparr>"

definition site_world :: ram where
  "site_world = \<lparr>disk = [(''/var/www/.easysftp-manifest.json'', ''old''), (''/var/www/old'', ''x'')], script = []\<rparr>"

definition site_report :: "(ram \<times> request list, unit) reporting" where
  "site_report = \<lparr>say_load = (\<lambda>_. ''bad configuration''), say_scan = (\<lambda>_. ''bad tree''), run_log = (\<lambda>_. []),
     run_time = (\<lambda>_. 4500000000), row_time = (\<lambda>_ _. 2000000000)\<rparr>"

text \<open>The run with the loaded configuration, dry or not.\<close>

definition site_run :: "bool \<Rightarrow> (ram \<times> request list, unit) run_result option" where
  "site_run dry = Run site_outside (sample_cfg_in dry 60) (site_world, [])"

definition site_stats :: Stats where
  "site_stats = \<lparr>FilesUploaded = 1, FilesDeleted = 1, DirsDeleted = 0, FilesSkipped = 0, BytesUploaded = 3\<rparr>"

lemma site_deployed:
  "case site_run False of None \<Rightarrow> False
   | Some res \<Rightarrow> rr_error res = None \<and> rr_stats res = site_stats \<and> RemoveReq ''/var/www/old'' \<in> set (snd (rr_world res))"
  by code_simp

lemma site_dry:
  "case site_run True of None \<Rightarrow> False | Some res \<Rightarrow> rr_error res = None \<and> rr_stats res = site_stats"
  by code_simp

lemma site_result:
  obtains res where "Run site_outside (sample_cfg_in d 60) (site_world, []) = Some res" "rr_error res = None"
    "rr_stats res = site_stats" "d \<or> RemoveReq ''/var/www/old'' \<in> set (snd (rr_world res))"
proof (cases d)
  case True
  with site_dry that show ?thesis by (simp add: site_run_def split: option.splits)
next
  case False
  with site_deployed that show ?thesis by (auto simp add: site_run_def split: option.splits)
qed

section \<open>The hypotheses of the properties\<close>

lemma site_runner: "writes_outputs sample_runner" "out_file sample_runner = Some []"
  by (simp_all add: writes_outputs_def sample_runner_def)

lemma site_not_help: "\<not> helpRequested [''easysftp'']"
  by code_simp

lemma site_named: "\<forall>q \<in> set (cUploads (sample_cfg_in d 60)). local_named (fst (out_local site_outside q)) q"
proof -
  have "names_ok (Dir None sample_entries)" "names_ok (Dir None [])" by code_simp+
  then show ?thesis
    by (simp add: sample_uploads_kept sample_uploads_def site_outside_def site_local_def)
qed

lemma site_config: "cDryRun (sample_cfg_in d 60) = d" "cMaxDeletes (sample_cfg_in d 60) = 5"
    "\<forall>q \<in> set (cUploads (sample_cfg_in d 60)). effectiveStrategy q \<noteq> Clean"
  by (simp_all add: sample_cfg_in_def sample_with_inputs sample_result_def sample_connected_def sample_uploads_def
      Defaults_def effectiveStrategy_def)

lemma site_counters: "rr_stats res = site_stats \<Longrightarrow> counters64 (totals_of site_report res)"
  by (simp add: counters64_def totals_of_def site_stats_def site_report_def int64_def)

text \<open>The program on this project: it ends well, in the world its run left.\<close>

definition site_program :: "bool \<Rightarrow> (int \<times> runner \<times> (ram \<times> request list) \<times> unit file_read) option" where
  "site_program d = program site_outside site_report (sample_file 60) (sample_inputs d) [''easysftp''] None ''1.0''
     sample_runner (site_world, [])"

lemma site_program_runs:
  obtains r' w asked f where "site_program d = Some (0, r', (w, asked), f)"
    "d \<or> RemoveReq ''/var/www/old'' \<in> set asked"
proof -
  obtain res where res: "Run site_outside (sample_cfg_in d 60) (site_world, []) = Some res" "rr_error res = None"
    "rr_stats res = site_stats" "d \<or> RemoveReq ''/var/www/old'' \<in> set (snd (rr_world res))" by (rule site_result [of d])
  from program_reports [OF site_not_help sample_60 res(1) site_runner site_counters [OF res(3)], where info = None
      and version = "''1.0''"]
  obtain r' where "site_program d = Some (0, r', rr_world res, rr_cache res)"
    unfolding site_program_def using res(2) by (elim exE conjE) simp
  with that [of r' "fst (rr_world res)" "snd (rr_world res)"] res(4) show ?thesis by simp
qed

section \<open>The properties at this project\<close>

theorem program_stays_inside_witness:
  "\<exists>r' w asked f. site_program False = Some (0, r', (w, asked), f) \<and> RemoveReq ''/var/www/old'' \<in> set asked \<and>
     (\<forall>x \<in> set asked. \<exists>q \<in> set sample_uploads. deployment_request (cIgnoreLines (sample_cfg 60)) (fst (site_local q)) q x)"
proof -
  obtain r' w asked f where p: "site_program False = Some (0, r', (w, asked), f)" "RemoveReq ''/var/www/old'' \<in> set asked"
    by (rule site_program_runs [where d = False]) simp
  have "out_env site_outside = traced site_server" "out_local site_outside = site_local" by (simp_all add: site_outside_def)
  with program_stays_inside [OF p(1) [unfolded site_program_def] _ sample_60 site_named] p show ?thesis
    by (simp add: sample_uploads_kept)
qed

theorem program_dry_run_is_silent_witness:
  "\<exists>r' w f. site_program True = Some (0, r', (w, []), f)"
proof -
  obtain r' w asked f where p: "site_program True = Some (0, r', (w, asked), f)" by (rule site_program_runs)
  have "out_env site_outside = traced site_server" by (simp add: site_outside_def)
  with program_dry_run_is_silent [OF p [unfolded site_program_def] _ sample_60 site_named] p show ?thesis
    by (simp add: site_config)
qed

theorem program_within_max_deletes_witness:
  "\<exists>res. Run site_outside (sample_cfg 60) (site_world, []) = Some res \<and> FilesDeleted (rr_stats res) = 1 \<and>
     int (FilesDeleted (rr_stats res) + DirsDeleted (rr_stats res)) \<le> 5"
proof -
  obtain r' w asked f where p: "site_program False = Some (0, r', (w, asked), f)" by (rule site_program_runs)
  obtain res where res: "Run site_outside (sample_cfg 60) (site_world, []) = Some res" "rr_stats res = site_stats"
    using site_result [of False] by blast
  have s: "valid_schedule l n (schedule (out_env site_outside) l n w)" for l n w
    by (simp add: site_outside_def site_server_def traced_def ram_schedule)
  from program_within_max_deletes [OF s p [unfolded site_program_def] site_not_help sample_60] res show ?thesis
    by (simp add: site_config site_stats_def)
qed

theorem program_comes_back_witness:
  "\<exists>code r' w f out. site_program False = Some (code, r', w, f) \<and> out_file r' = Some out \<and> outputs_of out = Some
     [(''files-uploaded'', ''1''), (''files-deleted'', ''1''), (''dirs-deleted'', ''0''), (''files-skipped'', ''0''),
      (''bytes-uploaded'', ''3''), (''duration-ms'', ''4500'')] \<and> code = 0"
proof -
  obtain res where res: "Run site_outside (sample_cfg 60) (site_world, []) = Some res" "rr_error res = None"
    "rr_stats res = site_stats" using site_result [of False] by blast
  have "run_outputs (totals_of site_report res) =
     [(''files-uploaded'', ''1''), (''files-deleted'', ''1''), (''dirs-deleted'', ''0''), (''files-skipped'', ''0''),
      (''bytes-uploaded'', ''3''), (''duration-ms'', ''4500'')]"
    by (simp add: run_outputs_def totals_of_def res(3) site_stats_def site_report_def decimal.simps int_text_def
        Go_Error.hex_digit_def millisecond_ns_def sdiv_pos)
  with program_comes_back [OF site_not_help sample_60 site_config(3) site_runner, where rp = site_report
      and ou = site_outside and w = "(site_world, [])" and info = None and version = "''1.0''"] res site_counters [OF res(3)]
  show ?thesis unfolding site_program_def by (smt (verit, best) option.inject)
qed

end
