(* ===== verification/Spec2Isabelle.thy ===== *)
theory Spec2Isabelle
  imports Cache_Lock Stall Connection Keepalive Unclean_Keys Program_Sample
begin

text \<open>
  easySFTP: a verification development for the deployment core of the program under \<open>src/\<close>.

  \<^bold>\<open>The program.\<close> easySFTP deploys a local directory to a server over SFTP. One run
  (\<open>Run\<close> in \<open>internal/uploader/uploader.go\<close>) plans every configured deployment from the local
  tree, opens a pool of connections, and carries the deployments out one after another. A deployment
  is an overlay (upload what is there), a clean (empty the target first) or a sync (compare with a
  manifest kept on the server, upload what changed, delete what disappeared). Around it a transport
  policy chooses connections, workers and request depth, a cache remembers what earlier runs measured,
  and a watchdog ends a run whose transfers stall. The command (\<open>cmd/easysftp\<close>) loads the
  configuration, hands it to \<open>Run\<close> and reports what came of it.

  \<^bold>\<open>How the theories correspond to the code.\<close> The definitions carry the names of the Go
  functions; a function too long for one definition is split at its own steps.

  \<^item> Prelude, Go_Path, Go_Error, Go_Float, Go_Duration: what the code uses of the Go library. Strings are byte
    lists; \<open>path\<close> is modelled in full; an error is a leaf with an identity and a text, wrapped in
    messages; an \<open>int64\<close> wraps by \<open>i64\<close>; a \<open>float64\<close> is an IEEE double, its finite values rationals,
    every operation rounded to nearest even.
  \<^item> Remote_Path: remote names (\<open>config.go\<close>, \<open>remote.go\<close>): normalisation, the guard on
    destructive roots, the two joins that confine server-supplied names, the directories of a plan.
  \<^item> Glob, Segments, Gitignore: exclude patterns (\<open>gitignore.go\<close>), against declarative languages.
  \<^item> Planner: the local walk and the hashing of a plan (\<open>planner.go\<close>).
  \<^item> Sftp_Env: the record \<open>remote\<close> of everything outside the repository, and the worker pool
    (\<open>parallel.go\<close>). Ram_Server: a concrete instance the examples run on.
  \<^item> Session: the connection pool, redials and the retried operation (\<open>session.go\<close>).
  \<^item> Delete_Budget, Deletion: \<open>safety.max_deletes\<close>, the delete sweep, directory removal and the
    listing of a clean target (\<open>remote.go\<close>, \<open>delete.go\<close>).
  \<^item> Publish, Uploads: one file's upload, its atomic publication and fallback, retries, stale
    temporaries and the upload phase (\<open>transfer.go\<close>, \<open>retry.go\<close>, \<open>remote.go\<close>).
  \<^item> Sync_Decide: the decisions of a sync (\<open>sync.go\<close>). Deploy: the three modes, the manifest on the
    server, the scan and the loop over the deployments (\<open>sync.go\<close>, \<open>uploader.go\<close>).
  \<^item> Guard, Confinement, Deploy_Guard, Deploy_Budget: what holds of a whole deployment or run.
  \<^item> Autotune, Controller (\<open>internal/autotune\<close>): the plan of the transport settings and the
    controller that revises it. Autocache, Cache_Lock (\<open>internal/autocache\<close>): the measurement cache
    and the lock around its file. Tuning (\<open>tuning.go\<close>, \<open>autocache.go\<close>): the run's side of both.
    Tuned_Run: the run (\<open>Run\<close>) from the scan and the first connection through the link, the cache and
    the deployments to the write-back of what it measured (\<open>uploader.go\<close>, \<open>session.go\<close>).
    Stall (\<open>stall.go\<close>, \<open>backoff.go\<close>): the watchdog and the backoff.
  \<^item> Storage, Plan_Names, Mirror: what a server that keeps its contract stores after each phase, the
    targets of a walked plan as names, and a whole sync against an abstract mirror of the local tree.
    Unclean_Keys: what that sync does with a manifest whose keys are spelled otherwise.
  \<^item> Go_Text, Suggest, Yaml_Keys, Configuration, Config_File, Config_Sample (\<open>internal/config\<close>): the
    text functions of the library, the nearest option name, the check of option names over the YAML
    node graph, the environment inputs with defaults and validation, the file and its application,
    and concrete configurations.
  \<^item> Host_Keys, Connection, Keepalive (\<open>hostkeys.go\<close>, \<open>connection.go\<close>): pins and the host key
    verifier, the dial directly or through a jump host with a ledger of what it opened, the answers to
    password prompts, and the keepalive loop.
  \<^item> Action_Output (\<open>internal/gha\<close>), Report (\<open>cmd/easysftp/main.go\<close>): the log commands, outputs and
    summary of a GitHub Actions step, and the command that writes them. Program, Program_Sample: the
    command over the loader and the run, from environment to exit status, and a concrete project.

  \<^bold>\<open>State and interaction.\<close> A phase takes the configuration, the \<open>remote\<close> record and a pair
  of a session and the abstract world, and returns the pair changed with its result. Errors are values.
  Concurrent phases run through \<open>runBounded\<close>: the environment's scheduler picks which items run and in
  which order, and the theorems hold for every such choice; the granularity is one item, and one
  session call is one step. Interfaces are locales, interpreted on the model: \<open>charge_account\<close> (the
  budget), \<open>confining_join\<close> (\<open>safeJoin\<close>, \<open>safeChild\<close>), \<open>quiet_env\<close> and \<open>guarded_env\<close> (what a
  phase may ask the server, interpreted on an environment that traces requests), \<open>storage\<close> (what a
  server stores after each request, interpreted on the concrete server), \<open>phase_controller\<close>
  (what the runtime controller promises the loop beside a transfer).

  \<^bold>\<open>What the lemmas show.\<close> The program: every destructive request it makes names paths
  strictly below a configured target, the working directory included (or is one file's own upload and
  the sweep of its directory), whatever the server or the manifest
  says; a dry run makes none; a real run's reported deletions stay within \<open>safety.max_deletes\<close>; without clean
  deployments it always comes back, with outputs that say what it did. Uploads: one attempt is atomic for the
  live file, a phase without error is complete. Sync: on a server that keeps
  its contract a successful sync is a mirror of the local tree and leaves a manifest that tells the
  truth; late deletions miss the plan for keys the program writes, the recovery manifest is exact. Patterns: the matchers decide their languages, the
  last line wins, pruning changes no plan. Session: the pool stays well formed, a refused dial is
  latched and its spread pulled back, and every handshake is an opened connection, the one refusal or
  a redial from the budget. Policy: planning always returns, in range and within the memory budget, rounding included;
  the controller refines a small abstract machine and settles after at most eight changes, a spread
  the policy chose stays within an inherited ceiling, and a pinned one is used as it is. Cache: a
  stored measurement never drifts, what is written is what is read, and the lock excludes while no
  lock file outlives its limit. Watchdog: it fires only on silence, and on silence it fires.
  Configuration: what loads is well formed, the two modes never mix, sync deployments never share a
  manifest, and the option check returns on every node graph and accepts what it should. Connecting:
  a connection that is made was verified or its check was waived, and one that fails leaves nothing
  open. Reporting: the rows of the table add up to the run's totals. Some
  theorems show behaviour that is not what the code's comments promise; they are properties of their
  own and listed as findings.

  \<^bold>\<open>Parameters.\<close> The SFTP client, the server, the dialer, the clock and the scheduler are
  the fields of \<open>remote\<close>. The JSON codecs, sha256, Unicode folding of one segment, the local file tree
  as \<open>os.Stat\<close> and \<open>WalkDir\<close> report it and random draws are arguments. A deployment by itself takes
  the chosen settings as one (\<open>pr_policy\<close>); \<open>Run\<close> fills it with \<open>settings_for\<close>, the policy on the
  state the run arrived at. The moves of the runtime controller between two files are the field
  \<open>moves\<close>; Tuned_Run shows that the controller's loop makes no others. So are the YAML decoder and its node graph, the files the
  configuration names, the algorithm lists and the handshake of \<open>x/crypto/ssh\<close> and its \<open>knownhosts\<close>. Where a theorem needs one of them to behave, the behaviour is a named
  hypothesis, and its witness instantiates it.

  \<^bold>\<open>Bounds and fuel.\<close> Listing a clean target recurses over what the server reports, which may
  never end; \<open>pr_fuel\<close> bounds the levels, running out is the value \<open>None\<close>, and the safety theorems
  hold for every fuel. The option check walks a graph with aliases, cyclic ones included; its depth
  bound is \<open>walk_depth\<close>, the number of nodes plus five, and a theorem shows that the walk never
  reaches it. Loops the wrap-around of \<open>int\<close> could keep going (\<open>quantize\<close>, the halving of
  the request depth) are partial functions, and that planning returns is a theorem; so is the redraw
  of an output's delimiter, where the theorem is that the first draw is taken. Every other
  recursion is structural or has its termination proved. A conversion of a float outside the integer
  range gives the least \<open>int64\<close>, as on amd64; the range theorems do not depend on it.

  \<^bold>\<open>Not modelled.\<close> File contents are opaque; warnings, log lines and metrics decide nothing
  and are left out. Within a session call the waits on another worker's dial do not appear. The
  bookkeeping of the tuning state during the deployments is a list of events, which the settings of a
  deployment do not read. The session takes a connect operation; Connection models the program's own
  one by itself, and Keepalive and Stall the loops beside a run. Windows junctions, the counters of
  \<open>internal/metrics\<close>, the link probe tool and the benchmark harness are outside the deployment core.
\<close>

end
